(* ===== verification/Prelude.thy ===== *)
theory Prelude
  imports Complex_Main "HOL-Library.Word"
begin

text \<open>
  Shared ground of the development: the C integer types of the 32-bit little-endian target
  (\<^verbatim>\<open>ramips_24kec\<close>, where \<^verbatim>\<open>char\<close> is signed and \<^verbatim>\<open>int\<close>, \<^verbatim>\<open>long\<close> and
  pointers have four bytes), the ways in which a C operation can go wrong as a datatype of
  errors, the result type in which the models of the handlers return, and the generic lemmas
  on lists and results that the component theories use.
\<close>

section \<open>Types\<close>

type_synonym u8 = "8 word"
type_synonym u16 = "16 word"
type_synonym u32 = "32 word"
type_synonym u64 = "64 word"

type_synonym mac = "u8 list"

text \<open>
  What a run of C code can do instead of returning: dereference NULL, touch freed memory, read
  or write outside an object, fail an \<^verbatim>\<open>assert\<close>, divide by zero, call \<^verbatim>\<open>memcpy\<close> with
  a negative length (converted to a huge \<^verbatim>\<open>size_t\<close>), leave the process with
  \<^verbatim>\<open>exit\<close>, or not return within the fuel of the model.
\<close>

datatype c_error =
    NullDeref
  | UseAfterFree
  | OutOfBounds
  | BufferOverflow
  | AssertFail
  | DivZero
  | NegativeSize
  | ExitProcess int
  | OutOfFuel

type_synonym 'a res = "c_error + 'a"

definition bind_res :: "'a res \<Rightarrow> ('a \<Rightarrow> 'b res) \<Rightarrow> 'b res" where
  "bind_res m f = (case m of Inl e \<Rightarrow> Inl e | Inr x \<Rightarrow> f x)"

definition is_ok :: "'a res \<Rightarrow> bool" where
  "is_ok m = (case m of Inl _ \<Rightarrow> False | Inr _ \<Rightarrow> True)"

text \<open>Narrowing conversions: a value stored into an \<^verbatim>\<open>int\<close> or a \<^verbatim>\<open>char\<close>.\<close>

definition to_int32 :: "int \<Rightarrow> int" where
  "to_int32 n = signed_take_bit 31 n"

definition to_schar :: "int \<Rightarrow> int" where
  "to_schar n = signed_take_bit 7 n"

text \<open>C division and remainder truncate towards zero.\<close>

definition c_div :: "int \<Rightarrow> int \<Rightarrow> int" where
  "c_div a b = sgn a * sgn b * (\<bar>a\<bar> div \<bar>b\<bar>)"

definition c_mod :: "int \<Rightarrow> int \<Rightarrow> int" where
  "c_mod a b = a - c_div a b * b"

section \<open>Rule collections\<close>

named_theorems buf_simps "lengths and contents of the message buffers"
named_theorems inv_intros "introduction rules for the component invariants"

section \<open>Results\<close>

lemma bind_res_simps [simp]:
  "bind_res (Inl e) f = Inl e"
  "bind_res (Inr x) f = f x"
  by (simp_all add: bind_res_def)

lemma bind_res_Inr_iff:
  "bind_res m f = Inr y \<longleftrightarrow> (\<exists>x. m = Inr x \<and> f x = Inr y)"
  by (cases m) auto

lemma is_ok_simps [simp]: "is_ok (Inr x)" "\<not> is_ok (Inl e)"
  by (simp_all add: is_ok_def)

section \<open>Integers\<close>

lemma to_int32_id: "- 2147483648 \<le> n \<Longrightarrow> n \<le> 2147483647 \<Longrightarrow> to_int32 n = n"
  unfolding to_int32_def by (rule signed_take_bit_int_eq_self) simp_all

lemma to_schar_id: "- 128 \<le> n \<Longrightarrow> n \<le> 127 \<Longrightarrow> to_schar n = n"
  unfolding to_schar_def by (rule signed_take_bit_int_eq_self) simp_all

lemma c_div_nonneg: "0 \<le> a \<Longrightarrow> 0 < b \<Longrightarrow> c_div a b = a div b"
  by (cases "a = 0") (simp_all add: c_div_def)

lemma c_mod_nonneg: "0 \<le> a \<Longrightarrow> 0 < b \<Longrightarrow> c_mod a b = a mod b"
  by (simp add: c_mod_def c_div_nonneg minus_div_mult_eq_mod)

section \<open>Lists\<close>

text \<open>Overwriting the cells \<open>i, i + 1, \<dots>\<close> of an array, as \<^verbatim>\<open>memcpy\<close> does.\<close>

definition mem_write :: "nat \<Rightarrow> 'a list \<Rightarrow> 'a list \<Rightarrow> 'a list" where
  "mem_write i xs buf = take i buf @ xs @ drop (i + length xs) buf"

lemma length_mem_write [simp]:
  "i + length xs \<le> length buf \<Longrightarrow> length (mem_write i xs buf) = length buf"
  by (simp add: mem_write_def)

lemma take_mem_write: "i \<le> length buf \<Longrightarrow> take i (mem_write i xs buf) = take i buf"
  by (simp add: mem_write_def)

lemma take_drop_mem_write:
  "i + length xs \<le> length buf \<Longrightarrow> take (length xs) (drop i (mem_write i xs buf)) = xs"
  by (simp add: mem_write_def)

lemma drop_mem_write:
  "i + length xs \<le> length buf \<Longrightarrow> drop i (mem_write i xs buf) = xs @ drop (i + length xs) buf"
  by (simp add: mem_write_def)

lemma sum_list_update_nat:
  "i < length xs \<Longrightarrow> sum_list (xs[i := (n::nat)]) + xs ! i = sum_list xs + n"
  by (induction xs arbitrary: i) (auto split: nat.splits)

lemma concat_update_mset:
  "i < length xss \<Longrightarrow> length (concat (xss[i := ys])) + length (xss ! i) = length (concat xss) + length ys"
  by (induction xss arbitrary: i) (auto split: nat.splits)

lemma distinct_concat_nth:
  "(\<forall>i < length xss. distinct (xss ! i)) \<Longrightarrow>
   (\<forall>j < length xss. \<forall>i < j. set (xss ! i) \<inter> set (xss ! j) = {}) \<Longrightarrow> distinct (concat xss)"
proof (induction xss)
  case (Cons xs xss)
  have "distinct (xss ! i)" if "i < length xss" for i
    using Cons.prems(1)[rule_format, of "Suc i"] that by simp
  moreover have "set (xss ! i) \<inter> set (xss ! j) = {}" if "j < length xss" "i < j" for i j
    using Cons.prems(2)[rule_format, of "Suc j" "Suc i"] that by simp
  ultimately have "distinct (concat xss)"
    using Cons.IH by simp
  moreover have "set xs \<inter> set (xss ! j) = {}" if "j < length xss" for j
    using Cons.prems(2)[rule_format, of "Suc j" 0] that by simp
  then have "set xs \<inter> set ys = {}" if "ys \<in> set xss" for ys
    using that by (auto simp: in_set_conv_nth)
  moreover have "distinct xs"
    using Cons.prems(1)[rule_format, of 0] by simp
  ultimately show ?case
    by fastforce
qed simp

end
