(* ===== verification/Murmur.thy ===== *)
theory Murmur
  imports Prelude
begin

unbundle bit_operations_syntax

text \<open>
  The MurmurHash3 functions of the collector client
  (\<^verbatim>\<open>data collector/InfoCollectClient_V1.1/src/murmur.c\<close>), on the bytes of the key. The
  target is little-endian, so \<^verbatim>\<open>getblock\<close> puts the byte at the lowest address into the
  lowest bits. A key is the list of its \<^verbatim>\<open>len\<close> bytes.
\<close>

section \<open>Rotation and finalisation\<close>

definition rotl32 :: "u32 \<Rightarrow> nat \<Rightarrow> u32" where
  "rotl32 x r = (push_bit r x) OR (drop_bit (32 - r) x)"

definition rotl64 :: "u64 \<Rightarrow> nat \<Rightarrow> u64" where
  "rotl64 x r = (push_bit r x) OR (drop_bit (64 - r) x)"

definition fmix32 :: "u32 \<Rightarrow> u32" where
  "fmix32 h =
     (let h = h XOR drop_bit 16 h;
          h = h * 0x85ebca6b;
          h = h XOR drop_bit 13 h;
          h = h * 0xc2b2ae35;
          h = h XOR drop_bit 16 h
      in h)"

definition fmix64 :: "u64 \<Rightarrow> u64" where
  "fmix64 k =
     (let k = k XOR drop_bit 33 k;
          k = k * 0xff51afd7ed558ccd;
          k = k XOR drop_bit 33 k;
          k = k * 0xc4ceb9fe1a85ec53;
          k = k XOR drop_bit 33 k
      in k)"

section \<open>Blocks and tails\<close>

text \<open>A byte of the key, widened; the shifts put it at its place in a block.\<close>

definition byte32 :: "u8 list \<Rightarrow> nat \<Rightarrow> nat \<Rightarrow> u32" where
  "byte32 data i s = push_bit s (ucast (data ! i))"

definition byte64 :: "u8 list \<Rightarrow> nat \<Rightarrow> nat \<Rightarrow> u64" where
  "byte64 data i s = push_bit s (ucast (data ! i))"

definition getblock32 :: "u8 list \<Rightarrow> nat \<Rightarrow> u32" where
  "getblock32 data j =
     byte32 data (4 * j) 0 OR byte32 data (4 * j + 1) 8 OR
     byte32 data (4 * j + 2) 16 OR byte32 data (4 * j + 3) 24"

definition getblock64 :: "u8 list \<Rightarrow> nat \<Rightarrow> u64" where
  "getblock64 data j =
     byte64 data (8 * j) 0 OR byte64 data (8 * j + 1) 8 OR
     byte64 data (8 * j + 2) 16 OR byte64 data (8 * j + 3) 24 OR
     byte64 data (8 * j + 4) 32 OR byte64 data (8 * j + 5) 40 OR
     byte64 data (8 * j + 6) 48 OR byte64 data (8 * j + 7) 56"

text \<open>
  The fall-through switch on \<^verbatim>\<open>len & 3\<close> or \<^verbatim>\<open>len & 15\<close> collects the bytes of the tail
  from \<open>from\<close> up to the case it enters at, each at its place.
\<close>

definition tail32 :: "u8 list \<Rightarrow> nat \<Rightarrow> nat \<Rightarrow> u32" where
  "tail32 tail from till = foldr (\<lambda>i k. k XOR byte32 tail i (8 * (i - from))) [from..<till] 0"

definition tail64 :: "u8 list \<Rightarrow> nat \<Rightarrow> nat \<Rightarrow> u64" where
  "tail64 tail from till = foldr (\<lambda>i k. k XOR byte64 tail i (8 * (i - from))) [from..<till] 0"

section \<open>The 32-bit hash\<close>

definition mix_k1_32 :: "u32 \<Rightarrow> u32" where
  "mix_k1_32 k1 = rotl32 (k1 * 0xcc9e2d51) 15 * 0x1b873593"

definition murmur_step32 :: "u32 \<Rightarrow> u32 \<Rightarrow> u32" where
  "murmur_step32 h1 k1 = rotl32 (h1 XOR mix_k1_32 k1) 13 * 5 + 0xe6546b64"

text \<open>
  The loop counts \<^verbatim>\<open>i\<close> from \<^verbatim>\<open>-nblocks\<close> up to 0 from a pointer behind the last block:
  the blocks in ascending order.
\<close>

definition murmur_body32 :: "u8 list \<Rightarrow> u32 \<Rightarrow> u32" where
  "murmur_body32 data seed =
     foldl murmur_step32 seed (map (getblock32 data) [0..<length data div 4])"

definition MurmurHash3_x86_32 :: "u8 list \<Rightarrow> u32 \<Rightarrow> u32" where
  "MurmurHash3_x86_32 data seed =
     (let h1 = murmur_body32 data seed;
          tail = drop (length data div 4 * 4) data;
          r = length data mod 4;
          h1 = (if 1 \<le> r then h1 XOR mix_k1_32 (tail32 tail 0 r) else h1);
          h1 = h1 XOR of_nat (length data)
      in fmix32 h1)"

section \<open>The 128-bit hashes\<close>

definition mix_x86_k1 :: "u32 \<Rightarrow> u32" where
  "mix_x86_k1 k = rotl32 (k * 0x239b961b) 15 * 0xab0e9789"

definition mix_x86_k2 :: "u32 \<Rightarrow> u32" where
  "mix_x86_k2 k = rotl32 (k * 0xab0e9789) 16 * 0x38b34ae5"

definition mix_x86_k3 :: "u32 \<Rightarrow> u32" where
  "mix_x86_k3 k = rotl32 (k * 0x38b34ae5) 17 * 0xa1e38b93"

definition mix_x86_k4 :: "u32 \<Rightarrow> u32" where
  "mix_x86_k4 k = rotl32 (k * 0xa1e38b93) 18 * 0x239b961b"

definition x86_128_step ::
  "u8 list \<Rightarrow> u32 \<times> u32 \<times> u32 \<times> u32 \<Rightarrow> nat \<Rightarrow> u32 \<times> u32 \<times> u32 \<times> u32" where
  "x86_128_step data h i =
     (let (h1, h2, h3, h4) = h;
          h1 = h1 XOR mix_x86_k1 (getblock32 data (i * 4));
          h1 = rotl32 h1 19 + h2;
          h1 = h1 * 5 + 0x561ccd1b;
          h2 = h2 XOR mix_x86_k2 (getblock32 data (i * 4 + 1));
          h2 = rotl32 h2 17 + h3;
          h2 = h2 * 5 + 0x0bcaa747;
          h3 = h3 XOR mix_x86_k3 (getblock32 data (i * 4 + 2));
          h3 = rotl32 h3 15 + h4;
          h3 = h3 * 5 + 0x96cd1c35;
          h4 = h4 XOR mix_x86_k4 (getblock32 data (i * 4 + 3));
          h4 = rotl32 h4 13 + h1;
          h4 = h4 * 5 + 0x32ac3b17
      in (h1, h2, h3, h4))"

definition x86_128_mixin :: "u32 \<times> u32 \<times> u32 \<times> u32 \<Rightarrow> u32 \<times> u32 \<times> u32 \<times> u32" where
  "x86_128_mixin h =
     (let (h1, h2, h3, h4) = h; h1 = h1 + h2; h1 = h1 + h3; h1 = h1 + h4
      in (h1, h2 + h1, h3 + h1, h4 + h1))"

definition MurmurHash3_x86_128 :: "u8 list \<Rightarrow> u32 \<Rightarrow> u32 list" where
  "MurmurHash3_x86_128 data seed =
     (let (h1, h2, h3, h4) =
            foldl (x86_128_step data) (seed, seed, seed, seed) [0..<length data div 16];
          tail = drop (length data div 16 * 16) data;
          r = length data mod 16;
          h4 = (if 13 \<le> r then h4 XOR mix_x86_k4 (tail32 tail 12 r) else h4);
          h3 = (if 9 \<le> r then h3 XOR mix_x86_k3 (tail32 tail 8 (min r 12)) else h3);
          h2 = (if 5 \<le> r then h2 XOR mix_x86_k2 (tail32 tail 4 (min r 8)) else h2);
          h1 = (if 1 \<le> r then h1 XOR mix_x86_k1 (tail32 tail 0 (min r 4)) else h1);
          n = of_nat (length data);
          (h1, h2, h3, h4) = x86_128_mixin (h1 XOR n, h2 XOR n, h3 XOR n, h4 XOR n);
          (h1, h2, h3, h4) = x86_128_mixin (fmix32 h1, fmix32 h2, fmix32 h3, fmix32 h4)
      in [h1, h2, h3, h4])"

definition mix_x64_k1 :: "u64 \<Rightarrow> u64" where
  "mix_x64_k1 k = rotl64 (k * 0x87c37b91114253d5) 31 * 0x4cf5ad432745937f"

definition mix_x64_k2 :: "u64 \<Rightarrow> u64" where
  "mix_x64_k2 k = rotl64 (k * 0x4cf5ad432745937f) 33 * 0x87c37b91114253d5"

definition x64_128_step :: "u8 list \<Rightarrow> u64 \<times> u64 \<Rightarrow> nat \<Rightarrow> u64 \<times> u64" where
  "x64_128_step data h i =
     (let (h1, h2) = h;
          h1 = h1 XOR mix_x64_k1 (getblock64 data (i * 2));
          h1 = rotl64 h1 27 + h2;
          h1 = h1 * 5 + 0x52dce729;
          h2 = h2 XOR mix_x64_k2 (getblock64 data (i * 2 + 1));
          h2 = rotl64 h2 31 + h1;
          h2 = h2 * 5 + 0x38495ab5
      in (h1, h2))"

definition x64_128_mixin :: "u64 \<times> u64 \<Rightarrow> u64 \<times> u64" where
  "x64_128_mixin h = (let (h1, h2) = h; h1 = h1 + h2 in (h1, h2 + h1))"

definition MurmurHash3_x64_128 :: "u8 list \<Rightarrow> u32 \<Rightarrow> u64 list" where
  "MurmurHash3_x64_128 data seed =
     (let (h1, h2) =
            foldl (x64_128_step data) (ucast seed, ucast seed) [0..<length data div 16];
          tail = drop (length data div 16 * 16) data;
          r = length data mod 16;
          h2 = (if 9 \<le> r then h2 XOR mix_x64_k2 (tail64 tail 8 r) else h2);
          h1 = (if 1 \<le> r then h1 XOR mix_x64_k1 (tail64 tail 0 (min r 8)) else h1);
          n = of_nat (length data);
          (h1, h2) = x64_128_mixin (h1 XOR n, h2 XOR n);
          (h1, h2) = x64_128_mixin (fmix64 h1, fmix64 h2)
      in [h1, h2])"

section \<open>Every mixing step is a permutation\<close>

lemma rotl32_word_rotl:
  assumes "0 < r" "r < 32"
  shows "rotl32 x r = word_rotl r x"
proof (rule bit_word_eqI)
  fix n assume "n < LENGTH(32)"
  then have n: "n < 32"
    by simp
  have m: "(n + (32 - r mod 32)) mod 32 = (if r \<le> n then n - r else n + (32 - r))"
    using assms n by (simp add: mod_if)
  show "bit (rotl32 x r) n = bit (word_rotl r x) n"
    using assms n m by (auto simp: rotl32_def bit_word_rotl_iff bit_simps add.commute[of _ n]
      dest: bit_imp_le_length)
qed

lemma rotl64_word_rotl:
  assumes "0 < r" "r < 64"
  shows "rotl64 x r = word_rotl r x"
proof (rule bit_word_eqI)
  fix n assume "n < LENGTH(64)"
  then have n: "n < 64"
    by simp
  have m: "(n + (64 - r mod 64)) mod 64 = (if r \<le> n then n - r else n + (64 - r))"
    using assms n by (simp add: mod_if)
  show "bit (rotl64 x r) n = bit (word_rotl r x) n"
    using assms n m by (auto simp: rotl64_def bit_word_rotl_iff bit_simps add.commute[of _ n]
      dest: bit_imp_le_length)
qed

lemma inj_word_rotl: "inj (word_rotl r)"
  by (rule injI) (metis word_rot_lr)

lemma inj_rotl32: "0 < r \<Longrightarrow> r < 32 \<Longrightarrow> inj (\<lambda>x. rotl32 x r)"
  using inj_word_rotl[of r] by (simp add: rotl32_word_rotl)

lemma inj_times_unit: "c * d = 1 \<Longrightarrow> inj (\<lambda>x :: 'a :: len word. x * c)"
  by (rule injI) (metis mult.assoc mult.right_neutral)

lemma drop_bit_fixed_zero:
  fixes d :: "'a :: len word"
  assumes "0 < s" "d = drop_bit s d"
  shows "d = 0"
proof -
  have "d = drop_bit (n * s) d" for n
  proof (induction n)
    case (Suc n)
    then show ?case
      using assms(2) by (metis add.commute drop_bit_drop_bit mult_Suc)
  qed simp
  then have *: "d = drop_bit (LENGTH('a) * s) d" .
  have "LENGTH('a) \<le> LENGTH('a) * s"
    using assms(1) by simp
  then have "\<not> bit (drop_bit (LENGTH('a) * s) d) i" for i
    using bit_imp_le_length[of d "LENGTH('a) * s + i"] by (auto simp: bit_simps)
  then show ?thesis
    using * by (metis bit_0_eq bit_word_eqI bot_apply bot_bool_def)
qed

lemma inj_xorshift: "0 < s \<Longrightarrow> inj (\<lambda>x :: 'a :: len word. x XOR drop_bit s x)"
proof (rule injI)
  fix x y :: "'a word"
  assume s: "0 < s" and eq: "x XOR drop_bit s x = y XOR drop_bit s y"
  have "x XOR y = drop_bit s x XOR drop_bit s y"
    using eq by (metis bit.xor_left_self xor.assoc xor.commute)
  then have "x XOR y = drop_bit s (x XOR y)"
    unfolding drop_bit_xor .
  then have "x XOR y = 0"
    by (rule drop_bit_fixed_zero[OF s])
  then show "x = y"
    by (metis bit.xor_left_self xor.right_neutral)
qed

lemma inj_xor: "inj (\<lambda>x :: 'a :: len word. x XOR c)"
  by (rule injI) (metis bit.xor_left_self xor.commute)

lemma xor_left_cancel: "a XOR b = a XOR c \<longleftrightarrow> b = (c :: 'a :: len word)"
  by (metis bit.xor_left_self)

lemma inj_fmix32: "inj fmix32"
proof -
  have eq: "fmix32 = (\<lambda>x. x XOR drop_bit 16 x) \<circ> (\<lambda>x. x * 0xc2b2ae35) \<circ> (\<lambda>x. x XOR drop_bit 13 x) \<circ>
      (\<lambda>x. x * 0x85ebca6b) \<circ> (\<lambda>x. x XOR drop_bit 16 x)"
    by (simp add: fmix32_def fun_eq_iff Let_def)
  have 1: "inj (\<lambda>x :: u32. x * 0xc2b2ae35)"
    by (rule inj_times_unit[of _ "0x7ed1b41d"]) simp
  have 2: "inj (\<lambda>x :: u32. x * 0x85ebca6b)"
    by (rule inj_times_unit[of _ "0xa5cb9243"]) simp
  show ?thesis
    unfolding eq by (intro inj_compose 1 2 inj_xorshift) simp_all
qed

lemma inj_fmix64: "inj fmix64"
proof -
  have eq: "fmix64 = (\<lambda>x. x XOR drop_bit 33 x) \<circ> (\<lambda>x. x * 0xc4ceb9fe1a85ec53) \<circ>
      (\<lambda>x. x XOR drop_bit 33 x) \<circ> (\<lambda>x. x * 0xff51afd7ed558ccd) \<circ> (\<lambda>x. x XOR drop_bit 33 x)"
    by (simp add: fmix64_def fun_eq_iff Let_def)
  have 1: "inj (\<lambda>x :: u64. x * 0xc4ceb9fe1a85ec53)"
    by (rule inj_times_unit[of _ "0x9cb4b2f8129337db"]) simp
  have 2: "inj (\<lambda>x :: u64. x * 0xff51afd7ed558ccd)"
    by (rule inj_times_unit[of _ "0x4f74430c22a54005"]) simp
  show ?thesis
    unfolding eq by (intro inj_compose 1 2 inj_xorshift) simp_all
qed

lemma inj_mix_k1_32: "inj mix_k1_32"
proof -
  have eq: "mix_k1_32 = (\<lambda>x. x * 0x1b873593) \<circ> (\<lambda>x. rotl32 x 15) \<circ> (\<lambda>x. x * 0xcc9e2d51)"
    by (simp add: mix_k1_32_def fun_eq_iff)
  have 1: "inj (\<lambda>x :: u32. x * 0x1b873593)"
    by (rule inj_times_unit[of _ "0x56ed309b"]) simp
  have 2: "inj (\<lambda>x :: u32. x * 0xcc9e2d51)"
    by (rule inj_times_unit[of _ "0xdee13bb1"]) simp
  show ?thesis
    unfolding eq by (intro inj_compose 1 2 inj_rotl32) simp_all
qed

lemma inj_times5: "inj (\<lambda>x :: u32. x * 5)"
  by (rule inj_times_unit[of _ "0xcccccccd"]) simp

lemma murmur_step32_iff:
  "murmur_step32 h k = murmur_step32 h' k' \<longleftrightarrow> h XOR mix_k1_32 k = h' XOR mix_k1_32 k'"
  using inj_times5 inj_rotl32[of 13] by (auto simp: murmur_step32_def dest: injD)

lemma inj_murmur_step32_state: "inj (\<lambda>h. murmur_step32 h k)"
  by (rule injI) (metis murmur_step32_iff inj_xor injD)

lemma inj_murmur_step32_block: "inj (murmur_step32 h)"
  by (rule injI) (metis murmur_step32_iff inj_mix_k1_32 inj_xor injD xor.commute)

lemma murmur_fold_inj:
  "foldl murmur_step32 h bs = foldl murmur_step32 h' bs \<Longrightarrow> h = h'"
proof (induction bs arbitrary: h h')
  case (Cons b bs)
  then have "murmur_step32 h b = murmur_step32 h' b"
    by simp
  then show ?case
    using inj_murmur_step32_state[of b] by (rule injD[rotated])
qed simp

lemma murmur_fold_one_block:
  assumes "foldl murmur_step32 h (us @ b # vs) = foldl murmur_step32 h (us @ b' # vs)"
  shows "b = b'"
proof -
  have "murmur_step32 (foldl murmur_step32 h us) b = murmur_step32 (foldl murmur_step32 h us) b'"
    using assms murmur_fold_inj by simp
  then show ?thesis
    using inj_murmur_step32_block injD by metis
qed

text \<open>A block holds its four bytes, so blocks agree exactly when the bytes do.\<close>

lemma byte32_bit: "bit (byte32 data i s) n \<longleftrightarrow> s \<le> n \<and> n < 32 \<and> bit (data ! i) (n - s)"
  by (auto simp: byte32_def bit_simps dest: bit_imp_le_length)

lemma u8_bit_high: "8 \<le> k \<Longrightarrow> \<not> bit (b :: u8) k"
  by (auto dest: bit_imp_le_length)

lemma getblock32_byte:
  assumes "t < 4"
  shows "(ucast (drop_bit (8 * t) (getblock32 data j)) :: u8) = data ! (4 * j + t)"
proof (rule bit_word_eqI)
  fix n assume "n < LENGTH(8)"
  then have n: "n < 8"
    by simp
  have "t \<in> {0, 1, 2, 3}"
    using assms by auto
  then show "bit (ucast (drop_bit (8 * t) (getblock32 data j)) :: u8) n = bit (data ! (4 * j + t)) n"
    using n
    by (elim insertE emptyE)
      (simp_all add: getblock32_def bit_or_iff bit_drop_bit_eq bit_unsigned_iff byte32_bit u8_bit_high)
qed

lemma getblock32_eqD:
  "getblock32 data j = getblock32 data' j \<Longrightarrow> t < 4 \<Longrightarrow> data ! (4 * j + t) = data' ! (4 * j + t)"
  using getblock32_byte by metis

lemma tail32_byte:
  assumes "t < r" "r < 4"
  shows "(ucast (drop_bit (8 * t) (tail32 ts 0 r)) :: u8) = ts ! t"
proof (rule bit_word_eqI)
  fix n assume "n < LENGTH(8)"
  then have n: "n < 8"
    by simp
  have "(r, t) \<in> {(1, 0), (2, 0), (2, 1), (3, 0), (3, 1), (3, 2)}"
    using assms by auto
  then show "bit (ucast (drop_bit (8 * t) (tail32 ts 0 r)) :: u8) n = bit (ts ! t) n"
    using n
    by (elim insertE emptyE)
      (simp_all add: tail32_def upt_conv_Cons bit_xor_iff bit_drop_bit_eq bit_unsigned_iff
        numeral_2_eq_2 byte32_bit u8_bit_high)
qed

text \<open>What the hash computes from the body's state and the tail determines both.\<close>

lemma MurmurHash3_x86_32_eqD:
  assumes "length x = length y" "MurmurHash3_x86_32 x seed = MurmurHash3_x86_32 y seed"
  defines "r \<equiv> length x mod 4" and "n \<equiv> length x div 4 * 4"
  shows "murmur_body32 x seed XOR (if 1 \<le> r then mix_k1_32 (tail32 (drop n x) 0 r) else 0) =
         murmur_body32 y seed XOR (if 1 \<le> r then mix_k1_32 (tail32 (drop n y) 0 r) else 0)"
proof -
  have *: "MurmurHash3_x86_32 z seed = fmix32 ((murmur_body32 z seed XOR
      (if 1 \<le> r then mix_k1_32 (tail32 (drop n z) 0 r) else 0)) XOR of_nat (length x))"
    if "length z = length x" for z
    using that by (simp add: MurmurHash3_x86_32_def Let_def r_def n_def)
  have "fmix32 ((murmur_body32 x seed XOR
      (if 1 \<le> r then mix_k1_32 (tail32 (drop n x) 0 r) else 0)) XOR of_nat (length x)) =
    fmix32 ((murmur_body32 y seed XOR
      (if 1 \<le> r then mix_k1_32 (tail32 (drop n y) 0 r) else 0)) XOR of_nat (length x))"
    using assms(2) *[of x] *[of y] assms(1) by simp
  from injD[OF inj_xor injD[OF inj_fmix32 this]] show ?thesis .
qed

lemma murmur_body32_one_block:
  assumes len: "length x = length y" and j: "j < length x div 4"
    and same: "\<And>i. i < length x \<Longrightarrow> i div 4 \<noteq> j \<Longrightarrow> x ! i = y ! i"
    and eq: "murmur_body32 x seed = murmur_body32 y seed"
  shows "getblock32 x j = getblock32 y j"
proof -
  let ?n = "length x div 4"
  have other: "getblock32 x k = getblock32 y k" if "k < ?n" "k \<noteq> j" for k
  proof -
    have "x ! (4 * k + t) = y ! (4 * k + t)" if "t < 4" for t
      using \<open>k < ?n\<close> \<open>k \<noteq> j\<close> that by (intro same) auto
    from this[of 0] this[of 1] this[of 2] this[of 3] show ?thesis
      by (simp add: getblock32_def byte32_def)
  qed
  have split: "map (getblock32 z) [0..<?n] =
      map (getblock32 z) [0..<j] @ getblock32 z j # map (getblock32 z) [Suc j..<?n]" for z
    using j by (metis append_Cons append_Nil list.simps(9) map_append upt_conv_Cons upt_add_eq_append
        le_add_diff_inverse less_imp_le_nat zero_le)
  have pre: "map (getblock32 y) [0..<j] = map (getblock32 x) [0..<j]"
    and post: "map (getblock32 y) [Suc j..<?n] = map (getblock32 x) [Suc j..<?n]"
    using j by (auto intro!: other[symmetric])
  have "foldl murmur_step32 seed (map (getblock32 x) [0..<?n]) =
      foldl murmur_step32 seed (map (getblock32 y) [0..<?n])"
    using eq len by (simp add: murmur_body32_def)
  from murmur_fold_one_block[OF this[unfolded split[of x] split[of y] pre post]] show ?thesis .
qed

lemma murmur3_local_inj:
  assumes "length x = length y" "j \<le> length x div 4"
    and "\<And>i. i < length x \<Longrightarrow> i div 4 \<noteq> j \<Longrightarrow> x ! i = y ! i"
    and "MurmurHash3_x86_32 x seed = MurmurHash3_x86_32 y seed"
  shows "x = y"
proof (rule nth_equalityI[OF assms(1)])
  fix i assume i: "i < length x"
  let ?n = "length x div 4 * 4" and ?r = "length x mod 4"
  note D = MurmurHash3_x86_32_eqD[OF assms(1,4)]
  show "x ! i = y ! i"
  proof (cases "i div 4 = j")
    case True
    show ?thesis
    proof (cases "j < length x div 4")
      case True
      have "drop ?n x = drop ?n y"
        using assms(1,3) True
        by (intro nth_equalityI) (auto intro!: assms(3) simp: div_add1_eq)
      then have "murmur_body32 x seed = murmur_body32 y seed"
        using D inj_xor injD by (metis (no_types, lifting))
      then have "getblock32 x j = getblock32 y j"
        using assms(1,3) True by (intro murmur_body32_one_block)
      from getblock32_eqD[OF this, of "i mod 4"] show ?thesis
        using \<open>i div 4 = j\<close> by simp (metis mult_div_mod_eq)
    next
      case False
      then have j: "j = length x div 4"
        using assms(2) by simp
      then have r: "i = ?n + i mod 4" "i mod 4 < ?r"
        using i \<open>i div 4 = j\<close> by (metis div_mult_mod_eq, metis add_less_cancel_left div_mult_mod_eq)
      have "map (getblock32 x) [0..<length x div 4] = map (getblock32 y) [0..<length y div 4]"
        using assms(1,3) j by (auto simp: getblock32_def byte32_def)
      then have "murmur_body32 x seed = murmur_body32 y seed"
        by (simp add: murmur_body32_def)
      then have "mix_k1_32 (tail32 (drop ?n x) 0 ?r) = mix_k1_32 (tail32 (drop ?n y) 0 ?r)"
        using D r(2) by (simp add: xor_left_cancel)
      then have "tail32 (drop ?n x) 0 ?r = tail32 (drop ?n y) 0 ?r"
        by (rule injD[OF inj_mix_k1_32])
      then have "drop ?n x ! (i mod 4) = drop ?n y ! (i mod 4)"
        using tail32_byte[OF r(2)] by (metis mod_less_divisor zero_less_numeral)
      then show ?thesis
        using r(1) assms(1) by simp
    qed
  next
    case False
    then show ?thesis
      using assms(3) i by simp
  qed
qed

section \<open>Properties\<close>

text \<open>
  C40: the 32-bit hash never sends two different keys of the same length to the same value when
  they differ only inside one aligned four-byte block, or only inside the tail of up to three
  bytes: every mixing step and the finaliser are permutations.
\<close>

theorem murmur3_no_local_collision:
  assumes "x \<noteq> y" "length x = length y" "j \<le> length x div 4"
    and "\<forall>i < length x. i div 4 \<noteq> j \<longrightarrow> x ! i = y ! i"
  shows "MurmurHash3_x86_32 x seed \<noteq> MurmurHash3_x86_32 y seed"
  using murmur3_local_inj[of x y j seed] assms by blast

theorem murmur3_no_local_collision_witness:
  "MurmurHash3_x86_32 [1, 2, 3, 4, 5] 7 \<noteq> MurmurHash3_x86_32 [1, 2, 3, 4, 6] 7"
proof -
  have "[1, 2, 3, 4, 5 :: u8] ! i = [1, 2, 3, 4, 6] ! i" if "i < 5" "i div 4 \<noteq> 1" for i
  proof -
    have "i \<in> {0, 1, 2, 3, 4}"
      using that(1) by auto
    then show ?thesis
      using that(2) by (elim insertE emptyE) simp_all
  qed
  then show ?thesis
    by (intro murmur3_no_local_collision[of _ _ 1]) simp_all
qed

text \<open>The finalisers of the 32-bit and the 64-bit hash are permutations of their words.\<close>

theorem murmur3_finalisers_bijective: "bij fmix32 \<and> bij fmix64"
  by (simp add: bij_def inj_fmix32 inj_fmix64 finite_UNIV_inj_surj)

end
