(* ===== verification/MurmurVectors.thy ===== *)
theory MurmurVectors
  imports Murmur
begin

text \<open>
  The models of the three hash functions of \<^verbatim>\<open>murmur.c\<close> evaluated in the kernel on the
  published test sentence. They stand in a theory of their own because the evaluation takes
  about a minute.
\<close>

section \<open>Properties\<close>

text \<open>
  The three hash functions agree with the published MurmurHash3 reference values for the
  sentence about the quick brown fox with seed 0.
\<close>

theorem murmur3_reference_vectors:
  "MurmurHash3_x86_32 (map (\<lambda>c. of_nat (of_char c)) ''The quick brown fox jumps over the lazy dog'') 0
     = 0x2e4ff723 \<and>
   MurmurHash3_x86_128 (map (\<lambda>c. of_nat (of_char c)) ''The quick brown fox jumps over the lazy dog'') 0
     = [0x2f1583c3, 0xecee2c67, 0x5d7bf66c, 0xe5e91d2c] \<and>
   MurmurHash3_x64_128 (map (\<lambda>c. of_nat (of_char c)) ''The quick brown fox jumps over the lazy dog'') 0
     = [0xe34bbc7bbc071b6c, 0x7a433ca9c49a9347]"
  by (intro conjI) code_simp+

end
