(* ===== verification/HashTable.thy ===== *)
theory HashTable
  imports Murmur
begin

text \<open>
  The hash table of the collector client
  (\<^verbatim>\<open>data collector/InfoCollectClient_V1.1/src/hashtable.c\<close>), with its nodes in an explicit
  heap: the chains are linked through addresses, a node that is freed leaves the heap, and a
  read or write through a pointer to it is the error \<^const>\<open>UseAfterFree\<close>. The authors of the
  collector added the ageing of entries to \<^verbatim>\<open>ht_insert_he\<close>: whatever is inserted into a chain,
  entries of the chain whose time stamp (the first four bytes of the value, a
  \<^verbatim>\<open>struct timeval\<close>) is more than 30 seconds old are thrown out on the way.

  The bytes of key and value belong to the node. With the flags \<^verbatim>\<open>HT_KEY_CONST\<close> and
  \<^verbatim>\<open>HT_VALUE_CONST\<close> they are the caller's, who then must not change them; the model is the
  same. A table of a power of two has exact quotients as load factors, so the load factor is a
  rational number. The loops over chains and the nesting of \<^verbatim>\<open>ht_resize\<close> in
  \<^verbatim>\<open>ht_insert_he\<close> are bounded by fuel.
\<close>

section \<open>Heap and table\<close>

type_synonym addr = nat
type_synonym bytes = "u8 list"

record hash_entry =
  he_key :: bytes
  he_value :: "bytes option"
  value_size :: nat
  he_next :: "addr option"

text \<open>The process: its heap, the next address, the number of readings of the clock, the seed.\<close>

record world =
  cells :: "addr \<Rightarrow> hash_entry option"
  next_addr :: addr
  ticks :: nat
  global_seed :: u32

text \<open>
  What the operations meet: the seconds the \<open>n\<close>-th reading of the clock gives, and whether memory
  is available for a new entry, for a new value and for an array.
\<close>

record ht_env =
  clock :: "nat \<Rightarrow> int"
  mem_entry :: bool
  mem_value :: bool
  mem_array :: bool

record hash_table =
  hashfunc_x86_32 :: "(bytes \<Rightarrow> u32 \<Rightarrow> u32) option"
  key_count :: u32
  array_size :: u32
  arr :: "addr option list"
  collisions :: u32
  flags :: u32
  max_load_factor :: rat
  current_load_factor :: rat

definition HT_INITIAL_SIZE :: u32 where
  "HT_INITIAL_SIZE = 64"

definition HT_NONE :: u32 where
  "HT_NONE = 0"

definition HT_VALUE_CONST :: u32 where
  "HT_VALUE_CONST = 2"

definition HT_NO_AUTORESIZE :: u32 where
  "HT_NO_AUTORESIZE = 4"

definition AGE_TIMEOUT :: int where
  "AGE_TIMEOUT = 30"

definition start_world :: world where
  "start_world = \<lparr>cells = \<lambda>_. None, next_addr = 0, ticks = 0, global_seed = 2976579765\<rparr>"

section \<open>Entries\<close>

definition deref :: "world \<Rightarrow> addr \<Rightarrow> hash_entry res" where
  "deref w a = (case cells w a of None \<Rightarrow> Inl UseAfterFree | Some c \<Rightarrow> Inr c)"

definition store :: "addr \<Rightarrow> hash_entry \<Rightarrow> world \<Rightarrow> world" where
  "store a c w = w\<lparr>cells := (cells w)(a := Some c)\<rparr>"

definition set_next :: "addr \<Rightarrow> addr option \<Rightarrow> world \<Rightarrow> world res" where
  "set_next a p w = bind_res (deref w a) (\<lambda>c. Inr (store a (c\<lparr>he_next := p\<rparr>) w))"

definition he_create :: "ht_env \<Rightarrow> bytes \<Rightarrow> bytes \<Rightarrow> world \<Rightarrow> addr option \<times> world" where
  "he_create e k v w =
     (if \<not> mem_entry e then (None, w)
      else let a = next_addr w
           in (Some a, store a \<lparr>he_key = k, he_value = Some v, value_size = length v, he_next = None\<rparr>
                         (w\<lparr>next_addr := a + 1\<rparr>)))"

definition he_destroy :: "addr \<Rightarrow> world \<Rightarrow> world res" where
  "he_destroy a w = bind_res (deref w a) (\<lambda>_. Inr (w\<lparr>cells := (cells w)(a := None)\<rparr>))"

definition he_key_compare :: "hash_entry \<Rightarrow> hash_entry \<Rightarrow> bool" where
  "he_key_compare e1 e2 \<longleftrightarrow>
     length (he_key e1) = length (he_key e2) \<and>
     take (length (he_key e1)) (he_key e1) = take (length (he_key e1)) (he_key e2)"

text \<open>When the new value cannot be allocated the entry is left with the pointer NULL.\<close>

definition he_set_value :: "ht_env \<Rightarrow> u32 \<Rightarrow> addr \<Rightarrow> bytes option \<Rightarrow> nat \<Rightarrow> world \<Rightarrow> world res" where
  "he_set_value e fl a v n w =
     bind_res (deref w a) (\<lambda>c.
       if and fl HT_VALUE_CONST = 0 \<and> \<not> mem_value e then Inr (store a (c\<lparr>he_value := None\<rparr>) w)
       else Inr (store a (c\<lparr>he_value := v, value_size := n\<rparr>) w))"

section \<open>Creating and destroying a table\<close>

definition init_with :: "(bytes \<Rightarrow> u32 \<Rightarrow> u32) \<Rightarrow> ht_env \<Rightarrow> u32 \<Rightarrow> rat \<Rightarrow> hash_table res" where
  "init_with hf e fl mlf =
     (if \<not> mem_array e then Inl NullDeref
      else Inr \<lparr>hashfunc_x86_32 = Some hf, key_count = 0, array_size = HT_INITIAL_SIZE,
                arr = replicate (unat HT_INITIAL_SIZE) None, collisions = 0, flags = fl,
                max_load_factor = mlf, current_load_factor = 0\<rparr>)"

text \<open>The build defines \<^verbatim>\<open>__WITH_MURMUR\<close>.\<close>

definition ht_init :: "ht_env \<Rightarrow> u32 \<Rightarrow> rat \<Rightarrow> hash_table res" where
  "ht_init = init_with MurmurHash3_x86_32"

fun destroy_chain :: "nat \<Rightarrow> addr option \<Rightarrow> world \<Rightarrow> world res" where
  "destroy_chain n None w = Inr w"
| "destroy_chain 0 (Some a) w = Inl OutOfFuel"
| "destroy_chain (Suc n) (Some a) w =
     bind_res (deref w a) (\<lambda>c. bind_res (he_destroy a w) (\<lambda>w'. destroy_chain n (he_next c) w'))"

fun destroy_chains :: "nat \<Rightarrow> addr option list \<Rightarrow> world \<Rightarrow> world res" where
  "destroy_chains n [] w = Inr w"
| "destroy_chains n (p # ps) w = bind_res (destroy_chain n p w) (\<lambda>w'. destroy_chains n ps w')"

definition ht_destroy :: "nat \<Rightarrow> hash_table \<Rightarrow> world \<Rightarrow> (hash_table \<times> world) res" where
  "ht_destroy n t w =
     (if arr t = [] \<and> array_size t \<noteq> 0 then Inl NullDeref
      else bind_res (destroy_chains n (arr t) w) (\<lambda>w'.
             Inr (t\<lparr>hashfunc_x86_32 := None, array_size := 0, key_count := 0, collisions := 0, arr := []\<rparr>, w')))"

definition ht_clear :: "nat \<Rightarrow> ht_env \<Rightarrow> hash_table \<Rightarrow> world \<Rightarrow> (hash_table \<times> world) res" where
  "ht_clear n e t w =
     bind_res (ht_destroy n t w) (\<lambda>(t1, w1).
       bind_res (ht_init e (flags t1) (max_load_factor t1)) (\<lambda>t2. Inr (t2, w1)))"

section \<open>Lookup\<close>

definition ht_index :: "hash_table \<Rightarrow> world \<Rightarrow> bytes \<Rightarrow> nat res" where
  "ht_index t w k =
     (case hashfunc_x86_32 t of
        None \<Rightarrow> Inl NullDeref
      | Some hf \<Rightarrow> if array_size t = 0 then Inl DivZero else Inr (unat (hf k (global_seed w) mod array_size t)))"

definition array_at :: "hash_table \<Rightarrow> nat \<Rightarrow> addr option res" where
  "array_at t i =
     (if arr t = [] then Inl NullDeref else if i < length (arr t) then Inr (arr t ! i) else Inl OutOfBounds)"

definition set_array :: "nat \<Rightarrow> addr option \<Rightarrow> hash_table \<Rightarrow> hash_table" where
  "set_array i p t = t\<lparr>arr := (arr t)[i := p]\<rparr>"

text \<open>The entry that \<^verbatim>\<open>ht_get\<close> and \<^verbatim>\<open>ht_contains\<close> compare with lives on their stack.\<close>

definition probe_entry :: "bytes \<Rightarrow> hash_entry" where
  "probe_entry k = \<lparr>he_key = k, he_value = None, value_size = 0, he_next = None\<rparr>"

fun get_walk :: "nat \<Rightarrow> world \<Rightarrow> bytes \<Rightarrow> addr option \<Rightarrow> addr option res" where
  "get_walk n w k None = Inr None"
| "get_walk 0 w k (Some a) = Inl OutOfFuel"
| "get_walk (Suc n) w k (Some a) =
     bind_res (deref w a) (\<lambda>c.
       if he_key_compare c (probe_entry k) then Inr (Some a) else get_walk n w k (he_next c))"

text \<open>The result is the entry into whose value \<^verbatim>\<open>ht_get\<close> returns a pointer.\<close>

definition ht_get :: "nat \<Rightarrow> hash_table \<Rightarrow> bytes \<Rightarrow> world \<Rightarrow> addr option res" where
  "ht_get n t k w =
     bind_res (ht_index t w k) (\<lambda>i. bind_res (array_at t i) (\<lambda>p. get_walk n w k p))"

definition ht_contains :: "nat \<Rightarrow> hash_table \<Rightarrow> bytes \<Rightarrow> world \<Rightarrow> bool res" where
  "ht_contains n t k w = bind_res (ht_get n t k w) (\<lambda>r. Inr (r \<noteq> None))"

definition ht_size :: "hash_table \<Rightarrow> u32" where
  "ht_size t = key_count t"

fun keys_walk :: "nat \<Rightarrow> world \<Rightarrow> addr option \<Rightarrow> bytes list res" where
  "keys_walk n w None = Inr []"
| "keys_walk 0 w (Some a) = Inl OutOfFuel"
| "keys_walk (Suc n) w (Some a) =
     bind_res (deref w a) (\<lambda>c. bind_res (keys_walk n w (he_next c)) (\<lambda>ks. Inr (he_key c # ks)))"

fun keys_all :: "nat \<Rightarrow> world \<Rightarrow> addr option list \<Rightarrow> bytes list res" where
  "keys_all n w [] = Inr []"
| "keys_all n w (p # ps) =
     bind_res (keys_walk n w p) (\<lambda>ks. bind_res (keys_all n w ps) (\<lambda>ks'. Inr (ks @ ks')))"

text \<open>The array has room for \<open>key_count\<close> pointers; the check in the loop only prints.\<close>

definition ht_keys :: "nat \<Rightarrow> ht_env \<Rightarrow> hash_table \<Rightarrow> world \<Rightarrow> bytes list res" where
  "ht_keys n e t w =
     (if key_count t = 0 then Inr []
      else bind_res (keys_all n w (arr t)) (\<lambda>ks.
             if ks \<noteq> [] \<and> \<not> mem_array e then Inl NullDeref
             else if length ks > unat (key_count t) then Inl BufferOverflow
             else Inr ks))"

section \<open>Removal\<close>

fun remove_walk ::
  "nat \<Rightarrow> nat \<Rightarrow> bytes \<Rightarrow> hash_table \<Rightarrow> world \<Rightarrow> addr option \<Rightarrow> addr option \<Rightarrow> (hash_table \<times> world) res" where
  "remove_walk n i k t w prev None = Inr (t, w)"
| "remove_walk 0 i k t w prev (Some a) = Inl OutOfFuel"
| "remove_walk (Suc n) i k t w prev (Some a) =
     bind_res (deref w a) (\<lambda>c.
       if he_key_compare c (probe_entry k)
       then (case prev of
               None \<Rightarrow>
                 bind_res (he_destroy a w) (\<lambda>w'.
                   Inr ((set_array i (he_next c) t)\<lparr>key_count := key_count t - 1\<rparr>, w'))
             | Some p \<Rightarrow>
                 bind_res (set_next p (he_next c) w) (\<lambda>w1. bind_res (he_destroy a w1) (\<lambda>w2.
                   Inr (t\<lparr>key_count := key_count t - 1, collisions := collisions t - 1\<rparr>, w2))))
       else remove_walk n i k t w (Some a) (he_next c))"

definition ht_remove :: "nat \<Rightarrow> hash_table \<Rightarrow> bytes \<Rightarrow> world \<Rightarrow> (hash_table \<times> world) res" where
  "ht_remove n t k w =
     bind_res (ht_index t w k) (\<lambda>i. bind_res (array_at t i) (\<lambda>p. remove_walk n i k t w None p))"

section \<open>Insertion with ageing\<close>

text \<open>\<^verbatim>\<open>((struct timeval*)tmp->value)->tv_sec\<close>.\<close>

definition tv_sec_of :: "hash_entry \<Rightarrow> int res" where
  "tv_sec_of c =
     (case he_value c of
        None \<Rightarrow> Inl NullDeref
      | Some v \<Rightarrow> if length v < 4 then Inl OutOfBounds else Inr (sint (getblock32 v 0)))"

definition timed_out :: "int \<Rightarrow> int \<Rightarrow> bool" where
  "timed_out now ts \<longleftrightarrow> to_int32 (now - ts) > AGE_TIMEOUT"

text \<open>
  The loop of \<^verbatim>\<open>ht_insert_he\<close> with its variables \<^verbatim>\<open>prev\<close>, \<^verbatim>\<open>find_ret\<close> and
  \<^verbatim>\<open>tmp\<close>. After an entry in the middle of the chain is deleted, \<^verbatim>\<open>prev\<close> moves on to the
  entry after it.
\<close>

fun age_walk ::
  "nat \<Rightarrow> int \<Rightarrow> nat \<Rightarrow> addr \<Rightarrow> hash_table \<Rightarrow> world \<Rightarrow> addr option \<Rightarrow> addr option \<Rightarrow> addr option \<Rightarrow>
   (hash_table \<times> world \<times> addr option \<times> addr option) res" where
  "age_walk n now i entry t w prev find_ret None = Inr (t, w, prev, find_ret)"
| "age_walk 0 now i entry t w prev find_ret (Some a) = Inl OutOfFuel"
| "age_walk (Suc n) now i entry t w prev find_ret (Some a) =
     bind_res (deref w a) (\<lambda>c. bind_res (tv_sec_of c) (\<lambda>ts.
       if timed_out now ts
       then let t1 = t\<lparr>key_count := key_count t - 1\<rparr>
            in bind_res (he_destroy a w) (\<lambda>w1.
                 case prev of
                   None \<Rightarrow> age_walk n now i entry (set_array i (he_next c) t1) w1 None find_ret (he_next c)
                 | Some p \<Rightarrow>
                     bind_res (set_next p (he_next c) w1) (\<lambda>w2.
                       age_walk n now i entry (t1\<lparr>collisions := collisions t1 - 1\<rparr>) w2
                         (he_next c) find_ret (he_next c)))
       else bind_res (deref w entry) (\<lambda>en.
              age_walk n now i entry t w (Some a)
                (if he_key_compare c en then Some a else find_ret) (he_next c))))"

definition set_load :: "hash_table \<Rightarrow> hash_table" where
  "set_load t = t\<lparr>current_load_factor := of_nat (unat (collisions t)) / of_nat (unat (array_size t))\<rparr>"

definition needs_resize :: "hash_table \<Rightarrow> bool" where
  "needs_resize t \<longleftrightarrow> and (flags t) HT_NO_AUTORESIZE = 0 \<and> current_load_factor t > max_load_factor t"

text \<open>Resizing moves every entry to a new table with the given insertion.\<close>

type_synonym insertion = "hash_table \<Rightarrow> addr \<Rightarrow> world \<Rightarrow> (hash_table \<times> world) res"

fun rehash_chain :: "insertion \<Rightarrow> nat \<Rightarrow> addr option \<Rightarrow> hash_table \<Rightarrow> world \<Rightarrow> (hash_table \<times> world) res" where
  "rehash_chain ins n None new w = Inr (new, w)"
| "rehash_chain ins 0 (Some a) new w = Inl OutOfFuel"
| "rehash_chain ins (Suc n) (Some a) new w =
     bind_res (deref w a) (\<lambda>c.
       bind_res (ins new a w) (\<lambda>(new', w'). rehash_chain ins n (he_next c) new' w'))"

fun rehash_all :: "insertion \<Rightarrow> nat \<Rightarrow> addr option list \<Rightarrow> hash_table \<Rightarrow> world \<Rightarrow> (hash_table \<times> world) res" where
  "rehash_all ins n [] new w = Inr (new, w)"
| "rehash_all ins n (p # ps) new w =
     bind_res (rehash_chain ins n p new w) (\<lambda>(new', w'). rehash_all ins n ps new' w')"

definition resize_with ::
  "insertion \<Rightarrow> nat \<Rightarrow> ht_env \<Rightarrow> hash_table \<Rightarrow> u32 \<Rightarrow> world \<Rightarrow> (hash_table \<times> world) res" where
  "resize_with ins n e t new_size w =
     (if \<not> mem_array e \<and> new_size \<noteq> 0 then Inl NullDeref
      else let new = t\<lparr>array_size := new_size, arr := replicate (unat new_size) None,
                       key_count := 0, collisions := 0\<rparr>
           in bind_res (rehash_all ins n (arr t) new w) (\<lambda>(new', w1).
                bind_res (ht_destroy n (t\<lparr>arr := replicate (length (arr t)) None\<rparr>) w1) (\<lambda>(t1, w2).
                  Inr (t1\<lparr>hashfunc_x86_32 := hashfunc_x86_32 new', array_size := array_size new', arr := arr new',
                          key_count := key_count new', collisions := collisions new'\<rparr>, w2))))"

text \<open>Where a new key goes after the walk: an emptied bucket, or behind \<^verbatim>\<open>prev\<close>.\<close>

definition append_entry ::
  "nat \<Rightarrow> addr \<Rightarrow> addr option \<Rightarrow> hash_table \<Rightarrow> world \<Rightarrow> (hash_table \<times> world) res" where
  "append_entry i entry prev t w =
     bind_res (array_at t i) (\<lambda>p.
       if p = None then Inr (set_array i (Some entry) t, w)
       else case prev of
              None \<Rightarrow> Inl NullDeref
            | Some q \<Rightarrow> bind_res (set_next q (Some entry) w) (\<lambda>w'. Inr (t\<lparr>collisions := collisions t + 1\<rparr>, w')))"

text \<open>The part after the walk: \<open>resize\<close> is the call of \<^verbatim>\<open>ht_resize\<close>.\<close>

definition after_walk ::
  "(hash_table \<Rightarrow> world \<Rightarrow> (hash_table \<times> world) res) \<Rightarrow> ht_env \<Rightarrow> nat \<Rightarrow> addr \<Rightarrow>
   hash_table \<Rightarrow> world \<Rightarrow> addr option \<Rightarrow> addr option \<Rightarrow> (hash_table \<times> world) res" where
  "after_walk resize e i entry t w prev find_ret =
     (case find_ret of
        Some f \<Rightarrow>
          bind_res (deref w entry) (\<lambda>en.
          bind_res (he_set_value e (flags t) f (he_value en) (value_size en) w) (\<lambda>w1.
          bind_res (he_destroy entry w1) (\<lambda>w2. Inr (set_load t, w2))))
      | None \<Rightarrow>
          bind_res (append_entry i entry prev (t\<lparr>key_count := key_count t + 1\<rparr>) w) (\<lambda>(t1, w1).
            let t2 = set_load t1
            in if needs_resize t2
               then bind_res (resize t2 w1) (\<lambda>(t3, w2). Inr (set_load t3, w2))
               else Inr (t2, w1)))"

fun ht_insert_he :: "nat \<Rightarrow> ht_env \<Rightarrow> insertion" where
  "ht_insert_he 0 e t entry w = Inl OutOfFuel"
| "ht_insert_he (Suc n) e t entry w =
     bind_res (set_next entry None w) (\<lambda>w1.
     bind_res (deref w1 entry) (\<lambda>en.
     bind_res (ht_index t w1 (he_key en)) (\<lambda>i.
     bind_res (array_at t i) (\<lambda>tmp.
       if tmp = None then Inr ((set_array i (Some entry) t)\<lparr>key_count := key_count t + 1\<rparr>, w1)
       else bind_res (age_walk n (clock e (ticks w1)) i entry t (w1\<lparr>ticks := ticks w1 + 1\<rparr>) None None tmp)
              (\<lambda>(t1, w2, prev, find_ret).
                 after_walk (\<lambda>u. resize_with (ht_insert_he n e) n e u (array_size u * 2)) e i entry t1 w2 prev find_ret)))))"

declare ht_insert_he.simps [simp del]

definition ht_resize :: "nat \<Rightarrow> ht_env \<Rightarrow> hash_table \<Rightarrow> u32 \<Rightarrow> world \<Rightarrow> (hash_table \<times> world) res" where
  "ht_resize n e = resize_with (ht_insert_he n e) n e"

definition ht_insert ::
  "nat \<Rightarrow> ht_env \<Rightarrow> hash_table \<Rightarrow> bytes \<Rightarrow> bytes \<Rightarrow> world \<Rightarrow> (hash_table \<times> world) res" where
  "ht_insert n e t k v w =
     (case he_create e k v w of
        (None, w1) \<Rightarrow> Inl NullDeref
      | (Some a, w1) \<Rightarrow> ht_insert_he n e t a w1)"

definition ht_set_seed :: "u32 \<Rightarrow> world \<Rightarrow> world" where
  "ht_set_seed seed w = w\<lparr>global_seed := seed\<rparr>"

end
