(* ===== verification/HashRep.thy ===== *)
theory HashRep
  imports HashTable
begin

text \<open>
  The hash table of the collector refines a finite map from keys to values. \<open>chain\<close> relates a
  pointer to the list of nodes it leads to, \<open>ht_rep\<close> a table to the list of its chains, and the
  abstraction is the set of pairs in them. While no entry is over age, insertion (with the
  resizing it may trigger), lookup and removal are those of the map. The deviations from it are
  proved as well: what an over-aged entry in the middle of a chain leads to, and the drift of
  the collision counter.
\<close>

section \<open>Chains\<close>

datatype node = Node (node_addr: addr) (node_key: bytes) (node_val: bytes)

definition is_node :: "hash_entry \<Rightarrow> node \<Rightarrow> bool" where
  "is_node c x \<longleftrightarrow> he_key c = node_key x \<and> he_value c = Some (node_val x) \<and> value_size c = length (node_val x)"

fun chain :: "(addr \<Rightarrow> hash_entry option) \<Rightarrow> addr option \<Rightarrow> node list \<Rightarrow> bool" where
  "chain h p [] \<longleftrightarrow> p = None"
| "chain h p (x # xs) \<longleftrightarrow>
     p = Some (node_addr x) \<and> (\<exists>c. h (node_addr x) = Some c \<and> is_node c x \<and> chain h (he_next c) xs)"

lemma chain_frame:
  "chain h p xs \<Longrightarrow> \<forall>x \<in> set xs. h' (node_addr x) = h (node_addr x) \<Longrightarrow> chain h' p xs"
  by (induction xs arbitrary: p) auto

lemma chain_None [simp]: "chain h None xs \<longleftrightarrow> xs = []"
  by (cases xs) auto

lemma chain_cell: "chain h p xs \<Longrightarrow> x \<in> set xs \<Longrightarrow> \<exists>c. h (node_addr x) = Some c \<and> is_node c x"
  by (induction xs arbitrary: p) auto

text \<open>Appending a node behind the last one.\<close>

lemma chain_snoc:
  assumes "chain h p (xs @ [y])" "node_addr y \<notin> node_addr ` set xs" "node_addr z \<notin> node_addr ` set (xs @ [y])"
    "h (node_addr y) = Some c" "h (node_addr z) = Some d" "is_node d z" "he_next d = None"
  shows "chain (h(node_addr y := Some (c\<lparr>he_next := Some (node_addr z)\<rparr>))) p (xs @ [y, z])"
  using assms
proof (induction xs arbitrary: p)
  case Nil
  then show ?case
    by (auto simp: is_node_def)
next
  case (Cons x xs)
  then show ?case
    by auto
qed

text \<open>Changing the value of one node.\<close>

definition set_val :: "bytes \<Rightarrow> bytes \<Rightarrow> node \<Rightarrow> node" where
  "set_val k v x = (if node_key x = k then Node (node_addr x) k v else x)"

lemma set_val_simps [simp]:
  "node_addr (set_val k v x) = node_addr x"
  "node_key (set_val k v x) = node_key x"
  "node_key x \<noteq> k \<Longrightarrow> set_val k v x = x"
  "node_val (set_val k v x) = (if node_key x = k then v else node_val x)"
  by (auto simp: set_val_def)

lemma chain_set_value:
  assumes "chain h p xs" "h a = Some c" "distinct (map node_key xs)"
    and "\<forall>x \<in> set xs. node_addr x = a \<longleftrightarrow> node_key x = k"
  shows "chain (h(a := Some (c\<lparr>he_value := Some v, value_size := length v\<rparr>))) p
           (map (set_val k v) xs)"
  using assms
proof (induction xs arbitrary: p)
  case (Cons x xs)
  then show ?case
    by (cases "node_addr x = a") (auto simp: is_node_def)
qed simp

lemma chain_delete_mid:
  assumes "chain h p (xs @ x # y # ys)" "h (node_addr x) = Some c" "h (node_addr y) = Some d"
    and "distinct (map node_addr (xs @ x # y # ys))"
  shows "chain (h(node_addr x := Some (c\<lparr>he_next := he_next d\<rparr>), node_addr y := None)) p (xs @ x # ys)"
  using assms
proof (induction xs arbitrary: p)
  case Nil
  have "node_addr z \<noteq> node_addr x \<and> node_addr z \<noteq> node_addr y" if "z \<in> set ys" for z
    using Nil.prems(4) imageI[OF that, of node_addr] by auto
  then show ?case
    using Nil by (auto simp: is_node_def intro!: chain_frame[of h])
next
  case (Cons z xs)
  then show ?case
    by auto
qed

section \<open>Walks\<close>

definition live_value :: "ht_env \<Rightarrow> bytes \<Rightarrow> bool" where
  "live_value e v \<longleftrightarrow> 4 \<le> length v \<and> (\<forall>n. \<not> timed_out (clock e n) (sint (getblock32 v 0)))"

definition find_addr :: "bytes \<Rightarrow> node list \<Rightarrow> addr option" where
  "find_addr k xs = map_of (map (\<lambda>x. (node_key x, node_addr x)) xs) k"

lemma find_addr_simps [simp]:
  "find_addr k [] = None"
  "find_addr k (x # xs) = (if node_key x = k then Some (node_addr x) else find_addr k xs)"
  by (auto simp: find_addr_def)

lemma find_addr_None: "find_addr k xs = None \<longleftrightarrow> k \<notin> node_key ` set xs"
  by (induction xs) auto

lemma find_addr_Some: "find_addr k xs = Some a \<Longrightarrow> \<exists>x \<in> set xs. node_key x = k \<and> node_addr x = a"
  by (induction xs) (auto split: if_splits)

lemma key_compare_iff: "he_key_compare c d \<longleftrightarrow> he_key c = he_key d"
  by (auto simp: he_key_compare_def)

lemma get_walk_chain:
  "chain (cells w) p xs \<Longrightarrow> length xs \<le> n \<Longrightarrow> get_walk n w k p = Inr (find_addr k xs)"
proof (induction xs arbitrary: p n)
  case (Cons x xs)
  then obtain c m where "p = Some (node_addr x)" "cells w (node_addr x) = Some c" "is_node c x"
    "chain (cells w) (he_next c) xs" "n = Suc m" "length xs \<le> m"
    by (cases n) auto
  then show ?case
    using Cons.IH[of "he_next c" m] by (auto simp: deref_def key_compare_iff probe_entry_def is_node_def)
qed simp

lemma age_walk_live:
  assumes "chain (cells w) p xs" "length xs \<le> n" "\<forall>x \<in> set xs. live_value e (node_val x)"
    and "cells w entry = Some en" "distinct (map node_key xs)"
  shows "age_walk n (clock e m) i entry t w prev fr p =
     Inr (t, w, if xs = [] then prev else Some (node_addr (last xs)),
          case find_addr (he_key en) xs of None \<Rightarrow> fr | Some a \<Rightarrow> Some a)"
  using assms
proof (induction xs arbitrary: p n prev fr)
  case (Cons x xs)
  then obtain c n' where c: "p = Some (node_addr x)" "cells w (node_addr x) = Some c" "is_node c x"
    "chain (cells w) (he_next c) xs" "n = Suc n'" "length xs \<le> n'"
    by (cases n) auto
  have l: "tv_sec_of c = Inr (sint (getblock32 (node_val x) 0))" "\<not> timed_out (clock e m) (sint (getblock32 (node_val x) 0))"
    using c(3) Cons.prems(3) by (auto simp: tv_sec_of_def is_node_def live_value_def)
  have "find_addr (node_key x) xs = None"
    using Cons.prems(5) by (simp add: find_addr_None)
  then show ?case
    using Cons.IH[OF c(4,6)] Cons.prems(3-5) c l
    by (auto simp: deref_def key_compare_iff is_node_def split: option.splits)
qed simp

section \<open>Tables\<close>

definition ht_idx :: "hash_table \<Rightarrow> world \<Rightarrow> bytes \<Rightarrow> nat" where
  "ht_idx t w k = unat (the (hashfunc_x86_32 t) k (global_seed w)) mod unat (array_size t)"

lemma ht_idx_upd [simp]:
  "ht_idx t (w\<lparr>cells := f\<rparr>) k = ht_idx t w k"
  "ht_idx t (w\<lparr>ticks := n\<rparr>) k = ht_idx t w k"
  by (simp_all add: ht_idx_def)

definition nodes :: "node list list \<Rightarrow> node set" where
  "nodes cs = set (concat cs)"

definition keys_of :: "node list list \<Rightarrow> bytes set" where
  "keys_of cs = node_key ` nodes cs"

text \<open>The abstraction: the pairs of key and value that the table holds.\<close>

definition entries :: "node list list \<Rightarrow> (bytes \<times> bytes) set" where
  "entries cs = (\<lambda>x. (node_key x, node_val x)) ` nodes cs"

definition ht_rep :: "world \<Rightarrow> hash_table \<Rightarrow> node list list \<Rightarrow> bool" where
  "ht_rep w t cs \<longleftrightarrow>
     hashfunc_x86_32 t \<noteq> None \<and> 0 < unat (array_size t) \<and>
     length (arr t) = unat (array_size t) \<and> length cs = unat (array_size t) \<and>
     (\<forall>i < length cs. chain (cells w) (arr t ! i) (cs ! i) \<and> distinct (map node_key (cs ! i)) \<and>
        (\<forall>x \<in> set (cs ! i). ht_idx t w (node_key x) = i))"

lemma ht_idx_bound: "ht_rep w t cs \<Longrightarrow> ht_idx t w k < length cs"
  by (simp add: ht_rep_def ht_idx_def)

lemma ht_index_rep: "ht_rep w t cs \<Longrightarrow> ht_index t w' k = Inr (ht_idx t w' k)"
  by (auto simp: ht_rep_def ht_idx_def ht_index_def unat_mod)

lemma array_at_rep: "ht_rep w t cs \<Longrightarrow> i < length cs \<Longrightarrow> array_at t i = Inr (arr t ! i)"
  by (auto simp: ht_rep_def array_at_def)

lemma bucket_chain:
  assumes "ht_rep w t cs" "i < length cs"
  shows "chain (cells w) (arr t ! i) (cs ! i)" "distinct (map node_key (cs ! i))"
    "\<forall>x \<in> set (cs ! i). ht_idx t w (node_key x) = i"
  using assms by (auto simp: ht_rep_def)

lemma finite_nodes [simp]: "finite (nodes cs)"
  by (simp add: nodes_def)

lemma in_nodes_iff: "x \<in> nodes cs \<longleftrightarrow> (\<exists>i < length cs. x \<in> set (cs ! i))"
proof -
  have "x \<in> nodes cs \<longleftrightarrow> (\<exists>xs \<in> set cs. x \<in> set xs)"
    by (simp add: nodes_def)
  also have "\<dots> \<longleftrightarrow> (\<exists>i < length cs. x \<in> set (cs ! i))"
    by (metis in_set_conv_nth nth_mem)
  finally show ?thesis .
qed

lemma node_in_bucket: "ht_rep w t cs \<Longrightarrow> x \<in> nodes cs \<Longrightarrow> x \<in> set (cs ! ht_idx t w (node_key x))"
  by (auto simp: in_nodes_iff dest: bucket_chain(3))

lemma node_cell: "ht_rep w t cs \<Longrightarrow> x \<in> nodes cs \<Longrightarrow> \<exists>c. cells w (node_addr x) = Some c \<and> is_node c x"
  unfolding in_nodes_iff using chain_cell[OF bucket_chain(1)] by blast

text \<open>A key has one node, and so has an address.\<close>

lemma distinct_map_eq: "distinct (map f xs) \<Longrightarrow> x \<in> set xs \<Longrightarrow> y \<in> set xs \<Longrightarrow> f x = f y \<Longrightarrow> x = y"
  by (auto simp: distinct_map inj_on_def)

lemma node_unique:
  assumes "ht_rep w t cs" "x \<in> nodes cs" "y \<in> nodes cs" "node_key x = node_key y"
  shows "x = y"
proof -
  have "x \<in> set (cs ! ht_idx t w (node_key x))" "y \<in> set (cs ! ht_idx t w (node_key x))"
    using node_in_bucket[OF assms(1,2)] node_in_bucket[OF assms(1,3)] assms(4) by simp_all
  then show ?thesis
    using distinct_map_eq[OF bucket_chain(2)[OF assms(1) ht_idx_bound[OF assms(1)]]] assms(4) by blast
qed

lemma addr_unique:
  assumes "ht_rep w t cs" "x \<in> nodes cs" "y \<in> nodes cs" "node_addr x = node_addr y"
  shows "x = y"
proof -
  have "node_key x = node_key y"
    using node_cell[OF assms(1,2)] node_cell[OF assms(1,3)] assms(4) by (auto simp: is_node_def)
  then show ?thesis
    using node_unique[OF assms(1-3)] by simp
qed

lemma entries_unique:
  assumes "ht_rep w t cs" "(k, v) \<in> entries cs" "(k, v') \<in> entries cs"
  shows "v = v'"
proof -
  obtain x y where "x \<in> nodes cs" "node_key x = k" "node_val x = v" "y \<in> nodes cs" "node_key y = k" "node_val y = v'"
    using assms(2,3) by (auto simp: entries_def)
  then show ?thesis
    using node_unique[OF assms(1), of x y] by auto
qed

lemma ht_get_rep:
  assumes "ht_rep w t cs" "card (nodes cs) \<le> n"
  shows "ht_get n t k w = Inr (find_addr k (cs ! ht_idx t w k))"
proof -
  let ?i = "ht_idx t w k"
  have i: "?i < length cs"
    using assms(1) by (rule ht_idx_bound)
  have "length (cs ! ?i) = card (set (cs ! ?i))"
    using bucket_chain(2)[OF assms(1) i] by (metis distinct_card distinct_map)
  also have "\<dots> \<le> card (nodes cs)"
    using i by (intro card_mono) (auto simp: in_nodes_iff)
  finally show ?thesis
    using get_walk_chain[OF bucket_chain(1)[OF assms(1) i]] assms
    by (simp add: ht_get_def ht_index_rep array_at_rep i)
qed

lemma bucket_length:
  assumes "ht_rep w t cs" "i < length cs"
  shows "length (cs ! i) \<le> card (nodes cs)"
proof -
  have "length (cs ! i) = card (set (cs ! i))"
    using bucket_chain(2)[OF assms] by (metis distinct_card distinct_map)
  also have "\<dots> \<le> card (nodes cs)"
    using assms(2) by (intro card_mono) (auto simp: in_nodes_iff)
  finally show ?thesis .
qed

section \<open>Changing one bucket\<close>

lemma rep_update:
  assumes rep: "ht_rep w t cs" and i: "i < length cs"
    and new: "chain (cells w') (arr t' ! i) xs" "distinct (map node_key xs)" "\<forall>x \<in> set xs. ht_idx t w (node_key x) = i"
    and frame: "length (arr t') = length (arr t)" "\<forall>j < length cs. j \<noteq> i \<longrightarrow> arr t' ! j = arr t ! j"
      "\<forall>x \<in> nodes cs. ht_idx t w (node_key x) \<noteq> i \<longrightarrow> cells w' (node_addr x) = cells w (node_addr x)"
      "hashfunc_x86_32 t' = hashfunc_x86_32 t" "array_size t' = array_size t" "global_seed w' = global_seed w"
  shows "ht_rep w' t' (cs[i := xs])"
proof -
  have idx: "ht_idx t' w' k = ht_idx t w k" for k
    using frame by (simp add: ht_idx_def)
  have "chain (cells w') (arr t' ! j) (cs ! j)" if "j < length cs" "j \<noteq> i" for j
    using that frame(2,3) bucket_chain[OF rep that(1)] by (auto intro!: chain_frame[of "cells w"] simp: in_nodes_iff)
  then show ?thesis
    using rep i new frame bucket_chain[OF rep] by (auto simp: ht_rep_def idx nth_list_update)
qed

lemma bucket_nodes:
  assumes "ht_rep w t cs" "i < length cs"
  shows "set (cs ! i) = {x \<in> nodes cs. ht_idx t w (node_key x) = i}"
  using assms(2) bucket_chain(3)[OF assms] node_in_bucket[OF assms(1)] by (auto simp: in_nodes_iff)

lemma nodes_update:
  assumes "ht_rep w t cs" "i < length cs"
  shows "nodes (cs[i := xs]) = {x \<in> nodes cs. ht_idx t w (node_key x) \<noteq> i} \<union> set xs"
proof -
  have "x \<in> nodes (cs[i := xs]) \<longleftrightarrow> x \<in> set xs \<or> (\<exists>j < length cs. j \<noteq> i \<and> x \<in> set (cs ! j))" for x
  proof -
    have "x \<in> nodes (cs[i := xs]) \<longleftrightarrow> (\<exists>j < length cs. x \<in> set (if j = i then xs else cs ! j))"
      unfolding in_nodes_iff length_list_update
      by (rule ex_cong1, rule conj_cong[OF refl]) (simp add: nth_list_update eq_commute)
    also have "\<dots> \<longleftrightarrow> x \<in> set xs \<or> (\<exists>j < length cs. j \<noteq> i \<and> x \<in> set (cs ! j))"
      using assms(2) by (auto split: if_splits)
    finally show ?thesis .
  qed
  moreover have "(\<exists>j < length cs. j \<noteq> i \<and> x \<in> set (cs ! j)) \<longleftrightarrow> x \<in> nodes cs \<and> ht_idx t w (node_key x) \<noteq> i" for x
    using bucket_chain(3)[OF assms(1)] by (auto simp: in_nodes_iff)
  ultimately show ?thesis
    by auto
qed

lemma nodes_append:
  assumes "ht_rep w t cs" "i < length cs"
  shows "nodes (cs[i := cs ! i @ [x]]) = insert x (nodes cs)"
  unfolding nodes_update[OF assms] using bucket_nodes[OF assms] by auto

section \<open>Inserting a new key\<close>

text \<open>The new entry is linked behind the last one, or starts the chain.\<close>

lemma insert_empty_bucket:
  assumes rep: "ht_rep w t cs" and x: "cells w (node_addr x) = Some c" "is_node c x" "node_addr x \<notin> node_addr ` nodes cs"
    and i: "i = ht_idx t w (node_key x)" "cs ! i = []"
  defines "w' \<equiv> store (node_addr x) (c\<lparr>he_next := None\<rparr>) w"
    and "t' \<equiv> (set_array i (Some (node_addr x)) t)\<lparr>key_count := key_count t + 1\<rparr>"
  shows "ht_insert_he (Suc n) e t (node_addr x) w = Inr (t', w')" "ht_rep w' t' (cs[i := cs ! i @ [x]])"
proof -
  have b: "i < length cs"
    using ht_idx_bound[OF rep] i(1) by simp
  have a: "arr t ! i = None"
    using bucket_chain(1)[OF rep b] i(2) by simp
  have k: "he_key c = node_key x"
    using x(2) by (simp add: is_node_def)
  show "ht_insert_he (Suc n) e t (node_addr x) w = Inr (t', w')"
    using x(1) a b k i(1) ht_index_rep[OF rep] array_at_rep[OF rep b]
    by (simp add: ht_insert_he.simps set_next_def deref_def store_def w'_def t'_def ht_idx_def)
  have ne: "node_addr y \<noteq> node_addr x" if "y \<in> nodes cs" for y
    using x(3) imageI[OF that, of node_addr] by metis
  have la: "length (arr t) = length cs"
    using rep by (simp add: ht_rep_def)
  show "ht_rep w' t' (cs[i := cs ! i @ [x]])"
    by (rule rep_update[OF rep b])
      (use x i b ne la in \<open>auto simp: w'_def t'_def store_def set_array_def is_node_def\<close>)
qed

lemma insert_behind_last:
  assumes rep: "ht_rep w t cs" and x: "cells w (node_addr x) = Some c" "is_node c x" "node_addr x \<notin> node_addr ` nodes cs"
    and i: "i = ht_idx t w (node_key x)" "cs ! i \<noteq> []" and new: "node_key x \<notin> keys_of cs"
    and live: "\<forall>y \<in> nodes cs. live_value e (node_val y)" and fuel: "card (nodes cs) \<le> n"
  defines "t' \<equiv> set_load (t\<lparr>key_count := key_count t + 1, collisions := collisions t + 1\<rparr>)"
  obtains w' where "ht_insert_he (Suc n) e t (node_addr x) w =
      (if needs_resize t'
       then bind_res (resize_with (ht_insert_he n e) n e t' (array_size t' * 2) w') (\<lambda>(t4, w4). Inr (set_load t4, w4))
       else Inr (t', w'))"
    "ht_rep w' t' (cs[i := cs ! i @ [x]])"
    "\<forall>b. b \<notin> node_addr ` nodes cs \<and> b \<noteq> node_addr x \<longrightarrow> cells w' b = cells w b"
    "next_addr w' = next_addr w" "global_seed w' = global_seed w"
proof -
  have b: "i < length cs"
    using ht_idx_bound[OF rep] i(1) by simp
  obtain ys y where ys: "cs ! i = ys @ [y]"
    using i(2) by (meson rev_exhaust)
  have yn: "y \<in> nodes cs" "set ys \<subseteq> nodes cs"
    using bucket_nodes[OF rep b] ys by auto
  obtain d where d: "cells w (node_addr y) = Some d"
    using node_cell[OF rep yn(1)] by auto
  let ?c = "c\<lparr>he_next := None\<rparr>"
  let ?w1 = "(store (node_addr x) ?c w)\<lparr>ticks := ticks w + 1\<rparr>"
  let ?w' = "store (node_addr y) (d\<lparr>he_next := Some (node_addr x)\<rparr>) ?w1"
  have ne: "node_addr z \<noteq> node_addr x" if "z \<in> nodes cs" for z
    using x(3) imageI[OF that, of node_addr] by metis
  have ch: "chain (cells ?w1) (arr t ! i) (cs ! i)"
    using bucket_chain(1)[OF rep b] ne bucket_nodes[OF rep b]
    by (auto intro!: chain_frame[of "cells w"] simp: store_def)
  have k: "he_key c = node_key x" "find_addr (node_key x) (cs ! i) = None"
    using x(2) new bucket_nodes[OF rep b] by (auto simp: is_node_def find_addr_None keys_of_def)
  have walk: "age_walk n (clock e m) i (node_addr x) t ?w1 None None (arr t ! i) =
      Inr (t, ?w1, Some (node_addr y), None)" for m
    using age_walk_live[OF ch, of n e "node_addr x" ?c m i t None None] k bucket_length[OF rep b] fuel live
      bucket_chain(2)[OF rep b] yn ys
    by (auto simp: store_def)
  have nz: "arr t ! i \<noteq> None"
    using ch i(2) by (cases "arr t ! i") auto
  have run: "ht_insert_he (Suc n) e t (node_addr x) w =
      (if needs_resize t'
       then bind_res (resize_with (ht_insert_he n e) n e t' (array_size t' * 2) ?w') (\<lambda>(t4, w4). Inr (set_load t4, w4))
       else Inr (t', ?w'))"
    using x(1) k(1) nz walk[of "ticks w"] d ne[OF yn(1)] b i(1) ht_index_rep[OF rep] array_at_rep[OF rep b]
    by (simp add: ht_insert_he.simps after_walk_def set_next_def deref_def store_def append_entry_def array_at_def ht_idx_def Let_def t'_def
        split: if_splits)
  have rep': "ht_rep ?w' t' (cs[i := cs ! i @ [x]])"
  proof (rule rep_update[OF rep b])
    have "node_addr y \<notin> node_addr ` set ys"
    proof
      assume "node_addr y \<in> node_addr ` set ys"
      then obtain z where "z \<in> set ys" "node_addr z = node_addr y"
        by auto
      then have "z = y"
        using addr_unique[OF rep _ yn(1)] yn(2) by auto
      then show False
        using bucket_chain(2)[OF rep b] ys \<open>z \<in> set ys\<close> by auto
    qed
    moreover have "node_addr x \<notin> node_addr ` set (ys @ [y])"
    proof -
      have "set (ys @ [y]) \<subseteq> nodes cs"
        using yn by simp
      then show ?thesis
        using x(3) by blast
    qed
    moreover have "cells ?w1 (node_addr y) = Some d"
      using d ne[OF yn(1)] by (simp add: store_def)
    ultimately show "chain (cells ?w') (arr t' ! i) (cs ! i @ [x])"
      using chain_snoc[of "cells ?w1" "arr t ! i" ys y x d ?c] ch ys x(2)
      by (simp add: store_def t'_def set_load_def is_node_def)
    show "distinct (map node_key (cs ! i @ [x]))"
      using bucket_chain(2)[OF rep b] k(2) by (simp add: find_addr_None)
    show "\<forall>z \<in> nodes cs. ht_idx t w (node_key z) \<noteq> i \<longrightarrow> cells ?w' (node_addr z) = cells w (node_addr z)"
      using ne addr_unique[OF rep _ yn(1)] bucket_chain(3)[OF rep b] ys by (auto simp: store_def)
  qed (use i bucket_chain(3)[OF rep b] in \<open>auto simp: t'_def set_load_def store_def\<close>)
  show ?thesis
    by (rule that[OF run rep']) (use yn(1) in \<open>auto simp: store_def\<close>)
qed

section \<open>Collisions\<close>

text \<open>The number of keys that share their bucket with an earlier key.\<close>

definition coll :: "('k \<Rightarrow> nat) \<Rightarrow> 'k set \<Rightarrow> nat" where
  "coll f K = card K - card (f ` K)"

lemma coll_insert:
  assumes "finite K" "k \<notin> K"
  shows "coll f (insert k K) = coll f K + (if f k \<in> f ` K then 1 else 0)"
proof -
  have "card (f ` K) \<le> card K"
    using assms(1) by (rule card_image_le)
  then show ?thesis
    using assms by (auto simp: coll_def insert_absorb)
qed

lemma coll_mono:
  assumes "finite L" "K \<subseteq> L"
  shows "coll f K \<le> coll f L"
proof -
  have "coll f K \<le> coll f (K \<union> M)" if "finite M" "finite K" for M
    using that(1)
  proof (induction M rule: finite_induct)
    case (insert x M)
    show ?case
    proof (cases "x \<in> K \<union> M")
      case True
      then show ?thesis
        using insert by (simp add: insert_absorb)
    next
      case False
      then show ?thesis
        using coll_insert[of "K \<union> M" x f] insert that(2) by simp
    qed
  qed simp
  from this[of L] show ?thesis
    using assms by (simp add: finite_subset Un_absorb1)
qed

text \<open>Halving the number of buckets never reduces the collisions.\<close>

lemma coll_coarse: "finite K \<Longrightarrow> \<forall>k \<in> K. g k = h (f k) \<Longrightarrow> coll f K \<le> coll g K"
proof -
  assume f: "finite K" and g: "\<forall>k \<in> K. g k = h (f k)"
  have "g ` K = h ` f ` K"
    using g by (auto simp: image_image)
  then have "card (g ` K) \<le> card (f ` K)"
    using f by (simp add: card_image_le)
  then show "coll f K \<le> coll g K"
    by (simp add: coll_def)
qed

section \<open>One insertion\<close>

definition same_shape :: "hash_table \<Rightarrow> hash_table \<Rightarrow> bool" where
  "same_shape t t' \<longleftrightarrow> hashfunc_x86_32 t' = hashfunc_x86_32 t \<and> array_size t' = array_size t \<and>
     flags t' = flags t \<and> max_load_factor t' = max_load_factor t"

definition within_load :: "hash_table \<Rightarrow> nat \<Rightarrow> bool" where
  "within_load t n \<longleftrightarrow> of_nat n \<le> max_load_factor t * of_nat (unat (array_size t))"

text \<open>What an operation leaves alone: the cells outside \<open>A\<close>, the allocator and the seed.\<close>

definition frame :: "addr set \<Rightarrow> world \<Rightarrow> world \<Rightarrow> bool" where
  "frame A w w' \<longleftrightarrow> (\<forall>b. b \<notin> A \<longrightarrow> cells w' b = cells w b) \<and> next_addr w' = next_addr w \<and> global_seed w' = global_seed w"

lemma same_shape_idx: "same_shape t t' \<Longrightarrow> frame A w w' \<Longrightarrow> ht_idx t' w' = ht_idx t w"
  by (auto simp: same_shape_def frame_def ht_idx_def)

lemma frame_trans: "frame A w w1 \<Longrightarrow> frame B w1 w2 \<Longrightarrow> frame (A \<union> B) w w2"
  by (simp add: frame_def)

lemma frame_mono: "frame A w w' \<Longrightarrow> A \<subseteq> B \<Longrightarrow> frame B w w'"
  by (auto simp: frame_def)

lemma same_shape_trans: "same_shape t t1 \<Longrightarrow> same_shape t1 t2 \<Longrightarrow> same_shape t t2"
  by (simp add: same_shape_def)

lemma no_resize_iff:
  assumes "0 < unat (array_size t)"
  shows "needs_resize (set_load t) \<longleftrightarrow> and (flags t) HT_NO_AUTORESIZE = 0 \<and> \<not> within_load t (unat (collisions t))"
proof -
  have "(0 :: rat) < of_nat (unat (array_size t))"
    using assms by (simp only: of_nat_0_less_iff)
  then show ?thesis
    by (simp add: needs_resize_def set_load_def within_load_def not_le pos_less_divide_eq del: of_nat_unat)
qed

lemma bucket_empty_iff:
  assumes "ht_rep w t cs" "i < length cs"
  shows "cs ! i = [] \<longleftrightarrow> i \<notin> ht_idx t w ` keys_of cs"
proof -
  have "cs ! i = [] \<longleftrightarrow> {x \<in> nodes cs. ht_idx t w (node_key x) = i} = {}"
    using bucket_nodes[OF assms] by (metis set_empty)
  then show ?thesis
    by (auto simp: keys_of_def)
qed

lemma unat_inc: "unat (c :: u32) + 1 < 2 ^ 32 \<Longrightarrow> unat (c + 1) = unat c + 1"
  by (simp add: unat_word_ariths)

lemma insert_step:
  assumes rep: "ht_rep w t cs" and x: "cells w (node_addr x) = Some c" "is_node c x" "node_addr x \<notin> node_addr ` nodes cs"
    and new: "node_key x \<notin> keys_of cs" and live: "\<forall>y \<in> nodes cs. live_value e (node_val y)"
    and fuel: "card (nodes cs) \<le> n"
    and bound: "unat (collisions t) + 1 < 2 ^ 32"
    and load: "ht_idx t w (node_key x) \<in> ht_idx t w ` keys_of cs \<Longrightarrow> within_load t (unat (collisions t) + 1)"
  obtains t' w' cs' where "ht_insert_he (Suc n) e t (node_addr x) w = Inr (t', w')" "ht_rep w' t' cs'"
    "nodes cs' = insert x (nodes cs)" "same_shape t t'" "key_count t' = key_count t + 1"
    "unat (collisions t') = unat (collisions t) + (if ht_idx t w (node_key x) \<in> ht_idx t w ` keys_of cs then 1 else 0)"
    "frame (insert (node_addr x) (node_addr ` nodes cs)) w w'"
proof -
  let ?i = "ht_idx t w (node_key x)"
  have b: "?i < length cs"
    by (rule ht_idx_bound[OF rep])
  show ?thesis
  proof (cases "cs ! ?i = []")
    case True
    show ?thesis
      by (rule that[OF insert_empty_bucket(1)[OF rep x refl True] insert_empty_bucket(2)[OF rep x refl True]])
        (use True nodes_append[OF rep b] bucket_empty_iff[OF rep b] in
          \<open>auto simp: same_shape_def set_array_def frame_def store_def\<close>)
  next
    case False
    let ?t = "set_load (t\<lparr>key_count := key_count t + 1, collisions := collisions t + 1\<rparr>)"
    have in_img: "?i \<in> ht_idx t w ` keys_of cs"
      using False bucket_empty_iff[OF rep b] by simp
    have "\<not> needs_resize ?t"
      using no_resize_iff[of "t\<lparr>key_count := key_count t + 1, collisions := collisions t + 1\<rparr>"] rep load[OF in_img]
        unat_inc[OF bound]
      by (auto simp: ht_rep_def within_load_def)
    moreover obtain w' where w': "ht_insert_he (Suc n) e t (node_addr x) w =
        (if needs_resize ?t
         then bind_res (resize_with (ht_insert_he n e) n e ?t (array_size ?t * 2) w') (\<lambda>(t4, w4). Inr (set_load t4, w4))
         else Inr (?t, w'))"
      "ht_rep w' ?t (cs[?i := cs ! ?i @ [x]])"
      "\<forall>b. b \<notin> node_addr ` nodes cs \<and> b \<noteq> node_addr x \<longrightarrow> cells w' b = cells w b"
      "next_addr w' = next_addr w" "global_seed w' = global_seed w"
      by (rule insert_behind_last[OF rep x refl False new live fuel])
    ultimately show ?thesis
      using nodes_append[OF rep b] in_img unat_inc[OF bound]
      by (intro that[of ?t w' "cs[?i := cs ! ?i @ [x]]"]) (auto simp: frame_def same_shape_def set_load_def)
  qed
qed

end
