(* ===== verification/HashLaws.thy ===== *)
theory HashLaws
  imports HashRep
begin

text \<open>
  The laws of the hash table of the collector: replacing the value of a key, resizing, removal,
  and the properties of the whole component.
\<close>

section \<open>Replacing a value\<close>

lemma insert_old_key:
  assumes rep: "ht_rep w t cs" and x: "cells w (node_addr x) = Some c" "is_node c x" "node_addr x \<notin> node_addr ` nodes cs"
    and old: "node_key x \<in> keys_of cs" and live: "\<forall>y \<in> nodes cs. live_value e (node_val y)"
    and fuel: "card (nodes cs) \<le> n" and mem: "mem_value e"
  obtains w' cs' where "ht_insert_he (Suc n) e t (node_addr x) w = Inr (set_load t, w')" "ht_rep w' (set_load t) cs'"
    "nodes cs' = set_val (node_key x) (node_val x) ` nodes cs"
    "cells w' (node_addr x) = None" "frame (insert (node_addr x) (node_addr ` nodes cs)) w w'"
proof -
  let ?i = "ht_idx t w (node_key x)"
  let ?g = "set_val (node_key x) (node_val x)"
  have b: "?i < length cs"
    by (rule ht_idx_bound[OF rep])
  obtain y where y: "y \<in> nodes cs" "node_key y = node_key x"
    using old by (auto simp: keys_of_def)
  have yi: "y \<in> set (cs ! ?i)"
    using node_in_bucket[OF rep y(1)] y(2) by simp
  have f: "find_addr (node_key x) (cs ! ?i) = Some (node_addr y)"
  proof (cases "find_addr (node_key x) (cs ! ?i)")
    case None
    then show ?thesis
      using imageI[OF yi, of node_key] y(2) by (simp add: find_addr_None)
  next
    case (Some a)
    then obtain z where "z \<in> set (cs ! ?i)" "node_key z = node_key x" "node_addr z = a"
      using find_addr_Some by blast
    then show ?thesis
      using Some node_unique[OF rep _ y(1)] bucket_nodes[OF rep b] y(2) by auto
  qed
  obtain d where d: "cells w (node_addr y) = Some d"
    using node_cell[OF rep y(1)] by auto
  let ?c = "c\<lparr>he_next := None\<rparr>"
  let ?w1 = "(store (node_addr x) ?c w)\<lparr>ticks := ticks w + 1\<rparr>"
  let ?d = "d\<lparr>he_value := Some (node_val x), value_size := length (node_val x)\<rparr>"
  let ?w2 = "store (node_addr y) ?d ?w1"
  let ?w' = "?w2\<lparr>cells := (cells ?w2)(node_addr x := None)\<rparr>"
  have ne: "node_addr z \<noteq> node_addr x" if "z \<in> nodes cs" for z
    using x(3) imageI[OF that, of node_addr] by metis
  have ch: "chain (cells ?w1) (arr t ! ?i) (cs ! ?i)"
    using bucket_chain(1)[OF rep b] ne bucket_nodes[OF rep b]
    by (auto intro!: chain_frame[of "cells w"] simp: store_def)
  have k: "he_key c = node_key x" "he_value c = Some (node_val x)" "value_size c = length (node_val x)"
    using x(2) by (auto simp: is_node_def)
  have walk: "age_walk n (clock e m) ?i (node_addr x) t ?w1 None None (arr t ! ?i) =
      Inr (t, ?w1, Some (node_addr (last (cs ! ?i))), Some (node_addr y))" for m
    using age_walk_live[OF ch, of n e "node_addr x" ?c m ?i t None None] k f bucket_length[OF rep b] fuel live
      bucket_chain(2)[OF rep b] bucket_nodes[OF rep b] yi
    by (auto simp: store_def)
  obtain q where q: "arr t ! ?i = Some q"
    using ch yi by (cases "arr t ! ?i") auto
  have run: "ht_insert_he (Suc n) e t (node_addr x) w = Inr (set_load t, ?w')"
    using x(1) k q walk[of "ticks w"] d ne[OF y(1)] ht_index_rep[OF rep] array_at_rep[OF rep b] mem
    by (simp add: ht_insert_he.simps after_walk_def set_next_def deref_def store_def he_set_value_def he_destroy_def)
  have rep': "ht_rep ?w' (set_load t) (cs[?i := map ?g (cs ! ?i)])"
  proof (rule rep_update[OF rep b])
    have same: "node_addr z = node_addr y \<longleftrightarrow> node_key z = node_key x" if "z \<in> nodes cs" for z
      using addr_unique[OF rep that y(1)] node_unique[OF rep that y(1)] y(2) by auto
    then have "\<forall>z \<in> set (cs ! ?i). node_addr z = node_addr y \<longleftrightarrow> node_key z = node_key x"
      using bucket_nodes[OF rep b] by blast
    from chain_set_value[OF ch _ bucket_chain(2)[OF rep b] this, of d]
    have c1: "chain ((cells ?w1)(node_addr y := Some ?d)) (arr t ! ?i) (map ?g (cs ! ?i))"
      using d ne[OF y(1)] by (simp add: store_def)
    have c2: "cells ?w' (node_addr (?g z)) = ((cells ?w1)(node_addr y := Some ?d)) (node_addr (?g z))"
      if "z \<in> set (cs ! ?i)" for z
      using ne[of z] that bucket_nodes[OF rep b] by (simp add: store_def)
    have "chain (cells ?w') (arr t ! ?i) (map ?g (cs ! ?i))"
      by (rule chain_frame[OF c1]) (use c2 in \<open>unfold set_map, blast\<close>)
    then show "chain (cells ?w') (arr (set_load t) ! ?i) (map ?g (cs ! ?i))"
      by (simp add: set_load_def)
    have "map node_key (map ?g (cs ! ?i)) = map node_key (cs ! ?i)"
      by simp
    then show "distinct (map node_key (map ?g (cs ! ?i)))"
      using bucket_chain(2)[OF rep b] by metis
    show "\<forall>z \<in> nodes cs. ht_idx t w (node_key z) \<noteq> ?i \<longrightarrow> cells ?w' (node_addr z) = cells w (node_addr z)"
    proof (intro ballI impI)
      fix z
      assume "z \<in> nodes cs" "ht_idx t w (node_key z) \<noteq> ?i"
      then have "node_addr z \<noteq> node_addr x" "node_addr z \<noteq> node_addr y"
        using ne same by auto
      then show "cells ?w' (node_addr z) = cells w (node_addr z)"
        by (simp add: store_def)
    qed
  qed (use bucket_chain(3)[OF rep b] in \<open>simp_all add: set_load_def store_def\<close>)
  have "nodes (cs[?i := map ?g (cs ! ?i)]) = ?g ` nodes cs"
  proof -
    have "nodes cs = {z \<in> nodes cs. ht_idx t w (node_key z) \<noteq> ?i} \<union> set (cs ! ?i)"
      using bucket_nodes[OF rep b] by auto
    then have "?g ` nodes cs = ?g ` {z \<in> nodes cs. ht_idx t w (node_key z) \<noteq> ?i} \<union> ?g ` set (cs ! ?i)"
      by (subst image_Un[symmetric]) (rule arg_cong[where f = "image ?g"])
    moreover have "?g ` {z \<in> nodes cs. ht_idx t w (node_key z) \<noteq> ?i} = (\<lambda>z. z) ` {z \<in> nodes cs. ht_idx t w (node_key z) \<noteq> ?i}"
      by (rule image_cong) (auto simp: set_val_def)
    ultimately show ?thesis
      unfolding nodes_update[OF rep b] by simp
  qed
  then show ?thesis
    by (intro that[OF run rep']) (use y(1) in \<open>auto simp: store_def frame_def\<close>)
qed

section \<open>Resizing\<close>

text \<open>Exact counters, as they are in a table that is being filled.\<close>

definition exact :: "world \<Rightarrow> hash_table \<Rightarrow> node list list \<Rightarrow> bool" where
  "exact w t cs \<longleftrightarrow> unat (collisions t) = coll (ht_idx t w) (keys_of cs) \<and> key_count t = of_nat (card (keys_of cs))"

lemma finite_keys [simp]: "finite (keys_of cs)"
  by (simp add: keys_of_def)

lemma coll_le_card: "coll f K \<le> card K"
  by (simp add: coll_def)

lemma card_keys: "ht_rep w t cs \<Longrightarrow> card (keys_of cs) = card (nodes cs)"
  unfolding keys_of_def by (rule card_image) (auto simp: inj_on_def dest: node_unique)

text \<open>
  Moving the entries of a chain \<open>xs\<close> into a table that is large enough for all keys \<open>K\<close>: no
  nested resizing is needed.
\<close>

lemma rehash_chain_ok:
  assumes "ht_rep w t cs" "exact w t cs" "chain (cells w) p xs"
    and "distinct (map node_key xs)" "distinct (map node_addr xs)"
    and "node_key ` set xs \<inter> keys_of cs = {}" "node_addr ` set xs \<inter> node_addr ` nodes cs = {}"
    and "\<forall>y \<in> nodes cs \<union> set xs. live_value e (node_val y)"
    and "finite K" "keys_of cs \<union> node_key ` set xs \<subseteq> K" "within_load t (coll (ht_idx t w) K)"
    and "card K < 2 ^ 31" "card K \<le> n" "length xs \<le> m"
  shows "\<exists>t' w' cs'. rehash_chain (ht_insert_he (Suc n) e) m p t w = Inr (t', w') \<and> ht_rep w' t' cs' \<and> exact w' t' cs' \<and>
    nodes cs' = nodes cs \<union> set xs \<and> same_shape t t' \<and> frame (node_addr ` (nodes cs \<union> set xs)) w w'"
  using assms
proof (induction xs arbitrary: t w cs p m)
  case Nil
  then show ?case
    by (auto simp: same_shape_def frame_def)
next
  case (Cons x xs)
  note rep = Cons.prems(1)
  obtain c m' where c: "p = Some (node_addr x)" "cells w (node_addr x) = Some c" "is_node c x"
    "chain (cells w) (he_next c) xs" "m = Suc m'" "length xs \<le> m'"
    using Cons.prems(3,14) by (cases m) auto
  have kx: "node_key x \<notin> keys_of cs" "node_addr x \<notin> node_addr ` nodes cs"
    using Cons.prems(6,7) by auto
  have sub: "insert (node_key x) (keys_of cs) \<subseteq> K"
    using Cons.prems(10) by auto
  have cl: "coll (ht_idx t w) (insert (node_key x) (keys_of cs)) \<le> coll (ht_idx t w) K"
    by (rule coll_mono[OF Cons.prems(9) sub])
  have ins: "coll (ht_idx t w) (insert (node_key x) (keys_of cs)) = coll (ht_idx t w) (keys_of cs) +
      (if ht_idx t w (node_key x) \<in> ht_idx t w ` keys_of cs then 1 else 0)"
    by (rule coll_insert[OF finite_keys kx(1)])
  have cK: "coll (ht_idx t w) K < 2 ^ 31"
    using coll_le_card[of "ht_idx t w" K] Cons.prems(12) by simp
  have "card (nodes cs) \<le> n"
    using card_keys[OF rep] card_mono[OF Cons.prems(9), of "keys_of cs"] Cons.prems(10,13) by auto
  moreover have "unat (collisions t) + 1 < 2 ^ 32"
    using Cons.prems(2) cl ins cK by (simp add: exact_def)
  moreover have "within_load t (unat (collisions t) + 1)" if "ht_idx t w (node_key x) \<in> ht_idx t w ` keys_of cs"
  proof -
    have "unat (collisions t) + 1 \<le> coll (ht_idx t w) K"
      using that Cons.prems(2) cl ins by (simp add: exact_def)
    then have "(of_nat (unat (collisions t) + 1) :: rat) \<le> of_nat (coll (ht_idx t w) K)"
      by (simp only: of_nat_le_iff)
    then show ?thesis
      using Cons.prems(11) unfolding within_load_def by (rule order_trans)
  qed
  ultimately obtain t1 w1 cs1 where 1: "ht_insert_he (Suc n) e t (node_addr x) w = Inr (t1, w1)" "ht_rep w1 t1 cs1"
    "nodes cs1 = insert x (nodes cs)" "same_shape t t1" "key_count t1 = key_count t + 1"
    "unat (collisions t1) = unat (collisions t) + (if ht_idx t w (node_key x) \<in> ht_idx t w ` keys_of cs then 1 else 0)"
    "frame (insert (node_addr x) (node_addr ` nodes cs)) w w1"
    using insert_step[OF rep c(2,3) kx(2,1)] Cons.prems(8) by (metis UnI1)
  have idx: "ht_idx t1 w1 = ht_idx t w"
    by (rule same_shape_idx[OF 1(4,7)])
  have k1: "keys_of cs1 = insert (node_key x) (keys_of cs)"
    by (simp add: keys_of_def 1(3))
  have ex1: "exact w1 t1 cs1"
    using Cons.prems(2) 1(5,6) ins kx(1) by (simp add: exact_def k1 idx)
  have dx: "node_addr x \<notin> node_addr ` set xs" "node_key x \<notin> node_key ` set xs"
    using Cons.prems(4,5) by auto
  have ch: "chain (cells w1) (he_next c) xs"
  proof (rule chain_frame[OF c(4)])
    show "\<forall>z \<in> set xs. cells w1 (node_addr z) = cells w (node_addr z)"
    proof
      fix z
      assume "z \<in> set xs"
      then have "node_addr z \<in> node_addr ` set xs"
        by simp
      then have "node_addr z \<notin> insert (node_addr x) (node_addr ` nodes cs)"
        using dx(1) Cons.prems(7) by auto
      then show "cells w1 (node_addr z) = cells w (node_addr z)"
        using 1(7) by (simp add: frame_def)
    qed
  qed
  have "\<exists>t' w' cs'. rehash_chain (ht_insert_he (Suc n) e) m' (he_next c) t1 w1 = Inr (t', w') \<and> ht_rep w' t' cs' \<and>
    exact w' t' cs' \<and> nodes cs' = nodes cs1 \<union> set xs \<and> same_shape t1 t' \<and> frame (node_addr ` (nodes cs1 \<union> set xs)) w1 w'"
  proof (rule Cons.IH[OF 1(2) ex1 ch])
    show "node_key ` set xs \<inter> keys_of cs1 = {}" "node_addr ` set xs \<inter> node_addr ` nodes cs1 = {}"
      using dx Cons.prems(6,7) by (auto simp: k1 1(3))
    show "within_load t1 (coll (ht_idx t1 w1) K)"
      using Cons.prems(11) 1(4) by (simp add: idx within_load_def same_shape_def)
  qed (use Cons.prems c(6) k1 1(3) in auto)
  then obtain t' w' cs' where 2: "rehash_chain (ht_insert_he (Suc n) e) m' (he_next c) t1 w1 = Inr (t', w')" "ht_rep w' t' cs'"
    "exact w' t' cs'" "nodes cs' = nodes cs1 \<union> set xs" "same_shape t1 t'" "frame (node_addr ` (nodes cs1 \<union> set xs)) w1 w'"
    by auto
  have "frame (node_addr ` (nodes cs \<union> set (x # xs))) w w'"
    by (rule frame_mono[OF frame_trans[OF 1(7) 2(6)]]) (auto simp: 1(3))
  then show ?case
    using 1(1,3) 2 c same_shape_trans[OF 1(4) 2(5)]
    by (intro exI[of _ t'] exI[of _ w'] exI[of _ cs']) (auto simp: deref_def)
qed

lemma rehash_all_ok:
  assumes "ht_rep w t cs" "exact w t cs" "list_all2 (chain (cells w)) ps xss"
    and "distinct (map node_key (concat xss))" "distinct (map node_addr (concat xss))"
    and "node_key ` nodes xss \<inter> keys_of cs = {}" "node_addr ` nodes xss \<inter> node_addr ` nodes cs = {}"
    and "\<forall>y \<in> nodes cs \<union> nodes xss. live_value e (node_val y)"
    and "finite K" "keys_of cs \<union> node_key ` nodes xss \<subseteq> K" "within_load t (coll (ht_idx t w) K)"
    and "card K < 2 ^ 31" "card K \<le> n" "\<forall>xs \<in> set xss. length xs \<le> m"
  shows "\<exists>t' w' cs'. rehash_all (ht_insert_he (Suc n) e) m ps t w = Inr (t', w') \<and> ht_rep w' t' cs' \<and> exact w' t' cs' \<and>
    nodes cs' = nodes cs \<union> nodes xss \<and> same_shape t t' \<and> frame (node_addr ` (nodes cs \<union> nodes xss)) w w'"
  using assms
proof (induction xss arbitrary: t w cs ps)
  case Nil
  then show ?case
    by (auto simp: same_shape_def frame_def nodes_def)
next
  case (Cons xs xss)
  obtain p ps' where p: "ps = p # ps'" "chain (cells w) p xs" "list_all2 (chain (cells w)) ps' xss"
    using Cons.prems(3) by (cases ps) auto
  have n: "nodes (xs # xss) = set xs \<union> nodes xss"
    by (simp add: nodes_def)
  have dj: "node_key ` set xs \<inter> node_key ` nodes xss = {}" "node_addr ` set xs \<inter> node_addr ` nodes xss = {}"
    using Cons.prems(4,5) by (auto simp: nodes_def)
  have "\<exists>t' w' cs'. rehash_chain (ht_insert_he (Suc n) e) m p t w = Inr (t', w') \<and> ht_rep w' t' cs' \<and> exact w' t' cs' \<and>
    nodes cs' = nodes cs \<union> set xs \<and> same_shape t t' \<and> frame (node_addr ` (nodes cs \<union> set xs)) w w'"
    by (rule rehash_chain_ok[OF Cons.prems(1,2) p(2)]) (use Cons.prems in \<open>auto simp: n\<close>)
  then obtain t1 w1 cs1 where 1: "rehash_chain (ht_insert_he (Suc n) e) m p t w = Inr (t1, w1)" "ht_rep w1 t1 cs1"
    "exact w1 t1 cs1" "nodes cs1 = nodes cs \<union> set xs" "same_shape t t1" "frame (node_addr ` (nodes cs \<union> set xs)) w w1"
    by auto
  have idx: "ht_idx t1 w1 = ht_idx t w"
    by (rule same_shape_idx[OF 1(5,6)])
  have k1: "keys_of cs1 = keys_of cs \<union> node_key ` set xs"
    by (simp add: keys_of_def 1(4) image_Un)
  have out: "cells w1 (node_addr z) = cells w (node_addr z)" if "z \<in> nodes xss" for z
  proof -
    have "node_addr z \<in> node_addr ` nodes xss"
      using that by simp
    then have "node_addr z \<notin> node_addr ` (nodes cs \<union> set xs)"
      using dj(2) Cons.prems(7) by (auto simp: n)
    then show ?thesis
      using 1(6) by (simp add: frame_def)
  qed
  have ch: "list_all2 (chain (cells w1)) ps' xss"
    using p(3) by (rule list.rel_mono_strong) (auto intro!: chain_frame[of "cells w"] out simp: nodes_def)
  have "\<exists>t' w' cs'. rehash_all (ht_insert_he (Suc n) e) m ps' t1 w1 = Inr (t', w') \<and> ht_rep w' t' cs' \<and> exact w' t' cs' \<and>
    nodes cs' = nodes cs1 \<union> nodes xss \<and> same_shape t1 t' \<and> frame (node_addr ` (nodes cs1 \<union> nodes xss)) w1 w'"
  proof (rule Cons.IH[OF 1(2,3) ch])
    show "node_key ` nodes xss \<inter> keys_of cs1 = {}" "node_addr ` nodes xss \<inter> node_addr ` nodes cs1 = {}"
      using dj Cons.prems(6,7) unfolding k1 1(4) n by (auto simp: image_Un)
    show "within_load t1 (coll (ht_idx t1 w1) K)"
      using Cons.prems(11) 1(5) by (simp add: idx within_load_def same_shape_def)
  qed (use Cons.prems k1 1(4) n in auto)
  then obtain t' w' cs' where 2: "rehash_all (ht_insert_he (Suc n) e) m ps' t1 w1 = Inr (t', w')" "ht_rep w' t' cs'"
    "exact w' t' cs'" "nodes cs' = nodes cs1 \<union> nodes xss" "same_shape t1 t'" "frame (node_addr ` (nodes cs1 \<union> nodes xss)) w1 w'"
    by auto
  have "frame (node_addr ` (nodes cs \<union> nodes (xs # xss))) w w'"
    by (rule frame_mono[OF frame_trans[OF 1(6) 2(6)]]) (auto simp: 1(4) n)
  then show ?case
    using 1(1,4) 2 p(1) same_shape_trans[OF 1(5) 2(5)] n
    by (intro exI[of _ t'] exI[of _ w'] exI[of _ cs']) auto
qed

lemma rep_distinct:
  assumes "ht_rep w t cs"
  shows "distinct (map node_key (concat cs))" "distinct (map node_addr (concat cs))"
proof -
  have "distinct (concat (map (map node_key) cs))"
  proof (rule distinct_concat_nth)
    show "\<forall>j < length (map (map node_key) cs). \<forall>i < j. set (map (map node_key) cs ! i) \<inter> set (map (map node_key) cs ! j) = {}"
    proof (intro allI impI)
      fix i j
      assume "j < length (map (map node_key) cs)" "i < j"
      then have "i < length cs" "j < length cs" "i \<noteq> j"
        by auto
      then have "\<forall>k \<in> set (map (map node_key) cs ! i). ht_idx t w k = i" "\<forall>k \<in> set (map (map node_key) cs ! j). ht_idx t w k = j"
        using bucket_chain(3)[OF assms, of i] bucket_chain(3)[OF assms, of j] by auto
      then show "set (map (map node_key) cs ! i) \<inter> set (map (map node_key) cs ! j) = {}"
        using \<open>i \<noteq> j\<close> by (metis disjoint_iff)
    qed
  qed (use bucket_chain(2)[OF assms] in auto)
  then show k: "distinct (map node_key (concat cs))"
    by (simp add: map_concat)
  then have "distinct (concat cs)"
    by (simp add: distinct_map)
  moreover have "inj_on node_addr (set (concat cs))"
    using addr_unique[OF assms] by (auto simp: inj_on_def nodes_def)
  ultimately show "distinct (map node_addr (concat cs))"
    by (simp add: distinct_map)
qed

lemma rep_chains: "ht_rep w t cs \<Longrightarrow> list_all2 (chain (cells w)) (arr t) cs"
  by (auto simp: ht_rep_def list_all2_conv_all_nth)

lemma destroy_empty: "destroy_chains n (replicate k None) w = Inr w"
  by (induction k) auto

lemma rep_empty:
  assumes "hashfunc_x86_32 t \<noteq> None" "0 < unat (array_size t)" "arr t = replicate (unat (array_size t)) None"
  shows "ht_rep w t (replicate (unat (array_size t)) [])" "nodes (replicate (unat (array_size t)) []) = {}"
  using assms by (auto simp: ht_rep_def nodes_def)

text \<open>
  Doubling the array: with twice the buckets there are not more collisions, so the moves stay
  within the load and the table is the old one.
\<close>

lemma resize_ok:
  assumes rep: "ht_rep w t cs" and live: "\<forall>y \<in> nodes cs. live_value e (node_val y)" and mem: "mem_array e"
    and size: "unat (array_size t) * 2 < 2 ^ 32" and fuel: "card (nodes cs) \<le> n" "card (nodes cs) < 2 ^ 31"
    and load: "of_nat (coll (ht_idx t w) (keys_of cs)) \<le> max_load_factor t * of_nat (unat (array_size t) * 2)"
  shows "\<exists>t' w' cs'. resize_with (ht_insert_he (Suc n) e) (Suc n) e t (array_size t * 2) w = Inr (t', w') \<and>
    ht_rep w' t' cs' \<and> exact w' t' cs' \<and> nodes cs' = nodes cs \<and> hashfunc_x86_32 t' = hashfunc_x86_32 t \<and>
    array_size t' = array_size t * 2 \<and> flags t' = flags t \<and> max_load_factor t' = max_load_factor t \<and>
    within_load t' (unat (collisions t')) \<and> frame (node_addr ` nodes cs) w w'"
proof -
  let ?s = "array_size t * 2"
  let ?new = "t\<lparr>array_size := ?s, arr := replicate (unat ?s) None, key_count := 0, collisions := 0\<rparr>"
  let ?e = "replicate (unat ?s) ([] :: node list)"
  have s: "unat ?s = unat (array_size t) * 2" "0 < unat (array_size t)" "hashfunc_x86_32 t \<noteq> None" "arr t \<noteq> []"
    using size rep by (auto simp: unat_word_ariths ht_rep_def)
  have new: "ht_rep w ?new ?e" "nodes ?e = {}"
    using rep_empty(1)[of ?new w] rep_empty(2)[of ?new] s by simp_all
  have ex: "exact w ?new ?e"
    using new(2) by (simp add: exact_def keys_of_def coll_def)
  have idx: "ht_idx t w k = ht_idx ?new w k mod unat (array_size t)" for k
    using s(1) by (simp add: ht_idx_def mod_mod_cancel)
  then have "coll (ht_idx ?new w) (keys_of cs) \<le> coll (ht_idx t w) (keys_of cs)"
    by (intro coll_coarse[where h = "\<lambda>i. i mod unat (array_size t)"]) auto
  then have "(of_nat (coll (ht_idx ?new w) (keys_of cs)) :: rat) \<le> of_nat (coll (ht_idx t w) (keys_of cs))"
    by (simp only: of_nat_le_iff)
  then have load': "within_load ?new (coll (ht_idx ?new w) (keys_of cs))"
    using load s(1) by (simp add: within_load_def del: of_nat_unat)
  have "\<exists>t' w' cs'. rehash_all (ht_insert_he (Suc n) e) (Suc n) (arr t) ?new w = Inr (t', w') \<and> ht_rep w' t' cs' \<and>
    exact w' t' cs' \<and> nodes cs' = nodes ?e \<union> nodes cs \<and> same_shape ?new t' \<and> frame (node_addr ` (nodes ?e \<union> nodes cs)) w w'"
  proof (rule rehash_all_ok[OF new(1) ex rep_chains[OF rep] rep_distinct[OF rep]])
    show "\<forall>xs \<in> set cs. length xs \<le> Suc n"
      using bucket_length[OF rep] fuel(1) by (metis in_set_conv_nth le_SucI order_trans)
    show "keys_of ?e \<union> node_key ` nodes cs \<subseteq> keys_of cs"
      using new(2) by (simp add: keys_of_def)
  qed (use new(2) live load' fuel card_keys[OF rep] in \<open>simp_all add: keys_of_def\<close>)
  then obtain t' w' cs' where r: "rehash_all (ht_insert_he (Suc n) e) (Suc n) (arr t) ?new w = Inr (t', w')"
    "ht_rep w' t' cs'" "exact w' t' cs'" "nodes cs' = nodes cs" "same_shape ?new t'" "frame (node_addr ` nodes cs) w w'"
    using new(2) by auto
  let ?t = "t\<lparr>hashfunc_x86_32 := hashfunc_x86_32 t', array_size := array_size t', key_count := key_count t',
              collisions := collisions t', arr := arr t'\<rparr>"
  have "resize_with (ht_insert_he (Suc n) e) (Suc n) e t ?s w = Inr (?t, w')"
    using r(1) mem s(4) by (simp add: resize_with_def Let_def ht_destroy_def destroy_empty)
  moreover have "ht_idx ?t w' = ht_idx t' w'"
    by (rule ext) (simp add: ht_idx_def)
  then have "ht_rep w' ?t cs'" "exact w' ?t cs'"
    using r(2,3) by (simp_all add: ht_rep_def exact_def)
  moreover have "within_load ?t (unat (collisions ?t))"
    using load' r(3-5) same_shape_idx[OF r(5,6)]
    by (simp add: exact_def keys_of_def within_load_def same_shape_def del: of_nat_unat)
  ultimately show ?thesis
    using r(4-6) by (intro exI[of _ ?t] exI[of _ w'] exI[of _ cs']) (auto simp: same_shape_def)
qed

section \<open>The table as a map\<close>

definition ht_valid :: "ht_env \<Rightarrow> world \<Rightarrow> hash_table \<Rightarrow> node list list \<Rightarrow> bool" where
  "ht_valid e w t cs \<longleftrightarrow>
     ht_rep w t cs \<and> (\<forall>x \<in> nodes cs. live_value e (node_val x)) \<and> key_count t = of_nat (card (keys_of cs)) \<and>
     coll (ht_idx t w) (keys_of cs) \<le> unat (collisions t) \<and> within_load t (unat (collisions t)) \<and>
     and (flags t) HT_NO_AUTORESIZE = 0 \<and> 0 \<le> max_load_factor t \<and> max_load_factor t \<le> 1 \<and>
     1 \<le> max_load_factor t * of_nat (unat (array_size t)) \<and> (\<forall>a \<ge> next_addr w. cells w a = None)"

lemma valid_rep [simp]: "ht_valid e w t cs \<Longrightarrow> ht_rep w t cs"
  by (simp add: ht_valid_def)

lemma valid_collisions:
  assumes "ht_valid e w t cs"
  shows "unat (collisions t) \<le> unat (array_size t)"
proof -
  have "(of_nat (unat (collisions t)) :: rat) \<le> max_load_factor t * of_nat (unat (array_size t))"
    using assms by (simp add: ht_valid_def within_load_def del: of_nat_unat)
  also have "\<dots> \<le> 1 * of_nat (unat (array_size t))"
    using assms by (intro mult_right_mono) (auto simp: ht_valid_def simp del: of_nat_unat)
  finally show ?thesis
    by (simp only: mult_1 of_nat_le_iff)
qed

lemma rep_frame:
  assumes "ht_rep w t cs" "\<forall>x \<in> nodes cs. cells w' (node_addr x) = cells w (node_addr x)" "global_seed w' = global_seed w"
  shows "ht_rep w' t cs"
proof -
  have "chain (cells w') (arr t ! i) (cs ! i)" if "i < length cs" for i
    by (rule chain_frame[OF bucket_chain(1)[OF assms(1) that]]) (use assms(2) bucket_nodes[OF assms(1) that] in blast)
  moreover have "ht_idx t w' = ht_idx t w"
    using assms(3) by (auto simp: ht_idx_def)
  ultimately show ?thesis
    using assms(1) by (simp add: ht_rep_def)
qed

text \<open>The counters and the load after a new key, whether or not the table is doubled.\<close>

lemma fresh_frame:
  assumes "\<forall>a \<ge> next_addr w. cells w a = None" "frame A w w'" "\<forall>a \<in> A. cells w a \<noteq> None"
  shows "\<forall>a \<ge> next_addr w'. cells w' a = None"
  using assms by (metis frame_def)

lemma nodes_alive: "ht_rep w t cs \<Longrightarrow> \<forall>a \<in> node_addr ` nodes cs. cells w a \<noteq> None"
  using node_cell by blast

lemma validD:
  assumes "ht_valid e w t cs"
  shows "\<forall>y \<in> nodes cs. live_value e (node_val y)" "key_count t = of_nat (card (keys_of cs))"
    "coll (ht_idx t w) (keys_of cs) \<le> unat (collisions t)" "within_load t (unat (collisions t))"
    "and (flags t) HT_NO_AUTORESIZE = 0" "0 \<le> max_load_factor t" "max_load_factor t \<le> 1"
    "1 \<le> max_load_factor t * of_nat (unat (array_size t))" "\<forall>a \<ge> next_addr w. cells w a = None"
  using assms by (simp_all add: ht_valid_def)

lemma insert_new_plain:
  assumes v: "ht_valid e w t cs" and x: "cells w (node_addr x) = Some c" "is_node c x" "node_addr x \<notin> node_addr ` nodes cs"
    and live: "live_value e (node_val x)" and new: "node_key x \<notin> keys_of cs"
    and size: "unat (array_size t) < 2 ^ 30"
    and ld: "ht_idx t w (node_key x) \<in> ht_idx t w ` keys_of cs \<Longrightarrow> within_load t (unat (collisions t) + 1)"
    and fuel: "card (nodes cs) \<le> n"
  shows "\<exists>t' w' cs'. ht_insert_he (Suc n) e t (node_addr x) w = Inr (t', w') \<and> ht_valid e w' t' cs' \<and>
    nodes cs' = insert x (nodes cs)"
proof -
  let ?i = "ht_idx t w (node_key x)"
  note rep = valid_rep[OF v] and old = validD[OF v]
  have bound: "unat (collisions t) + 1 < 2 ^ 32"
    using valid_collisions[OF v] size by simp
  obtain t' w' cs' where 1: "ht_insert_he (Suc n) e t (node_addr x) w = Inr (t', w')" "ht_rep w' t' cs'"
    "nodes cs' = insert x (nodes cs)" "same_shape t t'" "key_count t' = key_count t + 1"
    "unat (collisions t') = unat (collisions t) + (if ?i \<in> ht_idx t w ` keys_of cs then 1 else 0)"
    "frame (insert (node_addr x) (node_addr ` nodes cs)) w w'"
    by (rule insert_step[OF rep x new old(1) fuel bound ld])
  have k: "keys_of cs' = insert (node_key x) (keys_of cs)"
    by (simp add: keys_of_def 1(3))
  have idx: "ht_idx t' w' = ht_idx t w"
    by (rule same_shape_idx[OF 1(4,7)])
  have "\<forall>a \<ge> next_addr w'. cells w' a = None"
    by (rule fresh_frame[OF old(9) 1(7)]) (use nodes_alive[OF rep] x(1) in simp)
  moreover have "within_load t' (unat (collisions t'))"
  proof (cases "?i \<in> ht_idx t w ` keys_of cs")
    case True
    then show ?thesis
      using ld 1(4,6) by (simp add: within_load_def same_shape_def del: of_nat_unat)
  next
    case False
    then show ?thesis
      using old(4) 1(4,6) by (simp add: within_load_def same_shape_def del: of_nat_unat)
  qed
  moreover have "coll (ht_idx t' w') (keys_of cs') \<le> unat (collisions t')"
    using coll_insert[OF finite_keys new, of "ht_idx t w"] old(3) 1(6) by (simp add: idx k)
  moreover have "key_count t' = of_nat (card (keys_of cs'))"
    using old(2) 1(5) new by (simp add: k)
  moreover have "\<forall>y \<in> nodes cs'. live_value e (node_val y)"
    using old(1) live by (simp add: 1(3))
  ultimately have "ht_valid e w' t' cs'"
    using 1(2,4) old(5-8) by (simp add: ht_valid_def same_shape_def del: of_nat_unat)
  then show ?thesis
    using 1 by blast
qed

lemma insert_new_resize:
  assumes v: "ht_valid e w t cs" and x: "cells w (node_addr x) = Some c" "is_node c x" "node_addr x \<notin> node_addr ` nodes cs"
    and live: "live_value e (node_val x)" and new: "node_key x \<notin> keys_of cs"
    and size: "unat (array_size t) < 2 ^ 30"
    and full: "ht_idx t w (node_key x) \<in> ht_idx t w ` keys_of cs" "\<not> within_load t (unat (collisions t) + 1)"
    and mem: "mem_array e" and fuel: "card (nodes cs) < n" "card (nodes cs) + 1 < 2 ^ 31"
  shows "\<exists>t' w' cs'. ht_insert_he (Suc (Suc n)) e t (node_addr x) w = Inr (t', w') \<and> ht_valid e w' t' cs' \<and>
    nodes cs' = insert x (nodes cs)"
proof -
  let ?i = "ht_idx t w (node_key x)"
  note rep = valid_rep[OF v] and old = validD[OF v]
  have bound: "unat (collisions t) + 1 < 2 ^ 32"
    using valid_collisions[OF v] size by simp
  have b: "?i < length cs" and ne: "cs ! ?i \<noteq> []"
    using ht_idx_bound[OF rep] bucket_empty_iff[OF rep] full(1) by auto
  let ?u = "t\<lparr>key_count := key_count t + 1, collisions := collisions t + 1\<rparr>"
  let ?t = "set_load ?u"
  let ?cs = "cs[?i := cs ! ?i @ [x]]"
  have le: "card (nodes cs) \<le> Suc n"
    using fuel(1) by simp
  obtain w1 where 1: "ht_insert_he (Suc (Suc n)) e t (node_addr x) w =
      (if needs_resize ?t
       then bind_res (resize_with (ht_insert_he (Suc n) e) (Suc n) e ?t (array_size ?t * 2) w1) (\<lambda>(t4, w4). Inr (set_load t4, w4))
       else Inr (?t, w1))"
    "ht_rep w1 ?t ?cs" "\<forall>b. b \<notin> node_addr ` nodes cs \<and> b \<noteq> node_addr x \<longrightarrow> cells w1 b = cells w b"
    "next_addr w1 = next_addr w" "global_seed w1 = global_seed w"
    by (rule insert_behind_last[OF rep x refl ne new old(1) le])
  have n1: "nodes ?cs = insert x (nodes cs)" "keys_of ?cs = insert (node_key x) (keys_of cs)"
    using nodes_append[OF rep b] by (simp_all add: keys_of_def)
  have fr: "frame (insert (node_addr x) (node_addr ` nodes cs)) w w1"
    using 1(3-5) by (simp add: frame_def)
  have need: "needs_resize ?t"
    using no_resize_iff[of ?u] old(5) full(2) rep unat_inc[OF bound]
    by (simp add: within_load_def ht_rep_def del: of_nat_unat)
  have idx: "ht_idx ?t w1 = ht_idx t w"
    using same_shape_idx[OF _ fr, of t ?t] by (simp add: same_shape_def set_load_def)
  have "coll (ht_idx ?t w1) (keys_of ?cs) \<le> unat (collisions t) + 1"
    using coll_insert[OF finite_keys new, of "ht_idx t w"] old(3) by (simp add: idx n1(2))
  then have "(of_nat (coll (ht_idx ?t w1) (keys_of ?cs)) :: rat) \<le> of_nat (unat (collisions t) + 1)"
    by (simp only: of_nat_le_iff)
  also have "\<dots> \<le> max_load_factor t * of_nat (unat (array_size t)) + 1"
    using old(4) by (simp add: within_load_def del: of_nat_unat)
  also have "\<dots> \<le> max_load_factor ?t * of_nat (unat (array_size ?t) * 2)"
    using old(8) by (simp add: set_load_def algebra_simps del: of_nat_unat)
  finally have load: "of_nat (coll (ht_idx ?t w1) (keys_of ?cs)) \<le> max_load_factor ?t * of_nat (unat (array_size ?t) * 2)" .
  have cd: "card (nodes ?cs) \<le> n" "card (nodes ?cs) < 2 ^ 31"
    using fuel unfolding n1(1) by (auto simp: card_insert_if)
  have "\<exists>t' w' cs'. resize_with (ht_insert_he (Suc n) e) (Suc n) e ?t (array_size ?t * 2) w1 = Inr (t', w') \<and>
    ht_rep w' t' cs' \<and> exact w' t' cs' \<and> nodes cs' = nodes ?cs \<and> hashfunc_x86_32 t' = hashfunc_x86_32 ?t \<and>
    array_size t' = array_size ?t * 2 \<and> flags t' = flags ?t \<and> max_load_factor t' = max_load_factor ?t \<and>
    within_load t' (unat (collisions t')) \<and> frame (node_addr ` nodes ?cs) w1 w'"
    by (rule resize_ok[OF 1(2) _ mem _ cd load]) (use live old(1) size in \<open>simp_all add: n1(1) set_load_def\<close>)
  then obtain t' w' cs' where 2: "resize_with (ht_insert_he (Suc n) e) (Suc n) e ?t (array_size ?t * 2) w1 = Inr (t', w')"
    "ht_rep w' t' cs'" "exact w' t' cs'" "nodes cs' = insert x (nodes cs)" "array_size t' = array_size t * 2"
    "flags t' = flags t" "max_load_factor t' = max_load_factor t" "within_load t' (unat (collisions t'))"
    "frame (insert (node_addr x) (node_addr ` nodes cs)) w1 w'"
    unfolding n1(1) by (auto simp: set_load_def)
  have "unat (array_size t * 2) = unat (array_size t) * 2"
    using size by (simp add: unat_word_ariths)
  then have "1 \<le> max_load_factor t * of_nat (unat (array_size t * 2))"
    using old(8) by (simp del: of_nat_unat)
  moreover have "\<forall>a \<ge> next_addr w'. cells w' a = None"
    by (rule fresh_frame[OF old(9) frame_trans[OF fr 2(9)]]) (use nodes_alive[OF rep] x(1) in simp)
  moreover have "ht_idx (set_load t') w' = ht_idx t' w'"
    by (rule ext) (simp add: ht_idx_def set_load_def)
  moreover have "ht_rep w' (set_load t') cs'"
    using 2(2) calculation(3) by (simp add: ht_rep_def set_load_def)
  moreover have "\<forall>y \<in> nodes cs'. live_value e (node_val y)"
    using old(1) live by (simp add: 2(4))
  ultimately have "ht_valid e w' (set_load t') cs'"
    using 2(3,5-8) old(5-7)
    by (simp add: ht_valid_def exact_def set_load_def within_load_def del: of_nat_unat)
  then show ?thesis
    using 1(1) need 2(1,4) by auto
qed

end
