(* ===== verification/HashMap.thy ===== *)
theory HashMap
  imports HashLaws
begin

text \<open>
  The hash table as the interface its client relies on: a finite map with an insertion, a
  lookup and a removal that never fail while no entry is over age. The locale \<open>byte_map\<close> states
  the interface, and its interpretation discharges the laws for \<^verbatim>\<open>hashtable.c\<close>.
\<close>

section \<open>The interface\<close>

locale byte_map =
  fixes put :: "'s \<Rightarrow> bytes \<Rightarrow> bytes \<Rightarrow> 's res"
    and get :: "'s \<Rightarrow> bytes \<Rightarrow> bytes option res"
    and del :: "'s \<Rightarrow> bytes \<Rightarrow> 's res"
    and contents :: "'s \<Rightarrow> bytes \<Rightarrow> bytes option"
    and valid :: "'s \<Rightarrow> bool"
    and room :: "'s \<Rightarrow> bool"
    and good :: "bytes \<Rightarrow> bool"
  assumes get_ok: "valid s \<Longrightarrow> get s k = Inr (contents s k)"
    and put_ok: "valid s \<Longrightarrow> room s \<Longrightarrow> good v \<Longrightarrow>
      \<exists>s'. put s k v = Inr s' \<and> valid s' \<and> contents s' = (contents s)(k \<mapsto> v)"
    and del_ok: "valid s \<Longrightarrow> \<exists>s'. del s k = Inr s' \<and> valid s' \<and> contents s' = (contents s)(k := None)"
begin

lemma put_get:
  "valid s \<Longrightarrow> room s \<Longrightarrow> good v \<Longrightarrow>
   \<exists>s'. put s k v = Inr s' \<and> valid s' \<and> get s' k = Inr (Some v) \<and> (\<forall>j. j \<noteq> k \<longrightarrow> get s' j = get s j)"
  using put_ok[of s v k] get_ok by fastforce

lemma put_del:
  "valid s \<Longrightarrow> room s \<Longrightarrow> good v \<Longrightarrow> contents s k = None \<Longrightarrow>
   \<exists>s1 s2. put s k v = Inr s1 \<and> del s1 k = Inr s2 \<and> valid s2 \<and> contents s2 = contents s"
  using put_ok[of s v k] del_ok[of _ k] by (metis fun_upd_triv fun_upd_upd)

end

section \<open>Lookup\<close>

definition ht_lookup :: "nat \<Rightarrow> hash_table \<Rightarrow> bytes \<Rightarrow> world \<Rightarrow> bytes option res" where
  "ht_lookup n t k w =
     bind_res (ht_get n t k w) (\<lambda>r.
       case r of None \<Rightarrow> Inr None | Some a \<Rightarrow> bind_res (deref w a) (\<lambda>c. Inr (he_value c)))"

definition ht_map :: "nat \<Rightarrow> hash_table \<times> world \<Rightarrow> bytes \<Rightarrow> bytes option" where
  "ht_map n s k = (case ht_lookup n (fst s) k (snd s) of Inr r \<Rightarrow> r | Inl _ \<Rightarrow> None)"

lemma keys_of_entries: "keys_of cs = fst ` entries cs"
  by (simp add: keys_of_def entries_def image_image)

lemma lookup_rep:
  assumes "ht_rep w t cs" "card (nodes cs) \<le> n"
  shows "k \<notin> keys_of cs \<Longrightarrow> ht_lookup n t k w = Inr None"
    and "(k, v) \<in> entries cs \<Longrightarrow> ht_lookup n t k w = Inr (Some v)"
proof -
  let ?i = "ht_idx t w k"
  have b: "?i < length cs"
    by (rule ht_idx_bound[OF assms(1)])
  note get = ht_get_rep[OF assms, of k]
  show "ht_lookup n t k w = Inr None" if "k \<notin> keys_of cs"
  proof -
    have "find_addr k (cs ! ?i) = None"
      using that bucket_nodes[OF assms(1) b] by (auto simp: find_addr_None keys_of_def)
    then show ?thesis
      using get by (simp add: ht_lookup_def)
  qed
  show "ht_lookup n t k w = Inr (Some v)" if e: "(k, v) \<in> entries cs"
  proof -
    obtain x where x: "x \<in> nodes cs" "node_key x = k" "node_val x = v"
      using e by (auto simp: entries_def)
    have "find_addr k (cs ! ?i) \<noteq> None"
      using node_in_bucket[OF assms(1) x(1)] x(2) by (auto simp: find_addr_None)
    then obtain a where a: "find_addr k (cs ! ?i) = Some a"
      by blast
    obtain y where "y \<in> set (cs ! ?i)" "node_key y = k" "node_addr y = a"
      using find_addr_Some[OF a] by blast
    then have "node_addr x = a"
      using node_unique[OF assms(1) x(1)] bucket_nodes[OF assms(1) b] x(2) by auto
    then show ?thesis
      using get a node_cell[OF assms(1) x(1)] x(3) by (auto simp: ht_lookup_def deref_def is_node_def)
  qed
qed

lemma ht_map_rep:
  assumes "ht_rep w t cs" "card (nodes cs) \<le> n"
  shows "ht_lookup n t k w = Inr (ht_map n (t, w) k)" "ht_map n (t, w) k = Some v \<longleftrightarrow> (k, v) \<in> entries cs"
proof -
  show "ht_lookup n t k w = Inr (ht_map n (t, w) k)"
    using lookup_rep[OF assms] by (cases "k \<in> keys_of cs") (auto simp: ht_map_def keys_of_entries)
  show "ht_map n (t, w) k = Some v \<longleftrightarrow> (k, v) \<in> entries cs"
    using lookup_rep[OF assms] by (cases "k \<in> keys_of cs") (force simp: ht_map_def keys_of_entries)+
qed

lemma ht_map_eqI:
  assumes "ht_rep w t cs" "card (nodes cs) \<le> n" "\<And>k v. (k, v) \<in> entries cs \<longleftrightarrow> m k = Some v"
  shows "ht_map n (t, w) = m"
proof
  fix k
  show "ht_map n (t, w) k = m k"
    using ht_map_rep(2)[OF assms(1,2), of k] assms(3)[of k] by (cases "m k"; cases "ht_map n (t, w) k") auto
qed

section \<open>Insertion\<close>

lemma insert_old_valid:
  assumes v: "ht_valid e w t cs" and x: "cells w (node_addr x) = Some c" "is_node c x" "node_addr x \<notin> node_addr ` nodes cs"
    and live: "live_value e (node_val x)" and old: "node_key x \<in> keys_of cs" and mem: "mem_value e"
    and fuel: "card (nodes cs) \<le> n"
  shows "\<exists>t' w' cs'. ht_insert_he (Suc n) e t (node_addr x) w = Inr (t', w') \<and> ht_valid e w' t' cs' \<and>
    nodes cs' = set_val (node_key x) (node_val x) ` nodes cs"
proof -
  note rep = valid_rep[OF v] and val = validD[OF v]
  obtain w' cs' where 1: "ht_insert_he (Suc n) e t (node_addr x) w = Inr (set_load t, w')" "ht_rep w' (set_load t) cs'"
    "nodes cs' = set_val (node_key x) (node_val x) ` nodes cs"
    "cells w' (node_addr x) = None" "frame (insert (node_addr x) (node_addr ` nodes cs)) w w'"
    by (rule insert_old_key[OF rep x old val(1) fuel mem])
  have k: "keys_of cs' = keys_of cs"
    by (simp add: keys_of_def 1(3) image_image)
  have idx: "ht_idx (set_load t) w' = ht_idx t w"
    using same_shape_idx[OF _ 1(5), of t "set_load t"] by (simp add: same_shape_def set_load_def)
  have "\<forall>a \<ge> next_addr w'. cells w' a = None"
    by (rule fresh_frame[OF val(9) 1(5)]) (use nodes_alive[OF rep] x(1) in simp)
  moreover have "\<forall>y \<in> nodes cs'. live_value e (node_val y)"
    using val(1) live by (auto simp: 1(3))
  ultimately have "ht_valid e w' (set_load t) cs'"
    using 1(2) val by (simp add: ht_valid_def k idx) (simp add: set_load_def within_load_def)
  then show ?thesis
    using 1 by blast
qed

lemma he_create_valid:
  assumes v: "ht_valid e w t cs" and mem: "mem_entry e"
  obtains a c w1 where "he_create e k v w = (Some a, w1)" "cells w1 a = Some c" "is_node c (Node a k v)"
    "a \<notin> node_addr ` nodes cs" "ht_valid e w1 t cs"
proof -
  let ?a = "next_addr w"
  let ?c = "\<lparr>he_key = k, he_value = Some v, value_size = length v, he_next = None\<rparr>"
  let ?w = "store ?a ?c (w\<lparr>next_addr := ?a + 1\<rparr>)"
  have a: "?a \<notin> node_addr ` nodes cs"
    using nodes_alive[OF valid_rep[OF v]] validD(9)[OF v] by (metis order_refl)
  have "ht_rep ?w t cs"
  proof (rule rep_frame[OF valid_rep[OF v]])
    have "node_addr y \<noteq> ?a" if "y \<in> nodes cs" for y
      using a imageI[OF that, of node_addr] by metis
    then show "\<forall>x \<in> nodes cs. cells ?w (node_addr x) = cells w (node_addr x)"
      by (simp add: store_def)
  qed (simp add: store_def)
  moreover have "ht_idx t ?w = ht_idx t w"
    by (rule ext) (simp add: ht_idx_def store_def)
  ultimately have "ht_valid e ?w t cs"
    using validD[OF v] by (simp add: ht_valid_def) (auto simp: store_def)
  then show ?thesis
    using mem a by (intro that[of ?a ?w ?c]) (auto simp: he_create_def Let_def store_def is_node_def)
qed

lemma ht_insert_valid:
  assumes v: "ht_valid e w t cs" and mem: "mem_entry e" "mem_value e" "mem_array e" and live: "live_value e v"
    and size: "unat (array_size t) < 2 ^ 30" and fuel: "card (nodes cs) + 3 \<le> n" "card (nodes cs) + 1 < 2 ^ 31"
  shows "\<exists>t' w' cs'. ht_insert n e t k v w = Inr (t', w') \<and> ht_valid e w' t' cs' \<and>
    entries cs' = insert (k, v) {p \<in> entries cs. fst p \<noteq> k} \<and> card (nodes cs') \<le> card (nodes cs) + 1"
proof -
  obtain a c w1 where c: "he_create e k v w = (Some a, w1)" "cells w1 a = Some c" "is_node c (Node a k v)"
    "a \<notin> node_addr ` nodes cs" "ht_valid e w1 t cs"
    by (rule he_create_valid[OF v mem(1)])
  obtain m where m: "n = Suc (Suc m)" "card (nodes cs) < m"
    using fuel(1) by (intro that[of "n - 2"]) auto
  let ?x = "Node a k v"
  show ?thesis
  proof (cases "k \<in> keys_of cs")
    case True
    have fl: "card (nodes cs) \<le> Suc m"
      using m(2) by simp
    obtain t' w' cs' where 1: "ht_insert_he n e t a w1 = Inr (t', w')" "ht_valid e w' t' cs'" "nodes cs' = set_val k v ` nodes cs"
      using insert_old_valid[OF c(5), of ?x c "Suc m"] c(2-4) live True mem(2) fl unfolding m(1) node.sel by blast
    have "entries cs' = insert (k, v) {p \<in> entries cs. fst p \<noteq> k}"
      using True by (auto simp: entries_def 1(3) image_image keys_of_def split: if_splits)
    then show ?thesis
      using 1 c(1) card_image_le[of "nodes cs" "set_val k v"] by (auto simp: ht_insert_def)
  next
    case False
    have "\<exists>t' w' cs'. ht_insert_he n e t a w1 = Inr (t', w') \<and> ht_valid e w' t' cs' \<and> nodes cs' = insert ?x (nodes cs)"
    proof (cases "ht_idx t w1 k \<in> ht_idx t w1 ` keys_of cs \<and> \<not> within_load t (unat (collisions t) + 1)")
      case True
      then show ?thesis
        using insert_new_resize[OF c(5), of ?x c m] c(2-4) live False size mem(3) m fuel(2) by simp
    next
      case nr: False
      have fl: "card (nodes cs) \<le> Suc m"
        using m(2) by simp
      show ?thesis
        using insert_new_plain[OF c(5), of ?x c "Suc m"] c(2-4) live False size nr fl unfolding m(1) by simp
    qed
    then obtain t' w' cs' where 1: "ht_insert_he n e t a w1 = Inr (t', w')" "ht_valid e w' t' cs'" "nodes cs' = insert ?x (nodes cs)"
      by blast
    have "{p \<in> entries cs. fst p \<noteq> k} = entries cs"
      using False by (auto simp: keys_of_entries)
    then have "entries cs' = insert (k, v) {p \<in> entries cs. fst p \<noteq> k}"
      by (simp add: entries_def 1(3))
    then show ?thesis
      using 1 c(1) by (auto simp: ht_insert_def card_insert_if)
  qed
qed

section \<open>Removal\<close>

lemma remove_walk_skip:
  assumes "chain (cells w) p (us @ zs)" "k \<notin> node_key ` set us" "length us \<le> n"
  shows "\<exists>q. chain (cells w) q zs \<and> (us = [] \<longrightarrow> q = p) \<and> remove_walk n i k t w prev p =
    remove_walk (n - length us) i k t w (if us = [] then prev else Some (node_addr (last us))) q"
  using assms
proof (induction us arbitrary: p n prev)
  case (Cons u us)
  then obtain c m where c: "p = Some (node_addr u)" "cells w (node_addr u) = Some c" "is_node c u"
    "chain (cells w) (he_next c) (us @ zs)" "n = Suc m"
    by (cases n) auto
  then show ?case
    using Cons.IH[of "he_next c" m "Some (node_addr u)"] Cons.prems
    by (auto simp: deref_def key_compare_iff probe_entry_def is_node_def)
qed auto

lemma remove_miss:
  assumes "chain (cells w) p xs" "k \<notin> node_key ` set xs" "length xs \<le> n"
  shows "remove_walk n i k t w prev p = Inr (t, w)"
  using remove_walk_skip[of w p xs "[]" k n i t prev] assms by auto

lemma bucket_addrs:
  assumes "ht_rep w t cs" "i < length cs"
  shows "distinct (map node_addr (cs ! i))"
proof -
  have "inj_on node_addr (nodes cs)"
    using addr_unique[OF assms(1)] by (rule inj_onI)
  then have "inj_on node_addr (set (cs ! i))"
    by (rule inj_on_subset) (use bucket_nodes[OF assms] in blast)
  moreover have "distinct (cs ! i)"
    using bucket_chain(2)[OF assms] by (simp add: distinct_map)
  ultimately show ?thesis
    by (simp add: distinct_map)
qed

text \<open>Unlinking the node \<open>x\<close> of a bucket, at its head or behind another node.\<close>

lemma remove_hit:
  assumes rep: "ht_rep w t cs" and b: "i < length cs" and xs: "cs ! i = us @ x # vs" and fuel: "length (cs ! i) \<le> n"
  shows "\<exists>t' w'. remove_walk n i (node_key x) t w None (arr t ! i) = Inr (t', w') \<and> ht_rep w' t' (cs[i := us @ vs]) \<and>
    same_shape t t' \<and> key_count t' = key_count t - 1 \<and> collisions t' = (if us = [] then collisions t else collisions t - 1) \<and>
    frame (node_addr ` nodes cs) w w' \<and> cells w' (node_addr x) = None"
proof -
  note ch = bucket_chain[OF rep b]
  have nk: "node_key x \<notin> node_key ` set us" "distinct (map node_key (us @ vs))"
    using ch(2) xs by auto
  have xn: "x \<in> nodes cs" "set us \<subseteq> nodes cs" "set vs \<subseteq> nodes cs"
    using bucket_nodes[OF rep b] xs by auto
  have len: "length us \<le> n"
    using fuel xs by simp
  have chx: "chain (cells w) (arr t ! i) (us @ x # vs)"
    using ch(1) xs by simp
  obtain q where q: "chain (cells w) q (x # vs)" "us = [] \<longrightarrow> q = arr t ! i"
    "remove_walk n i (node_key x) t w None (arr t ! i) =
       remove_walk (n - length us) i (node_key x) t w (if us = [] then None else Some (node_addr (last us))) q"
    using remove_walk_skip[OF chx nk(1) len, of i t None] by blast
  obtain c where c: "q = Some (node_addr x)" "cells w (node_addr x) = Some c" "is_node c x" "chain (cells w) (he_next c) vs"
    using q(1) by auto
  obtain m where m: "n - length us = Suc m"
    using fuel xs by (intro that[of "n - length us - 1"]) auto
  have ad: "distinct (map node_addr (us @ x # vs))"
    using bucket_addrs[OF rep b] xs by simp
  have other: "cells w' (node_addr z) = cells w (node_addr z)"
    if "frame (node_addr ` set (cs ! i)) w w'" "z \<in> nodes cs" "ht_idx t w (node_key z) \<noteq> i" for z w'
  proof -
    have "node_addr z \<notin> node_addr ` set (cs ! i)"
    proof
      assume "node_addr z \<in> node_addr ` set (cs ! i)"
      then obtain y where "y \<in> set (cs ! i)" "node_addr z = node_addr y"
        by blast
      then show False
        using addr_unique[OF rep that(2), of y] that(3) bucket_nodes[OF rep b] by auto
    qed
    then show ?thesis
      using that(1) by (simp add: frame_def)
  qed
  have mono: "frame (node_addr ` nodes cs) w w'" if "frame (node_addr ` set (cs ! i)) w w'" for w'
    by (rule frame_mono[OF that]) (use bucket_nodes[OF rep b] in auto)
  have kc: "he_key_compare c (probe_entry (node_key x))"
    using c(3) by (simp add: key_compare_iff probe_entry_def is_node_def)
  show ?thesis
  proof (cases us rule: rev_cases)
    case Nil
    let ?w = "w\<lparr>cells := (cells w)(node_addr x := None)\<rparr>"
    let ?t = "(set_array i (he_next c) t)\<lparr>key_count := key_count t - 1\<rparr>"
    have fr: "frame (node_addr ` set (cs ! i)) w ?w"
      using xs by (auto simp: frame_def)
    have "ht_rep ?w ?t (cs[i := us @ vs])"
    proof (rule rep_update[OF rep b])
      have "chain (cells ?w) (he_next c) vs"
      proof (rule chain_frame[OF c(4)], intro ballI)
        fix z
        assume "z \<in> set vs"
        then have "node_addr z \<in> node_addr ` set vs" "node_addr x \<notin> node_addr ` set vs"
          using ad by simp_all
        then have "node_addr z \<noteq> node_addr x"
          by metis
        then show "cells ?w (node_addr z) = cells w (node_addr z)"
          by simp
      qed
      then show "chain (cells ?w) (arr ?t ! i) (us @ vs)"
        using b rep Nil by (simp add: set_array_def ht_rep_def)
    qed (use nk(2) ch(3) xs rep other[OF fr] in \<open>auto simp: set_array_def ht_rep_def\<close>)
    then show ?thesis
      using q(3) c m kc Nil mono[OF fr]
      by (intro exI[of _ ?t] exI[of _ ?w])
        (auto simp: deref_def he_destroy_def same_shape_def set_array_def)
  next
    case (snoc ys y)
    obtain d where d: "cells w (node_addr y) = Some d"
      using node_cell[OF rep, of y] xn(2) snoc by auto
    have yx: "node_addr y \<noteq> node_addr x"
      using ad snoc by simp
    let ?w = "w\<lparr>cells := (cells w)(node_addr y := Some (d\<lparr>he_next := he_next c\<rparr>), node_addr x := None)\<rparr>"
    let ?t = "t\<lparr>key_count := key_count t - 1, collisions := collisions t - 1\<rparr>"
    have fr: "frame (node_addr ` set (cs ! i)) w ?w"
      using xs snoc by (auto simp: frame_def)
    have "ht_rep ?w ?t (cs[i := us @ vs])"
    proof (rule rep_update[OF rep b])
      show "chain (cells ?w) (arr ?t ! i) (us @ vs)"
        using chain_delete_mid[of "cells w" "arr t ! i" ys y x vs d c] ch(1) xs snoc d c(2) ad by simp
    qed (use nk(2) ch(3) xs rep other[OF fr] in \<open>auto simp: ht_rep_def\<close>)
    then show ?thesis
      using q(3) c m kc snoc d yx mono[OF fr]
      by (intro exI[of _ ?t] exI[of _ ?w])
        (auto simp: deref_def he_destroy_def set_next_def store_def same_shape_def)
  qed
qed

lemma coll_remove:
  assumes "finite K" "k \<in> K"
  shows "coll f (K - {k}) + (if f k \<in> f ` (K - {k}) then 1 else 0) = coll f K"
  using coll_insert[of "K - {k}" k f] assms by (simp add: insert_absorb)

lemma ht_remove_valid:
  assumes v: "ht_valid e w t cs" and fuel: "card (nodes cs) \<le> n"
  shows "\<exists>t' w' cs'. ht_remove n t k w = Inr (t', w') \<and> ht_valid e w' t' cs' \<and>
    nodes cs' = {x \<in> nodes cs. node_key x \<noteq> k} \<and> array_size t' = array_size t"
proof -
  note rep = valid_rep[OF v] and val = validD[OF v]
  let ?i = "ht_idx t w k"
  have b: "?i < length cs"
    by (rule ht_idx_bound[OF rep])
  have run: "ht_remove n t k w = remove_walk n ?i k t w None (arr t ! ?i)"
    by (simp add: ht_remove_def ht_index_rep[OF rep] array_at_rep[OF rep b])
  have fl: "length (cs ! ?i) \<le> n"
    using bucket_length[OF rep b] fuel by simp
  show ?thesis
  proof (cases "k \<in> node_key ` set (cs ! ?i)")
    case False
    have "remove_walk n ?i k t w None (arr t ! ?i) = Inr (t, w)"
      by (rule remove_miss[OF bucket_chain(1)[OF rep b] False fl])
    moreover have "{x \<in> nodes cs. node_key x \<noteq> k} = nodes cs"
      using False node_in_bucket[OF rep] by auto
    ultimately show ?thesis
      using run v by auto
  next
    case True
    then obtain x us vs where xs: "cs ! ?i = us @ x # vs" "node_key x = k"
      by (metis imageE split_list)
    obtain t' w' where 1: "remove_walk n ?i k t w None (arr t ! ?i) = Inr (t', w')" "ht_rep w' t' (cs[?i := us @ vs])"
      "same_shape t t'" "key_count t' = key_count t - 1" "collisions t' = (if us = [] then collisions t else collisions t - 1)"
      "frame (node_addr ` nodes cs) w w'"
      using remove_hit[OF rep b xs(1) fl] xs(2) by auto
    let ?cs = "cs[?i := us @ vs]"
    have xn: "x \<in> nodes cs"
      using bucket_nodes[OF rep b] xs(1) by auto
    have ns: "nodes ?cs = {y \<in> nodes cs. node_key y \<noteq> k}"
    proof -
      have "set (us @ vs) = {y \<in> set (cs ! ?i). node_key y \<noteq> k}"
        using bucket_chain(2)[OF rep b] xs by (auto simp: image_iff)
      then show ?thesis
        unfolding nodes_update[OF rep b] using bucket_nodes[OF rep b] by auto
    qed
    have k: "keys_of ?cs = keys_of cs - {k}" "k \<in> keys_of cs"
      using xn xs(2) by (auto simp: keys_of_def ns)
    have idx: "ht_idx t' w' = ht_idx t w"
      by (rule same_shape_idx[OF 1(3,6)])
    have rem: "coll (ht_idx t w) (keys_of cs - {k}) + (if ?i \<in> ht_idx t w ` (keys_of cs - {k}) then 1 else 0) =
        coll (ht_idx t w) (keys_of cs)"
      by (rule coll_remove[OF finite_keys k(2)])
    have shared: "?i \<in> ht_idx t w ` (keys_of cs - {k})" if "us \<noteq> []"
      using bucket_empty_iff[OF 1(2), of ?i] b that by (simp add: idx k(1))
    have un: "unat (collisions t') = unat (collisions t) - (if us = [] then 0 else 1)"
    proof (cases "us = []")
      case False
      then have "0 < unat (collisions t)"
        using shared rem val(3) by simp
      then show ?thesis
        using False 1(5) by (simp add: unat_minus_one unat_gt_0)
    qed (simp add: 1(5))
    have "(of_nat (card (keys_of cs)) :: u32) = of_nat (card (keys_of cs - {k})) + 1"
      using card_Suc_Diff1[OF finite_keys k(2)] by (metis of_nat_Suc add.commute)
    then have "key_count t' = of_nat (card (keys_of ?cs))"
      using val(2) 1(4) by (simp add: k(1))
    moreover have "coll (ht_idx t' w') (keys_of ?cs) \<le> unat (collisions t')"
      using rem shared val(3) un by (auto simp: idx k(1) split: if_splits)
    moreover have "within_load t' (unat (collisions t'))"
    proof -
      have "(of_nat (unat (collisions t')) :: rat) \<le> of_nat (unat (collisions t))"
        using un by (simp only: of_nat_le_iff)
      then show ?thesis
        using val(4) 1(3) by (simp add: within_load_def same_shape_def del: of_nat_unat)
    qed
    moreover have "\<forall>a \<ge> next_addr w'. cells w' a = None"
      by (rule fresh_frame[OF val(9) 1(6) nodes_alive[OF rep]])
    ultimately have "ht_valid e w' t' ?cs"
      using 1(2,3) val(1,5-8) by (simp add: ht_valid_def same_shape_def ns del: of_nat_unat)
    then show ?thesis
      using run 1(1,3) ns by (auto simp: same_shape_def)
  qed
qed

section \<open>The interpretation\<close>

text \<open>
  A state of at most \<open>N\<close> keys; \<open>N + 3\<close> is enough fuel for every operation, since one resize is
  enough. There is room for another key while the array can be doubled.
\<close>

definition ht_good :: "nat \<Rightarrow> ht_env \<Rightarrow> hash_table \<times> world \<Rightarrow> bool" where
  "ht_good N e s \<longleftrightarrow> mem_entry e \<and> mem_value e \<and> mem_array e \<and> N < 2 ^ 31 - 2 \<and>
     (\<exists>cs. ht_valid e (snd s) (fst s) cs \<and> card (nodes cs) \<le> N)"

definition ht_room :: "nat \<Rightarrow> hash_table \<times> world \<Rightarrow> bool" where
  "ht_room N s \<longleftrightarrow> unat (array_size (fst s)) < 2 ^ 30 \<and> unat (ht_size (fst s)) < N"

lemma ht_size_valid:
  assumes "ht_valid e w t cs" "card (nodes cs) < 2 ^ 32"
  shows "unat (ht_size t) = card (nodes cs)"
  using validD(2)[OF assms(1)] card_keys[OF valid_rep[OF assms(1)]] assms(2)
  by (simp add: ht_size_def unat_of_nat)

lemma entries_map_upd:
  assumes "ht_rep w t cs" "card (nodes cs) \<le> n" "ht_rep w' t' cs'" "card (nodes cs') \<le> n"
    and "entries cs' = insert (k, v) {p \<in> entries cs. fst p \<noteq> k}"
  shows "ht_map n (t', w') = (ht_map n (t, w))(k \<mapsto> v)"
  using assms(5) by (intro ht_map_eqI[OF assms(3,4)]) (auto simp: ht_map_rep(2)[OF assms(1,2)])

lemma entries_map_del:
  assumes "ht_rep w t cs" "card (nodes cs) \<le> n" "ht_rep w' t' cs'" "nodes cs' = {x \<in> nodes cs. node_key x \<noteq> k}"
  shows "ht_map n (t', w') = (ht_map n (t, w))(k := None)"
proof -
  have "card (nodes cs') \<le> n"
    using assms(2,4) card_mono[of "nodes cs" "nodes cs'"] by auto
  moreover have "(j, v) \<in> entries cs' \<longleftrightarrow> (j, v) \<in> entries cs \<and> j \<noteq> k" for j v
    by (auto simp: entries_def assms(4))
  ultimately show ?thesis
    by (intro ht_map_eqI[OF assms(3)]) (auto simp: ht_map_rep(2)[OF assms(1,2)])
qed

lemma ht_goodE:
  assumes "ht_good N e (t, w)"
  obtains cs where "ht_valid e w t cs" "card (nodes cs) \<le> N" "mem_entry e" "mem_value e" "mem_array e" "N < 2 ^ 31 - 2"
    "unat (ht_size t) = card (nodes cs)"
proof -
  obtain cs where cs: "ht_valid e w t cs" "card (nodes cs) \<le> N" "mem_entry e" "mem_value e" "mem_array e" "N < 2 ^ 31 - 2"
    using assms unfolding ht_good_def by auto
  then have "card (nodes cs) < 2 ^ 32"
    by simp
  then show ?thesis
    using that[OF cs] ht_size_valid[OF cs(1)] by blast
qed

lemma ht_goodI:
  "ht_valid e w t cs \<Longrightarrow> card (nodes cs) \<le> N \<Longrightarrow> mem_entry e \<Longrightarrow> mem_value e \<Longrightarrow> mem_array e \<Longrightarrow> N < 2 ^ 31 - 2 \<Longrightarrow>
   ht_good N e (t, w)"
  unfolding ht_good_def by auto

lemma ht_get_law: "ht_good N e (t, w) \<Longrightarrow> ht_lookup N t k w = Inr (ht_map N (t, w) k)"
  by (elim ht_goodE) (rule ht_map_rep(1)[OF valid_rep])

lemma ht_put_law:
  assumes "ht_good N e (t, w)" "ht_room N (t, w)" "live_value e v"
  shows "\<exists>t' w'. ht_insert (N + 3) e t k v w = Inr (t', w') \<and> ht_good N e (t', w') \<and>
    ht_map N (t', w') = (ht_map N (t, w))(k \<mapsto> v)"
proof -
  obtain cs where cs: "ht_valid e w t cs" "card (nodes cs) \<le> N" "mem_entry e" "mem_value e" "mem_array e" "N < 2 ^ 31 - 2"
    "unat (ht_size t) = card (nodes cs)"
    by (rule ht_goodE[OF assms(1)])
  have sz: "unat (array_size t) < 2 ^ 30" "card (nodes cs) < N"
    using assms(2) cs(7) unfolding ht_room_def by simp_all
  have fl: "card (nodes cs) + 3 \<le> N + 3" "card (nodes cs) + 1 < 2 ^ 31"
    using cs(2,6) by simp_all
  obtain t' w' cs' where r: "ht_insert (N + 3) e t k v w = Inr (t', w')" "ht_valid e w' t' cs'"
    "entries cs' = insert (k, v) {p \<in> entries cs. fst p \<noteq> k}" "card (nodes cs') \<le> card (nodes cs) + 1"
    using ht_insert_valid[OF cs(1,3-5) assms(3) sz(1) fl, of k] by (elim exE conjE)
  have c: "card (nodes cs') \<le> N"
    using r(4) sz(2) by simp
  have "ht_map N (t', w') = (ht_map N (t, w))(k \<mapsto> v)"
    by (rule entries_map_upd[OF valid_rep[OF cs(1)] cs(2) valid_rep[OF r(2)] c r(3)])
  then show ?thesis
    using r(1) ht_goodI[OF r(2) c cs(3-6)] by blast
qed

lemma ht_del_law:
  assumes "ht_good N e (t, w)"
  shows "\<exists>t' w'. ht_remove N t k w = Inr (t', w') \<and> ht_good N e (t', w') \<and> ht_map N (t', w') = (ht_map N (t, w))(k := None)"
proof -
  obtain cs where cs: "ht_valid e w t cs" "card (nodes cs) \<le> N" "mem_entry e" "mem_value e" "mem_array e" "N < 2 ^ 31 - 2"
    by (rule ht_goodE[OF assms])
  obtain t' w' cs' where r: "ht_remove N t k w = Inr (t', w')" "ht_valid e w' t' cs'" "nodes cs' = {x \<in> nodes cs. node_key x \<noteq> k}"
    using ht_remove_valid[OF cs(1,2), of k] by (elim exE conjE)
  have "nodes cs' \<subseteq> nodes cs"
    using r(3) by blast
  from card_mono[OF finite_nodes this] have c: "card (nodes cs') \<le> N"
    using cs(2) by simp
  then show ?thesis
    using r(1) ht_goodI[OF r(2) c cs(3-6)] entries_map_del[OF valid_rep[OF cs(1)] cs(2) valid_rep[OF r(2)] r(3)] by blast
qed

interpretation ht: byte_map
  "\<lambda>s k v. ht_insert (N + 3) e (fst s) k v (snd s)" "\<lambda>s k. ht_lookup N (fst s) k (snd s)"
  "\<lambda>s k. ht_remove N (fst s) k (snd s)" "ht_map N" "ht_good N e" "ht_room N" "live_value e"
proof
  fix s :: "hash_table \<times> world" and k v
  obtain t w where s: "s = (t, w)"
    by (cases s)
  assume g: "ht_good N e s"
  show "ht_lookup N (fst s) k (snd s) = Inr (ht_map N s k)"
    using g by (simp add: s ht_get_law)
  show "\<exists>s'. ht_remove N (fst s) k (snd s) = Inr s' \<and> ht_good N e s' \<and> ht_map N s' = (ht_map N s)(k := None)"
    using g ht_del_law[of N e t w k] unfolding s fst_conv snd_conv by blast
  assume "ht_room N s" "live_value e v"
  then show "\<exists>s'. ht_insert (N + 3) e (fst s) k v (snd s) = Inr s' \<and> ht_good N e s' \<and> ht_map N s' = (ht_map N s)(k \<mapsto> v)"
    using g ht_put_law[of N e t w v k] unfolding s fst_conv snd_conv by blast
qed

lemma ht_init_good:
  assumes "mem_entry e" "mem_value e" "mem_array e" "N < 2 ^ 31 - 2" "\<forall>a \<ge> next_addr w. cells w a = None"
    and "1 / 64 \<le> mlf" "mlf \<le> 1" "and fl HT_NO_AUTORESIZE = 0"
  obtains t where "init_with hf e fl mlf = Inr t" "ht_good N e (t, w)" "ht_map N (t, w) = (\<lambda>_. None)" "ht_size t = 0"
    "array_size t = HT_INITIAL_SIZE"
proof -
  let ?t = "\<lparr>hashfunc_x86_32 = Some hf, key_count = 0, array_size = HT_INITIAL_SIZE,
    arr = replicate (unat HT_INITIAL_SIZE) None, collisions = 0, flags = fl, max_load_factor = mlf, current_load_factor = 0\<rparr>"
  let ?cs = "replicate (unat (array_size ?t)) ([] :: node list)"
  have n: "nodes ?cs = {}" and r: "ht_rep w ?t ?cs"
    using rep_empty[of ?t] by (simp_all add: HT_INITIAL_SIZE_def)
  have "ht_valid e w ?t ?cs"
    using r n assms(5-8) by (simp add: ht_valid_def keys_of_def coll_def within_load_def HT_INITIAL_SIZE_def)
  then have "ht_good N e (?t, w)"
    using assms(1-4) n by (auto simp: ht_good_def)
  moreover have "ht_map N (?t, w) = (\<lambda>_. None)"
    using n by (intro ht_map_eqI[OF r]) (auto simp: entries_def)
  ultimately show ?thesis
    using assms(3) by (intro that[of ?t]) (auto simp: init_with_def ht_size_def)
qed

end
