(* ===== verification/DSQueue.thy ===== *)
theory DSQueue
  imports Prelude
begin

text \<open>
  The thread-safe circular queue between the measuring thread and the sending thread of the
  collector client (\<^verbatim>\<open>data collector/InfoCollectClient_V1.1/src/buffer.c\<close>). Every
  operation runs with the mutex \<^verbatim>\<open>mutate\<close> held, so a call is one atomic pass through its
  critical section that ends by returning, by sleeping on \<^verbatim>\<open>cond_length\<close> (which releases
  the mutex), or by failing an assertion. The second half composes the passes of any number of
  threads into a transition system, with the broadcasts that wake sleepers.
\<close>

section \<open>The queue\<close>

record 'a dsqueue =
  buf :: "'a option list"
  pos :: u32
  qlen :: u32
  capacity :: u32
  qclosed :: bool

text \<open>How a pass through the critical section ends: with a result, or asleep.\<close>

datatype 'r pass = Done 'r | Wait

text \<open>
  \<open>mem\<close> says whether \<^verbatim>\<open>malloc\<close> returns memory, \<open>sync\<close> whether the mutex and the condition
  variable could be initialised, and \<open>junk\<close> is what the fresh memory holds. The byte count handed to \<^verbatim>\<open>malloc\<close> is a 32-bit
  product, so the array has \<open>unat (4 * n) div 4\<close> cells.
\<close>

definition ds_queue_create :: "bool \<Rightarrow> bool \<Rightarrow> (nat \<Rightarrow> 'a option) \<Rightarrow> u32 \<Rightarrow> 'a dsqueue res" where
  "ds_queue_create mem sync junk buffer_capacity =
     (if \<not> buffer_capacity > 0 \<or> \<not> mem then Inl AssertFail
      else if \<not> sync then Inl (ExitProcess 1)
      else Inr \<lparr>buf = map junk [0..<unat (buffer_capacity * 4) div 4],
                pos = 0, qlen = 0, capacity = buffer_capacity, qclosed = False\<rparr>)"

text \<open>The process exits when the mutex or the condition variable is still in use.\<close>

definition ds_queue_free :: "bool \<Rightarrow> 'a dsqueue \<Rightarrow> unit res" where
  "ds_queue_free in_use q = (if in_use then Inl (ExitProcess 1) else Inr ())"

definition ds_queue_length :: "'a dsqueue \<Rightarrow> int" where
  "ds_queue_length q = sint (qlen q)"

definition ds_queue_capacity :: "'a dsqueue \<Rightarrow> int" where
  "ds_queue_capacity q = sint (capacity q)"

definition ds_queue_close :: "'a dsqueue \<Rightarrow> 'a dsqueue" where
  "ds_queue_close q = q\<lparr>qclosed := True\<rparr>"

text \<open>
  \<open>ds_queue_put_loop\<close> is the pass from the head of the while loop, which a woken producer
  resumes; a fresh call first checks that the queue is open.
\<close>

definition ds_queue_put_loop :: "'a dsqueue \<Rightarrow> 'a option \<Rightarrow> 'a dsqueue pass res" where
  "ds_queue_put_loop q item =
     (if qlen q = capacity q then Inr Wait
      else if qclosed q then Inl AssertFail
      else if \<not> qlen q < capacity q then Inl AssertFail
      else let i = unat ((pos q + qlen q) mod capacity q)
           in if i < length (buf q)
              then Inr (Done (q\<lparr>buf := (buf q)[i := item], qlen := qlen q + 1\<rparr>))
              else Inl OutOfBounds)"

definition ds_queue_put :: "'a dsqueue \<Rightarrow> 'a option \<Rightarrow> 'a dsqueue pass res" where
  "ds_queue_put q item = (if qclosed q then Inl AssertFail else ds_queue_put_loop q item)"

definition ds_queue_get :: "'a dsqueue \<Rightarrow> ('a option \<times> 'a dsqueue) pass res" where
  "ds_queue_get q =
     (if qlen q = 0
      then if qclosed q then Inr (Done (None, q)) else Inr Wait
      else if \<not> qlen q \<le> capacity q then Inl AssertFail
      else if unat (pos q) < length (buf q)
      then Inr (Done (buf q ! unat (pos q),
                      q\<lparr>buf := (buf q)[unat (pos q) := None],
                        pos := (pos q + 1) mod capacity q,
                        qlen := qlen q - 1\<rparr>))
      else Inl OutOfBounds)"

section \<open>Contents and invariant\<close>

definition q_index :: "'a dsqueue \<Rightarrow> nat \<Rightarrow> nat" where
  "q_index q i = (unat (pos q) + i) mod unat (capacity q)"

definition q_list :: "'a dsqueue \<Rightarrow> 'a option list" where
  "q_list q = map (\<lambda>i. buf q ! q_index q i) [0..<unat (qlen q)]"

text \<open>
  The bound on the capacity keeps both the allocation and \<open>pos + length\<close> from wrapping.
\<close>

definition q_inv :: "'a dsqueue \<Rightarrow> bool" where
  "q_inv q \<longleftrightarrow>
     0 < capacity q \<and> unat (capacity q) < 2 ^ 30 \<and> length (buf q) = unat (capacity q) \<and>
     pos q < capacity q \<and> qlen q \<le> capacity q"

lemma q_invE:
  assumes "q_inv q"
  obtains "0 < unat (capacity q)" "unat (capacity q) < 2 ^ 30"
    "length (buf q) = unat (capacity q)" "unat (pos q) < unat (capacity q)"
    "unat (qlen q) \<le> unat (capacity q)"
  using assms by (auto simp: q_inv_def word_less_nat_alt word_le_nat_alt)

lemma length_q_list [simp]: "length (q_list q) = unat (qlen q)"
  by (simp add: q_list_def)

lemma unat_put_index:
  assumes "q_inv q" "unat (qlen q) < unat (capacity q)"
  shows "unat ((pos q + qlen q) mod capacity q) = q_index q (unat (qlen q))"
proof -
  have "unat (pos q) + unat (qlen q) < 2 ^ 32"
    using assms by (elim q_invE) simp
  then have "unat (pos q + qlen q) = unat (pos q) + unat (qlen q)"
    by (simp add: unat_word_ariths)
  then show ?thesis
    by (simp add: q_index_def unat_mod)
qed

lemma unat_next_pos:
  assumes "q_inv q"
  shows "unat ((pos q + 1) mod capacity q) = (unat (pos q) + 1) mod unat (capacity q)"
proof -
  have "unat (pos q) + 1 < 2 ^ 32"
    using assms by (elim q_invE) simp
  then have "unat (pos q + 1) = unat (pos q) + 1"
    by (simp add: unat_word_ariths)
  then show ?thesis
    by (simp add: unat_mod)
qed

lemma q_index_inj:
  assumes "q_inv q" "i < unat (capacity q)" "j < unat (capacity q)" "q_index q i = q_index q j"
  shows "i = j"
proof -
  let ?c = "unat (capacity q)"
  have "int (unat (pos q) + i) mod int ?c = int (unat (pos q) + j) mod int ?c"
    using assms(4) by (simp only: q_index_def flip: of_nat_mod)
  then have "int ?c dvd int i - int j"
    by (simp add: mod_eq_dvd_iff)
  moreover have "\<bar>int i - int j\<bar> < int ?c"
    using assms(2,3) by linarith
  ultimately have "int i - int j = 0"
    using dvd_imp_le_int[of "int i - int j" "int ?c"] by linarith
  then show ?thesis
    by simp
qed

lemma q_index_bound: "q_inv q \<Longrightarrow> q_index q i < unat (capacity q)"
  by (elim q_invE) (simp add: q_index_def)

section \<open>The operations on the contents\<close>

lemma ds_queue_create_spec:
  assumes "0 < n" "unat n < 2 ^ 30"
  obtains q where "ds_queue_create True True junk n = Inr q" "q_inv q" "q_list q = []"
    "capacity q = n" "\<not> qclosed q"
proof -
  have "unat (n * 4) = unat n * 4"
    using assms by (simp add: unat_word_ariths)
  then show ?thesis
    using assms
    by (intro that[of "\<lparr>buf = map junk [0..<unat n], pos = 0, qlen = 0, capacity = n, qclosed = False\<rparr>"])
      (simp_all add: ds_queue_create_def q_inv_def q_list_def)
qed

lemma ds_queue_put_spec:
  assumes inv: "q_inv q" and room: "unat (qlen q) < unat (capacity q)" and "\<not> qclosed q"
  obtains q' where "ds_queue_put_loop q x = Inr (Done q')" "q_inv q'"
    "q_list q' = q_list q @ [x]" "capacity q' = capacity q" "\<not> qclosed q'"
proof -
  let ?i = "q_index q (unat (qlen q))"
  let ?q = "q\<lparr>buf := (buf q)[?i := x], qlen := qlen q + 1\<rparr>"
  have len: "unat (qlen q + 1) = unat (qlen q) + 1"
    using room inv by (elim q_invE) (simp add: unat_word_ariths)
  have i: "?i < length (buf q)"
    using inv q_index_bound[OF inv] by (elim q_invE) simp
  have "qlen q < capacity q"
    using room by (simp add: word_less_nat_alt)
  then have put: "ds_queue_put_loop q x = Inr (Done ?q)"
    using assms(3) i unat_put_index[OF inv room]
    by (auto simp: ds_queue_put_loop_def Let_def)
  have idx: "q_index ?q = q_index q"
    by (simp add: q_index_def fun_eq_iff)
  have "?i \<noteq> q_index q j" if "j < unat (qlen q)" for j
    using q_index_inj[OF inv, of j "unat (qlen q)"] that room by auto
  then have "q_list ?q = q_list q @ [x]"
    using i len by (simp add: q_list_def idx)
  moreover have "q_inv ?q"
    using inv room len by (auto simp: q_inv_def word_le_nat_alt)
  ultimately show ?thesis
    using that put assms(3) by simp
qed

lemma ds_queue_put_full:
  "q_inv q \<Longrightarrow> unat (qlen q) = unat (capacity q) \<Longrightarrow> ds_queue_put_loop q x = Inr Wait"
  unfolding ds_queue_put_loop_def by (simp only: word_unat_eq_iff[symmetric] if_True refl)

lemma q_list_Cons:
  assumes "0 < unat (qlen q)"
  shows "q_list q = buf q ! q_index q 0 # map (\<lambda>i. buf q ! q_index q (Suc i)) [0..<unat (qlen q) - 1]"
proof -
  have "[0..<unat (qlen q)] = 0 # map Suc [0..<unat (qlen q) - 1]"
    using assms by (simp add: map_Suc_upt upt_conv_Cons)
  then show ?thesis
    by (simp add: q_list_def)
qed

lemma ds_queue_get_spec:
  assumes inv: "q_inv q" and ne: "0 < unat (qlen q)"
  obtains x q' where "ds_queue_get q = Inr (Done (x, q'))" "q_inv q'"
    "q_list q = x # q_list q'" "capacity q' = capacity q" "qclosed q' = qclosed q"
proof -
  let ?p = "unat (pos q)"
  let ?q = "q\<lparr>buf := (buf q)[?p := None], pos := (pos q + 1) mod capacity q, qlen := qlen q - 1\<rparr>"
  have c: "0 < unat (capacity q)" "?p < length (buf q)" "?p < unat (capacity q)"
    "unat (qlen q) \<le> unat (capacity q)"
    using inv by (auto elim: q_invE)
  have len: "unat (qlen q - 1) = unat (qlen q) - 1"
    using ne by (simp add: unat_minus_one unat_eq_zero[symmetric] del: unat_eq_zero)
  have get: "ds_queue_get q = Inr (Done (buf q ! ?p, ?q))"
    using ne c by (auto simp: ds_queue_get_def word_le_nat_alt)
  have i0: "q_index q 0 = ?p"
    using c by (simp add: q_index_def)
  have idx: "q_index ?q i = q_index q (Suc i)" for i
    using unat_next_pos[OF inv] by (simp add: q_index_def mod_add_left_eq)
  have "?p \<noteq> q_index q (Suc i)" if "i < unat (qlen q) - 1" for i
    using q_index_inj[OF inv, of "Suc i" 0] that c i0 by fastforce
  then have "q_list ?q = map (\<lambda>i. buf q ! q_index q (Suc i)) [0..<unat (qlen q) - 1]"
    by (simp add: q_list_def idx len)
  then have "q_list q = buf q ! ?p # q_list ?q"
    using q_list_Cons[OF ne] i0 by simp
  moreover have "q_inv ?q"
    using inv c unat_next_pos[OF inv] len
    by (auto simp: q_inv_def word_le_nat_alt word_less_nat_alt)
  ultimately show ?thesis
    using that get by simp
qed

lemma ds_queue_get_empty:
  "q_inv q \<Longrightarrow> unat (qlen q) = 0 \<Longrightarrow>
   ds_queue_get q = (if qclosed q then Inr (Done (None, q)) else Inr Wait)"
  by (simp add: ds_queue_get_def unat_eq_zero)

section \<open>The interface of a bounded queue\<close>

text \<open>
  What the two sides of the queue rely on: as long as the queue is open, an element put into it
  goes to the end of the contents or waits for room, and an element taken from it is the first
  one, or the caller waits.
\<close>

fun fill :: "('q \<Rightarrow> 'a \<Rightarrow> 'q pass res) \<Rightarrow> 'q \<Rightarrow> 'a list \<Rightarrow> 'q pass res" where
  "fill put q [] = Inr (Done q)"
| "fill put q (x # xs) =
     bind_res (put q x) (\<lambda>r. case r of Wait \<Rightarrow> Inr Wait | Done q' \<Rightarrow> fill put q' xs)"

fun drain :: "('q \<Rightarrow> ('a \<times> 'q) pass res) \<Rightarrow> nat \<Rightarrow> 'q \<Rightarrow> ('a list \<times> 'q) pass res" where
  "drain get 0 q = Inr (Done ([], q))"
| "drain get (Suc n) q =
     bind_res (get q) (\<lambda>r. case r of Wait \<Rightarrow> Inr Wait
       | Done (x, q') \<Rightarrow> bind_res (drain get n q')
           (\<lambda>r'. case r' of Wait \<Rightarrow> Inr Wait | Done (xs, q'') \<Rightarrow> Inr (Done (x # xs, q''))))"

locale bounded_fifo =
  fixes put :: "'q \<Rightarrow> 'a \<Rightarrow> 'q pass res"
    and get :: "'q \<Rightarrow> ('a \<times> 'q) pass res"
    and contents :: "'q \<Rightarrow> 'a list"
    and room :: "'q \<Rightarrow> nat"
    and valid :: "'q \<Rightarrow> bool"
  assumes bounded: "valid q \<Longrightarrow> length (contents q) \<le> room q"
    and put_room: "valid q \<Longrightarrow> length (contents q) < room q \<Longrightarrow>
      \<exists>q'. put q x = Inr (Done q') \<and> valid q' \<and> contents q' = contents q @ [x] \<and> room q' = room q"
    and put_full: "valid q \<Longrightarrow> length (contents q) = room q \<Longrightarrow> put q x = Inr Wait"
    and get_first: "valid q \<Longrightarrow> contents q = x # xs \<Longrightarrow>
      \<exists>q'. get q = Inr (Done (x, q')) \<and> valid q' \<and> contents q' = xs \<and> room q' = room q"
    and get_empty: "valid q \<Longrightarrow> contents q = [] \<Longrightarrow> get q = Inr Wait"
begin

lemma fill_contents:
  "valid q \<Longrightarrow> length (contents q) + length xs \<le> room q \<Longrightarrow>
   \<exists>q'. fill put q xs = Inr (Done q') \<and> valid q' \<and> contents q' = contents q @ xs \<and> room q' = room q"
proof (induction xs arbitrary: q)
  case (Cons x xs)
  then obtain q' where q': "put q x = Inr (Done q')" "valid q'" "contents q' = contents q @ [x]"
    "room q' = room q"
    using put_room[of q x] by auto
  then show ?case
    using Cons.IH[of q'] Cons.prems by auto
qed simp

lemma drain_contents:
  "valid q \<Longrightarrow> contents q = xs @ ys \<Longrightarrow>
   \<exists>q'. drain get (length xs) q = Inr (Done (xs, q')) \<and> valid q' \<and> contents q' = ys \<and> room q' = room q"
proof (induction xs arbitrary: q)
  case (Cons x xs)
  then obtain q' where q': "get q = Inr (Done (x, q'))" "valid q'" "contents q' = xs @ ys"
    "room q' = room q"
    using get_first[of q x "xs @ ys"] by auto
  then show ?case
    using Cons.IH[of q'] by auto
qed simp

lemma fill_drain:
  assumes "valid q" "contents q = []" "length xs \<le> room q"
  shows "\<exists>q' q''. fill put q xs = Inr (Done q') \<and> drain get (length xs) q' = Inr (Done (xs, q'')) \<and>
           get q'' = Inr Wait"
proof -
  obtain q' where q': "fill put q xs = Inr (Done q')" "valid q'" "contents q' = xs"
    using fill_contents[of q xs] assms by auto
  then obtain q'' where "drain get (length xs) q' = Inr (Done (xs, q''))" "valid q''" "contents q'' = []"
    using drain_contents[of q' xs "[]"] by auto
  then show ?thesis
    using q' get_empty by blast
qed

lemma fill_overfull:
  assumes "valid q" "contents q = []" "length xs = room q"
  shows "fill put q (xs @ [x]) = Inr Wait"
proof -
  have "fill put p (us @ [x]) = Inr Wait"
    if "valid p" "length (contents p) + length us = room p" for us p
    using that
  proof (induction us arbitrary: p)
    case Nil
    then show ?case
      by (simp add: put_full)
  next
    case (Cons u us)
    then obtain p' where "put p u = Inr (Done p')" "valid p'" "contents p' = contents p @ [u]"
      "room p' = room p"
      using put_room[of p u] by auto
    then show ?case
      using Cons by simp
  qed
  then show ?thesis
    using assms by simp
qed

end

definition q_open :: "'a dsqueue \<Rightarrow> bool" where
  "q_open q \<longleftrightarrow> q_inv q \<and> \<not> qclosed q"

interpretation dsq: bounded_fifo ds_queue_put ds_queue_get q_list "\<lambda>q. unat (capacity q)" q_open
proof unfold_locales
  fix q :: "'a dsqueue" and x
  assume q: "q_open q"
  then show "length (q_list q) \<le> unat (capacity q)"
    by (auto simp: q_open_def elim: q_invE)
  show "\<exists>q'. ds_queue_put q x = Inr (Done q') \<and> q_open q' \<and> q_list q' = q_list q @ [x] \<and>
      unat (capacity q') = unat (capacity q)" if "length (q_list q) < unat (capacity q)"
    using q that by (auto simp: q_open_def ds_queue_put_def intro: ds_queue_put_spec[of q x])
  show "ds_queue_put q x = Inr Wait" if "length (q_list q) = unat (capacity q)"
    using q that by (auto simp: q_open_def ds_queue_put_def ds_queue_put_full)
  show "\<exists>q'. ds_queue_get q = Inr (Done (x, q')) \<and> q_open q' \<and> q_list q' = xs \<and>
      unat (capacity q') = unat (capacity q)" if c: "q_list q = x # xs" for xs
  proof -
    have "0 < unat (qlen q)"
      using c length_q_list[of q] by simp
    then show ?thesis
      using q c by (auto simp: q_open_def intro: ds_queue_get_spec[of q])
  qed
  show "ds_queue_get q = Inr Wait" if "q_list q = []"
    using q that length_q_list[of q] by (simp add: q_open_def ds_queue_get_empty)
qed

section \<open>Threads\<close>

text \<open>
  A thread is outside the queue, has called an operation and waits for the mutex, sleeps on the
  condition variable, or has been woken and waits for the mutex again. The logs \<open>sent\<close> and
  \<open>got\<close> record, in the order of the critical sections, what went in and what came out.
\<close>

datatype 'a thread =
    Idle
  | Putting "'a option"
  | PutAsleep "'a option"
  | PutAwake "'a option"
  | Getting
  | GetAsleep
  | GetAwake

record 'a qsys =
  queue :: "'a dsqueue"
  thr :: "nat \<Rightarrow> 'a thread"
  sent :: "'a option list"
  got :: "'a option list"
  aborted :: bool

text \<open>\<^verbatim>\<open>pthread_cond_broadcast\<close>.\<close>

fun wake :: "'a thread \<Rightarrow> 'a thread" where
  "wake (PutAsleep x) = PutAwake x"
| "wake GetAsleep = GetAwake"
| "wake t = t"

definition broadcast :: "(nat \<Rightarrow> 'a thread) \<Rightarrow> nat \<Rightarrow> 'a thread" where
  "broadcast ts = (\<lambda>i. wake (ts i))"

inductive qstep :: "'a qsys \<Rightarrow> 'a qsys \<Rightarrow> bool" where
  call_put: "\<not> aborted s \<Longrightarrow> thr s t = Idle \<Longrightarrow> qstep s (s\<lparr>thr := (thr s)(t := Putting x)\<rparr>)"
| call_get: "\<not> aborted s \<Longrightarrow> thr s t = Idle \<Longrightarrow> qstep s (s\<lparr>thr := (thr s)(t := Getting)\<rparr>)"
| put_done: "\<not> aborted s \<Longrightarrow>
     thr s t = Putting x \<and> ds_queue_put (queue s) x = Inr (Done q) \<or>
     thr s t = PutAwake x \<and> ds_queue_put_loop (queue s) x = Inr (Done q) \<Longrightarrow>
     qstep s (s\<lparr>queue := q, thr := (broadcast (thr s))(t := Idle), sent := sent s @ [x]\<rparr>)"
| put_wait: "\<not> aborted s \<Longrightarrow>
     thr s t = Putting x \<and> ds_queue_put (queue s) x = Inr Wait \<or>
     thr s t = PutAwake x \<and> ds_queue_put_loop (queue s) x = Inr Wait \<Longrightarrow>
     qstep s (s\<lparr>thr := (thr s)(t := PutAsleep x)\<rparr>)"
| put_abort: "\<not> aborted s \<Longrightarrow>
     thr s t = Putting x \<and> ds_queue_put (queue s) x = Inl e \<or>
     thr s t = PutAwake x \<and> ds_queue_put_loop (queue s) x = Inl e \<Longrightarrow>
     qstep s (s\<lparr>aborted := True\<rparr>)"
| get_done: "\<not> aborted s \<Longrightarrow> thr s t = Getting \<or> thr s t = GetAwake \<Longrightarrow>
     ds_queue_get (queue s) = Inr (Done (x, q)) \<Longrightarrow> qlen (queue s) \<noteq> 0 \<Longrightarrow>
     qstep s (s\<lparr>queue := q, thr := (broadcast (thr s))(t := Idle), got := got s @ [x]\<rparr>)"
| get_closed: "\<not> aborted s \<Longrightarrow> thr s t = Getting \<or> thr s t = GetAwake \<Longrightarrow>
     ds_queue_get (queue s) = Inr (Done (None, q)) \<Longrightarrow> qlen (queue s) = 0 \<Longrightarrow>
     qstep s (s\<lparr>queue := q, thr := (thr s)(t := Idle)\<rparr>)"
| get_wait: "\<not> aborted s \<Longrightarrow> thr s t = Getting \<or> thr s t = GetAwake \<Longrightarrow>
     ds_queue_get (queue s) = Inr Wait \<Longrightarrow>
     qstep s (s\<lparr>thr := (thr s)(t := GetAsleep)\<rparr>)"
| get_abort: "\<not> aborted s \<Longrightarrow> thr s t = Getting \<or> thr s t = GetAwake \<Longrightarrow>
     ds_queue_get (queue s) = Inl e \<Longrightarrow> qstep s (s\<lparr>aborted := True\<rparr>)"
| close: "\<not> aborted s \<Longrightarrow>
     qstep s (s\<lparr>queue := ds_queue_close (queue s), thr := broadcast (thr s)\<rparr>)"
| spurious: "\<not> aborted s \<Longrightarrow> qstep s (s\<lparr>thr := (thr s)(t := wake (thr s t))\<rparr>)"

definition qsys_init :: "'a dsqueue \<Rightarrow> 'a qsys" where
  "qsys_init q = \<lparr>queue = q, thr = (\<lambda>_. Idle), sent = [], got = [], aborted = False\<rparr>"

inductive qreach :: "'a dsqueue \<Rightarrow> 'a qsys \<Rightarrow> bool" for q0 where
  init: "qreach q0 (qsys_init q0)"
| step: "qreach q0 s \<Longrightarrow> qstep s s' \<Longrightarrow> qreach q0 s'"

text \<open>
  The invariant of the system: the queue is well formed, the log of what came out followed by
  the contents is the log of what went in, a sleeping producer means a full queue, a sleeping
  consumer an empty and open one, and only a closed queue can abort the process.
\<close>

definition qsys_inv :: "'a qsys \<Rightarrow> bool" where
  "qsys_inv s \<longleftrightarrow>
     q_inv (queue s) \<and> sent s = got s @ q_list (queue s) \<and>
     (\<forall>t x. thr s t = PutAsleep x \<longrightarrow> qlen (queue s) = capacity (queue s)) \<and>
     (\<forall>t. thr s t = GetAsleep \<longrightarrow> qlen (queue s) = 0 \<and> \<not> qclosed (queue s)) \<and>
     (aborted s \<longrightarrow> qclosed (queue s))"

lemma wake_not_asleep [simp]: "wake t \<noteq> PutAsleep x" "wake t \<noteq> GetAsleep"
  by (cases t; simp)+

lemma broadcast_not_asleep [simp]: "broadcast ts i \<noteq> PutAsleep x" "broadcast ts i \<noteq> GetAsleep"
  by (simp_all add: broadcast_def)

lemma q_open_put_cases:
  assumes "q_inv q" "\<not> qclosed q"
  shows "(\<exists>q'. ds_queue_put_loop q x = Inr (Done q') \<and> q_inv q' \<and> q_list q' = q_list q @ [x] \<and>
            \<not> qclosed q') \<or> (ds_queue_put_loop q x = Inr Wait \<and> qlen q = capacity q)"
proof (cases "qlen q = capacity q")
  case True
  then show ?thesis
    using assms by (simp add: ds_queue_put_full)
next
  case False
  then have "unat (qlen q) < unat (capacity q)"
    using assms(1) by (auto simp: word_unat_eq_iff elim!: q_invE)
  then show ?thesis
    using assms ds_queue_put_spec[of q x] by metis
qed

lemma put_pass:
  assumes "q_inv q" "ds_queue_put q x = Inr (Done q') \<or> ds_queue_put_loop q x = Inr (Done q')"
  shows "q_inv q' \<and> q_list q' = q_list q @ [x] \<and> \<not> qclosed q'"
proof -
  have "\<not> qclosed q" and "ds_queue_put_loop q x = Inr (Done q')"
    using assms(2) by (auto simp: ds_queue_put_def ds_queue_put_loop_def Let_def split: if_splits)
  then show ?thesis
    using q_open_put_cases[of q x] assms(1) by auto
qed

lemma put_pass_wait:
  "ds_queue_put q x = Inr Wait \<or> ds_queue_put_loop q x = Inr Wait \<Longrightarrow> qlen q = capacity q"
  by (auto simp: ds_queue_put_def ds_queue_put_loop_def Let_def split: if_splits)

lemma put_pass_abort:
  assumes "q_inv q" "ds_queue_put q x = Inl e \<or> ds_queue_put_loop q x = Inl e"
  shows "qclosed q"
  using assms q_open_put_cases[of q x] by (auto simp: ds_queue_put_def split: if_splits)

lemma get_pass:
  assumes "q_inv q"
  shows "ds_queue_get q \<noteq> Inl e"
    and "ds_queue_get q = Inr Wait \<Longrightarrow> qlen q = 0 \<and> \<not> qclosed q"
    and "ds_queue_get q = Inr (Done (x, q')) \<Longrightarrow> qlen q \<noteq> 0 \<Longrightarrow>
           q_inv q' \<and> q_list q = x # q_list q' \<and> qclosed q' = qclosed q"
    and "ds_queue_get q = Inr (Done (x, q')) \<Longrightarrow> qlen q = 0 \<Longrightarrow> q' = q \<and> qclosed q"
proof -
  consider "qlen q = 0" | "0 < unat (qlen q)"
    by (metis neq0_conv unat_eq_zero)
  then have "(qlen q = 0 \<and> ds_queue_get q = (if qclosed q then Inr (Done (None, q)) else Inr Wait)) \<or>
    (qlen q \<noteq> 0 \<and> (\<exists>y p. ds_queue_get q = Inr (Done (y, p)) \<and> q_inv p \<and> q_list q = y # q_list p \<and>
       qclosed p = qclosed q))"
    using assms by cases (auto simp: ds_queue_get_empty intro: ds_queue_get_spec[of q])
  then show "ds_queue_get q \<noteq> Inl e" "ds_queue_get q = Inr Wait \<Longrightarrow> qlen q = 0 \<and> \<not> qclosed q"
    "ds_queue_get q = Inr (Done (x, q')) \<Longrightarrow> qlen q \<noteq> 0 \<Longrightarrow>
       q_inv q' \<and> q_list q = x # q_list q' \<and> qclosed q' = qclosed q"
    "ds_queue_get q = Inr (Done (x, q')) \<Longrightarrow> qlen q = 0 \<Longrightarrow> q' = q \<and> qclosed q"
    by (auto split: if_splits)
qed

lemma close_list: "q_list (ds_queue_close q) = q_list q"
  by (simp add: ds_queue_close_def q_list_def q_index_def)

lemma close_inv: "q_inv q \<Longrightarrow> q_inv (ds_queue_close q)"
  by (simp add: ds_queue_close_def q_inv_def)

lemma qstep_inv: "qstep s s' \<Longrightarrow> qsys_inv s \<Longrightarrow> qsys_inv s'"
proof (induction rule: qstep.induct)
  case (put_done s t x q)
  then have "q_inv q \<and> q_list q = q_list (queue s) @ [x] \<and> \<not> qclosed q"
    by (intro put_pass) (auto simp: qsys_inv_def)
  with put_done show ?case
    by (auto simp: qsys_inv_def)
next
  case (put_wait s t x)
  then have "qlen (queue s) = capacity (queue s)"
    by (intro put_pass_wait[of _ x]) auto
  with put_wait show ?case
    by (auto simp: qsys_inv_def)
next
  case (put_abort s t x e)
  then have "qclosed (queue s)"
    by (intro put_pass_abort[of _ x e]) (auto simp: qsys_inv_def)
  with put_abort show ?case
    by (auto simp: qsys_inv_def)
next
  case (get_done s t x q)
  then have "q_inv q \<and> q_list (queue s) = x # q_list q \<and> qclosed q = qclosed (queue s)"
    by (intro get_pass(3)) (auto simp: qsys_inv_def)
  with get_done show ?case
    by (auto simp: qsys_inv_def)
next
  case (get_closed s t q)
  then have "q = queue s \<and> qclosed (queue s)"
    by (intro get_pass(4)) (auto simp: qsys_inv_def)
  with get_closed show ?case
    by (auto simp: qsys_inv_def)
next
  case (get_wait s t)
  then have "qlen (queue s) = 0 \<and> \<not> qclosed (queue s)"
    by (intro get_pass(2)) (auto simp: qsys_inv_def)
  with get_wait show ?case
    by (auto simp: qsys_inv_def)
next
  case (get_abort s t e)
  then show ?case
    using get_pass(1)[of "queue s" e] by (auto simp: qsys_inv_def)
next
  case (close s)
  then show ?case
    by (auto simp: qsys_inv_def close_list close_inv)
next
  case (spurious s t)
  then show ?case
    by (auto simp: qsys_inv_def)
qed (auto simp: qsys_inv_def)

lemma qreach_inv: "qreach q0 s \<Longrightarrow> q_inv q0 \<Longrightarrow> q_list q0 = [] \<Longrightarrow> qsys_inv s"
proof (induction rule: qreach.induct)
  case init
  then show ?case
    by (simp add: qsys_inv_def qsys_init_def)
qed (blast intro: qstep_inv)

section \<open>Properties\<close>

text \<open>
  C25: in every interleaving of any number of producers, consumers, wake-ups and a close, the items
  handed out so far, followed by what the circular buffer holds, are exactly the items put in, in
  the order in which they were put: nothing is lost, duplicated or reordered.
\<close>

theorem ds_queue_fifo:
  assumes "ds_queue_create mem sync junk n = Inr q0" "unat n < 2 ^ 30" "qreach q0 s"
  shows "sent s = got s @ q_list (queue s) \<and> length (q_list (queue s)) \<le> unat (capacity (queue s))"
proof -
  have n: "0 < n" and ms: "mem" "sync"
    using assms(1) by (auto simp: ds_queue_create_def split: if_splits)
  obtain q where "ds_queue_create True True junk n = Inr q" "q_inv q" "q_list q = []"
    by (rule ds_queue_create_spec[OF n assms(2)])
  then have "qsys_inv s"
    using assms(1,3) ms qreach_inv by fastforce
  then show ?thesis
    by (auto simp: qsys_inv_def elim: q_invE)
qed

definition wit_queue :: "nat dsqueue" where
  "wit_queue = \<lparr>buf = [None, None], pos = 0, qlen = 0, capacity = 2, qclosed = False\<rparr>"

definition wit_queue1 :: "nat dsqueue" where
  "wit_queue1 = \<lparr>buf = [Some 7, None], pos = 0, qlen = 1, capacity = 2, qclosed = False\<rparr>"

lemma wit_queue_create: "ds_queue_create True True (\<lambda>_. None) 2 = Inr wit_queue"
  by (simp add: ds_queue_create_def wit_queue_def upt_conv_Cons)

lemma wit_queue_reach:
  "qreach wit_queue \<lparr>queue = wit_queue1, thr = (\<lambda>_. Idle)(3 := GetAsleep, 3 := GetAwake, 0 := Idle),
     sent = [Some 7], got = [], aborted = False\<rparr>"
proof -
  let ?s0 = "qsys_init wit_queue"
  let ?s1 = "?s0\<lparr>thr := (\<lambda>_. Idle)(3 := Getting)\<rparr>"
  let ?s2 = "?s0\<lparr>thr := (\<lambda>_. Idle)(3 := GetAsleep)\<rparr>"
  let ?s3 = "?s0\<lparr>thr := (\<lambda>_. Idle)(3 := GetAsleep, 0 := Putting (Some 7))\<rparr>"
  let ?s4 = "?s3\<lparr>queue := wit_queue1, thr := (broadcast (thr ?s3))(0 := Idle), sent := [Some 7]\<rparr>"
  have "qreach wit_queue ?s0"
    by (rule qreach.init)
  then have "qreach wit_queue ?s1"
    using qstep.call_get[of ?s0 3] by (auto simp: qsys_init_def intro: qreach.step)
  then have "qreach wit_queue ?s2"
    using qstep.get_wait[of ?s1 3]
    by (auto simp: qsys_init_def wit_queue_def ds_queue_get_def intro: qreach.step)
  then have "qreach wit_queue ?s3"
    using qstep.call_put[of ?s2 0 "Some 7"] by (auto simp: qsys_init_def intro: qreach.step)
  then have "qreach wit_queue ?s4"
    using qstep.put_done[of ?s3 0 "Some 7" wit_queue1]
    by (auto simp: qsys_init_def wit_queue_def wit_queue1_def ds_queue_put_def
        ds_queue_put_loop_def intro: qreach.step)
  moreover have "(broadcast (thr ?s3))(0 := Idle) = (\<lambda>_. Idle)(3 := GetAsleep, 3 := GetAwake, 0 := Idle)"
    by (auto simp: broadcast_def fun_eq_iff)
  ultimately show ?thesis
    by (simp add: qsys_init_def)
qed

theorem ds_queue_fifo_witness:
  "[Some 7] = [] @ q_list wit_queue1 \<and> length (q_list wit_queue1) \<le> unat (capacity wit_queue1)"
  using ds_queue_fifo[OF wit_queue_create _ wit_queue_reach] by simp

text \<open>
  C26: no wake-up is lost. Whenever a consumer sleeps the queue is empty and open, whenever a
  producer sleeps it is full, so the two never sleep at the same time; and the process can only be
  aborted by an assertion after the queue was closed.
\<close>

theorem ds_queue_no_lost_wakeup:
  assumes "ds_queue_create mem sync junk n = Inr q0" "unat n < 2 ^ 30" "qreach q0 s"
  shows "(thr s t = GetAsleep \<longrightarrow> q_list (queue s) = [] \<and> \<not> qclosed (queue s)) \<and>
         (thr s u = PutAsleep x \<longrightarrow> length (q_list (queue s)) = unat (capacity (queue s))) \<and>
         \<not> (thr s t = GetAsleep \<and> thr s u = PutAsleep x) \<and>
         (aborted s \<longrightarrow> qclosed (queue s))"
proof -
  have n: "0 < n" and ms: "mem" "sync"
    using assms(1) by (auto simp: ds_queue_create_def split: if_splits)
  obtain q where "ds_queue_create True True junk n = Inr q" "q_inv q" "q_list q = []"
    by (rule ds_queue_create_spec[OF n assms(2)])
  then have inv: "qsys_inv s"
    using assms(1,3) ms qreach_inv by fastforce
  then have "0 < unat (capacity (queue s))"
    by (auto simp: qsys_inv_def elim: q_invE)
  moreover have "thr s t = GetAsleep \<longrightarrow> qlen (queue s) = 0 \<and> \<not> qclosed (queue s)"
    "thr s u = PutAsleep x \<longrightarrow> qlen (queue s) = capacity (queue s)" "aborted s \<longrightarrow> qclosed (queue s)"
    using inv by (auto simp: qsys_inv_def)
  ultimately show ?thesis
    by (auto simp: q_list_def)
qed

theorem ds_queue_no_lost_wakeup_witness:
  "\<not> (((\<lambda>_. Idle)(3 := GetAsleep, 3 := GetAwake, 0 := Idle)) (3 :: nat) = (GetAsleep :: nat thread))"
  using ds_queue_no_lost_wakeup[OF wit_queue_create _ wit_queue_reach, of 3 0 None]
  by (simp add: wit_queue1_def q_list_def q_index_def)

text \<open>
  Round trip of the buffer. Any batch that fits the capacity goes in without blocking and
  comes out in the same order, after which a further get blocks; and on a full queue a further
  put blocks.
\<close>

theorem ds_queue_fill_drain:
  assumes "ds_queue_create mem sync junk n = Inr q0" "unat n < 2 ^ 30" "length xs \<le> unat n"
  shows "\<exists>q' q''. fill ds_queue_put q0 xs = Inr (Done q') \<and>
           drain ds_queue_get (length xs) q' = Inr (Done (xs, q'')) \<and> ds_queue_get q'' = Inr Wait \<and>
           (length xs = unat n \<longrightarrow> fill ds_queue_put q0 (xs @ [x]) = Inr Wait)"
proof -
  have n: "0 < n" and ms: "mem" "sync"
    using assms(1) by (auto simp: ds_queue_create_def split: if_splits)
  obtain q where q: "ds_queue_create True True junk n = Inr q" "q_inv q" "q_list q = []" "capacity q = n"
    "\<not> qclosed q"
    by (rule ds_queue_create_spec[OF n assms(2)])
  then have "q_open q0" "q_list q0 = []" "capacity q0 = n"
    using assms(1) ms by (simp_all add: q_open_def)
  then show ?thesis
    using dsq.fill_drain[of q0 xs] dsq.fill_overfull[of q0 xs x] assms(3) by auto
qed

theorem ds_queue_fill_drain_witness:
  "\<exists>q' q''. fill ds_queue_put wit_queue [Some 4, None] = Inr (Done q') \<and>
     drain ds_queue_get (length [Some (4::nat), None]) q' = Inr (Done ([Some 4, None], q'')) \<and> ds_queue_get q'' = Inr Wait \<and>
     fill ds_queue_put wit_queue [Some 4, None, Some 5] = Inr Wait"
  using ds_queue_fill_drain[OF wit_queue_create, of "[Some 4, None]" "Some 5"]
  by (simp del: fill.simps drain.simps)

end
