(* ===== verification/CString.thy ===== *)
theory CString
  imports Prelude
begin

text \<open>
  The part of the C string library that the sources call, on \<^typ>\<open>string\<close>s:
  \<^verbatim>\<open>sprintf\<close> with the conversions \<^verbatim>\<open>%0wd\<close>, \<^verbatim>\<open>%0wx\<close> and \<^verbatim>\<open>%s\<close>,
  \<^verbatim>\<open>atoi\<close>, \<^verbatim>\<open>strtol\<close> in base 16, \<^verbatim>\<open>strlen\<close>, \<^verbatim>\<open>strstr\<close>,
  \<^verbatim>\<open>strncmp\<close> and \<^verbatim>\<open>fgets\<close>, with the laws that relate printing and parsing.
\<close>

section \<open>Characters\<close>

definition nul :: char where
  "nul = CHR 0x00"

definition c_digit :: "nat \<Rightarrow> char" where
  "c_digit d = ''0123456789abcdef'' ! d"

definition digit_val :: "char \<Rightarrow> nat option" where
  "digit_val c =
     (let n = of_char c
      in if 48 \<le> n \<and> n \<le> 57 then Some (n - 48)
         else if 97 \<le> n \<and> n \<le> 102 then Some (n - 87)
         else if 65 \<le> n \<and> n \<le> 70 then Some (n - 55)
         else None)"

definition isspace :: "char \<Rightarrow> bool" where
  "isspace c = (let n = (of_char c :: nat) in n = 32 \<or> (9 \<le> n \<and> n \<le> 13))"

section \<open>Printing\<close>

fun show_base :: "nat \<Rightarrow> nat \<Rightarrow> string" where
  "show_base b n = (if b < 2 \<or> n < b then [c_digit n] else show_base b (n div b) @ [c_digit (n mod b)])"

declare show_base.simps [simp del]

definition pad0 :: "nat \<Rightarrow> string \<Rightarrow> string" where
  "pad0 w s = replicate (w - length s) (CHR ''0'') @ s"

text \<open>\<^verbatim>\<open>%0wd\<close>: the sign counts towards the width.\<close>

definition fmt_d :: "nat \<Rightarrow> int \<Rightarrow> string" where
  "fmt_d w n = (if n < 0 then CHR ''-'' # pad0 (w - 1) (show_base 10 (nat (- n)))
                else pad0 w (show_base 10 (nat n)))"

text \<open>\<^verbatim>\<open>%0wx\<close> of an unsigned value.\<close>

definition fmt_x :: "nat \<Rightarrow> nat \<Rightarrow> string" where
  "fmt_x w n = pad0 w (show_base 16 n)"

text \<open>
  \<^verbatim>\<open>sprintf\<close> into an array of \<open>cap\<close> bytes: the text and its NUL byte must fit. The
  value of the result is the array, whose tail keeps the zeros it was initialised with.
\<close>

definition sprintf_buf :: "nat \<Rightarrow> string \<Rightarrow> string res" where
  "sprintf_buf cap s =
     (if length s + 1 \<le> cap then Inr (s @ replicate (cap - length s) nul) else Inl BufferOverflow)"

section \<open>Parsing\<close>

fun digits_val :: "nat \<Rightarrow> int \<Rightarrow> string \<Rightarrow> int" where
  "digits_val b acc [] = acc"
| "digits_val b acc (c # cs) =
     (case digit_val c of
        Some d \<Rightarrow> if d < b then digits_val b (acc * int b + int d) cs else acc
      | None \<Rightarrow> acc)"

definition saturate32 :: "int \<Rightarrow> int" where
  "saturate32 n = max (- 2147483648) (min 2147483647 n)"

text \<open>
  \<^verbatim>\<open>strtol\<close> skips white space, takes a sign, and in base 16 an optional prefix
  \<^verbatim>\<open>0x\<close> that is followed by a digit; a \<^verbatim>\<open>long\<close> saturates. \<^verbatim>\<open>atoi\<close> is
  \<^verbatim>\<open>strtol\<close> in base 10.
\<close>

definition skip_prefix16 :: "string \<Rightarrow> string" where
  "skip_prefix16 s =
     (case s of
        z # x # d # r \<Rightarrow>
          if z = CHR ''0'' \<and> (x = CHR ''x'' \<or> x = CHR ''X'') \<and> digit_val d \<noteq> None then d # r else s
      | _ \<Rightarrow> s)"

definition strtol :: "nat \<Rightarrow> string \<Rightarrow> int" where
  "strtol b s =
     (let t = dropWhile isspace s;
          neg = (t \<noteq> [] \<and> hd t = CHR ''-'');
          u = (if t \<noteq> [] \<and> (hd t = CHR ''-'' \<or> hd t = CHR ''+'') then tl t else t);
          v = digits_val b 0 (if b = 16 then skip_prefix16 u else u)
      in saturate32 (if neg then - v else v))"

definition atoi :: "string \<Rightarrow> int" where
  "atoi s = strtol 10 s"

section \<open>Strings in arrays\<close>

text \<open>The C string that starts at the beginning of an array.\<close>

definition c_str :: "string \<Rightarrow> string" where
  "c_str buf = takeWhile (\<lambda>c. c \<noteq> nul) buf"

definition strlen :: "string \<Rightarrow> nat" where
  "strlen buf = length (c_str buf)"

definition has_prefix :: "string \<Rightarrow> string \<Rightarrow> bool" where
  "has_prefix p s = (take (length p) s = p)"

text \<open>\<^verbatim>\<open>strstr\<close>: the suffix that starts at the first occurrence.\<close>

fun strstr :: "string \<Rightarrow> string \<Rightarrow> string option" where
  "strstr [] p = (if p = [] then Some [] else None)"
| "strstr (c # s) p = (if has_prefix p (c # s) then Some (c # s) else strstr s p)"

text \<open>
  \<^verbatim>\<open>fgets\<close> with a buffer of \<open>n\<close> bytes reads up to and including a newline, at most
  \<open>n - 1\<close> bytes; None at the end of the stream.
\<close>

fun line_of :: "nat \<Rightarrow> string \<Rightarrow> string" where
  "line_of 0 s = []"
| "line_of (Suc n) [] = []"
| "line_of (Suc n) (c # s) = (if c = CHR 0x0A then [c] else c # line_of n s)"

definition fgets :: "nat \<Rightarrow> string \<Rightarrow> (string \<times> string) option" where
  "fgets n s = (if s = [] \<or> n < 2 then None
                else let l = line_of (n - 1) s in Some (l, drop (length l) s))"
section \<open>Laws\<close>

lemma c_digit_cases:
  assumes "d < 16"
  shows "digit_val (c_digit d) = Some d" "c_digit d \<noteq> nul" "\<not> isspace (c_digit d)"
    "c_digit d \<noteq> CHR ''-''" "c_digit d \<noteq> CHR ''+''" "c_digit d \<noteq> CHR '';''"
    "c_digit d \<noteq> CHR ''x''" "c_digit d \<noteq> CHR ''X''"
proof -
  have "d \<in> {0,1,2,3,4,5,6,7,8,9,10,11,12,13,14,15}"
    using assms by (simp add: eval_nat_numeral less_Suc_eq)
  then have *: "digit_val (c_digit d) = Some d \<and> c_digit d \<noteq> nul \<and> \<not> isspace (c_digit d) \<and>
      c_digit d \<noteq> CHR ''-'' \<and> c_digit d \<noteq> CHR ''+'' \<and> c_digit d \<noteq> CHR '';'' \<and>
      c_digit d \<noteq> CHR ''x'' \<and> c_digit d \<noteq> CHR ''X''"
    by (elim insertE emptyE) (simp_all add: c_digit_def digit_val_def nul_def isspace_def)
  then show "digit_val (c_digit d) = Some d" "c_digit d \<noteq> nul" "\<not> isspace (c_digit d)"
    "c_digit d \<noteq> CHR ''-''" "c_digit d \<noteq> CHR ''+''" "c_digit d \<noteq> CHR '';''"
    "c_digit d \<noteq> CHR ''x''" "c_digit d \<noteq> CHR ''X''"
    by simp_all
qed

lemma show_base_nonempty: "show_base b n \<noteq> []"
  by (subst show_base.simps) simp

lemma show_base_digits:
  "2 \<le> b \<Longrightarrow> b \<le> 16 \<Longrightarrow> set (show_base b n) \<subseteq> c_digit ` {..<b}"
proof (induction b n rule: show_base.induct)
  case (1 b n)
  show ?case
  proof (cases "n < b")
    case True
    then show ?thesis
      using "1.prems" by (subst show_base.simps) auto
  next
    case False
    then have "set (show_base b (n div b)) \<subseteq> c_digit ` {..<b}"
      using 1 by simp
    then show ?thesis
      using "1.prems" False by (subst show_base.simps) auto
  qed
qed

lemma length_show_base:
  "2 \<le> b \<Longrightarrow> n < b ^ k \<Longrightarrow> 0 < k \<Longrightarrow> length (show_base b n) \<le> k"
proof (induction b n arbitrary: k rule: show_base.induct)
  case (1 b n)
  show ?case
  proof (cases "n < b")
    case True
    then show ?thesis
      using "1.prems" by (subst show_base.simps) simp
  next
    case False
    obtain j where k: "k = Suc j"
      using "1.prems" by (cases k) auto
    have "n div b < b ^ j"
      using "1.prems" k by (simp add: less_mult_imp_div_less mult.commute)
    moreover have "0 < j"
      using False "1.prems" k by (cases j) auto
    ultimately have "length (show_base b (n div b)) \<le> j"
      using 1 False by simp
    then show ?thesis
      using False "1.prems" k by (subst show_base.simps) simp
  qed
qed

lemma length_pad0: "length (pad0 w s) = max w (length s)"
  by (simp add: pad0_def)

lemma length_fmt_d: "0 \<le> n \<Longrightarrow> n < 10 ^ w \<Longrightarrow> 0 < w \<Longrightarrow> length (fmt_d w n) = w"
  using length_show_base[of 10 "nat n" w]
  by (simp add: fmt_d_def length_pad0 max_def nat_less_iff)

lemma length_fmt_x: "n < 16 ^ w \<Longrightarrow> 0 < w \<Longrightarrow> length (fmt_x w n) = w"
  using length_show_base[of 16 n w] by (simp add: fmt_x_def length_pad0 max_def)

lemma length_fmt_x2 [simp]: "length (fmt_x 2 (unat (b :: u8))) = 2"
  by (rule length_fmt_x) (use unsigned_less[of b] in simp_all)

lemma digits_val_show_base:
  "2 \<le> b \<Longrightarrow> b \<le> 16 \<Longrightarrow>
   \<exists>k. digits_val b acc (show_base b n @ s) = digits_val b (acc * int b ^ k + int n) s"
proof (induction b n arbitrary: s rule: show_base.induct)
  case (1 b n)
  show ?case
  proof (cases "n < b")
    case True
    then show ?thesis
      using "1.prems" c_digit_cases(1)[of n]
      by (subst show_base.simps) (auto intro!: exI[of _ 1])
  next
    case False
    then obtain k where k:
      "digits_val b acc (show_base b (n div b) @ (c_digit (n mod b) # s)) =
         digits_val b (acc * int b ^ k + int (n div b)) (c_digit (n mod b) # s)"
      using 1 by (metis leD)
    have "n mod b < b"
      using "1.prems" by simp
    then have d: "digit_val (c_digit (n mod b)) = Some (n mod b)"
      using "1.prems" by (intro c_digit_cases(1)) linarith
    have "(acc * int b ^ k + int (n div b)) * int b + int (n mod b) = acc * int b ^ Suc k + int n"
      by (simp add: algebra_simps flip: of_nat_mult of_nat_add)
    then have "digits_val b acc (show_base b n @ s) = digits_val b (acc * int b ^ Suc k + int n) s"
      using False "1.prems" k d \<open>n mod b < b\<close> by (subst show_base.simps) simp
    then show ?thesis
      by (intro exI[of _ "Suc k"]) simp
  qed
qed

lemma digits_val_zeros:
  "0 < b \<Longrightarrow> digits_val b 0 (replicate k (CHR ''0'') @ s) = digits_val b 0 s"
proof (induction k)
  case (Suc k)
  then show ?case
    using c_digit_cases(1)[of 0] by (simp add: c_digit_def)
qed simp

lemma digits_val_pad0:
  "2 \<le> b \<Longrightarrow> b \<le> 16 \<Longrightarrow> digits_val b 0 (pad0 w (show_base b n) @ s) = digits_val b (int n) s"
  using digits_val_show_base[of b 0 n s] by (auto simp: pad0_def digits_val_zeros)

lemma digits_val_stop: "digit_val c = None \<Longrightarrow> digits_val b acc (c # s) = acc"
  by simp

lemma pad0_digits:
  "2 \<le> b \<Longrightarrow> b \<le> 16 \<Longrightarrow> set (pad0 w (show_base b n)) \<subseteq> c_digit ` {..<b}"
proof -
  assume b: "2 \<le> b" "b \<le> 16"
  have "CHR ''0'' = c_digit 0"
    by (simp add: c_digit_def)
  then have "set (replicate k (CHR ''0'')) \<subseteq> c_digit ` {..<b}" for k
    using b by auto
  then show ?thesis
    using show_base_digits[OF b] by (simp add: pad0_def)
qed

lemma pad0_hd:
  assumes "2 \<le> b" "b \<le> 16"
  obtains d r where "d < b" "pad0 w (show_base b n) = c_digit d # r"
proof -
  have ne: "pad0 w (show_base b n) \<noteq> []"
    by (simp add: pad0_def show_base_nonempty)
  then have "hd (pad0 w (show_base b n)) \<in> c_digit ` {..<b}"
    using pad0_digits[OF assms] by (meson hd_in_set subsetD)
  then show ?thesis
    using that ne by (metis imageE lessThan_iff list.exhaust_sel)
qed

lemma fmt_d_chars: "0 \<le> n \<Longrightarrow> set (fmt_d w n) \<subseteq> c_digit ` {..<10}"
  using pad0_digits[of 10 w "nat n"] by (simp add: fmt_d_def)

lemma fmt_x_chars: "set (fmt_x w n) \<subseteq> c_digit ` {..<16}"
  using pad0_digits[of 16 w n] by (simp add: fmt_x_def)

lemma fmt_x_no_nul: "nul \<notin> set (fmt_x w n)"
  using fmt_x_chars[of w n] c_digit_cases(2) by fastforce

lemma fmt_d_no_nul: "0 \<le> n \<Longrightarrow> nul \<notin> set (fmt_d w n)"
proof
  assume "0 \<le> n" "nul \<in> set (fmt_d w n)"
  then obtain d where "d < 10" "nul = c_digit d"
    using fmt_d_chars[of n w] by auto
  then show False
    using c_digit_cases(2)[of d] by simp
qed

text \<open>What \<^verbatim>\<open>%0wd\<close> prints, \<^verbatim>\<open>atoi\<close> reads back, up to the first other character.\<close>

lemma atoi_fmt_d:
  assumes "0 \<le> n" "n \<le> 2147483647" "s = [] \<or> digit_val (hd s) = None"
  shows "atoi (fmt_d w n @ s) = n"
proof -
  obtain d r where d: "d < 10" "pad0 w (show_base 10 (nat n)) = c_digit d # r"
    by (rule pad0_hd[of 10]) simp_all
  have "digits_val 10 0 (pad0 w (show_base 10 (nat n)) @ s) = n"
    using assms digits_val_pad0[of 10 w "nat n" s] by (cases s) simp_all
  then show ?thesis
    using assms(1,2) d c_digit_cases[of d]
    by (simp add: atoi_def strtol_def fmt_d_def saturate32_def)
qed

lemma atoi_fmt_d0: "0 \<le> n \<Longrightarrow> n \<le> 2147483647 \<Longrightarrow> atoi (fmt_d w n) = n"
  using atoi_fmt_d[of n "[]" w] by simp

lemma saturate32_id: "- 2147483648 \<le> n \<Longrightarrow> n \<le> 2147483647 \<Longrightarrow> saturate32 n = n"
  by (simp add: saturate32_def)

lemma strtol16_fmt_x2: "strtol 16 (fmt_x 2 (unat (b :: u8))) = int (unat b)"
proof -
  have len: "length (fmt_x 2 (unat b)) = 2"
    by (rule length_fmt_x2)
  then obtain x y where xy: "fmt_x 2 (unat b) = [x, y]"
    by (metis One_nat_def Suc_1 length_0_conv length_Suc_conv)
  obtain d where d: "d < 16" "x = c_digit d"
    using fmt_x_chars[of 2 "unat b"] xy by auto
  have "digits_val 16 0 (fmt_x 2 (unat b)) = int (unat b)"
    using digits_val_pad0[of 16 2 "unat b" "[]"] by (simp add: fmt_x_def)
  moreover have "uint b < 256"
    using unsigned_less[of b, where ?'a = int] by simp
  then have "saturate32 (uint b) = uint b"
    by (intro saturate32_id) (simp_all add: order_trans[OF _ unsigned_greater_eq])
  ultimately show ?thesis
    using xy d c_digit_cases[of d]
    by (simp add: strtol_def skip_prefix16_def)
qed

lemma c_str_append_nul: "nul \<notin> set s \<Longrightarrow> c_str (s @ nul # r) = s"
  by (induction s) (auto simp: c_str_def)

lemma c_str_no_nul: "nul \<notin> set (c_str s)"
  by (auto simp: c_str_def dest: set_takeWhileD)

lemma c_str_id: "nul \<notin> set s \<Longrightarrow> c_str s = s"
  by (induction s) (auto simp: c_str_def)

lemma sprintf_buf_ok:
  "length s < cap \<Longrightarrow> sprintf_buf cap s = Inr (s @ replicate (cap - length s) nul)"
  by (simp add: sprintf_buf_def)

lemma sprintf_buf_overflow: "sprintf_buf cap s = Inl BufferOverflow \<longleftrightarrow> cap \<le> length s"
  by (auto simp: sprintf_buf_def)

lemma strstr_Some_suffix: "strstr s p = Some t \<Longrightarrow> \<exists>r. s = r @ t"
proof (induction s p rule: strstr.induct)
  case (2 c s p)
  show ?case
  proof (cases "has_prefix p (c # s)")
    case True
    with 2 show ?thesis
      by (auto intro!: exI[of _ "[]"])
  next
    case False
    with 2 obtain r where "s = r @ t"
      by auto
    then show ?thesis
      by (intro exI[of _ "c # r"]) simp
  qed
qed (auto split: if_splits)

lemma length_line_of: "length (line_of n s) \<le> n"
  by (induction n s rule: line_of.induct) auto

lemma line_of_prefix: "line_of n s @ drop (length (line_of n s)) s = s"
  by (induction n s rule: line_of.induct) auto

lemma line_of_nonempty: "s \<noteq> [] \<Longrightarrow> line_of (Suc n) s \<noteq> []"
  by (cases s) auto

text \<open>Each call of \<^verbatim>\<open>fgets\<close> that returns a line consumes input, so a read loop ends.\<close>

lemma fgets_progress: "fgets n s = Some (l, s') \<Longrightarrow> length s' < length s \<and> s = l @ s'"
proof -
  assume a: "fgets n s = Some (l, s')"
  then have s: "s \<noteq> []" "2 \<le> n" and l: "l = line_of (n - 1) s" "s' = drop (length l) s"
    by (auto simp: fgets_def Let_def split: if_splits)
  have "l \<noteq> []"
    using s l(1) line_of_nonempty[of s "n - 2"]
    by (metis One_nat_def Suc_1 Suc_diff_le diff_Suc_Suc)
  then show ?thesis
    using l line_of_prefix[of "n - 1" s] by (metis add_less_same_cancel2 append_eq_conv_conj
      length_append length_greater_0_conv less_add_same_cancel2)
qed

end
