(* ===== verification/Scanf.thy ===== *)
theory Scanf
  imports CString
begin

text \<open>
  The conversions of \<^verbatim>\<open>sscanf\<close> that the sources use on the output of \<^verbatim>\<open>iw\<close>: white space,
  literal characters, \<^verbatim>\<open>%x\<close>, \<^verbatim>\<open>%u\<close> and \<^verbatim>\<open>%d\<close>. The result is the list of converted
  values, so a scan that stops early gives a shorter list, and the variables of the missing
  conversions keep what they had. \<open>fgets_lines\<close> is the sequence of lines a loop over
  \<^verbatim>\<open>fgets\<close> sees.
\<close>

datatype scan_dir = Ws | Lit char | Hex | Dec

definition is_digit_in :: "nat \<Rightarrow> char \<Rightarrow> bool" where
  "is_digit_in b c = (case digit_val c of None \<Rightarrow> False | Some d \<Rightarrow> d < b)"

definition scan_num :: "nat \<Rightarrow> string \<Rightarrow> (int \<times> string) option" where
  "scan_num b s =
     (let t = dropWhile isspace s;
          neg = (t \<noteq> [] \<and> hd t = CHR ''-'');
          u = (if t \<noteq> [] \<and> (hd t = CHR ''-'' \<or> hd t = CHR ''+'') then tl t else t);
          v = (if b = 16 then skip_prefix16 u else u);
          n = digits_val b 0 v
      in if v = [] \<or> \<not> is_digit_in b (hd v) then None
         else Some (if neg then - n else n, dropWhile (is_digit_in b) v))"

fun sscanf :: "scan_dir list \<Rightarrow> string \<Rightarrow> int list" where
  "sscanf [] s = []"
| "sscanf (Ws # ds) s = sscanf ds (dropWhile isspace s)"
| "sscanf (Lit c # ds) s = (case s of [] \<Rightarrow> [] | x # xs \<Rightarrow> if x = c then sscanf ds xs else [])"
| "sscanf (Hex # ds) s = (case scan_num 16 s of None \<Rightarrow> [] | Some (v, r) \<Rightarrow> v # sscanf ds r)"
| "sscanf (Dec # ds) s = (case scan_num 10 s of None \<Rightarrow> [] | Some (v, r) \<Rightarrow> v # sscanf ds r)"

definition lits :: "string \<Rightarrow> scan_dir list" where
  "lits s = map (\<lambda>c. if c = CHR '' '' then Ws else Lit c) s"

text \<open>Assigning the scanned values to variables.\<close>

definition scan_into :: "int list \<Rightarrow> int list \<Rightarrow> int list" where
  "scan_into vs old = vs @ drop (length vs) old"

function fgets_lines :: "nat \<Rightarrow> string \<Rightarrow> string list" where
  "fgets_lines n s = (case fgets n s of None \<Rightarrow> [] | Some (l, r) \<Rightarrow> l # fgets_lines n r)"
  by pat_completeness auto
termination
  by (relation "measure (\<lambda>(n, s). length s)") (auto dest: fgets_progress)

declare fgets_lines.simps [simp del]

lemma fgets_lines_concat: "2 \<le> n \<Longrightarrow> concat (fgets_lines n s) = s"
proof (induction n s rule: fgets_lines.induct)
  case (1 n s)
  show ?case
  proof (cases "fgets n s")
    case None
    then show ?thesis
      using "1.prems" by (subst fgets_lines.simps) (auto simp: fgets_def Let_def split: if_splits)
  next
    case (Some p)
    then show ?thesis
      using 1 fgets_progress[of n s] by (subst fgets_lines.simps) (cases p, auto)
  qed
qed

lemma length_fgets_line: "l \<in> set (fgets_lines n s) \<Longrightarrow> length l < n"
proof (induction n s rule: fgets_lines.induct)
  case (1 n s)
  show ?case
  proof (cases "fgets n s")
    case None
    then show ?thesis
      using "1.prems" by (simp add: fgets_lines.simps[of n s])
  next
    case (Some p)
    then have "length (fst p) < n"
      using length_line_of[of "n - 1" s] by (auto simp: fgets_def Let_def split: if_splits)
    then show ?thesis
      using 1 Some by (cases p) (auto simp: fgets_lines.simps[of n s])
  qed
qed

end
