(* ===== verification/CDouble.thy ===== *)
theory CDouble
  imports Prelude
begin

text \<open>
  The part of C's \<^verbatim>\<open>double\<close> that the measuring code uses: quotients of integers. A finite value
  is the exact rational number (the rounding to 53 bits is not modelled); division by zero gives
  an infinity or not-a-number, as in IEEE 754.
\<close>

datatype dbl = Fin rat | PosInf | NegInf | NaN

definition dbl_div :: "int \<Rightarrow> int \<Rightarrow> dbl" where
  "dbl_div a b =
     (if b \<noteq> 0 then Fin (of_int a / of_int b)
      else if a > 0 then PosInf else if a < 0 then NegInf else NaN)"

text \<open>
  The conversion to \<^verbatim>\<open>int\<close> truncates; it is undefined when the value does not fit.
\<close>

definition dbl_to_int :: "dbl \<Rightarrow> int res" where
  "dbl_to_int d =
     (case d of
        Fin q \<Rightarrow> let n = (if q < 0 then - \<lfloor>- q\<rfloor> else \<lfloor>q\<rfloor>)
                  in if - 2147483648 \<le> n \<and> n \<le> 2147483647 then Inr n else Inl OutOfBounds
      | _ \<Rightarrow> Inl DivZero)"

lemma dbl_to_int_div:
  assumes "0 \<le> a" "0 < b" "a div b \<le> 2147483647"
  shows "dbl_to_int (dbl_div a b) = Inr (a div b)"
proof -
  have "\<not> (of_int a / of_int b :: rat) < 0"
    using assms by (simp add: divide_less_0_iff)
  moreover have "\<lfloor>of_int a / of_int b :: rat\<rfloor> = a div b"
    by (rule floor_divide_of_int_eq)
  moreover have "0 \<le> a div b"
    using assms by (simp add: pos_imp_zdiv_nonneg_iff)
  ultimately show ?thesis
    using assms by (simp add: dbl_to_int_def dbl_div_def Let_def)
qed

lemma dbl_to_int_div_zero: "dbl_to_int (dbl_div a 0) = Inl DivZero"
  by (simp add: dbl_to_int_def dbl_div_def)

end
