(* ===== verification/ApSurvey.thy ===== *)
theory ApSurvey
  imports Scanf CDouble
begin

text \<open>
  Reading the channel survey (\<^verbatim>\<open>ap_survey.c\<close>, of which the collector client and the roaming
  module of hostapd have a copy each; \<^verbatim>\<open>get_ap_au\<close> is only in hostapd's). The functions run
  \<^verbatim>\<open>iw\<close> through \<^verbatim>\<open>popen\<close> and pick the value of a line by its number. The shell is the
  argument \<open>sh\<close>: the output of a command, None if it cannot be started.
\<close>

section \<open>Data\<close>

type_synonym shell = "string \<Rightarrow> string option"

record sta_info_t =
  si_inactive_time :: u32
  si_signal :: int
  si_rx_byte :: u32
  si_tx_byte :: u32
  si_rx_packets :: u32
  si_tx_packets :: u32

record ap_info_t =
  ai_bssid :: string
  ai_ssid :: string
  ai_channel :: u32
  ai_width :: u32
  ai_center :: u32

record ap_survey_t =
  as_ssid :: string
  as_rssi :: int
  as_channel :: u32
  as_utilization :: dbl

definition no_sta_info :: sta_info_t where
  "no_sta_info = \<lparr>si_inactive_time = 0, si_signal = 0, si_rx_byte = 0, si_tx_byte = 0, si_rx_packets = 0, si_tx_packets = 0\<rparr>"

definition c_TRUE :: int where
  "c_TRUE = 1"

definition c_FALSE :: int where
  "c_FALSE = 0"

definition c_ERR :: int where
  "c_ERR = - 1"

section \<open>Which radio has the station\<close>

definition station_list_cmd :: "int \<Rightarrow> string" where
  "station_list_cmd chip_index =
     ''iw dev wlan'' @ (if chip_index \<noteq> 0 then ''1'' else ''0'') @
     '' station dump | grep Station | awk '' @ [CHR 0x27] @ ''{ORS='' @ [CHR 0x22] @ '','' @ [CHR 0x22] @
     '';print $2}'' @ [CHR 0x27]"

text \<open>Only the first 255 bytes of the list are looked at.\<close>

definition find_sta :: "shell \<Rightarrow> string \<Rightarrow> int \<Rightarrow> int" where
  "find_sta sh sta_mac chip_index =
     (case sh (station_list_cmd chip_index) of
        None \<Rightarrow> c_ERR
      | Some out \<Rightarrow>
          let b = (case fgets 256 out of None \<Rightarrow> [] | Some (l, _) \<Rightarrow> c_str l)
          in if strstr b sta_mac \<noteq> None then c_TRUE else c_FALSE)"

definition find_chipset :: "shell \<Rightarrow> string \<Rightarrow> int" where
  "find_chipset sh sta_mac =
     (if find_sta sh sta_mac 0 = c_TRUE then 1
      else if find_sta sh sta_mac 1 = c_TRUE then 2
      else c_FALSE)"

section \<open>The second word of a line\<close>

definition parm_cmd :: "string \<Rightarrow> string" where
  "parm_cmd head =
     take 511 (''echo -e '' @ [CHR 0x22] @ head @ [CHR 0x22] @ '' | awk '' @ [CHR 0x27] @ ''{print $2}'' @ [CHR 0x27])"

text \<open>The value is cut out by the shell; \<open>parm\<close> is what the buffer holds before.\<close>

definition get_parm :: "shell \<Rightarrow> string \<Rightarrow> string \<Rightarrow> string \<Rightarrow> string" where
  "get_parm sh str parm flag =
     (case strstr str flag of
        None \<Rightarrow> parm
      | Some head \<Rightarrow>
          (case sh (parm_cmd head) of
             None \<Rightarrow> parm
           | Some out \<Rightarrow> (case fgets 64 out of None \<Rightarrow> parm | Some (l, _) \<Rightarrow> c_str l)))"

section \<open>Station and access point\<close>

definition wlan :: "int \<Rightarrow> string option" where
  "wlan chip_index = (if chip_index = 1 then Some ''wlan0'' else if chip_index = 2 then Some ''wlan1'' else None)"

text \<open>
  The loop leaves at the line with number 8, \<^verbatim>\<open>STA_INFO_SIGNAL\<close>. The command is cut at the
  127 bytes of its buffer.
\<close>

fun sta_info_loop :: "shell \<Rightarrow> nat \<Rightarrow> string list \<Rightarrow> sta_info_t \<Rightarrow> sta_info_t" where
  "sta_info_loop sh index [] s = s"
| "sta_info_loop sh index (b # bs) s =
     (if index = 8 then s\<lparr>si_signal := atoi (get_parm sh (c_str b) [] ''signal:'')\<rparr>
      else sta_info_loop sh (index + 1) bs s)"

definition get_sta_info :: "shell \<Rightarrow> string \<Rightarrow> int \<Rightarrow> sta_info_t \<Rightarrow> int \<times> sta_info_t" where
  "get_sta_info sh sta_mac chip_index s =
     (if chip_index = 0 then (c_FALSE, s)
      else case wlan chip_index of
             None \<Rightarrow> (c_FALSE, s)
           | Some dev \<Rightarrow>
               (case sh (take 127 (''iw '' @ dev @ '' station get '' @ sta_mac)) of
                  None \<Rightarrow> (c_ERR, s)
                | Some out \<Rightarrow> (c_TRUE, sta_info_loop sh 0 (fgets_lines 256 out) s)))"

definition strncpy :: "nat \<Rightarrow> string \<Rightarrow> string \<Rightarrow> string" where
  "strncpy n src dst = mem_write 0 (take n (src @ replicate n nul)) dst"

text \<open>Dropping the newline of the SSID writes before the buffer when the value is empty.\<close>

fun ap_info_loop :: "shell \<Rightarrow> nat \<Rightarrow> string list \<Rightarrow> ap_info_t \<Rightarrow> ap_info_t res" where
  "ap_info_loop sh index [] a = Inr a"
| "ap_info_loop sh index (b # bs) a =
     (if index = 3
      then ap_info_loop sh (index + 1) bs (a\<lparr>ai_bssid := strncpy 17 (get_parm sh (c_str b) [] ''addr'') (ai_bssid a)\<rparr>)
      else if index = 4
      then let parm = get_parm sh (c_str b) [] ''ssid''
           in if parm = [] then Inl OutOfBounds
              else ap_info_loop sh (index + 1) bs (a\<lparr>ai_ssid := strncpy 63 (butlast parm) (ai_ssid a)\<rparr>)
      else ap_info_loop sh (index + 1) bs a)"

definition get_ap_info :: "shell \<Rightarrow> int \<Rightarrow> ap_info_t \<Rightarrow> (int \<times> ap_info_t) res" where
  "get_ap_info sh chip_index a =
     (if chip_index = 0 then Inr (c_FALSE, a)
      else case wlan chip_index of
             None \<Rightarrow> Inr (c_FALSE, a)
           | Some dev \<Rightarrow>
               (case sh (''iw dev '' @ dev @ '' info'') of
                  None \<Rightarrow> Inr (c_ERR, a)
                | Some out \<Rightarrow> bind_res (ap_info_loop sh 0 (fgets_lines 256 out) a) (\<lambda>a'. Inr (c_TRUE, a'))))"

section \<open>The survey\<close>

text \<open>The lines 1, 2 and 3 give the frequency and the active and the busy time.\<close>

fun survey_loop :: "shell \<Rightarrow> nat \<Rightarrow> string list \<Rightarrow> u32 \<times> int \<times> int \<Rightarrow> u32 \<times> int \<times> int" where
  "survey_loop sh index [] r = r"
| "survey_loop sh index (b # bs) (channel, active, busy) =
     survey_loop sh (index + 1) bs
       (if index = 1 then (of_int (atoi (get_parm sh (c_str b) [] ''frequency:'')), active, busy)
        else if index = 2 then (channel, atoi (get_parm sh (c_str b) [] ''time:''), busy)
        else if index = 3 then (channel, active, atoi (get_parm sh (c_str b) [] ''time:''))
        else (channel, active, busy))"

definition get_ap_survey :: "shell \<Rightarrow> string \<Rightarrow> ap_survey_t \<Rightarrow> int \<times> ap_survey_t" where
  "get_ap_survey sh sta_mac a =
     (let chip_index = find_chipset sh sta_mac
      in if chip_index = 0 then (c_FALSE, a)
         else let si = snd (get_sta_info sh sta_mac chip_index no_sta_info)
              in case wlan chip_index of
                   None \<Rightarrow> (c_FALSE, a)
                 | Some dev \<Rightarrow>
                     (case sh (''iw '' @ dev @ '' survey dump'') of
                        None \<Rightarrow> (c_ERR, a)
                      | Some out \<Rightarrow>
                          let (channel, active, busy) = survey_loop sh 0 (fgets_lines 256 out) (as_channel a, 0, 0)
                          in (c_TRUE, a\<lparr>as_channel := channel, as_rssi := si_signal si,
                                        as_utilization := dbl_div (busy * 100) active\<rparr>)))"

text \<open>\<^verbatim>\<open>get_ap_au\<close>: the loop does not look at the frequency.\<close>

fun au_loop :: "shell \<Rightarrow> nat \<Rightarrow> string list \<Rightarrow> int \<times> int \<Rightarrow> int \<times> int" where
  "au_loop sh index [] r = r"
| "au_loop sh index (b # bs) (active, busy) =
     au_loop sh (index + 1) bs
       (if index = 2 then (atoi (get_parm sh (c_str b) [] ''time:''), busy)
        else if index = 3 then (active, atoi (get_parm sh (c_str b) [] ''time:''))
        else (active, busy))"

definition get_ap_au :: "shell \<Rightarrow> int \<Rightarrow> int res" where
  "get_ap_au sh mode =
     (if mode \<noteq> 0 \<and> mode \<noteq> 1 then Inr c_ERR
      else case sh (''iw wlan'' @ (if mode = 0 then ''0'' else ''1'') @ '' survey dump'') of
             None \<Rightarrow> Inr c_ERR
           | Some out \<Rightarrow>
               let (active, busy) = au_loop sh 0 (fgets_lines 256 out) (0, 0)
               in dbl_to_int (dbl_div (busy * 100) active))"

end
