(* ===== verification/Collector.thy ===== *)
theory Collector
  imports HashMap DSQueue ApSurvey
begin

text \<open>
  The collector client (\<^verbatim>\<open>infoCollect.c\<close> and \<^verbatim>\<open>network.c\<close> under
  \<^verbatim>\<open>data collector/InfoCollectClient_V1.1/src\<close>): a capture callback that measures the time
  between the second and the third packet of TCP handshakes, a thread that adds what the access
  point knows of the station, and a thread that sends the records to the server.

  The capture callback alone uses the session table and the measuring thread alone the station
  table, so each table comes with its own part of the heap. The shell is the argument \<open>sh\<close>, as in
  \<open>ApSurvey\<close>, for the duration of one call of \<^verbatim>\<open>getInfo\<close>, which runs every command once.
\<close>

section \<open>Records\<close>

record Record =
  sta_mac :: string
  rssi :: int
  mode :: int
  au :: dbl
  delay :: int
  br :: dbl
  tt :: int
  rt :: int

record ThroughputRecord =
  tr_tt :: int
  tr_rt :: int
  last_time :: int

definition le32 :: "u32 \<Rightarrow> bytes" where
  "le32 w = [ucast w, ucast (drop_bit 8 w), ucast (drop_bit 16 w), ucast (drop_bit 24 w)]"

definition le64 :: "u64 \<Rightarrow> bytes" where
  "le64 w = le32 (ucast w) @ le32 (ucast (drop_bit 32 w))"

text \<open>A \<^verbatim>\<open>struct timeval\<close> and a \<^verbatim>\<open>ThroughputRecord\<close> (with four bytes of padding) in memory.\<close>

definition timeval_bytes :: "int \<Rightarrow> int \<Rightarrow> bytes" where
  "timeval_bytes sec usec = le32 (of_int sec) @ le32 (of_int usec)"

definition throughput_fields :: "ThroughputRecord \<Rightarrow> bytes" where
  "throughput_fields r = le64 (of_int (tr_tt r)) @ le64 (of_int (tr_rt r)) @ le32 (of_int (last_time r))"

definition throughput_at :: "bytes \<Rightarrow> ThroughputRecord" where
  "throughput_at v = \<lparr>tr_tt = sint (getblock64 v 0), tr_rt = sint (getblock64 v 1), last_time = sint (getblock32 v 4)\<rparr>"

definition string_bytes :: "string \<Rightarrow> bytes" where
  "string_bytes s = map (\<lambda>c. of_nat (of_char c)) s"

section \<open>State\<close>

text \<open>
  Where the measuring thread is: waiting for a task (the mutex is free), holding the mutex with a
  task to measure, or holding it with a measured task to put into the send queue. The last three
  fields count records: those made, those freed without being written to the server, and those whose
  pointer was overwritten while they waited.
\<close>

datatype phase = Waiting | Measuring | Queueing

record collector =
  sessionTable :: hash_table
  session_heap :: world
  stationTable :: hash_table
  station_heap :: world
  cur_task :: "Record option"
  sendQueue :: "Record dsqueue"
  args_phase :: phase
  delivered :: "Record list"
  created :: nat
  freed :: nat
  overwritten :: nat

definition KEYLEN :: nat where
  "KEYLEN = 25"

section \<open>Packets\<close>

definition byte_at :: "bytes \<Rightarrow> nat \<Rightarrow> u8 res" where
  "byte_at p i = (if i < length p then Inr (p ! i) else Inl OutOfBounds)"

definition u16_at :: "bytes \<Rightarrow> nat \<Rightarrow> u16 res" where
  "u16_at p i = (if i + 2 \<le> length p then Inr (ucast (p ! i) OR push_bit 8 (ucast (p ! (i + 1)))) else Inl OutOfBounds)"

definition u32_at :: "bytes \<Rightarrow> nat \<Rightarrow> u32 res" where
  "u32_at p i = (if i + 4 \<le> length p then Inr (getblock32 (drop i p) 0) else Inl OutOfBounds)"

text \<open>The fields the callback reads, as little-endian loads of the bytes of the packet.\<close>

record headers =
  ether_shost :: "u8 list"
  saddr :: u32
  daddr :: u32
  source :: u16
  dest :: u16
  syn :: bool
  ack :: bool

definition parse_headers :: "bytes \<Rightarrow> headers res" where
  "parse_headers p =
     bind_res (byte_at p 14) (\<lambda>vi.
       let tcp = 14 + unat (vi AND 15) * 4
       in bind_res (u16_at p tcp) (\<lambda>s. bind_res (u16_at p (tcp + 2)) (\<lambda>d.
          bind_res (u32_at p 26) (\<lambda>sa. bind_res (u32_at p 30) (\<lambda>da.
          bind_res (byte_at p (tcp + 13)) (\<lambda>fl.
            Inr \<lparr>ether_shost = take 6 (drop 6 p), saddr = sa, daddr = da, source = s, dest = d,
                 syn = bit fl 1, ack = bit fl 4\<rparr>))))))"

definition key_ports :: "headers \<Rightarrow> string" where
  "key_ports h =
     (if dest h < source h then fmt_x 4 (unat (dest h)) @ fmt_x 4 (unat (source h))
      else fmt_x 4 (unat (source h)) @ fmt_x 4 (unat (dest h)))"

definition key_addrs :: "headers \<Rightarrow> string" where
  "key_addrs h =
     (if daddr h < saddr h then fmt_x 8 (unat (daddr h)) @ fmt_x 8 (unat (saddr h))
      else fmt_x 8 (unat (saddr h)) @ fmt_x 8 (unat (daddr h)))"

text \<open>The two calls of \<^verbatim>\<open>sprintf\<close> fill the array, the second from offset 8.\<close>

definition key_char :: "headers \<Rightarrow> bytes res" where
  "key_char h =
     bind_res (sprintf_buf KEYLEN (key_ports h)) (\<lambda>b.
     bind_res (sprintf_buf (KEYLEN - 8) (key_addrs h)) (\<lambda>c. Inr (string_bytes (take 8 b @ c))))"

fun colon_mac :: "u8 list \<Rightarrow> string" where
  "colon_mac [] = []"
| "colon_mac [b] = fmt_x 2 (unat b)"
| "colon_mac (b # bs) = fmt_x 2 (unat b) @ '':'' @ colon_mac bs"

definition mac2String :: "u8 list \<Rightarrow> string res" where
  "mac2String m = sprintf_buf 18 (colon_mac m)"

section \<open>The capture callback\<close>

text \<open>
  The environment of a call: the clock and the memory of the hash table, whether memory for a
  record is there and what it holds, and the fuel for the loops of the table.
\<close>

record capture_env =
  tables :: ht_env
  mem_record :: bool
  blank_record :: Record
  fuel :: nat

definition timeval_at :: "bytes \<Rightarrow> (int \<times> int) res" where
  "timeval_at v = (if length v < 8 then Inl OutOfBounds else Inr (sint (getblock32 v 0), sint (getblock32 v 1)))"

text \<open>
  The pointer that \<^verbatim>\<open>ht_get\<close> returns is dereferenced without a check. The mutex can be taken
  unless the measuring thread holds it.
\<close>

definition value_at :: "world \<Rightarrow> addr option \<Rightarrow> bytes res" where
  "value_at w a =
     (case a of None \<Rightarrow> Inl NullDeref
      | Some a \<Rightarrow> bind_res (deref w a) (\<lambda>c. case he_value c of None \<Rightarrow> Inl NullDeref | Some v \<Rightarrow> Inr v))"

definition hand_over :: "Record \<Rightarrow> collector \<Rightarrow> collector" where
  "hand_over r s =
     (if args_phase s = Waiting
      then s\<lparr>cur_task := Some r, created := created s + 1,
             overwritten := overwritten s + (if cur_task s = None then 0 else 1)\<rparr>
      else s\<lparr>created := created s + 1, freed := freed s + 1\<rparr>)"

definition captureOne :: "capture_env \<Rightarrow> int \<times> int \<Rightarrow> bytes \<Rightarrow> collector \<Rightarrow> collector res" where
  "captureOne e ts packet s =
     bind_res (parse_headers packet) (\<lambda>h.
     bind_res (key_char h) (\<lambda>key.
       if syn h \<and> ack h
       then bind_res (ht_insert (fuel e + 3) (tables e) (sessionTable s) key (timeval_bytes (fst ts) (snd ts)) (session_heap s))
              (\<lambda>(t, w). Inr (s\<lparr>sessionTable := t, session_heap := w\<rparr>))
       else if \<not> ack h then Inr s
       else bind_res (ht_contains (fuel e) (sessionTable s) key (session_heap s)) (\<lambda>found.
         if \<not> found then Inr s
         else if \<not> mem_record e then Inl NullDeref
         else bind_res (mac2String (ether_shost h)) (\<lambda>m.
              bind_res (ht_get (fuel e) (sessionTable s) key (session_heap s)) (\<lambda>a.
              bind_res (value_at (session_heap s) a) (\<lambda>v.
              bind_res (timeval_at v) (\<lambda>(sec, usec).
              bind_res (ht_remove (fuel e) (sessionTable s) key (session_heap s)) (\<lambda>(t, w).
                Inr (hand_over ((blank_record e)\<lparr>sta_mac := m,
                                  delay := to_int32 ((fst ts - sec) * 1000000 + (snd ts - usec))\<rparr>)
                       (s\<lparr>sessionTable := t, session_heap := w\<rparr>))))))))))"

section \<open>What the access point knows of a station\<close>

text \<open>
  \<^verbatim>\<open>strtod\<close> on decimal numbers (hexadecimal notation is left out); the value is exact.
\<close>

definition frac_val :: "string \<Rightarrow> rat" where
  "frac_val ds = of_int (digits_val 10 0 ds) / 10 ^ length ds"

definition lower :: "char \<Rightarrow> char" where
  "lower c = (let n = (of_char c :: nat) in if 65 \<le> n \<and> n \<le> 90 then char_of (n + 32) else c)"

definition exponent_of :: "string \<Rightarrow> int" where
  "exponent_of s =
     (case s of
        [] \<Rightarrow> 0
      | c # r \<Rightarrow>
          if lower c = CHR ''e''
          then (let neg = (r \<noteq> [] \<and> hd r = CHR ''-'');
                    u = (if r \<noteq> [] \<and> (hd r = CHR ''-'' \<or> hd r = CHR ''+'') then tl r else r);
                    n = digits_val 10 0 u
                in if neg then - n else n)
          else 0)"

definition ten_power :: "int \<Rightarrow> rat" where
  "ten_power n = (if 0 \<le> n then 10 ^ nat n else 1 / 10 ^ nat (- n))"

definition atof :: "string \<Rightarrow> dbl" where
  "atof s =
     (let t = dropWhile isspace s;
          neg = (t \<noteq> [] \<and> hd t = CHR ''-'');
          u = (if t \<noteq> [] \<and> (hd t = CHR ''-'' \<or> hd t = CHR ''+'') then tl t else t);
          ip = takeWhile (is_digit_in 10) u;
          r1 = dropWhile (is_digit_in 10) u;
          fp = (if r1 \<noteq> [] \<and> hd r1 = CHR ''.'' then takeWhile (is_digit_in 10) (tl r1) else []);
          r2 = (if r1 \<noteq> [] \<and> hd r1 = CHR ''.'' then dropWhile (is_digit_in 10) (tl r1) else r1)
      in if ip = [] \<and> fp = []
         then (if has_prefix ''inf'' (map lower u) then (if neg then NegInf else PosInf)
               else if has_prefix ''nan'' (map lower u) then NaN else Fin 0)
         else let q = (of_int (digits_val 10 0 ip) + frac_val fp) * ten_power (exponent_of r2)
              in Fin (if neg then - q else q))"

text \<open>\<^verbatim>\<open>sprintf\<close> into an array and \<^verbatim>\<open>popen\<close> of the text.\<close>

definition popen_buf :: "shell \<Rightarrow> nat \<Rightarrow> string \<Rightarrow> string option res" where
  "popen_buf sh cap cmd = bind_res (sprintf_buf cap cmd) (\<lambda>_. Inr (sh cmd))"

definition first_line :: "string \<Rightarrow> string option" where
  "first_line out = (case fgets 1024 out of None \<Rightarrow> None | Some (l, _) \<Rightarrow> Some (c_str l))"

definition interface_name :: "int \<Rightarrow> string" where
  "interface_name m = (if m = 0 then ''wlan0'' else ''wlan1'')"

definition quoted :: "string \<Rightarrow> string" where
  "quoted s = CHR 0x27 # s @ [CHR 0x27]"

text \<open>
  The stages of \<^verbatim>\<open>getInfo\<close>; None is the early \<^verbatim>\<open>return 0\<close>. The array for the first command
  has 50 bytes; \<open>pad\<close> is what the compiler leaves unused behind it.
\<close>

definition mode_cmd :: "Record \<Rightarrow> string" where
  "mode_cmd r = ''iw dev wlan0 station dump | grep '' @ c_str (sta_mac r)"

definition au_cmd :: "Record \<Rightarrow> string" where
  "au_cmd r = ''iw dev '' @ interface_name (mode r) @ '' survey dump|grep time |awk '' @ quoted ''{print $4}''"

definition rssi_cmd :: "Record \<Rightarrow> string" where
  "rssi_cmd r =
     ''iw dev '' @ interface_name (mode r) @ '' station get '' @ c_str (sta_mac r) @ ''|grep signal:|awk '' @ quoted ''{print $2}''"

definition br_cmd :: "Record \<Rightarrow> string" where
  "br_cmd r =
     ''iwinfo '' @ interface_name (mode r) @ '' info|grep '' @ quoted ''Bit Rate:'' @ ''|awk '' @ quoted ''{print $3}''"

definition getInfo_mode :: "shell \<Rightarrow> nat \<Rightarrow> Record \<Rightarrow> Record option res" where
  "getInfo_mode sh pad r =
     bind_res (popen_buf sh (50 + pad) (mode_cmd r)) (\<lambda>p.
       case p of
         None \<Rightarrow> Inr None
       | Some out \<Rightarrow> Inr (Some (r\<lparr>mode := (if first_line out \<noteq> None then 0 else 1)\<rparr>)))"

definition getInfo_au :: "shell \<Rightarrow> Record \<Rightarrow> Record option res" where
  "getInfo_au sh r =
     bind_res (popen_buf sh 100 (au_cmd r)) (\<lambda>p.
       case p of
         None \<Rightarrow> Inr None
       | Some out \<Rightarrow>
           (let (active_time, buzy_time) =
                  (case fgets 1024 out of
                     None \<Rightarrow> (- 1, - 1)
                   | Some (l1, rest) \<Rightarrow>
                       (atoi (c_str l1), (case first_line rest of None \<Rightarrow> - 1 | Some l2 \<Rightarrow> atoi l2)))
            in if active_time = - 1 \<or> buzy_time = - 1 then Inr None
               else Inr (Some (r\<lparr>au := dbl_div buzy_time active_time\<rparr>))))"

definition getInfo_rssi :: "shell \<Rightarrow> Record \<Rightarrow> Record option res" where
  "getInfo_rssi sh r =
     bind_res (popen_buf sh 100 (rssi_cmd r)) (\<lambda>p.
       case p of
         None \<Rightarrow> Inr None
       | Some out \<Rightarrow>
           (let v = (case first_line out of None \<Rightarrow> 1 | Some l \<Rightarrow> atoi l)
            in if v = 1 then Inr None else Inr (Some (r\<lparr>rssi := v\<rparr>))))"

definition getInfo_br :: "shell \<Rightarrow> Record \<Rightarrow> Record option res" where
  "getInfo_br sh r =
     bind_res (popen_buf sh 100 (br_cmd r)) (\<lambda>p.
       case p of
         None \<Rightarrow> Inr None
       | Some out \<Rightarrow>
           (let v = (case first_line out of None \<Rightarrow> Fin (- 1) | Some l \<Rightarrow> atof l)
            in if v = Fin (- 1) then Inr None else Inr (Some (r\<lparr>br := v\<rparr>))))"

definition counter_cmd :: "string \<Rightarrow> Record \<Rightarrow> string" where
  "counter_cmd dir r =
     ''iw '' @ interface_name (mode r) @ '' station get '' @ c_str (sta_mac r) @ '' |grep '' @ quoted (dir @ '' bytes'') @
     ''|awk -F '' @ quoted '':'' @ '' '' @ quoted ''{print $2}''"

definition saturate64 :: "int \<Rightarrow> int" where
  "saturate64 n = max (- (2 ^ 63)) (min (2 ^ 63 - 1) n)"

definition to_int64 :: "int \<Rightarrow> int" where
  "to_int64 n = signed_take_bit 63 n"

text \<open>A byte counter; -1 when there is none.\<close>

definition counter_of :: "string \<Rightarrow> int" where
  "counter_of out =
     (case first_line out of
        None \<Rightarrow> - 1
      | Some l \<Rightarrow> (case sscanf [Dec] l of [] \<Rightarrow> - 1 | v # _ \<Rightarrow> saturate64 v))"

text \<open>Both counters, None when one is missing.\<close>

definition read_counters :: "shell \<Rightarrow> Record \<Rightarrow> (int \<times> int) option" where
  "read_counters sh r =
     (case sh (counter_cmd ''tx'' r) of
        None \<Rightarrow> None
      | Some out \<Rightarrow>
          (case sh (counter_cmd ''rx'' r) of
             None \<Rightarrow> None
           | Some out' \<Rightarrow>
               let x = counter_of out; y = counter_of out'
               in if y = - 1 \<or> x = - 1 then None else Some (x, y)))"

definition station_key :: "Record \<Rightarrow> bytes" where
  "station_key r = string_bytes (sta_mac r)"

text \<open>
  \<open>now\<close> is the time, \<open>junk\<close> the padding of the local \<^verbatim>\<open>ThroughputRecord\<close>. A known station's
  record is updated in place through the pointer into the table.
\<close>

definition first_sight ::
  "shell \<Rightarrow> ht_env \<Rightarrow> nat \<Rightarrow> int \<Rightarrow> bytes \<Rightarrow> Record \<Rightarrow> hash_table \<Rightarrow> world \<Rightarrow> (Record option \<times> hash_table \<times> world) res" where
  "first_sight sh e n now junk r t w =
     (case read_counters sh r of
        None \<Rightarrow> Inr (None, t, w)
      | Some (x, y) \<Rightarrow>
          bind_res (ht_insert (n + 3) e t (station_key r)
                      (throughput_fields \<lparr>tr_tt = x, tr_rt = y, last_time = now\<rparr> @ junk) w)
            (\<lambda>(t', w'). Inr (None, t', w')))"

definition known_station ::
  "shell \<Rightarrow> nat \<Rightarrow> int \<Rightarrow> Record \<Rightarrow> addr \<Rightarrow> hash_entry \<Rightarrow> bytes \<Rightarrow> hash_table \<Rightarrow> world \<Rightarrow>
   (Record option \<times> hash_table \<times> world) res" where
  "known_station sh n now r a c v t w =
     (if length v < 20 then Inl OutOfBounds
      else let old = throughput_at v;
               time_gap = to_int32 (now - last_time old)
           in if time_gap \<ge> 10
              then (case read_counters sh r of
                      None \<Rightarrow> bind_res (ht_remove n t (station_key r) w) (\<lambda>(t', w'). Inr (None, t', w'))
                    | Some (x, y) \<Rightarrow>
                        Inr (Some (r\<lparr>tt := c_div (to_int64 (x - tr_tt old)) time_gap,
                                     rt := c_div (to_int64 (y - tr_rt old)) time_gap\<rparr>), t,
                             store a (c\<lparr>he_value := Some (mem_write 0
                               (throughput_fields \<lparr>tr_tt = x, tr_rt = y, last_time = now\<rparr>) v)\<rparr>) w))
              else Inr (None, t, w))"

definition getInfo_throughput ::
  "shell \<Rightarrow> ht_env \<Rightarrow> nat \<Rightarrow> int \<Rightarrow> bytes \<Rightarrow> Record \<Rightarrow> hash_table \<Rightarrow> world \<Rightarrow> (Record option \<times> hash_table \<times> world) res" where
  "getInfo_throughput sh e n now junk r0 t w =
     bind_res (sprintf_buf 100 (counter_cmd ''tx'' r0)) (\<lambda>_.
     bind_res (sprintf_buf 100 (counter_cmd ''rx'' r0)) (\<lambda>_.
       let r = r0\<lparr>rt := 0, tt := 0\<rparr>
       in bind_res (ht_get n t (station_key r) w) (\<lambda>p.
            case p of
              None \<Rightarrow> first_sight sh e n now junk r t w
            | Some a \<Rightarrow>
                bind_res (deref w a) (\<lambda>c.
                  case he_value c of
                    None \<Rightarrow> first_sight sh e n now junk r t w
                  | Some v \<Rightarrow> known_station sh n now r a c v t w))))"

definition bind_opt :: "'a option res \<Rightarrow> 'b res \<Rightarrow> ('a \<Rightarrow> 'b res) \<Rightarrow> 'b res" where
  "bind_opt m none f = bind_res m (\<lambda>x. case x of None \<Rightarrow> none | Some a \<Rightarrow> f a)"

definition getInfo ::
  "shell \<Rightarrow> nat \<Rightarrow> ht_env \<Rightarrow> nat \<Rightarrow> int \<Rightarrow> bytes \<Rightarrow> Record \<Rightarrow> hash_table \<Rightarrow> world \<Rightarrow> (Record option \<times> hash_table \<times> world) res" where
  "getInfo sh pad e n now junk r t w =
     bind_opt (getInfo_mode sh pad r) (Inr (None, t, w)) (\<lambda>r1.
     bind_opt (getInfo_au sh r1) (Inr (None, t, w)) (\<lambda>r2.
     bind_opt (getInfo_rssi sh r2) (Inr (None, t, w)) (\<lambda>r3.
     bind_opt (getInfo_br sh r3) (Inr (None, t, w)) (\<lambda>r4.
       getInfo_throughput sh e n now junk r4 t w))))"

section \<open>The threads\<close>

text \<open>
  \<^verbatim>\<open>getArgs\<close> in three parts: it takes the mutex when there is a task; it measures; it puts the
  task into the queue, which can block with the mutex held. \<^verbatim>\<open>sendData\<close> takes a record from the
  queue and writes it; a write that fails is not noticed.
\<close>

record args_env =
  ae_shell :: shell
  ae_pad :: nat
  ae_tables :: ht_env
  ae_fuel :: nat
  ae_now :: int
  ae_junk :: bytes

definition getArgs_lock :: "collector \<Rightarrow> collector pass" where
  "getArgs_lock s = (if cur_task s = None then Wait else Done (s\<lparr>args_phase := Measuring\<rparr>))"

definition getArgs_measure :: "args_env \<Rightarrow> collector \<Rightarrow> collector res" where
  "getArgs_measure e s =
     (case cur_task s of
        None \<Rightarrow> Inl NullDeref
      | Some r \<Rightarrow>
          bind_res (getInfo (ae_shell e) (ae_pad e) (ae_tables e) (ae_fuel e) (ae_now e) (ae_junk e) r
                      (stationTable s) (station_heap s)) (\<lambda>(ret, t, w).
            let s' = s\<lparr>stationTable := t, station_heap := w\<rparr>
            in case ret of
                 Some r' \<Rightarrow> Inr (s'\<lparr>cur_task := Some r', args_phase := Queueing\<rparr>)
               | None \<Rightarrow> Inr (s'\<lparr>cur_task := None, args_phase := Waiting, freed := freed s' + 1\<rparr>)))"

definition getArgs_put :: "collector \<Rightarrow> collector pass res" where
  "getArgs_put s =
     bind_res (ds_queue_put (sendQueue s) (cur_task s)) (\<lambda>p.
       case p of
         Wait \<Rightarrow> Inr Wait
       | Done q \<Rightarrow> Inr (Done (s\<lparr>sendQueue := q, cur_task := None, args_phase := Waiting\<rparr>)))"

definition sendRecord :: "bool \<Rightarrow> Record \<Rightarrow> collector \<Rightarrow> collector" where
  "sendRecord ok r s = (if ok then s\<lparr>delivered := delivered s @ [r]\<rparr> else s)"

definition sendData_round :: "bool \<Rightarrow> collector \<Rightarrow> collector pass res" where
  "sendData_round ok s =
     bind_res (ds_queue_get (sendQueue s)) (\<lambda>p.
       case p of
         Wait \<Rightarrow> Inr Wait
       | Done (None, q) \<Rightarrow> Inl NullDeref
       | Done (Some r, q) \<Rightarrow>
           let s' = sendRecord ok r (s\<lparr>sendQueue := q\<rparr>)
           in Inr (Done (s'\<lparr>freed := freed s' + (if ok then 0 else 1)\<rparr>)))"

section \<open>Start\<close>

definition strcpy_buf :: "nat \<Rightarrow> string \<Rightarrow> string res" where
  "strcpy_buf cap s = (if length s < cap then Inr s else Inl BufferOverflow)"

text \<open>
  \<open>sock\<close> and \<open>conn\<close>: whether a socket could be created and connected. \<open>hwaddr\<close> is what the
  \<^verbatim>\<open>ioctl\<close> gives for the interface, of whose name at most 15 bytes are used.
\<close>

definition initNetwork :: "bool \<Rightarrow> (string \<Rightarrow> bool) \<Rightarrow> string \<Rightarrow> unit res" where
  "initNetwork sock conn ip =
     (if \<not> sock then Inl (ExitProcess (- 1))
      else if \<not> conn ip then Inl (ExitProcess (- 1))
      else Inr ())"

definition getMac :: "bool \<Rightarrow> (string \<Rightarrow> u8 list option) \<Rightarrow> string \<Rightarrow> (int \<times> string) res" where
  "getMac sock hwaddr iface =
     (if \<not> sock then Inr (- 1, [])
      else case hwaddr (take 15 iface) of
             None \<Rightarrow> Inr (- 1, [])
           | Some m \<Rightarrow> bind_res (sprintf_buf 30 (concat (map (\<lambda>b. fmt_x 2 (unat b)) (take 6 m)))) (\<lambda>b. Inr (0, c_str b)))"

record main_env =
  me_tables :: ht_env
  me_world :: world
  me_sock :: bool
  me_conn :: "string \<Rightarrow> bool"
  me_hwaddr :: "string \<Rightarrow> u8 list option"
  me_pcap :: "string \<Rightarrow> bool"
  me_mem :: bool
  me_sync :: bool
  me_fresh :: "nat \<Rightarrow> Record option"

text \<open>\<^verbatim>\<open>main\<close> up to the capture loop; \<open>argv\<close> without the name of the program.\<close>

definition collector_main :: "main_env \<Rightarrow> string list \<Rightarrow> collector res" where
  "collector_main e argv =
     (if length argv < 2 then Inl (ExitProcess (- 1))
      else bind_res (strcpy_buf 30 (argv ! 0)) (\<lambda>interface.
           bind_res (strcpy_buf 30 (argv ! 1)) (\<lambda>ip.
           bind_res (getMac (me_sock e) (me_hwaddr e) interface) (\<lambda>_.
             if \<not> me_pcap e interface then Inl (ExitProcess 1)
             else bind_res (ht_init (me_tables e) HT_NONE (1 / 20)) (\<lambda>session.
                  bind_res (ht_init (me_tables e) HT_NONE (1 / 20)) (\<lambda>station.
                  bind_res (ds_queue_create (me_mem e) (me_sync e) (me_fresh e) 65535) (\<lambda>q.
                  bind_res (initNetwork (me_sock e) (me_conn e) ip) (\<lambda>_.
                    Inr \<lparr>sessionTable = session, session_heap = me_world e, stationTable = station,
                         station_heap = me_world e, cur_task = None, sendQueue = q, args_phase = Waiting,
                         delivered = [], created = 0, freed = 0, overwritten = 0\<rparr>))))))))"

end
