(* ===== verification/HashProps.thy ===== *)
theory HashProps
  imports HashMap
begin

text \<open>
  Properties of the hash table of the collector: it refines a finite map while nothing is over
  age; what happens to over-aged entries, depending on where they are in their chain; and the
  drift of its collision counter.
\<close>

section \<open>Ageing\<close>

definition node_ts :: "node \<Rightarrow> int" where
  "node_ts x = sint (getblock32 (node_val x) 0)"

definition fresh_at :: "int \<Rightarrow> node \<Rightarrow> bool" where
  "fresh_at now x \<longleftrightarrow> 4 \<le> length (node_val x) \<and> \<not> timed_out now (node_ts x)"

definition expired_at :: "int \<Rightarrow> node \<Rightarrow> bool" where
  "expired_at now x \<longleftrightarrow> 4 \<le> length (node_val x) \<and> timed_out now (node_ts x)"

lemma tv_sec_node: "is_node c x \<Longrightarrow> 4 \<le> length (node_val x) \<Longrightarrow> tv_sec_of c = Inr (node_ts x)"
  by (simp add: tv_sec_of_def is_node_def node_ts_def)

text \<open>The walk over entries that stay.\<close>

lemma age_walk_skip:
  assumes "chain (cells w) p (us @ zs)" "\<forall>x \<in> set us. fresh_at now x" "length us \<le> n" "cells w entry = Some en"
  shows "\<exists>q fr'. chain (cells w) q zs \<and> (he_key en \<notin> node_key ` set us \<longrightarrow> fr' = fr) \<and>
    age_walk n now i entry t w prev fr p =
      age_walk (n - length us) now i entry t w (if us = [] then prev else Some (node_addr (last us))) fr' q"
  using assms
proof (induction us arbitrary: p n prev fr)
  case (Cons u us)
  then obtain c m where c: "p = Some (node_addr u)" "cells w (node_addr u) = Some c" "is_node c u"
    "chain (cells w) (he_next c) (us @ zs)" "n = Suc m" "fresh_at now u" "\<forall>x \<in> set us. fresh_at now x" "length us \<le> m"
    by (cases n) auto
  let ?fr = "if he_key_compare c en then Some (node_addr u) else fr"
  obtain q fr' where q: "chain (cells w) q zs" "he_key en \<notin> node_key ` set us \<longrightarrow> fr' = ?fr"
    "age_walk m now i entry t w (Some (node_addr u)) ?fr (he_next c) =
      age_walk (m - length us) now i entry t w (if us = [] then Some (node_addr u) else Some (node_addr (last us))) fr' q"
    using Cons.IH[OF c(4,7,8) assms(4), of ?fr "Some (node_addr u)"] by (elim exE conjE)
  have "age_walk n now i entry t w prev fr p = age_walk m now i entry t w (Some (node_addr u)) ?fr (he_next c)"
    using c tv_sec_node[OF c(3)] assms(4) by (simp add: deref_def fresh_at_def)
  then show ?case
    using q c(3,5) by (intro exI[of _ q] exI[of _ fr']) (simp add: key_compare_iff is_node_def)
qed auto

lemma contains_good:
  assumes "ht_good N e (t, w)"
  shows "ht_contains N t k w = Inr (ht_map N (t, w) k \<noteq> None)"
proof -
  obtain cs where cs: "ht_valid e w t cs" "card (nodes cs) \<le> N"
    by (rule ht_goodE[OF assms])
  note rep = valid_rep[OF cs(1)]
  have b: "ht_idx t w k < length cs"
    by (rule ht_idx_bound[OF rep])
  have "find_addr k (cs ! ht_idx t w k) = None \<longleftrightarrow> k \<notin> keys_of cs"
    using bucket_nodes[OF rep b] by (auto simp: find_addr_None keys_of_def)
  moreover have "ht_map N (t, w) k = None \<longleftrightarrow> k \<notin> keys_of cs"
    using lookup_rep[OF rep cs(2), of k] by (auto simp: ht_map_def keys_of_entries)
  ultimately show ?thesis
    using ht_get_rep[OF rep cs(2), of k] by (simp add: ht_contains_def del: not_None_eq)
qed

text \<open>What \<^verbatim>\<open>ht_insert\<close> does up to the walk.\<close>

lemma ht_insert_walk:
  assumes rep: "ht_rep w t cs" and fresh: "\<forall>a \<ge> next_addr w. cells w a = None" and mem: "mem_entry e"
    and ne: "cs ! ht_idx t w k \<noteq> []"
  obtains en w1 where "cells w1 (next_addr w) = Some en" "he_key en = k" "he_next en = None" "ht_rep w1 t cs"
    "ht_insert (Suc n) e t k v w =
       bind_res (age_walk n (clock e (ticks w)) (ht_idx t w k) (next_addr w) t w1 None None (arr t ! ht_idx t w k))
         (\<lambda>(t1, w2, prev, find_ret).
            after_walk (\<lambda>u. resize_with (ht_insert_he n e) n e u (array_size u * 2)) e (ht_idx t w k) (next_addr w)
              t1 w2 prev find_ret)"
proof -
  let ?a = "next_addr w"
  let ?i = "ht_idx t w k"
  let ?en = "\<lparr>he_key = k, he_value = Some v, value_size = length v, he_next = None\<rparr>"
  let ?w = "(store ?a ?en (w\<lparr>next_addr := ?a + 1\<rparr>))\<lparr>ticks := ticks w + 1\<rparr>"
  have b: "?i < length cs"
    by (rule ht_idx_bound[OF rep])
  have "node_addr y \<noteq> ?a" if "y \<in> nodes cs" for y
    using nodes_alive[OF rep] fresh imageI[OF that, of node_addr] by (metis order_refl)
  then have rep1: "ht_rep ?w t cs"
    by (intro rep_frame[OF rep]) (simp_all add: store_def)
  obtain q where q: "arr t ! ?i = Some q"
    using bucket_chain(1)[OF rep b] ne by (cases "arr t ! ?i") auto
  have idx: "ht_index t w' k = Inr ?i" if "global_seed w' = global_seed w" for w'
    using ht_index_rep[OF rep, of w' k] that by (simp add: ht_idx_def)
  have "cells ?w ?a = Some ?en"
    by (simp add: store_def)
  then show ?thesis
    by (rule that[OF _ _ _ rep1])
      (use mem q array_at_rep[OF rep b] idx in
        \<open>simp_all add: ht_insert_def he_create_def Let_def ht_insert_he.simps set_next_def deref_def store_def\<close>)
qed

section \<open>Properties\<close>

text \<open>
  C16: the table is a map. While no entry is over age and memory lasts, an insertion, including the
  doubling of the array it may need, returns; it maps the key to the value and leaves every other
  key alone, for any hash function and any number of collisions; a single level of resizing is
  always enough.
\<close>

theorem ht_insert_refines_update:
  assumes "ht_good N e (t, w)" "ht_room N (t, w)" "live_value e v"
  shows "\<exists>t' w'. ht_insert (N + 3) e t k v w = Inr (t', w') \<and> ht_good N e (t', w') \<and>
    ht_lookup N t' k w' = Inr (Some v) \<and> (\<forall>j. j \<noteq> k \<longrightarrow> ht_lookup N t' j w' = ht_lookup N t j w)"
  using ht.put_get[of N e "(t, w)" v k, OF assms] by (metis fst_conv snd_conv surj_pair)

theorem ht_insert_refines_update_witness:
  "\<exists>t t' w'. init_with (\<lambda>k _. of_nat (length k)) \<lparr>clock = \<lambda>n. 100, mem_entry = True, mem_value = True, mem_array = True\<rparr> HT_NONE (1 / 20) = Inr t \<and>
     ht_insert 13 \<lparr>clock = \<lambda>n. 100, mem_entry = True, mem_value = True, mem_array = True\<rparr> t [7] [90, 0, 0, 0, 1] start_world = Inr (t', w') \<and>
     ht_lookup 10 t' [7] w' = Inr (Some [90, 0, 0, 0, 1])"
proof -
  let ?e = "\<lparr>clock = \<lambda>n. 100, mem_entry = True, mem_value = True, mem_array = True\<rparr>"
  obtain t where t: "init_with (\<lambda>k _. of_nat (length k)) ?e HT_NONE (1 / 20) = Inr t" "ht_good 10 ?e (t, start_world)"
    "ht_map 10 (t, start_world) = (\<lambda>_. None)" "ht_size t = 0" "array_size t = HT_INITIAL_SIZE"
    by (rule ht_init_good[of ?e 10 start_world "1 / 20" HT_NONE]) (simp_all add: start_world_def HT_NONE_def)
  have "getblock32 [90, 0, 0, 0, 1] 0 = 90"
    by code_simp
  then have "live_value ?e [90, 0, 0, 0, 1]"
    by (simp add: live_value_def timed_out_def AGE_TIMEOUT_def to_int32_def)
  moreover have "ht_room 10 (t, start_world)"
    using t(4,5) by (simp add: ht_room_def HT_INITIAL_SIZE_def)
  ultimately show ?thesis
    using ht_insert_refines_update[OF t(2), of "[90, 0, 0, 0, 1]" "[7]"] t(1) by auto
qed

text \<open>
  Removal refines deletion. It always returns; the key is gone and every other key keeps its
  value; and removing a key right after it was inserted gives back the map before.
\<close>

theorem ht_remove_refines_delete:
  assumes "ht_good N e (t, w)"
  shows "\<exists>t' w'. ht_remove N t k w = Inr (t', w') \<and> ht_good N e (t', w') \<and>
    ht_contains N t' k w' = Inr False \<and> (\<forall>j. j \<noteq> k \<longrightarrow> ht_lookup N t' j w' = ht_lookup N t j w)"
proof -
  obtain t' w' where r: "ht_remove N t k w = Inr (t', w')" "ht_good N e (t', w')"
    "ht_map N (t', w') = (ht_map N (t, w))(k := None)"
    using ht.del_ok[of N e "(t, w)" k, OF assms] by auto
  then show ?thesis
    using contains_good[OF r(2)] ht_get_law[OF r(2)] ht_get_law[OF assms] by simp
qed

theorem ht_remove_refines_delete_witness:
  "\<exists>t t' w'. init_with (\<lambda>k _. of_nat (length k)) \<lparr>clock = \<lambda>n. 100, mem_entry = True, mem_value = True, mem_array = True\<rparr> HT_NONE (1 / 20) = Inr t \<and>
     ht_remove 10 t [7] start_world = Inr (t', w') \<and> ht_contains 10 t' [7] w' = Inr False"
proof -
  let ?e = "\<lparr>clock = \<lambda>n. 100, mem_entry = True, mem_value = True, mem_array = True\<rparr>"
  obtain t where t: "init_with (\<lambda>k _. of_nat (length k)) ?e HT_NONE (1 / 20) = Inr t" "ht_good 10 ?e (t, start_world)"
    by (rule ht_init_good[of ?e 10 start_world "1 / 20" HT_NONE]) (simp_all add: start_world_def HT_NONE_def)
  then show ?thesis
    using ht_remove_refines_delete[OF t(2), of "[7]"] by auto
qed

text \<open>
  The first step of the walk behind entries that stay: the over-aged entry \<open>x\<close> is freed, its
  predecessor is linked to its successor, and \<^verbatim>\<open>prev\<close> becomes the successor.
\<close>

lemma age_walk_mid:
  assumes rep: "ht_rep w t cs" and i: "i < length cs" "cs ! i = us @ x # zs" "us \<noteq> []"
    and old: "\<forall>u \<in> set us. fresh_at now u" "expired_at now x" and fuel: "length us < n" and en: "cells w entry = Some en"
  obtains q fr' d c where "chain (cells w) q zs" "he_key en \<notin> node_key ` set us \<longrightarrow> fr' = None"
    "cells w (node_addr (last us)) = Some d"
    "age_walk n now i entry t w None None (arr t ! i) =
       age_walk (n - length us - 1) now i entry (t\<lparr>key_count := key_count t - 1, collisions := collisions t - 1\<rparr>)
         (w\<lparr>cells := (cells w)(node_addr x := None, node_addr (last us) := Some (d\<lparr>he_next := q\<rparr>))\<rparr>) q fr' q"
proof -
  have ch: "chain (cells w) (arr t ! i) (us @ x # zs)"
    using bucket_chain(1)[OF rep i(1)] i(2) by simp
  have le: "length us \<le> n"
    using fuel by simp
  obtain p fr' where p: "chain (cells w) p (x # zs)" "he_key en \<notin> node_key ` set us \<longrightarrow> fr' = None"
    "age_walk n now i entry t w None None (arr t ! i) =
       age_walk (n - length us) now i entry t w (if us = [] then None else Some (node_addr (last us))) fr' p"
    using age_walk_skip[OF ch old(1) le en, of None i t None] by (elim exE conjE)
  obtain c where c: "p = Some (node_addr x)" "cells w (node_addr x) = Some c" "is_node c x" "chain (cells w) (he_next c) zs"
    using p(1) by auto
  have "last us \<in> set (cs ! i)"
    using i(2,3) by simp
  then have "last us \<in> nodes cs"
    using i(1) in_nodes_iff by blast
  then obtain d where d: "cells w (node_addr (last us)) = Some d"
    using node_cell[OF rep] by blast
  have ne: "node_addr (last us) \<noteq> node_addr x"
  proof -
    have "node_addr (last us) \<in> node_addr ` set us"
      using i(3) by simp
    then show ?thesis
      using bucket_addrs[OF rep i(1)] i(2) by auto
  qed
  obtain m where m: "n - length us = Suc m"
    using fuel by (intro that[of "n - length us - 1"]) simp
  show ?thesis
    by (rule that[OF c(4) p(2) d])
      (use p(3) c d ne m i(3) old(2) tv_sec_node[OF c(3)] in
        \<open>simp add: deref_def expired_at_def he_destroy_def set_next_def store_def Let_def\<close>)
qed

text \<open>
  C38: two over-aged entries in a row behind a live one corrupt memory. The walk then writes through
  \<^verbatim>\<open>prev\<close>, which points to the entry it has just freed, whatever is inserted into that chain.
\<close>

theorem ageing_uses_freed_entry:
  assumes "ht_rep w t cs" "\<forall>a \<ge> next_addr w. cells w a = None" "mem_entry e"
    and "cs ! ht_idx t w k = us @ x # y # zs" "us \<noteq> []" "\<forall>u \<in> set us. fresh_at (clock e (ticks w)) u"
    and "expired_at (clock e (ticks w)) x" "expired_at (clock e (ticks w)) y" "length us + 2 \<le> n"
  shows "ht_insert (Suc n) e t k v w = Inl UseAfterFree"
proof -
  let ?i = "ht_idx t w k"
  let ?now = "clock e (ticks w)"
  have ne: "cs ! ?i \<noteq> []"
    using assms(4) by simp
  obtain en w1 where w1: "cells w1 (next_addr w) = Some en" "he_key en = k" "he_next en = None" "ht_rep w1 t cs"
    "ht_insert (Suc n) e t k v w =
       bind_res (age_walk n ?now ?i (next_addr w) t w1 None None (arr t ! ?i))
         (\<lambda>(t1, w2, prev, find_ret).
            after_walk (\<lambda>u. resize_with (ht_insert_he n e) n e u (array_size u * 2)) e ?i (next_addr w) t1 w2 prev find_ret)"
    by (rule ht_insert_walk[OF assms(1-3) ne])
  have b: "?i < length cs"
    by (rule ht_idx_bound[OF assms(1)])
  have fl: "length us < n"
    using assms(9) by simp
  obtain q fr' d where q: "chain (cells w1) q (y # zs)" "cells w1 (node_addr (last us)) = Some d"
    "age_walk n ?now ?i (next_addr w) t w1 None None (arr t ! ?i) =
       age_walk (n - length us - 1) ?now ?i (next_addr w) (t\<lparr>key_count := key_count t - 1, collisions := collisions t - 1\<rparr>)
         (w1\<lparr>cells := (cells w1)(node_addr x := None, node_addr (last us) := Some (d\<lparr>he_next := q\<rparr>))\<rparr>) q fr' q"
    by (rule age_walk_mid[OF w1(4) b assms(4-7) fl w1(1)])
  obtain c where c: "q = Some (node_addr y)" "cells w1 (node_addr y) = Some c" "is_node c y"
    using q(1) by auto
  have "node_addr y \<noteq> node_addr x" "node_addr y \<noteq> node_addr (last us)"
  proof -
    have d: "distinct (map node_addr (us @ x # y # zs))"
      using bucket_addrs[OF assms(1) b] assms(4) by simp
    then show "node_addr y \<noteq> node_addr x"
      by auto
    have "node_addr (last us) \<in> node_addr ` set us"
      using assms(5) by simp
    then show "node_addr y \<noteq> node_addr (last us)"
      using d by auto
  qed
  moreover obtain m where "n - length us - 1 = Suc m"
    using assms(9) by (intro that[of "n - length us - 2"]) simp
  ultimately have "age_walk n ?now ?i (next_addr w) t w1 None None (arr t ! ?i) = Inl UseAfterFree"
    using q(3) c assms(8) tv_sec_node[OF c(3)]
    by (simp add: deref_def expired_at_def he_destroy_def set_next_def Let_def)
  then show ?thesis
    using w1(5) by simp
qed

text \<open>
  An over-aged entry at the end of a chain brings the process down. When the last entry of a
  chain is over age and the ones before it are not, inserting a key that is not among them
  dereferences NULL.
\<close>

theorem ageing_last_dereferences_null:
  assumes "ht_rep w t cs" "\<forall>a \<ge> next_addr w. cells w a = None" "mem_entry e"
    and "cs ! ht_idx t w k = us @ [x]" "us \<noteq> []" "\<forall>u \<in> set us. fresh_at (clock e (ticks w)) u"
    and "expired_at (clock e (ticks w)) x" "k \<notin> node_key ` set us" "length us + 1 \<le> n"
  shows "ht_insert (Suc n) e t k v w = Inl NullDeref"
proof -
  let ?i = "ht_idx t w k"
  let ?now = "clock e (ticks w)"
  have ne: "cs ! ?i \<noteq> []"
    using assms(4) by simp
  obtain en w1 where w1: "cells w1 (next_addr w) = Some en" "he_key en = k" "he_next en = None" "ht_rep w1 t cs"
    "ht_insert (Suc n) e t k v w =
       bind_res (age_walk n ?now ?i (next_addr w) t w1 None None (arr t ! ?i))
         (\<lambda>(t1, w2, prev, find_ret).
            after_walk (\<lambda>u. resize_with (ht_insert_he n e) n e u (array_size u * 2)) e ?i (next_addr w) t1 w2 prev find_ret)"
    by (rule ht_insert_walk[OF assms(1-3) ne])
  have b: "?i < length cs"
    by (rule ht_idx_bound[OF assms(1)])
  have fl: "length us < n"
    using assms(9) by simp
  obtain q fr' d where q: "chain (cells w1) q []" "he_key en \<notin> node_key ` set us \<longrightarrow> fr' = None"
    "age_walk n ?now ?i (next_addr w) t w1 None None (arr t ! ?i) =
       age_walk (n - length us - 1) ?now ?i (next_addr w) (t\<lparr>key_count := key_count t - 1, collisions := collisions t - 1\<rparr>)
         (w1\<lparr>cells := (cells w1)(node_addr x := None, node_addr (last us) := Some (d\<lparr>he_next := q\<rparr>))\<rparr>) q fr' q"
    by (rule age_walk_mid[OF w1(4) b assms(4-7) fl w1(1)])
  obtain r where "arr t ! ?i = Some r"
    using bucket_chain(1)[OF assms(1) b] ne by (cases "arr t ! ?i") auto
  moreover have "?i < length (arr t)"
    using b assms(1) by (simp add: ht_rep_def)
  moreover from this have "arr t \<noteq> []"
    by auto
  ultimately show ?thesis
    using w1(2,5) q assms(8) by (simp add: after_walk_def append_entry_def array_at_def)
qed

section \<open>The collision counter\<close>

text \<open>Two entries of one bucket come and go, the first one first.\<close>

definition churn :: "nat \<Rightarrow> ht_env \<Rightarrow> bytes \<times> bytes \<Rightarrow> bytes \<times> bytes \<Rightarrow> hash_table \<Rightarrow> world \<Rightarrow> (hash_table \<times> world) res" where
  "churn n e p1 p2 t w =
     bind_res (ht_insert n e t (fst p1) (snd p1) w) (\<lambda>(t1, w1).
     bind_res (ht_insert n e t1 (fst p2) (snd p2) w1) (\<lambda>(t2, w2).
     bind_res (ht_remove n t2 (fst p1) w2) (\<lambda>(t3, w3). ht_remove n t3 (fst p2) w3)))"

lemma remove_head:
  assumes rep: "ht_rep w t cs" and x: "cs ! ht_idx t w (node_key x) = x # vs" and n: "length vs < n"
  obtains t' w' where "ht_remove n t (node_key x) w = Inr (t', w')" "ht_rep w' t' (cs[ht_idx t w (node_key x) := vs])"
    "same_shape t t'" "key_count t' = key_count t - 1" "collisions t' = collisions t" "frame (node_addr ` nodes cs) w w'"
proof -
  let ?i = "ht_idx t w (node_key x)"
  have b: "?i < length cs"
    by (rule ht_idx_bound[OF rep])
  have e: "cs ! ?i = [] @ x # vs" "length (cs ! ?i) \<le> n"
    using x n by simp_all
  have run: "ht_remove n t (node_key x) w = remove_walk n ?i (node_key x) t w None (arr t ! ?i)"
    by (simp add: ht_remove_def ht_index_rep[OF rep] array_at_rep[OF rep b])
  show ?thesis
    using remove_hit[OF rep b e] that unfolding run by auto
qed

lemma empty_rep:
  assumes "ht_rep w t (replicate (unat (array_size t)) [])"
  shows "arr t = replicate (unat (array_size t)) None"
  using assms by (auto simp: ht_rep_def intro!: nth_equalityI)

lemma he_create_rep:
  assumes rep: "ht_rep w t cs" and fresh: "\<forall>a \<ge> next_addr w. cells w a = None" and mem: "mem_entry e"
  obtains x c w1 where "he_create e k v w = (Some (node_addr x), w1)" "cells w1 (node_addr x) = Some c" "is_node c x"
    "node_addr x \<notin> node_addr ` nodes cs" "ht_rep w1 t cs" "\<forall>a \<ge> next_addr w1. cells w1 a = None"
    "node_key x = k" "node_val x = v" "global_seed w1 = global_seed w"
proof -
  let ?x = "Node (next_addr w) k v"
  let ?c = "\<lparr>he_key = k, he_value = Some v, value_size = length v, he_next = None\<rparr>"
  let ?w = "store (next_addr w) ?c (w\<lparr>next_addr := next_addr w + 1\<rparr>)"
  have a: "next_addr w \<notin> node_addr ` nodes cs"
    using nodes_alive[OF rep] fresh by (metis order_refl)
  have "node_addr y \<noteq> next_addr w" if "y \<in> nodes cs" for y
    using a imageI[OF that, of node_addr] by metis
  then have "ht_rep ?w t cs"
    by (intro rep_frame[OF rep]) (simp_all add: store_def)
  then show ?thesis
    by (intro that[of ?x ?w ?c]) (use mem fresh a in \<open>auto simp: he_create_def Let_def store_def is_node_def\<close>)
qed

lemma insert_first:
  assumes rep: "ht_rep w t cs" and fresh: "\<forall>a \<ge> next_addr w. cells w a = None" and mem: "mem_entry e"
    and i: "cs ! ht_idx t w k = []"
  obtains x t' w' where "ht_insert (Suc n) e t k v w = Inr (t', w')" "ht_rep w' t' (cs[ht_idx t w k := [x]])"
    "node_key x = k" "node_val x = v" "same_shape t t'" "key_count t' = key_count t + 1" "collisions t' = collisions t"
    "global_seed w' = global_seed w" "\<forall>a \<ge> next_addr w'. cells w' a = None"
proof -
  obtain x c w1 where x: "he_create e k v w = (Some (node_addr x), w1)" "cells w1 (node_addr x) = Some c" "is_node c x"
    "node_addr x \<notin> node_addr ` nodes cs" "ht_rep w1 t cs" "\<forall>a \<ge> next_addr w1. cells w1 a = None"
    "node_key x = k" "node_val x = v" "global_seed w1 = global_seed w"
    by (rule he_create_rep[OF rep fresh mem])
  have idx: "ht_idx t w k = ht_idx t w1 (node_key x)"
    using x(7,9) by (simp add: ht_idx_def)
  have e: "cs ! ht_idx t w k = []"
    by (rule i)
  note ins = insert_empty_bucket[OF x(5,2,3,4) idx e]
  show ?thesis
    by (rule that[of "(set_array (ht_idx t w k) (Some (node_addr x)) t)\<lparr>key_count := key_count t + 1\<rparr>"
          "store (node_addr x) (c\<lparr>he_next := None\<rparr>) w1" x])
      (use ins(1)[of n e] ins(2) x i in
        \<open>auto simp: ht_insert_def same_shape_def set_array_def store_def\<close>)
qed

lemma insert_second:
  assumes rep: "ht_rep w t cs" and fresh: "\<forall>a \<ge> next_addr w. cells w a = None" and mem: "mem_entry e"
    and i: "cs ! ht_idx t w k = [y]" and ne: "node_key y \<noteq> k" and one: "nodes cs = {y}" "live_value e (node_val y)"
    and load: "\<not> needs_resize (set_load (t\<lparr>collisions := collisions t + 1\<rparr>))"
  obtains x t' w' where "ht_insert 3 e t k v w = Inr (t', w')" "ht_rep w' t' (cs[ht_idx t w k := [y, x]])"
    "node_key x = k" "same_shape t t'" "key_count t' = key_count t + 1" "collisions t' = collisions t + 1"
    "global_seed w' = global_seed w"
proof -
  obtain x c w1 where x: "he_create e k v w = (Some (node_addr x), w1)" "cells w1 (node_addr x) = Some c" "is_node c x"
    "node_addr x \<notin> node_addr ` nodes cs" "ht_rep w1 t cs" "\<forall>a \<ge> next_addr w1. cells w1 a = None"
    "node_key x = k" "node_val x = v" "global_seed w1 = global_seed w"
    by (rule he_create_rep[OF rep fresh mem])
  have idx: "ht_idx t w k = ht_idx t w1 (node_key x)"
    using x(7,9) by (simp add: ht_idx_def)
  have h: "cs ! ht_idx t w k \<noteq> []" "node_key x \<notin> keys_of cs" "\<forall>z \<in> nodes cs. live_value e (node_val z)" "card (nodes cs) \<le> 2"
    using i ne one x(7) by (auto simp: keys_of_def)
  let ?t = "set_load (t\<lparr>key_count := key_count t + 1, collisions := collisions t + 1\<rparr>)"
  obtain w' where w': "ht_insert_he (Suc 2) e t (node_addr x) w1 =
      (if needs_resize ?t
       then bind_res (resize_with (ht_insert_he 2 e) 2 e ?t (array_size ?t * 2) w') (\<lambda>(t4, w4). Inr (set_load t4, w4))
       else Inr (?t, w'))"
    "ht_rep w' ?t (cs[ht_idx t w k := cs ! ht_idx t w k @ [x]])" "global_seed w' = global_seed w1"
    by (rule insert_behind_last[OF x(5,2,3,4) idx h])
  have "\<not> needs_resize ?t"
    using load by (simp add: needs_resize_def set_load_def)
  then show ?thesis
    by (intro that[of ?t w' x]) (use w' x i in \<open>auto simp: ht_insert_def same_shape_def set_load_def numeral_3_eq_3\<close>)
qed

text \<open>
  The collision counter only grows. It is not decremented when the head of a longer chain goes
  (neither by \<^verbatim>\<open>ht_remove\<close> nor by the ageing), so when two entries of one bucket come and go in
  order the table is empty again and the counter is one higher; this repeats until the array is
  doubled, although there were never more than two entries.
\<close>

theorem collision_counter_drifts:
  assumes "arr t = replicate (unat (array_size t)) None" "0 < unat (array_size t)" "hashfunc_x86_32 t \<noteq> None"
    and "\<forall>a \<ge> next_addr w. cells w a = None" "mem_entry e" "live_value e v1" "k1 \<noteq> k2"
    and "ht_idx t w k1 = ht_idx t w k2" "\<not> needs_resize (set_load (t\<lparr>collisions := collisions t + 1\<rparr>))"
  shows "\<exists>t' w'. churn 3 e (k1, v1) (k2, v2) t w = Inr (t', w') \<and> arr t' = arr t \<and> ht_size t' = ht_size t \<and>
    collisions t' = collisions t + 1"
proof -
  let ?i = "ht_idx t w k1"
  let ?cs = "replicate (unat (array_size t)) ([] :: node list)"
  have rep: "ht_rep w t ?cs" and n0: "nodes ?cs = {}"
    using rep_empty[OF assms(3,2,1)] by auto
  have b: "?i < unat (array_size t)"
    using ht_idx_bound[OF rep] by simp
  obtain x1 t1 w1 where 1: "ht_insert (Suc 2) e t k1 v1 w = Inr (t1, w1)" "ht_rep w1 t1 (?cs[?i := [x1]])"
    "node_key x1 = k1" "node_val x1 = v1" "same_shape t t1" "key_count t1 = key_count t + 1" "collisions t1 = collisions t"
    "global_seed w1 = global_seed w" "\<forall>a \<ge> next_addr w1. cells w1 a = None"
    by (rule insert_first[OF rep assms(4,5), of k1 2 v1]) (use b in auto)
  have i1: "ht_idx t1 w1 k = ht_idx t w k" for k
    using 1(5,8) by (simp add: ht_idx_def same_shape_def)
  have n1: "nodes (?cs[?i := [x1]]) = {x1}"
    using nodes_update[OF rep, of ?i "[x1]"] n0 b by simp
  obtain x2 t2 w2 where 2: "ht_insert 3 e t1 k2 v2 w1 = Inr (t2, w2)" "ht_rep w2 t2 (?cs[?i := [x1], ?i := [x1, x2]])"
    "node_key x2 = k2" "same_shape t1 t2" "key_count t2 = key_count t1 + 1" "collisions t2 = collisions t1 + 1"
    "global_seed w2 = global_seed w1"
    by (rule insert_second[OF 1(2,9) assms(5), of k2 x1 v2])
      (use b i1 assms(6-9) 1 n1 in \<open>auto simp: needs_resize_def set_load_def same_shape_def\<close>)
  have i2: "ht_idx t2 w2 k = ht_idx t w k" for k
    using i1 2(4,7) by (simp add: ht_idx_def same_shape_def)
  obtain t3 w3 where 3: "ht_remove 3 t2 (node_key x1) w2 = Inr (t3, w3)" "ht_rep w3 t3 (?cs[?i := [x1, x2], ?i := [x2]])"
    "same_shape t2 t3" "key_count t3 = key_count t2 - 1" "collisions t3 = collisions t2"
    "frame (node_addr ` nodes (?cs[?i := [x1, x2]])) w2 w3"
    by (rule remove_head[of w2 t2 "?cs[?i := [x1, x2]]" x1 "[x2]" 3]) (use 2(2) i2 1(3) b in auto)
  have i3: "ht_idx t3 w3 k = ht_idx t w k" for k
    using same_shape_idx[OF 3(3,6)] i2 by simp
  obtain t4 w4 where 4: "ht_remove 3 t3 (node_key x2) w3 = Inr (t4, w4)" "ht_rep w4 t4 (?cs[?i := [x2], ?i := []])"
    "same_shape t3 t4" "key_count t4 = key_count t3 - 1" "collisions t4 = collisions t3"
    by (rule remove_head[of w3 t3 "?cs[?i := [x2]]" x2 "[]" 3]) (use 3(2) i3 2(3) assms(8) b in auto)
  have s: "array_size t4 = array_size t"
    using 1(5) 2(4) 3(3) 4(3) by (simp add: same_shape_def)
  have "?cs[?i := [x2], ?i := []] = ?cs"
    using b by (simp add: list_update_same_conv)
  then have "arr t4 = arr t"
    using empty_rep[of w4 t4] 4(2) assms(1) by (simp add: s)
  moreover have "churn 3 e (k1, v1) (k2, v2) t w = Inr (t4, w4)"
    using 1(1,3) 2(1,3) 3(1) 4(1) by (simp add: churn_def numeral_3_eq_3)
  ultimately show ?thesis
    using 1(6,7) 2(5,6) 3(4,5) 4(4,5) by (intro exI[of _ t4] exI[of _ w4]) (simp add: ht_size_def)
qed

section \<open>Witnesses\<close>

text \<open>
  A table with a constant hash function whose first bucket holds a live entry and two over-aged
  ones; the clock says 100 seconds.
\<close>

definition wit_env :: ht_env where
  "wit_env = \<lparr>clock = \<lambda>n. 100, mem_entry = True, mem_value = True, mem_array = True\<rparr>"

definition wit_table :: "nat \<Rightarrow> hash_table" where
  "wit_table c = \<lparr>hashfunc_x86_32 = Some (\<lambda>_ _. 0), key_count = of_nat c, array_size = 2, arr = [if c = 0 then None else Some 0, None],
     collisions = of_nat (c - 1), flags = 0, max_load_factor = 1, current_load_factor = 0\<rparr>"

definition wit_node :: "nat \<Rightarrow> u8 \<Rightarrow> node" where
  "wit_node a ts = Node a [of_nat a] [ts, 0, 0, 0]"

definition wit_cell :: "node \<Rightarrow> addr option \<Rightarrow> hash_entry" where
  "wit_cell x p = \<lparr>he_key = node_key x, he_value = Some (node_val x), value_size = length (node_val x), he_next = p\<rparr>"

fun wit_cells :: "node list \<Rightarrow> addr \<Rightarrow> hash_entry option" where
  "wit_cells [] = (\<lambda>_. None)"
| "wit_cells (x # xs) = (wit_cells xs)(node_addr x \<mapsto> wit_cell x (case xs of [] \<Rightarrow> None | y # _ \<Rightarrow> Some (node_addr y)))"

definition wit_world :: "node list \<Rightarrow> world" where
  "wit_world xs = \<lparr>cells = wit_cells xs, next_addr = 10, ticks = 0, global_seed = 0\<rparr>"

lemma wit_chain:
  "distinct (map node_addr xs) \<Longrightarrow> chain (wit_cells xs) (case xs of [] \<Rightarrow> None | y # _ \<Rightarrow> Some (node_addr y)) xs"
proof (induction xs)
  case (Cons x xs)
  have "chain (wit_cells (x # xs)) (case xs of [] \<Rightarrow> None | y # _ \<Rightarrow> Some (node_addr y)) xs"
  proof (rule chain_frame)
    show "chain (wit_cells xs) (case xs of [] \<Rightarrow> None | y # _ \<Rightarrow> Some (node_addr y)) xs"
      using Cons by simp
    show "\<forall>z \<in> set xs. wit_cells (x # xs) (node_addr z) = wit_cells xs (node_addr z)"
      using Cons.prems imageI[of _ "set xs" node_addr] by (metis distinct.simps(2) fun_upd_other list.set_map list.simps(9) wit_cells.simps(2))
  qed
  then show ?case
    by (simp add: wit_cell_def is_node_def fun_upd_def)
qed simp

lemma wit_cells_out: "a \<notin> node_addr ` set xs \<Longrightarrow> wit_cells xs a = None"
  by (induction xs) auto

lemma wit_rep:
  assumes "distinct (map node_addr xs)" "distinct (map node_key xs)" "xs \<noteq> []" "node_addr (hd xs) = 0" "n = length xs"
  shows "ht_rep (wit_world xs) (wit_table n) [xs, []]"
proof -
  obtain y ys where y: "xs = y # ys"
    using assms(3) by (cases xs) auto
  have "chain (cells (wit_world xs)) (Some 0) xs"
    using wit_chain[OF assms(1)] assms(4) by (simp add: wit_world_def y)
  then show ?thesis
    using assms(2,5) y by (auto simp: ht_rep_def wit_table_def ht_idx_def less_Suc_eq simp del: chain.simps)
qed

lemma wit_getblock: "getblock32 [90, 0, 0, 0] 0 = 90" "getblock32 [50, 0, 0, 0] 0 = 50"
  by code_simp+

lemma wit_ages: "fresh_at 100 (wit_node a 90)" "expired_at 100 (wit_node a 50)"
  by (simp_all add: fresh_at_def expired_at_def wit_node_def node_ts_def wit_getblock timed_out_def AGE_TIMEOUT_def to_int32_def)

lemma wit_idx: "ht_idx (wit_table n) w k = 0"
  by (simp add: ht_idx_def wit_table_def)

theorem ageing_uses_freed_entry_witness:
  "ht_insert 9 wit_env (wit_table 3) [7] [99, 0, 0, 0] (wit_world [wit_node 0 90, wit_node 1 50, wit_node 2 50]) = Inl UseAfterFree"
proof -
  let ?xs = "[wit_node 0 90, wit_node 1 50, wit_node 2 50]"
  have "ht_rep (wit_world ?xs) (wit_table 3) [?xs, []]"
    by (rule wit_rep) (simp_all add: wit_node_def)
  moreover have "\<forall>a \<ge> next_addr (wit_world ?xs). cells (wit_world ?xs) a = None"
    by (simp add: wit_world_def wit_cells_out wit_node_def)
  ultimately show ?thesis
    using ageing_uses_freed_entry[of "wit_world ?xs" "wit_table 3" "[?xs, []]" wit_env "[7]" "[wit_node 0 90]"
        "wit_node 1 50" "wit_node 2 50" "[]" 8 "[99, 0, 0, 0]"] wit_ages
    by (simp add: wit_env_def wit_idx)
qed

theorem ageing_last_dereferences_null_witness:
  "ht_insert 9 wit_env (wit_table 2) [7] [99, 0, 0, 0] (wit_world [wit_node 0 90, wit_node 1 50]) = Inl NullDeref"
proof -
  let ?xs = "[wit_node 0 90, wit_node 1 50]"
  have "ht_rep (wit_world ?xs) (wit_table 2) [?xs, []]"
    by (rule wit_rep) (simp_all add: wit_node_def)
  moreover have "\<forall>a \<ge> next_addr (wit_world ?xs). cells (wit_world ?xs) a = None"
    by (simp add: wit_world_def wit_cells_out wit_node_def)
  moreover have "[7] \<noteq> node_key (wit_node 0 90)"
    by (simp add: wit_node_def)
  ultimately show ?thesis
    using ageing_last_dereferences_null[of "wit_world ?xs" "wit_table 2" "[?xs, []]" wit_env "[7]" "[wit_node 0 90]"
        "wit_node 1 50" 8 "[99, 0, 0, 0]"] wit_ages
    by (simp add: wit_env_def wit_idx)
qed

theorem collision_counter_drifts_witness:
  "\<exists>t' w'. churn 3 wit_env ([1], [90, 0, 0, 0]) ([2], [90, 0, 0, 0]) (wit_table 0) (wit_world []) = Inr (t', w') \<and>
     arr t' = [None, None] \<and> ht_size t' = 0 \<and> collisions t' = 1"
proof -
  have "live_value wit_env [90, 0, 0, 0]"
    by (simp add: live_value_def wit_env_def wit_getblock timed_out_def AGE_TIMEOUT_def to_int32_def)
  moreover have "\<not> needs_resize (set_load ((wit_table 0)\<lparr>collisions := collisions (wit_table 0) + 1\<rparr>))"
    by (simp add: needs_resize_def set_load_def wit_table_def)
  moreover have "arr (wit_table 0) = replicate (unat (array_size (wit_table 0))) None"
  proof -
    have "unat (array_size (wit_table 0)) = Suc (Suc 0)" "arr (wit_table 0) = [None, None]"
      by (simp_all add: wit_table_def)
    then show ?thesis
      by (simp only: replicate.simps)
  qed
  ultimately show ?thesis
    using collision_counter_drifts[of "wit_table 0" "wit_world []" wit_env "[90, 0, 0, 0]" "[1]" "[2]" "[90, 0, 0, 0]"]
    by (simp add: wit_env_def wit_idx wit_world_def) (simp add: wit_table_def ht_size_def)
qed

end
