(* ===== verification/CollectorProps.thy ===== *)
theory CollectorProps
  imports Collector HashProps
begin

text \<open>
  Properties of the collector client: which packets share a session, the delay measured for a
  handshake, the overrun of the first command, the throughput of a station, and the accounting of
  the records in every interleaving of the capture with the two threads.
\<close>

section \<open>Bytes\<close>

lemma char_byte_inj: "(of_nat (of_char c) :: u8) = of_nat (of_char d) \<Longrightarrow> c = d"
proof -
  assume "(of_nat (of_char c) :: u8) = of_nat (of_char d)"
  then have "(of_char c :: nat) mod 256 = of_char d mod 256"
    by (simp add: word_of_nat_eq_iff take_bit_eq_mod)
  then have "(of_char c :: nat) = of_char d"
    by (simp add: of_char_mod_256)
  then show "c = d"
    by simp
qed

lemma string_bytes_inj: "string_bytes s = string_bytes t \<longleftrightarrow> s = t"
  unfolding string_bytes_def by (rule inj_map_eq_map) (auto intro: injI char_byte_inj)

lemma getblock32_le32: "getblock32 (le32 w @ r) 0 = w"
proof (rule bit_word_eqI)
  fix n assume n: "n < LENGTH(32)"
  consider "n < 8" | "8 \<le> n" "n < 16" | "16 \<le> n" "n < 24" | "24 \<le> n" "n < 32"
    using n by fastforce
  then show "bit (getblock32 (le32 w @ r) 0) n = bit w n"
    by cases (auto simp: getblock32_def byte32_def le32_def bit_simps)
qed

lemma getblock32_shift: "getblock32 v (Suc j) = getblock32 (drop 4 v) j" if "4 \<le> length v"
  using that by (simp add: getblock32_def byte32_def numeral_eq_Suc)

lemma byte64_bit: "bit (byte64 data i s) n \<longleftrightarrow> s \<le> n \<and> n < 64 \<and> bit (data ! i) (n - s)"
  by (auto simp: byte64_def bit_simps dest: bit_imp_le_length)

lemma getblock64_split:
  "getblock64 v j = ucast (getblock32 v (2 * j)) OR push_bit 32 (ucast (getblock32 v (2 * j + 1)))"
proof (rule bit_word_eqI)
  fix n assume "n < LENGTH(64)"
  then have n: "n < 64"
    by simp
  have e: "4 * (2 * j) = 8 * j" "4 * (2 * j + 1) = 8 * j + 4" "8 * j + 4 + 1 = 8 * j + 5" "8 * j + 4 + 2 = 8 * j + 6"
    "8 * j + 4 + 3 = 8 * j + 7"
    by simp_all
  show "bit (getblock64 v j) n = bit (ucast (getblock32 v (2 * j)) OR push_bit 32 (ucast (getblock32 v (2 * j + 1))) :: u64) n"
  proof (cases "n < 32")
    case True
    then show ?thesis
      unfolding getblock64_def getblock32_def e
      by (simp add: bit_or_iff bit_push_bit_iff bit_unsigned_iff byte64_bit byte32_bit)
  next
    case False
    then have *: "8 \<le> n" "8 \<le> n - 8" "8 \<le> n - 16" "8 \<le> n - 24" "n - 32 < 32"
      "8 \<le> n - 32 \<longleftrightarrow> 40 \<le> n" "16 \<le> n - 32 \<longleftrightarrow> 48 \<le> n" "24 \<le> n - 32 \<longleftrightarrow> 56 \<le> n"
      "n - 32 - 8 = n - 40" "n - 32 - 16 = n - 48" "n - 32 - 24 = n - 56" "32 \<le> n"
      using n by (simp_all add: le_diff_conv2)
    then show ?thesis
      unfolding getblock64_def getblock32_def e using n
      by (simp add: bit_or_iff bit_push_bit_iff bit_unsigned_iff byte64_bit byte32_bit u8_bit_high)
  qed
qed

lemma getblock64_le64: "getblock64 (le64 w @ r) 0 = w"
proof -
  have 1: "getblock32 (le64 w @ r) 0 = ucast w"
    by (simp add: le64_def getblock32_le32)
  have 2: "getblock32 (le64 w @ r) 1 = ucast (drop_bit 32 w)"
    using getblock32_shift[of "le64 w @ r" 0] getblock32_le32[of "ucast (drop_bit 32 w)" r]
    by (simp add: le64_def le32_def)
  show ?thesis
    unfolding getblock64_split by (rule bit_word_eqI) (use 1 2 in \<open>auto simp: bit_simps\<close>)
qed

lemma sint_of_int32: "sint (of_int x :: u32) = to_int32 x"
  by (simp add: to_int32_def signed_of_int)

section \<open>Keys\<close>

lemma fmt_x_inj:
  assumes "fmt_x w m = fmt_x w n"
  shows "m = n"
proof -
  have "digits_val 16 0 (fmt_x w k) = int k" for k
    using digits_val_pad0[of 16 w k "[]"] by (simp add: fmt_x_def)
  then show ?thesis
    using assms by (metis of_nat_eq_iff)
qed

lemma length_fmt_x4 [simp]: "length (fmt_x 4 (unat (p :: u16))) = 4"
  by (rule length_fmt_x) (use unsigned_less[of p] in simp_all)

lemma length_fmt_x8 [simp]: "length (fmt_x 8 (unat (a :: u32))) = 8"
  by (rule length_fmt_x) (use unsigned_less[of a] in simp_all)

lemma length_key [simp]: "length (key_ports h) = 8" "length (key_addrs h) = 16"
  by (simp_all add: key_ports_def key_addrs_def)

lemma key_char_eq: "key_char h = Inr (string_bytes (key_ports h @ key_addrs h @ [nul]))"
  by (simp add: key_char_def sprintf_buf_def KEYLEN_def)

text \<open>The same two values, in either order.\<close>

definition same_pair :: "'a \<Rightarrow> 'a \<Rightarrow> 'a \<Rightarrow> 'a \<Rightarrow> bool" where
  "same_pair a b c d \<longleftrightarrow> a = c \<and> b = d \<or> a = d \<and> b = c"

lemma key_ports_iff: "key_ports g = key_ports h \<longleftrightarrow> same_pair (source g) (dest g) (source h) (dest h)"
proof -
  have "fmt_x 4 (unat a) @ fmt_x 4 (unat b) = fmt_x 4 (unat c) @ fmt_x 4 (unat d) \<longleftrightarrow> a = c \<and> b = d"
    for a b c d :: u16
    by (auto dest: fmt_x_inj simp: unsigned_word_eqI)
  then show ?thesis
    by (auto simp: key_ports_def same_pair_def)
qed

lemma key_addrs_iff: "key_addrs g = key_addrs h \<longleftrightarrow> same_pair (saddr g) (daddr g) (saddr h) (daddr h)"
proof -
  have "fmt_x 8 (unat a) @ fmt_x 8 (unat b) = fmt_x 8 (unat c) @ fmt_x 8 (unat d) \<longleftrightarrow> a = c \<and> b = d"
    for a b c d :: u32
    by (auto dest: fmt_x_inj simp: unsigned_word_eqI)
  then show ?thesis
    by (auto simp: key_addrs_def same_pair_def)
qed

definition same_session :: "headers \<Rightarrow> headers \<Rightarrow> bool" where
  "same_session g h \<longleftrightarrow>
     same_pair (source g) (dest g) (source h) (dest h) \<and> same_pair (saddr g) (daddr g) (saddr h) (daddr h)"

lemma key_char_iff: "key_char g = key_char h \<longleftrightarrow> same_session g h"
  by (simp add: key_char_eq string_bytes_inj append_eq_append_conv key_ports_iff key_addrs_iff same_session_def)

section \<open>MAC addresses\<close>

lemma length_colon_mac: "m \<noteq> [] \<Longrightarrow> length (colon_mac m) = 3 * length m - 1"
  by (induction m rule: colon_mac.induct) auto

lemma colon_mac_no_nul: "nul \<notin> set (colon_mac m)"
  by (induction m rule: colon_mac.induct) (auto simp: fmt_x_no_nul[unfolded nul_def] nul_def)

lemma mac2String_ok: "length m = 6 \<Longrightarrow> mac2String m = Inr (colon_mac m @ [nul])"
  using length_colon_mac[of m] by (cases m) (auto simp: mac2String_def sprintf_buf_def)

lemma strlen_mac: "length m = 6 \<Longrightarrow> strlen (colon_mac m @ [nul]) = 17"
  using length_colon_mac[of m] by (cases m) (auto simp: strlen_def c_str_append_nul colon_mac_no_nul)

section \<open>The handshake\<close>

lemma timeval_at_bytes: "timeval_at (timeval_bytes sec usec) = Inr (to_int32 sec, to_int32 usec)"
proof -
  have "getblock32 (timeval_bytes sec usec) 1 = of_int usec"
    using getblock32_shift[of "timeval_bytes sec usec" 0] getblock32_le32[of "of_int usec" "[]"]
    by (simp add: timeval_bytes_def le32_def)
  then show ?thesis
    using getblock32_le32[of "of_int sec" "le32 (of_int usec)"]
    by (simp add: timeval_at_def timeval_bytes_def le32_def sint_of_int32)
qed

lemma live_timeval:
  assumes "- 2147483648 \<le> sec" "sec \<le> 2147483647" "\<forall>n. to_int32 (clock e n - sec) \<le> AGE_TIMEOUT"
  shows "live_value e (timeval_bytes sec usec)"
proof -
  have "sint (getblock32 (timeval_bytes sec usec) 0) = sec"
    using getblock32_le32[of "of_int sec" "le32 (of_int usec)"] assms
    by (simp add: timeval_bytes_def sint_of_int32 to_int32_id)
  then show ?thesis
    using assms(3) by (auto simp: live_value_def timed_out_def timeval_bytes_def le32_def not_less)
qed

lemma lookup_SomeD:
  assumes "ht_lookup n t k w = Inr (Some v)"
  obtains a where "ht_get n t k w = Inr (Some a)" "value_at w (Some a) = Inr v" "ht_contains n t k w = Inr True"
  using assms unfolding ht_lookup_def ht_contains_def value_at_def
  by (cases "ht_get n t k w") (auto simp: bind_res_Inr_iff split: option.splits)

lemma capture_synack:
  assumes "parse_headers p = Inr h" "syn h" "ack h" "key_char h = Inr k"
    and "ht_good N (tables e) (sessionTable s, session_heap s)" "ht_room N (sessionTable s, session_heap s)" "fuel e = N"
    and "live_value (tables e) (timeval_bytes (fst ts) (snd ts))"
  obtains t w where "captureOne e ts p s = Inr (s\<lparr>sessionTable := t, session_heap := w\<rparr>)" "ht_good N (tables e) (t, w)"
    "ht_map N (t, w) = (ht_map N (sessionTable s, session_heap s))(k \<mapsto> timeval_bytes (fst ts) (snd ts))"
proof -
  obtain s' where s': "ht_insert (N + 3) (tables e) (sessionTable s) k (timeval_bytes (fst ts) (snd ts)) (session_heap s) = Inr s'"
    "ht_good N (tables e) s'" "ht_map N s' = (ht_map N (sessionTable s, session_heap s))(k \<mapsto> timeval_bytes (fst ts) (snd ts))"
    using ht.put_ok[OF assms(5,6,8), of k] unfolding fst_conv snd_conv by (elim exE conjE)
  then show ?thesis
    by (intro that[of "snd s'" "fst s'"]) (use assms in \<open>auto simp: captureOne_def split: prod.splits\<close>)
qed

lemma capture_ack:
  assumes "parse_headers p = Inr h" "\<not> syn h" "ack h" "key_char h = Inr k" "length (ether_shost h) = 6"
    and "ht_good N (tables e) (sessionTable s, session_heap s)" "fuel e = N" "mem_record e"
    and "ht_map N (sessionTable s, session_heap s) k = Some (timeval_bytes sec usec)"
  obtains t w where "captureOne e ts p s =
      Inr (hand_over ((blank_record e)\<lparr>sta_mac := colon_mac (ether_shost h) @ [nul],
             delay := to_int32 ((fst ts - to_int32 sec) * 1000000 + (snd ts - to_int32 usec))\<rparr>)
        (s\<lparr>sessionTable := t, session_heap := w\<rparr>))"
    "ht_good N (tables e) (t, w)" "ht_map N (t, w) = (ht_map N (sessionTable s, session_heap s))(k := None)"
proof -
  have "ht_lookup N (sessionTable s) k (session_heap s) = Inr (Some (timeval_bytes sec usec))"
    using ht_get_law[OF assms(6), of k] assms(9) by simp
  then obtain a where a: "ht_get N (sessionTable s) k (session_heap s) = Inr (Some a)"
    "value_at (session_heap s) (Some a) = Inr (timeval_bytes sec usec)" "ht_contains N (sessionTable s) k (session_heap s) = Inr True"
    by (rule lookup_SomeD)
  obtain s' where s': "ht_remove N (sessionTable s) k (session_heap s) = Inr s'" "ht_good N (tables e) s'"
    "ht_map N s' = (ht_map N (sessionTable s, session_heap s))(k := None)"
    using ht.del_ok[OF assms(6), of k] unfolding fst_conv snd_conv by (elim exE conjE)
  show ?thesis
    by (rule that[of "snd s'" "fst s'"])
      (use assms a s' in \<open>auto simp: captureOne_def mac2String_ok timeval_at_bytes split: prod.splits\<close>)
qed

lemma parse_shost: "parse_headers p = Inr h \<Longrightarrow> length (ether_shost h) = 6"
  by (auto simp: parse_headers_def bind_res_Inr_iff u32_at_def Let_def split: if_splits)

text \<open>
  C27: which packets share a session. Two packets get the same key exactly when their ports are the
  same two values in either order, and their addresses are the same two values in either order. The
  packets of both directions of a connection share a key; but so do those of the connections
  A:1000 to B:2000 and A:2000 to B:1000, because ports and addresses are ordered separately.
\<close>

theorem session_key_iff: "key_char g = key_char h \<longleftrightarrow> same_session g h"
  by (rule key_char_iff)

lemma handshake_run:
  assumes "parse_headers p1 = Inr h1" "syn h1" "ack h1" "parse_headers p2 = Inr h2" "\<not> syn h2" "ack h2" "same_session h1 h2"
    and "ht_good (fuel e) (tables e) (sessionTable s, session_heap s)" "ht_room (fuel e) (sessionTable s, session_heap s)"
    and "mem_record e" "args_phase s = Waiting" "- 2147483648 \<le> sec1" "sec1 \<le> 2147483647" "0 \<le> usec1" "usec1 \<le> 999999"
    and "\<forall>n. to_int32 (clock (tables e) n - sec1) \<le> AGE_TIMEOUT"
  shows "\<exists>s1 s2. captureOne e (sec1, usec1) p1 s = Inr s1 \<and> captureOne e (sec2, usec2) p2 s1 = Inr s2 \<and>
    cur_task s2 = Some ((blank_record e)\<lparr>sta_mac := colon_mac (ether_shost h2) @ [nul],
      delay := to_int32 ((sec2 - sec1) * 1000000 + (usec2 - usec1))\<rparr>) \<and>
    created s2 = created s + 1 \<and>
    ht_good (fuel e) (tables e) (sessionTable s2, session_heap s2) \<and>
    (\<forall>k. ht_lookup (fuel e) (sessionTable s2) k (session_heap s2) =
       (if key_char h1 = Inr k then Inr None else ht_lookup (fuel e) (sessionTable s) k (session_heap s)))"
proof -
  let ?N = "fuel e"
  obtain k where k: "key_char h1 = Inr k" "key_char h2 = Inr k"
    using assms(7) key_char_iff[of h1 h2] key_char_eq[of h1] by auto
  have live: "live_value (tables e) (timeval_bytes (fst (sec1, usec1)) (snd (sec1, usec1)))"
    using live_timeval[OF assms(12,13,16), of usec1] by simp
  obtain t1 w1 where 1: "captureOne e (sec1, usec1) p1 s = Inr (s\<lparr>sessionTable := t1, session_heap := w1\<rparr>)"
    "ht_good ?N (tables e) (t1, w1)"
    "ht_map ?N (t1, w1) = (ht_map ?N (sessionTable s, session_heap s))(k \<mapsto> timeval_bytes (fst (sec1, usec1)) (snd (sec1, usec1)))"
    by (rule capture_synack[OF assms(1-3) k(1) assms(8,9) refl live])
  let ?s = "s\<lparr>sessionTable := t1, session_heap := w1\<rparr>"
  have g: "ht_good ?N (tables e) (sessionTable ?s, session_heap ?s)"
    and m: "ht_map ?N (sessionTable ?s, session_heap ?s) k = Some (timeval_bytes sec1 usec1)"
    using 1 by simp_all
  obtain t2 w2 where 2: "captureOne e (sec2, usec2) p2 ?s =
      Inr (hand_over ((blank_record e)\<lparr>sta_mac := colon_mac (ether_shost h2) @ [nul],
             delay := to_int32 ((fst (sec2, usec2) - to_int32 sec1) * 1000000 + (snd (sec2, usec2) - to_int32 usec1))\<rparr>)
        (?s\<lparr>sessionTable := t2, session_heap := w2\<rparr>))"
    "ht_good ?N (tables e) (t2, w2)" "ht_map ?N (t2, w2) = (ht_map ?N (sessionTable ?s, session_heap ?s))(k := None)"
    by (rule capture_ack[OF assms(4-6) k(2) parse_shost[OF assms(4)] g refl assms(10) m])
  have "to_int32 sec1 = sec1" "to_int32 usec1 = usec1"
    using assms(12-15) by (simp_all add: to_int32_id)
  moreover have "ht_lookup ?N t2 j w2 = (if key_char h1 = Inr j then Inr None else ht_lookup ?N (sessionTable s) j (session_heap s))" for j
    using ht_get_law[OF 2(2), of j] ht_get_law[OF assms(8), of j] 1(3) 2(3) k(1) by auto
  ultimately show ?thesis
    using 1(1) 2(1,2) assms(11) by (simp add: hand_over_def)
qed

text \<open>
  C17: the delay of a handshake. A packet with SYN and ACK, followed by an ACK of the same session,
  hands the measuring thread a record with the source of the ACK as the station and the time
  between the two in microseconds; the session is forgotten and no other session is touched. The
  second packet is looked for by a key that does not depend on the direction, and the table may
  grow on the way.
\<close>

theorem handshake_delay_measured:
  assumes "parse_headers p1 = Inr h1" "syn h1" "ack h1" "parse_headers p2 = Inr h2" "\<not> syn h2" "ack h2" "same_session h1 h2"
    and "ht_good (fuel e) (tables e) (sessionTable s, session_heap s)" "ht_room (fuel e) (sessionTable s, session_heap s)"
    and "mem_record e" "args_phase s = Waiting" "- 2147483648 \<le> sec1" "sec1 \<le> 2147483647" "0 \<le> usec1" "usec1 \<le> 999999"
    and "\<forall>n. to_int32 (clock (tables e) n - sec1) \<le> AGE_TIMEOUT"
  shows "\<exists>s1 s2. captureOne e (sec1, usec1) p1 s = Inr s1 \<and> captureOne e (sec2, usec2) p2 s1 = Inr s2 \<and>
    cur_task s2 = Some ((blank_record e)\<lparr>sta_mac := colon_mac (ether_shost h2) @ [nul],
      delay := to_int32 ((sec2 - sec1) * 1000000 + (usec2 - usec1))\<rparr>) \<and>
    created s2 = created s + 1 \<and>
    ht_good (fuel e) (tables e) (sessionTable s2, session_heap s2) \<and>
    (\<forall>k. ht_lookup (fuel e) (sessionTable s2) k (session_heap s2) =
       (if key_char h1 = Inr k then Inr None else ht_lookup (fuel e) (sessionTable s) k (session_heap s)))"
  by (rule handshake_run[OF assms])

definition wit_record :: Record where
  "wit_record = \<lparr>sta_mac = replicate 18 nul, rssi = 0, mode = 0, au = Fin 0, delay = 0, br = Fin 0, tt = 0, rt = 0\<rparr>"

definition wit_ht_env :: ht_env where
  "wit_ht_env = \<lparr>clock = \<lambda>n. 1000, mem_entry = True, mem_value = True, mem_array = True\<rparr>"

definition wit_capture_env :: capture_env where
  "wit_capture_env = \<lparr>tables = wit_ht_env, mem_record = True, blank_record = wit_record, fuel = 10\<rparr>"

definition wit_send_queue :: "Record dsqueue" where
  "wit_send_queue = \<lparr>buf = replicate 4 None, pos = 0, qlen = 0, capacity = 4, qclosed = False\<rparr>"

definition wit_collector :: "hash_table \<Rightarrow> hash_table \<Rightarrow> collector" where
  "wit_collector t1 t2 =
     \<lparr>sessionTable = t1, session_heap = start_world, stationTable = t2, station_heap = start_world, cur_task = None,
      sendQueue = wit_send_queue, args_phase = Waiting, delivered = [], created = 0, freed = 0, overwritten = 0\<rparr>"

text \<open>A packet from port 80 to port 4660 and the answer.\<close>

definition wit_packet :: "u8 \<Rightarrow> bytes \<Rightarrow> bytes \<Rightarrow> bytes" where
  "wit_packet fl addrs ports =
     replicate 6 1 @ [2, 3, 4, 5, 6, 7] @ [8, 0] @ [69] @ replicate 11 0 @ addrs @ ports @ replicate 9 0 @ [fl] @ replicate 6 0"

definition wit_synack :: bytes where
  "wit_synack = wit_packet 18 [10, 0, 0, 1, 10, 0, 0, 2] [0, 80, 18, 52]"

definition wit_ack :: bytes where
  "wit_ack = wit_packet 16 [10, 0, 0, 2, 10, 0, 0, 1] [18, 52, 0, 80]"

lemma wit_parse:
  "parse_headers wit_synack = Inr \<lparr>ether_shost = [2, 3, 4, 5, 6, 7], saddr = 16777226, daddr = 33554442,
     source = 20480, dest = 13330, syn = True, ack = True\<rparr>"
  "parse_headers wit_ack = Inr \<lparr>ether_shost = [2, 3, 4, 5, 6, 7], saddr = 33554442, daddr = 16777226,
     source = 13330, dest = 20480, syn = False, ack = True\<rparr>"
  by code_simp+

lemma wit_tables:
  obtains t where "ht_init wit_ht_env HT_NONE (1 / 20) = Inr t" "ht_good 10 wit_ht_env (t, start_world)" "ht_room 10 (t, start_world)"
proof -
  let ?e = wit_ht_env
  obtain t where t: "ht_init ?e HT_NONE (1 / 20) = Inr t" "ht_good 10 ?e (t, start_world)"
    "ht_map 10 (t, start_world) = (\<lambda>_. None)" "ht_size t = 0" "array_size t = HT_INITIAL_SIZE"
    unfolding ht_init_def
    by (rule ht_init_good[of ?e 10 start_world "1 / 20" HT_NONE]) (simp_all add: start_world_def HT_NONE_def wit_ht_env_def)
  moreover from t(4,5) have "ht_room 10 (t, start_world)"
    by (simp add: ht_room_def HT_INITIAL_SIZE_def)
  ultimately show ?thesis
    using that by blast
qed

lemma wit_handshake_hyps:
  "same_session \<lparr>ether_shost = [2, 3, 4, 5, 6, 7], saddr = 16777226, daddr = 33554442, source = 20480, dest = 13330, syn = True, ack = True\<rparr>
     \<lparr>ether_shost = [2, 3, 4, 5, 6, 7], saddr = 33554442, daddr = 16777226, source = 13330, dest = 20480, syn = False, ack = True\<rparr>"
  "\<forall>n. to_int32 (clock (tables wit_capture_env) n - 990) \<le> AGE_TIMEOUT" "mem_record wit_capture_env"
  "fuel wit_capture_env = 10" "tables wit_capture_env = wit_ht_env"
  by (simp_all add: wit_capture_env_def same_session_def same_pair_def AGE_TIMEOUT_def wit_ht_env_def to_int32_def)

theorem handshake_delay_measured_witness:
  "\<exists>t s1 s2. ht_init wit_ht_env HT_NONE (1 / 20) = Inr t \<and>
     captureOne wit_capture_env (990, 900000) wit_synack (wit_collector t t) = Inr s1 \<and>
     captureOne wit_capture_env (991, 100000) wit_ack s1 = Inr s2 \<and> map_option delay (cur_task s2) = Some 200000"
proof -
  obtain t where t: "ht_init wit_ht_env HT_NONE (1 / 20) = Inr t" "ht_good 10 wit_ht_env (t, start_world)"
    "ht_room 10 (t, start_world)"
    by (rule wit_tables)
  obtain s1 s2 where "captureOne wit_capture_env (990, 900000) wit_synack (wit_collector t t) = Inr s1"
    "captureOne wit_capture_env (991, 100000) wit_ack s1 = Inr s2" "map_option delay (cur_task s2) = Some (to_int32 200000)"
    using handshake_delay_measured[OF wit_parse(1) _ _ wit_parse(2) _ _ wit_handshake_hyps(1), of wit_capture_env "wit_collector t t" 990 900000 991 100000]
      t(2,3) wit_handshake_hyps(2-5)
    by (auto simp: wit_collector_def)
  then show ?thesis
    using t(1) by (auto simp: to_int32_id)
qed

lemma wit_handshake:
  assumes "ht_good 10 wit_ht_env (sessionTable s, session_heap s)" "ht_room 10 (sessionTable s, session_heap s)" "args_phase s = Waiting"
  shows "\<exists>s1 s2. captureOne wit_capture_env (990, 900000) wit_synack s = Inr s1 \<and>
    captureOne wit_capture_env (991, 100000) wit_ack s1 = Inr s2 \<and> created s2 = created s + 1 \<and> cur_task s2 \<noteq> None"
  using handshake_run[OF wit_parse(1) _ _ wit_parse(2) _ _ wit_handshake_hyps(1), of wit_capture_env s 990 900000 991 100000]
    assms wit_handshake_hyps(2-5)
  by auto

text \<open>
  The overrun of the first command. For every station the capture callback reports, the text
  of the first command of \<^verbatim>\<open>getInfo\<close> is one byte too long for its array, so without unused
  memory behind the array each call writes outside it.
\<close>

theorem getInfo_overruns_command:
  assumes "length m = 6" "mac2String m = Inr b" "sta_mac r = b"
  shows "getInfo sh 0 e n now junk r t w = Inl BufferOverflow"
proof -
  have "length (c_str (sta_mac r)) = 17"
    using assms strlen_mac[OF assms(1)] by (simp add: mac2String_ok strlen_def)
  then show ?thesis
    by (simp add: getInfo_def getInfo_mode_def popen_buf_def sprintf_buf_def bind_opt_def mode_cmd_def)
qed

theorem getInfo_overruns_command_witness:
  "\<forall>t w. getInfo (\<lambda>_. None) 0 wit_ht_env 10 1000 [] (wit_record\<lparr>sta_mac := colon_mac [2, 3, 4, 5, 6, 7] @ [nul]\<rparr>) t w =
     Inl BufferOverflow"
  using getInfo_overruns_command[of "[2, 3, 4, 5, 6, 7]"] mac2String_ok[of "[2, 3, 4, 5, 6, 7]"] by simp

section \<open>Throughput\<close>

text \<open>Changing a value in place changes no path through the chains.\<close>

lemma get_walk_poke:
  "cells w a = Some c \<Longrightarrow> get_walk n (store a (c\<lparr>he_value := x\<rparr>) w) k p = get_walk n w k p"
proof (induction n w k p rule: get_walk.induct)
  case (3 n w k b)
  then show ?case
    by (cases "b = a"; cases "cells w b") (simp_all add: deref_def store_def key_compare_iff probe_entry_def)
qed simp_all

lemma get_walk_key: "get_walk n w k p = Inr (Some a) \<Longrightarrow> \<exists>c. cells w a = Some c \<and> he_key c = k"
proof (induction n w k p rule: get_walk.induct)
  case (3 n w k b)
  then show ?case
    by (cases "cells w b") (auto simp: deref_def he_key_compare_def probe_entry_def split: if_splits)
qed auto

lemma seed_store: "global_seed (store a c w) = global_seed w"
  by (simp add: store_def)

lemma ht_get_poke:
  assumes "cells w a = Some c"
  shows "ht_get n t k (store a (c\<lparr>he_value := x\<rparr>) w) = ht_get n t k w"
  using get_walk_poke[OF assms] by (cases "hashfunc_x86_32 t") (simp_all add: ht_get_def ht_index_def seed_store)

lemma ht_get_key: "ht_get n t k w = Inr (Some a) \<Longrightarrow> \<exists>c. cells w a = Some c \<and> he_key c = k"
  by (auto simp: ht_get_def bind_res_Inr_iff dest: get_walk_key)

lemma deref_store: "deref (store a c w) b = (if b = a then Inr c else deref w b)"
  by (simp add: deref_def store_def)

lemma lookup_poke:
  assumes "ht_get n t k w = Inr (Some a)" "cells w a = Some c"
  shows "ht_lookup n t j (store a (c\<lparr>he_value := Some v\<rparr>) w) = (if j = k then Inr (Some v) else ht_lookup n t j w)"
proof (cases "j = k")
  case True
  then show ?thesis
    using assms(1) by (simp add: ht_lookup_def ht_get_poke[OF assms(2)] deref_store)
next
  case False
  have "he_key c = k"
    using ht_get_key[OF assms(1)] assms(2) by simp
  then have "b \<noteq> a" if "ht_get n t j w = Inr (Some b)" for b
    using ht_get_key[OF that] assms(2) False by auto
  then show ?thesis
    using False
    by (cases "ht_get n t j w") (auto simp: ht_lookup_def ht_get_poke[OF assms(2)] deref_store split: option.splits)
qed

lemma length_throughput [simp]: "length (throughput_fields r) = 20"
  by (simp add: throughput_fields_def le64_def le32_def)

lemma throughput_at_fields:
  "throughput_at (throughput_fields r @ junk) =
     \<lparr>tr_tt = to_int64 (tr_tt r), tr_rt = to_int64 (tr_rt r), last_time = to_int32 (last_time r)\<rparr>"
proof -
  let ?a = "le64 (of_int (tr_tt r))" and ?b = "le64 (of_int (tr_rt r))" and ?c = "le32 (of_int (last_time r))"
  have l: "length ?a = 8" "length ?b = 8"
    by (simp_all add: le64_def le32_def)
  have sh: "getblock32 (xs @ ys) (Suc (Suc j)) = getblock32 ys j" if "length xs = 8" for xs ys j
    using that getblock32_shift[of "xs @ ys" "Suc j"] getblock32_shift[of "drop 4 (xs @ ys)" j] by simp
  have "getblock64 (xs @ ys) 1 = getblock64 ys 0" if "length xs = 8" for xs ys
    unfolding getblock64_split using sh[OF that, of ys 0] sh[OF that, of ys 1] by (simp add: numeral_eq_Suc)
  then have "getblock64 (?a @ ?b @ ?c @ junk) 1 = of_int (tr_rt r)"
    using l getblock64_le64[of "of_int (tr_rt r)"] by simp
  moreover have "getblock32 (?a @ ?b @ ?c @ junk) 4 = of_int (last_time r)"
    using sh[OF l(1), of "?b @ ?c @ junk" 2] sh[OF l(2), of "?c @ junk" 0] getblock32_le32[of "of_int (last_time r)" junk]
    by (simp add: numeral_eq_Suc)
  moreover have "sint (of_int x :: u64) = to_int64 x" for x
    by (simp add: to_int64_def signed_of_int)
  ultimately show ?thesis
    using getblock64_le64[of "of_int (tr_tt r)"]
    by (simp add: throughput_at_def throughput_fields_def sint_of_int32)
qed

lemma counter_cmd_cong [simp]:
  "counter_cmd d (r\<lparr>rt := x\<rparr>) = counter_cmd d r" "counter_cmd d (r\<lparr>tt := x\<rparr>) = counter_cmd d r"
  "counter_cmd d (r\<lparr>au := a\<rparr>) = counter_cmd d r" "counter_cmd d (r\<lparr>rssi := x\<rparr>) = counter_cmd d r"
  "counter_cmd d (r\<lparr>br := a\<rparr>) = counter_cmd d r"
  by (simp_all add: counter_cmd_def)

lemma read_counters_cong [simp]:
  "read_counters sh (r\<lparr>rt := x\<rparr>) = read_counters sh r" "read_counters sh (r\<lparr>tt := x\<rparr>) = read_counters sh r"
  "read_counters sh (r\<lparr>au := a\<rparr>) = read_counters sh r" "read_counters sh (r\<lparr>rssi := x\<rparr>) = read_counters sh r"
  "read_counters sh (r\<lparr>br := a\<rparr>) = read_counters sh r"
  by (simp_all add: read_counters_def cong: option.case_cong)

text \<open>What the commands print for a station, once the radio \<open>i\<close> it is on is known.\<close>

definition station_report :: "shell \<Rightarrow> Record \<Rightarrow> int \<Rightarrow> int \<Rightarrow> int \<Rightarrow> int \<Rightarrow> dbl \<Rightarrow> bool" where
  "station_report sh r i active busy sig rate \<longleftrightarrow>
     (\<exists>out. sh (mode_cmd r) = Some out \<and> i = (if first_line out \<noteq> None then 0 else 1)) \<and>
     (\<exists>out l1 rest l2. sh (au_cmd (r\<lparr>mode := i\<rparr>)) = Some out \<and> fgets 1024 out = Some (l1, rest) \<and> first_line rest = Some l2 \<and>
        atoi (c_str l1) = active \<and> atoi l2 = busy) \<and>
     (\<exists>out l. sh (rssi_cmd (r\<lparr>mode := i\<rparr>)) = Some out \<and> first_line out = Some l \<and> atoi l = sig) \<and>
     (\<exists>out l. sh (br_cmd (r\<lparr>mode := i\<rparr>)) = Some out \<and> first_line out = Some l \<and> atof l = rate) \<and>
     active \<noteq> - 1 \<and> busy \<noteq> - 1 \<and> sig \<noteq> 1 \<and> rate \<noteq> Fin (- 1)"

lemma length_interface [simp]: "length (interface_name i) = 5"
  by (simp add: interface_name_def)

lemma cmds_fit:
  assumes "length (c_str (sta_mac r)) = 17"
  shows "length (mode_cmd r) = 50" "length (au_cmd r) < 100" "length (rssi_cmd r) < 100" "length (br_cmd r) < 100"
    "length dir = 2 \<Longrightarrow> length (counter_cmd dir r) < 100"
  using assms by (simp_all add: mode_cmd_def au_cmd_def rssi_cmd_def br_cmd_def counter_cmd_def quoted_def)

lemma popen_buf_fits: "length c < cap \<Longrightarrow> popen_buf sh cap c = Inr (sh c)"
  by (simp add: popen_buf_def sprintf_buf_def)

lemma cmd_cong [simp]:
  "rssi_cmd (r\<lparr>au := a\<rparr>) = rssi_cmd r" "br_cmd (r\<lparr>au := a\<rparr>) = br_cmd r" "br_cmd (r\<lparr>rssi := x\<rparr>) = br_cmd r"
  by (simp_all add: rssi_cmd_def br_cmd_def)

text \<open>The stages before the throughput.\<close>

lemma getInfo_stages:
  assumes "length (c_str (sta_mac r)) = 17" "1 \<le> pad" "station_report sh r i active busy sig rate"
  shows "getInfo sh pad e n now junk r t w =
    getInfo_throughput sh e n now junk (r\<lparr>mode := i, au := dbl_div busy active, rssi := sig, br := rate\<rparr>) t w"
proof -
  let ?r1 = "r\<lparr>mode := i\<rparr>"
  let ?r2 = "?r1\<lparr>au := dbl_div busy active\<rparr>"
  let ?r3 = "?r2\<lparr>rssi := sig\<rparr>"
  have mac: "length (c_str (sta_mac ?r1)) = 17" "length (c_str (sta_mac ?r2)) = 17" "length (c_str (sta_mac ?r3)) = 17"
    using assms(1) by simp_all
  have "getInfo_mode sh pad r = Inr (Some ?r1)"
    using assms(2,3) cmds_fit(1)[OF assms(1)] by (auto simp: getInfo_mode_def popen_buf_fits station_report_def)
  moreover have "getInfo_au sh ?r1 = Inr (Some ?r2)"
    using assms(3) cmds_fit(2)[OF mac(1)] unfolding station_report_def by (auto simp: getInfo_au_def popen_buf_fits)
  moreover have "getInfo_rssi sh ?r2 = Inr (Some ?r3)"
    using assms(3) cmds_fit(3)[OF mac(2)] unfolding station_report_def by (auto simp: getInfo_rssi_def popen_buf_fits)
  moreover have "getInfo_br sh ?r3 = Inr (Some (?r3\<lparr>br := rate\<rparr>))"
    using assms(3) cmds_fit(4)[OF mac(3)] unfolding station_report_def by (auto simp: getInfo_br_def popen_buf_fits)
  ultimately show ?thesis
    by (simp add: getInfo_def bind_opt_def)
qed

text \<open>
  The throughput of a known station. When at least ten seconds have passed since the counters of
  the station were stored, and there is a byte of slack behind the command array, a measurement
  returns the record with the radio, the share of busy time, the signal, the bit rate and the bytes
  per second in both directions since then; the new counters and the time replace the old ones in
  the table, the other stations keep theirs.
\<close>

theorem throughput_since_last_record:
  assumes "length m = 6" "sta_mac r = colon_mac m @ [nul]" "1 \<le> pad" "station_report sh r i active busy sig rate"
    and "read_counters sh (r\<lparr>mode := i\<rparr>) = Some (x, y)"
    and "ht_lookup n t (station_key r) w = Inr (Some (throughput_fields old @ slack))"
    and "0 \<le> tr_tt old" "tr_tt old \<le> x" "x < 2 ^ 63" "0 \<le> tr_rt old" "tr_rt old \<le> y" "y < 2 ^ 63"
    and "0 \<le> last_time old" "last_time old + 10 \<le> now" "now \<le> 2147483647"
  shows "\<exists>w'. getInfo sh pad e n now junk r t w =
      Inr (Some (r\<lparr>mode := i, au := dbl_div busy active, rssi := sig, br := rate,
                   tt := (x - tr_tt old) div (now - last_time old), rt := (y - tr_rt old) div (now - last_time old)\<rparr>), t, w') \<and>
    (\<forall>k. ht_lookup n t k w' =
       (if k = station_key r then Inr (Some (throughput_fields \<lparr>tr_tt = x, tr_rt = y, last_time = now\<rparr> @ slack))
        else ht_lookup n t k w))"
proof -
  let ?r = "r\<lparr>mode := i, au := dbl_div busy active, rssi := sig, br := rate\<rparr>"
  let ?r0 = "?r\<lparr>rt := 0, tt := 0\<rparr>"
  let ?new = "throughput_fields \<lparr>tr_tt = x, tr_rt = y, last_time = now\<rparr>"
  have mac: "length (c_str (sta_mac r)) = 17" "length (c_str (sta_mac (r\<lparr>mode := i\<rparr>))) = 17"
    using strlen_mac[OF assms(1)] assms(2) by (simp_all add: strlen_def)
  have fit: "\<exists>b. sprintf_buf 100 (counter_cmd dir (r\<lparr>mode := i\<rparr>)) = Inr b" if "length dir = 2" for dir
    using cmds_fit(5)[OF mac(2) that] by (auto simp: sprintf_buf_ok)
  obtain b1 b2 where b: "sprintf_buf 100 (counter_cmd ''tx'' (r\<lparr>mode := i\<rparr>)) = Inr b1"
    "sprintf_buf 100 (counter_cmd ''rx'' (r\<lparr>mode := i\<rparr>)) = Inr b2"
    using fit[of "''tx''"] fit[of "''rx''"] by auto
  have k: "station_key ?r0 = station_key r"
    by (simp add: station_key_def)
  obtain a c where a: "ht_get n t (station_key r) w = Inr (Some a)" "cells w a = Some c"
    "he_value c = Some (throughput_fields old @ slack)"
    using assms(6) by (auto simp: ht_lookup_def bind_res_Inr_iff deref_def split: option.splits)
  have id: "to_int64 (tr_tt old) = tr_tt old" "to_int64 (tr_rt old) = tr_rt old" "to_int32 (last_time old) = last_time old"
    "to_int32 (now - last_time old) = now - last_time old" "to_int64 (x - tr_tt old) = x - tr_tt old"
    "to_int64 (y - tr_rt old) = y - tr_rt old"
    using assms(7-15) by (simp_all add: to_int32_id to_int64_def signed_take_bit_int_eq_self)
  have "known_station sh n now ?r0 a c (throughput_fields old @ slack) t w =
      Inr (Some (?r\<lparr>tt := (x - tr_tt old) div (now - last_time old), rt := (y - tr_rt old) div (now - last_time old)\<rparr>), t,
           store a (c\<lparr>he_value := Some (?new @ slack)\<rparr>) w)"
    using assms(7-15) by (simp add: known_station_def Let_def throughput_at_fields id assms(5) c_div_nonneg mem_write_def)
  then have "getInfo sh pad e n now junk r t w =
      Inr (Some (?r\<lparr>tt := (x - tr_tt old) div (now - last_time old), rt := (y - tr_rt old) div (now - last_time old)\<rparr>), t,
           store a (c\<lparr>he_value := Some (?new @ slack)\<rparr>) w)"
    unfolding getInfo_stages[OF mac(1) assms(3,4)] getInfo_throughput_def Let_def
    using a by (simp add: k b deref_def)
  then show ?thesis
    using lookup_poke[OF a(1,2)] by auto
qed

text \<open>A station with counters of twenty seconds ago.\<close>

definition wit_sta :: Record where
  "wit_sta = wit_record\<lparr>sta_mac := colon_mac [2, 3, 4, 5, 6, 7] @ [nul]\<rparr>"

definition wit_old :: ThroughputRecord where
  "wit_old = \<lparr>tr_tt = 1000, tr_rt = 2000, last_time = 100\<rparr>"

definition wit_sta_table :: hash_table where
  "wit_sta_table = \<lparr>hashfunc_x86_32 = Some (\<lambda>_ _. 0), key_count = 1, array_size = 1, arr = [Some 0], collisions = 0,
     flags = HT_NONE, max_load_factor = 1, current_load_factor = 0\<rparr>"

definition wit_sta_world :: world where
  "wit_sta_world = start_world\<lparr>cells := [0 \<mapsto> \<lparr>he_key = station_key wit_sta, he_value = Some (throughput_fields wit_old @ [0, 0, 0, 0]),
     value_size = 24, he_next = None\<rparr>], next_addr := 1\<rparr>"

definition wit_shell :: shell where
  "wit_shell c =
     (if length c = 50 then Some ''Station''
      else if length c = 52 then Some (''2000'' @ [CHR 0x0A] @ ''500'')
      else if length c = 72 then Some ''-61''
      else if length c = 51 then Some ''54.5''
      else Some '' 5000'')"

lemma wit_mac: "length (c_str (sta_mac wit_sta)) = 17" "length (c_str (sta_mac (wit_sta\<lparr>mode := i\<rparr>))) = 17"
  using strlen_mac[of "[2, 3, 4, 5, 6, 7]"] by (simp_all add: wit_sta_def strlen_def)

lemma wit_cmds:
  "length (mode_cmd wit_sta) = 50" "length (au_cmd (wit_sta\<lparr>mode := i\<rparr>)) = 52" "length (rssi_cmd (wit_sta\<lparr>mode := i\<rparr>)) = 72"
  "length (br_cmd (wit_sta\<lparr>mode := i\<rparr>)) = 51" "length (counter_cmd ''tx'' (wit_sta\<lparr>mode := i\<rparr>)) = 79"
  "length (counter_cmd ''rx'' (wit_sta\<lparr>mode := i\<rparr>)) = 79"
  using wit_mac(1) wit_mac(2)[of i]
  by (simp_all add: mode_cmd_def au_cmd_def rssi_cmd_def br_cmd_def counter_cmd_def quoted_def)

lemma wit_report: "station_report wit_shell wit_sta 0 2000 500 (- 61) (Fin (109 / 2))"
proof -
  have mo: "wit_shell (mode_cmd wit_sta) = Some ''Station''" "first_line ''Station'' \<noteq> None"
    by (simp_all add: wit_shell_def wit_cmds first_line_def fgets_def Let_def)
  have a: "wit_shell (au_cmd (wit_sta\<lparr>mode := 0\<rparr>)) = Some (''2000'' @ [CHR 0x0A] @ ''500'')"
    by (simp add: wit_shell_def wit_cmds)
  have l: "fgets 1024 (''2000'' @ [CHR 0x0A] @ ''500'') = Some (''2000'' @ [CHR 0x0A], ''500'')" "first_line ''500'' = Some ''500''"
    "atoi (c_str (''2000'' @ [CHR 0x0A])) = 2000" "atoi ''500'' = 500" "first_line ''-61'' = Some ''-61''" "atoi ''-61'' = - 61"
    "first_line ''54.5'' = Some ''54.5''" "atof ''54.5'' = Fin (109 / 2)"
    by code_simp+
  have g: "wit_shell (rssi_cmd (wit_sta\<lparr>mode := 0\<rparr>)) = Some ''-61''" "wit_shell (br_cmd (wit_sta\<lparr>mode := 0\<rparr>)) = Some ''54.5''"
    by (simp_all add: wit_shell_def wit_cmds)
  show ?thesis
    unfolding station_report_def using mo a l g by (intro conjI) (auto simp del: append_Cons append_Nil)
qed

lemma wit_counters: "read_counters wit_shell (wit_sta\<lparr>mode := 0\<rparr>) = Some (5000, 5000)"
proof -
  have "wit_shell (counter_cmd ''tx'' (wit_sta\<lparr>mode := 0\<rparr>)) = Some '' 5000''" "wit_shell (counter_cmd ''rx'' (wit_sta\<lparr>mode := 0\<rparr>)) = Some '' 5000''"
    using wit_cmds(5,6)[of 0] by (simp_all add: wit_shell_def)
  moreover have "counter_of '' 5000'' = 5000"
    by code_simp
  ultimately show ?thesis
    by (simp add: read_counters_def)
qed

theorem throughput_since_last_record_witness:
  "\<exists>r w'. getInfo wit_shell 2 wit_ht_env 10 120 [] wit_sta wit_sta_table wit_sta_world = Inr (Some r, wit_sta_table, w') \<and>
     tt r = 200 \<and> rt r = 150 \<and> rssi r = - 61 \<and> au r = Fin (1 / 4)"
proof -
  have m: "length [2, 3, 4, 5, 6, 7 :: u8] = 6" "sta_mac wit_sta = colon_mac [2, 3, 4, 5, 6, 7] @ [nul]" "(1 :: nat) \<le> 2"
    by (simp_all add: wit_sta_def)
  have "ht_lookup 10 wit_sta_table (station_key wit_sta) wit_sta_world = Inr (Some (throughput_fields wit_old @ [0, 0, 0, 0]))"
    by (simp add: ht_lookup_def ht_get_def ht_index_def array_at_def wit_sta_table_def wit_sta_world_def deref_def
        key_compare_iff probe_entry_def numeral_eq_Suc)
  from throughput_since_last_record[OF m wit_report wit_counters this, of 120 wit_ht_env "[]"] show ?thesis
    by (fastforce simp: wit_old_def dbl_div_def)
qed

section \<open>Ageing of the station table\<close>

lemma low_word_counter:
  assumes "0 \<le> tr_tt rec" "tr_tt rec < 2 ^ 31"
  shows "sint (getblock32 (throughput_fields rec @ slack) 0) = tr_tt rec"
proof -
  have "getblock32 (throughput_fields rec @ slack) 0 = ucast (of_int (tr_tt rec) :: u64)"
    by (simp add: throughput_fields_def le64_def getblock32_le32)
  also have "\<dots> = of_int (tr_tt rec)"
    by (simp add: unsigned_of_int word_of_int_eq_iff)
  finally show ?thesis
    using assms by (simp add: sint_of_int32 to_int32_id)
qed

text \<open>The walk over a chain of one over-aged entry.\<close>

lemma insert_replaces_expired:
  assumes rep: "ht_rep w t cs" and fresh: "\<forall>a \<ge> next_addr w. cells w a = None" and mem: "mem_entry e"
    and x: "cs ! ht_idx t w k = [x]" "expired_at (clock e (ticks w)) x" "node_key x \<noteq> k"
    and load: "\<not> needs_resize (set_load t)"
  obtains t' w' where "ht_insert (n + 3) e t k v w = Inr (t', w')" "ht_lookup (m + 1) t' (node_key x) w' = Inr None"
proof -
  let ?i = "ht_idx t w k"
  let ?a = "next_addr w"
  have ne: "cs ! ?i \<noteq> []"
    using x(1) by simp
  have b: "?i < length cs"
    by (rule ht_idx_bound[OF rep])
  obtain en w1 where w1: "cells w1 ?a = Some en" "he_key en = k" "he_next en = None" "ht_rep w1 t cs"
    "ht_insert (Suc (n + 2)) e t k v w =
       bind_res (age_walk (n + 2) (clock e (ticks w)) ?i ?a t w1 None None (arr t ! ?i))
         (\<lambda>(t1, w2, prev, find_ret).
            after_walk (\<lambda>u. resize_with (ht_insert_he (n + 2) e) (n + 2) e u (array_size u * 2)) e ?i ?a t1 w2 prev find_ret)"
    by (rule ht_insert_walk[OF rep fresh mem ne])
  obtain c where c: "arr t ! ?i = Some (node_addr x)" "cells w1 (node_addr x) = Some c" "is_node c x" "he_next c = None"
    using bucket_chain(1)[OF w1(4) b] x(1) by auto
  have a: "node_addr x \<noteq> ?a"
    using w1(2) c(2,3) w1(1) x(3) by (auto simp: is_node_def)
  let ?t1 = "set_array ?i None (t\<lparr>key_count := key_count t - 1\<rparr>)"
  let ?w2 = "w1\<lparr>cells := (cells w1)(node_addr x := None)\<rparr>"
  have walk: "age_walk (n + 2) (clock e (ticks w)) ?i ?a t w1 None None (arr t ! ?i) = Inr (?t1, ?w2, None, None)"
    using c tv_sec_node[OF c(3)] x(2) by (simp add: deref_def expired_at_def he_destroy_def Let_def)
  let ?t2 = "set_load (set_array ?i (Some ?a) (?t1\<lparr>key_count := key_count ?t1 + 1\<rparr>))"
  have l: "?i < length (arr t)" "arr t \<noteq> []"
    using b rep by (auto simp: ht_rep_def)
  have nr: "\<not> needs_resize ?t2"
    using load by (simp add: needs_resize_def set_load_def set_array_def)
  have run: "ht_insert (n + 3) e t k v w = Inr (?t2, ?w2)"
    using w1(5) walk l nr
    by (simp add: after_walk_def append_entry_def array_at_def set_array_def Let_def numeral_eq_Suc)
  have "ht_idx t w1 (node_key x) = ?i"
    using bucket_chain(3)[OF w1(4) b] x(1) by simp
  then have idx: "ht_index ?t2 ?w2 (node_key x) = Inr ?i"
    using ht_index_rep[OF w1(4), of w1 "node_key x"]
    by (cases "hashfunc_x86_32 t") (auto simp: ht_index_def set_load_def set_array_def split: if_splits)
  have "array_at ?t2 ?i = Inr (Some ?a)"
    using l by (simp add: array_at_def set_load_def set_array_def)
  then have "ht_get (m + 1) ?t2 (node_key x) ?w2 = Inr None"
    using a w1(1-3) x(3) by (simp add: ht_get_def idx deref_def key_compare_iff probe_entry_def)
  then have "ht_lookup (m + 1) ?t2 (node_key x) ?w2 = Inr None"
    by (simp add: ht_lookup_def)
  then show ?thesis
    by (rule that[OF run])
qed

text \<open>
  A station just stored can be thrown out at once. The table of the stations ages its entries by
  the first four bytes of the value, and those are the low half of the byte counter, not the time.
  When another station falls into the same chain, a station whose counter is more than 30 below the
  number of seconds since 1970 is forgotten, however recently it was measured.
\<close>

theorem station_aged_by_byte_counter:
  assumes "ht_rep w t cs" "\<forall>a \<ge> next_addr w. cells w a = None" "mem_entry e"
    and "cs ! ht_idx t w (station_key r) = [x]" "node_key x \<noteq> station_key r" "node_val x = throughput_fields rec @ slack"
    and "\<not> needs_resize (set_load t)" "read_counters sh r = Some counters"
    and "0 \<le> tr_tt rec" "tr_tt rec + AGE_TIMEOUT < clock e (ticks w)" "clock e (ticks w) \<le> 2147483647"
  shows "\<exists>t' w'. first_sight sh e n now junk r t w = Inr (None, t', w') \<and> ht_lookup (m + 1) t' (node_key x) w' = Inr None"
proof -
  have "tr_tt rec < 2 ^ 31"
    using assms(10,11) by (simp add: AGE_TIMEOUT_def)
  then have ts: "node_ts x = tr_tt rec"
    using low_word_counter[OF assms(9)] assms(6) by (simp add: node_ts_def)
  have "to_int32 (clock e (ticks w) - tr_tt rec) = clock e (ticks w) - tr_tt rec"
    using assms(9-11) by (intro to_int32_id) (simp_all add: AGE_TIMEOUT_def)
  then have "expired_at (clock e (ticks w)) x"
    using assms(6,10) by (simp add: expired_at_def timed_out_def ts AGE_TIMEOUT_def)
  note x = this
  let ?v = "throughput_fields \<lparr>tr_tt = fst counters, tr_rt = snd counters, last_time = now\<rparr> @ junk"
  obtain t' w' where "ht_insert (n + 3) e t (station_key r) ?v w = Inr (t', w')" "ht_lookup (m + 1) t' (node_key x) w' = Inr None"
    by (rule insert_replaces_expired[OF assms(1-4) x assms(5,7)])
  then show ?thesis
    using assms(8) by (cases counters) (simp add: first_sight_def)
qed

theorem station_aged_by_byte_counter_witness:
  "\<exists>t' w'. first_sight (\<lambda>_. Some ''7'') (wit_ht_env\<lparr>clock := \<lambda>_. 2000\<rparr>) 5 105 [0, 0, 0, 0]
     (wit_sta\<lparr>sta_mac := colon_mac [9, 9, 9, 9, 9, 9] @ [nul]\<rparr>) wit_sta_table wit_sta_world = Inr (None, t', w') \<and>
     ht_lookup 5 wit_sta_table (station_key wit_sta) wit_sta_world = Inr (Some (throughput_fields wit_old @ [0, 0, 0, 0])) \<and>
     ht_lookup 5 t' (station_key wit_sta) w' = Inr None"
proof -
  let ?r = "wit_sta\<lparr>sta_mac := colon_mac [9, 9, 9, 9, 9, 9] @ [nul]\<rparr>"
  let ?x = "Node 0 (station_key wit_sta) (throughput_fields wit_old @ [0, 0, 0, 0])"
  let ?e = "wit_ht_env\<lparr>clock := \<lambda>_. 2000\<rparr>"
  have rep: "ht_rep wit_sta_world wit_sta_table [[?x]]"
    by (simp add: ht_rep_def wit_sta_world_def wit_sta_table_def is_node_def ht_idx_def)
  have fresh: "\<forall>a \<ge> next_addr wit_sta_world. cells wit_sta_world a = None"
    by (simp add: wit_sta_world_def start_world_def)
  have b: "[[?x]] ! ht_idx wit_sta_table wit_sta_world (station_key ?r) = [?x]"
    by (simp add: ht_idx_def wit_sta_table_def)
  have "colon_mac [9, 9, 9, 9, 9, 9] \<noteq> colon_mac [2, 3, 4, 5, 6, 7]"
    by code_simp
  then have k: "node_key ?x \<noteq> station_key ?r"
    by (simp add: station_key_def string_bytes_inj wit_sta_def)
  have load: "\<not> needs_resize (set_load wit_sta_table)"
    by (simp add: needs_resize_def set_load_def wit_sta_table_def)
  have "counter_of ''7'' = 7"
    by code_simp
  then have c: "read_counters (\<lambda>_. Some ''7'') ?r = Some (7, 7)"
    by (simp add: read_counters_def)
  have t: "0 \<le> tr_tt wit_old" "tr_tt wit_old + AGE_TIMEOUT < clock ?e (ticks wit_sta_world)" "clock ?e (ticks wit_sta_world) \<le> 2147483647"
    "mem_entry ?e"
    by (simp_all add: wit_old_def AGE_TIMEOUT_def wit_ht_env_def)
  have v: "node_val ?x = throughput_fields wit_old @ [0, 0, 0, 0]"
    by simp
  obtain t' w' where "first_sight (\<lambda>_. Some ''7'') ?e 5 105 [0, 0, 0, 0] ?r wit_sta_table wit_sta_world = Inr (None, t', w')"
    "ht_lookup (4 + 1) t' (node_key ?x) w' = Inr None"
    using station_aged_by_byte_counter[OF rep fresh t(4) b k v load c t(1-3), of 5 105 "[0, 0, 0, 0]" 4] by (elim exE conjE)
  moreover have "ht_lookup 5 wit_sta_table (station_key wit_sta) wit_sta_world = Inr (Some (throughput_fields wit_old @ [0, 0, 0, 0]))"
    by (simp add: ht_lookup_def ht_get_def ht_index_def array_at_def wit_sta_table_def wit_sta_world_def deref_def
        key_compare_iff probe_entry_def numeral_eq_Suc)
  ultimately show ?thesis
    by auto
qed

end
