(* ===== verification/CollectorThreads.thy ===== *)
theory CollectorThreads
  imports CollectorProps "HOL-Library.Sublist"
begin

text \<open>
  The three threads of the collector client in any interleaving: the capture callback, the
  measuring thread with its mutex, and the sending thread. The logs record which records were put
  into the send queue and which were taken out.
\<close>

section \<open>Steps\<close>

record history =
  state :: collector
  queued :: "Record list"
  taken :: "Record list"

inductive col_step :: "history \<Rightarrow> history \<Rightarrow> bool" where
  capture: "captureOne e ts p (state h) = Inr s \<Longrightarrow> col_step h (h\<lparr>state := s\<rparr>)"
| lock: "args_phase (state h) = Waiting \<Longrightarrow> getArgs_lock (state h) = Done s \<Longrightarrow> col_step h (h\<lparr>state := s\<rparr>)"
| measure: "args_phase (state h) = Measuring \<Longrightarrow> getArgs_measure ae (state h) = Inr s \<Longrightarrow> col_step h (h\<lparr>state := s\<rparr>)"
| put: "args_phase (state h) = Queueing \<Longrightarrow> cur_task (state h) = Some r \<Longrightarrow> getArgs_put (state h) = Inr (Done s) \<Longrightarrow>
    col_step h (h\<lparr>state := s, queued := queued h @ [r]\<rparr>)"
| send: "q_list (sendQueue (state h)) = Some r # rest \<Longrightarrow> sendData_round ok (state h) = Inr (Done s) \<Longrightarrow>
    col_step h (h\<lparr>state := s, taken := taken h @ [r]\<rparr>)"

inductive col_reach :: "main_env \<Rightarrow> string list \<Rightarrow> history \<Rightarrow> bool" for e argv where
  start: "collector_main e argv = Inr s \<Longrightarrow> col_reach e argv \<lparr>state = s, queued = [], taken = []\<rparr>"
| step: "col_reach e argv h \<Longrightarrow> col_step h h' \<Longrightarrow> col_reach e argv h'"

section \<open>Invariant\<close>

definition pending :: "collector \<Rightarrow> nat" where
  "pending s = (case cur_task s of None \<Rightarrow> 0 | Some _ \<Rightarrow> 1)"

definition accounts :: "collector \<Rightarrow> bool" where
  "accounts s \<longleftrightarrow>
     created s = freed s + overwritten s + pending s + length (q_list (sendQueue s)) + length (delivered s)"

definition col_inv :: "history \<Rightarrow> bool" where
  "col_inv h \<longleftrightarrow>
     q_open (sendQueue (state h)) \<and> accounts (state h) \<and>
     (args_phase (state h) \<noteq> Waiting \<longrightarrow> cur_task (state h) \<noteq> None) \<and>
     map Some (queued h) = map Some (taken h) @ q_list (sendQueue (state h)) \<and>
     subseq (delivered (state h)) (taken h)"

lemma col_invD:
  assumes "col_inv h"
  shows "q_open (sendQueue (state h))" "accounts (state h)" "args_phase (state h) \<noteq> Waiting \<Longrightarrow> cur_task (state h) \<noteq> None"
    "map Some (queued h) = map Some (taken h) @ q_list (sendQueue (state h))" "subseq (delivered (state h)) (taken h)"
  using assms by (simp_all add: col_inv_def)

text \<open>The capture touches neither the queue nor what was delivered.\<close>

lemma hand_over_inv:
  assumes "accounts s" "args_phase s \<noteq> Waiting \<longrightarrow> cur_task s \<noteq> None"
  shows "accounts (hand_over r s)" "args_phase (hand_over r s) \<noteq> Waiting \<longrightarrow> cur_task (hand_over r s) \<noteq> None"
    "sendQueue (hand_over r s) = sendQueue s" "delivered (hand_over r s) = delivered s"
  using assms by (auto simp: hand_over_def accounts_def pending_def split: option.splits)

lemma captureOne_cases:
  assumes "captureOne e ts p s = Inr s'"
  obtains "s' = s"
  | t w where "s' = s\<lparr>sessionTable := t, session_heap := w\<rparr>"
  | r t w where "s' = hand_over r (s\<lparr>sessionTable := t, session_heap := w\<rparr>)"
  using assms unfolding captureOne_def by (auto simp: bind_res_Inr_iff split: if_splits prod.splits)

lemma capture_inv:
  assumes "col_inv h" "captureOne e ts p (state h) = Inr s"
  shows "col_inv (h\<lparr>state := s\<rparr>)"
proof (rule captureOne_cases[OF assms(2)])
  assume "s = state h"
  then show ?thesis
    using assms(1) by simp
next
  fix t w
  assume "s = (state h)\<lparr>sessionTable := t, session_heap := w\<rparr>"
  then show ?thesis
    using assms(1) by (simp add: col_inv_def accounts_def pending_def)
next
  fix r t w
  assume s: "s = hand_over r ((state h)\<lparr>sessionTable := t, session_heap := w\<rparr>)"
  let ?s = "(state h)\<lparr>sessionTable := t, session_heap := w\<rparr>"
  have "accounts ?s" "args_phase ?s \<noteq> Waiting \<longrightarrow> cur_task ?s \<noteq> None"
    using assms(1) by (simp_all add: col_inv_def accounts_def pending_def)
  from hand_over_inv[OF this, of r] show ?thesis
    using assms(1) by (simp add: col_inv_def s)
qed

lemma measure_inv:
  assumes "col_inv h" "args_phase (state h) = Measuring" "getArgs_measure ae (state h) = Inr s"
  shows "col_inv (h\<lparr>state := s\<rparr>)"
  using assms unfolding getArgs_measure_def
  by (auto simp: col_inv_def accounts_def pending_def bind_res_Inr_iff Let_def split: option.splits)

lemma put_inv:
  assumes "col_inv h" "cur_task (state h) = Some r" "getArgs_put (state h) = Inr (Done s)"
  shows "col_inv (h\<lparr>state := s, queued := queued h @ [r]\<rparr>)"
proof -
  let ?q = "sendQueue (state h)"
  have "length (q_list ?q) \<noteq> unat (capacity ?q)"
    using assms(2,3) dsq.put_full[OF col_invD(1)[OF assms(1)]] by (auto simp: getArgs_put_def)
  then have "length (q_list ?q) < unat (capacity ?q)"
    using dsq.bounded[OF col_invD(1)[OF assms(1)]] by simp
  from dsq.put_room[OF col_invD(1)[OF assms(1)] this, of "Some r"]
  obtain q' where "ds_queue_put ?q (Some r) = Inr (Done q')" "q_open q'" "q_list q' = q_list ?q @ [Some r]"
    by auto
  then show ?thesis
    using assms by (auto simp: getArgs_put_def col_inv_def accounts_def pending_def simp del: length_q_list)
qed

lemma send_inv:
  assumes "col_inv h" "q_list (sendQueue (state h)) = Some r # rest" "sendData_round ok (state h) = Inr (Done s)"
  shows "col_inv (h\<lparr>state := s, taken := taken h @ [r]\<rparr>)"
proof -
  obtain q' where "ds_queue_get (sendQueue (state h)) = Inr (Done (Some r, q'))" "q_open q'" "q_list q' = rest"
    using dsq.get_first[OF col_invD(1)[OF assms(1)] assms(2)] by auto
  then show ?thesis
    using assms
    by (auto simp: sendData_round_def sendRecord_def col_inv_def accounts_def pending_def Let_def intro: list_emb_append_mono
        simp del: length_q_list split: if_splits option.splits)
qed

lemma col_step_inv: "col_step h h' \<Longrightarrow> col_inv h \<Longrightarrow> col_inv h'"
proof (induction rule: col_step.induct)
  case (lock h s)
  then show ?case
    by (auto simp: getArgs_lock_def col_inv_def accounts_def pending_def split: if_splits)
qed (simp_all add: capture_inv measure_inv put_inv send_inv)

lemma main_inv:
  assumes "collector_main e argv = Inr s"
  shows "col_inv \<lparr>state = s, queued = [], taken = []\<rparr>"
proof -
  have "0 < (65535 :: u32)" "unat (65535 :: u32) < 2 ^ 30"
    by simp_all
  then obtain q where q: "ds_queue_create True True (me_fresh e) 65535 = Inr q" "q_inv q" "q_list q = []" "\<not> qclosed q"
    by (rule ds_queue_create_spec)
  have "sendQueue s = q \<and> cur_task s = None \<and> args_phase s = Waiting \<and> delivered s = [] \<and> created s = 0 \<and> freed s = 0 \<and> overwritten s = 0"
    using assms q(1) unfolding collector_main_def
    by (cases "me_mem e"; cases "me_sync e") (auto simp: bind_res_Inr_iff ds_queue_create_def split: if_splits)
  then show ?thesis
    using q by (simp add: col_inv_def accounts_def pending_def q_open_def)
qed

lemma col_reach_inv: "col_reach e argv h \<Longrightarrow> col_inv h"
  by (induction rule: col_reach.induct) (auto intro: main_inv col_step_inv)

text \<open>
  C23: no record is lost track of. However the capture, the measuring thread and the sending thread
  interleave, every record ever made was freed, or was overwritten while it waited to be measured,
  or still waits, or is in the send queue, or was delivered; records are delivered in the order in
  which they were queued, none twice; and neither end of the queue ever fails.
\<close>

theorem collector_accounts_for_records:
  assumes "col_reach e argv h"
  shows "created (state h) = freed (state h) + overwritten (state h) + pending (state h) +
      length (q_list (sendQueue (state h))) + length (delivered (state h)) \<and>
    subseq (delivered (state h)) (queued h) \<and>
    is_ok (sendData_round ok (state h)) \<and> is_ok (getArgs_put (state h))"
proof -
  note inv = col_invD[OF col_reach_inv[OF assms]]
  let ?q = "sendQueue (state h)"
  have "queued h = taken h @ map the (q_list ?q)"
    using arg_cong[OF inv(4), of "map the"] by (simp add: comp_def)
  then have "subseq (delivered (state h)) (queued h)"
    using inv(5) by (simp add: list_emb_append_mono subseq_rev_drop_many)
  moreover have "is_ok (sendData_round ok (state h))"
  proof (cases "q_list ?q")
    case Nil
    then show ?thesis
      using dsq.get_empty[OF inv(1)] by (simp add: sendData_round_def)
  next
    case (Cons x xs)
    have "x \<in> Some ` set (queued h)"
      using inv(4) Cons by (metis in_set_conv_decomp list.set_map)
    then obtain r where "x = Some r"
      by auto
    then show ?thesis
      using dsq.get_first[OF inv(1) Cons] by (auto simp: sendData_round_def Let_def)
  qed
  moreover have "is_ok (getArgs_put (state h))"
  proof (cases "length (q_list ?q) = unat (capacity ?q)")
    case True
    then show ?thesis
      using dsq.put_full[OF inv(1)] by (simp add: getArgs_put_def)
  next
    case False
    then have "length (q_list ?q) < unat (capacity ?q)"
      using dsq.bounded[OF inv(1)] by simp
    from dsq.put_room[OF inv(1) this, of "cur_task (state h)"] show ?thesis
      by (auto simp: getArgs_put_def)
  qed
  ultimately show ?thesis
    using inv(2) by (simp add: accounts_def)
qed

definition wit_main_env :: main_env where
  "wit_main_env = \<lparr>me_tables = wit_ht_env, me_world = start_world, me_sock = True, me_conn = \<lambda>_. True, me_hwaddr = \<lambda>_. None,
     me_pcap = \<lambda>_. True, me_mem = True, me_sync = True, me_fresh = \<lambda>_. None\<rparr>"

lemma wit_main:
  obtains t q where "collector_main wit_main_env [''br0'', ''10.0.0.1''] = Inr ((wit_collector t t)\<lparr>sendQueue := q\<rparr>)"
    "ht_good 10 wit_ht_env (t, start_world)" "ht_room 10 (t, start_world)"
proof -
  obtain t where t: "ht_init wit_ht_env HT_NONE (1 / 20) = Inr t" "ht_good 10 wit_ht_env (t, start_world)"
    "ht_room 10 (t, start_world)"
    by (rule wit_tables)
  have "0 < (65535 :: u32)" "unat (65535 :: u32) < 2 ^ 30"
    by simp_all
  then obtain q :: "Record dsqueue" where q: "ds_queue_create True True (\<lambda>_. None) 65535 = Inr q"
    by (rule ds_queue_create_spec)
  show ?thesis
    by (rule that[OF _ t(2,3), of q])
      (simp add: collector_main_def wit_main_env_def strcpy_buf_def getMac_def t(1) q initNetwork_def wit_collector_def)
qed

theorem collector_accounts_for_records_witness:
  "\<exists>h. col_reach wit_main_env [''br0'', ''10.0.0.1''] h \<and> created (state h) = 1 \<and> pending (state h) = 1 \<and>
     freed (state h) + overwritten (state h) + length (q_list (sendQueue (state h))) + length (delivered (state h)) = 0"
proof -
  obtain t q where t: "collector_main wit_main_env [''br0'', ''10.0.0.1''] = Inr ((wit_collector t t)\<lparr>sendQueue := q\<rparr>)"
    "ht_good 10 wit_ht_env (t, start_world)" "ht_room 10 (t, start_world)"
    by (rule wit_main)
  let ?s = "(wit_collector t t)\<lparr>sendQueue := q\<rparr>"
  obtain s1 s2 where s: "captureOne wit_capture_env (990, 900000) wit_synack ?s = Inr s1"
    "captureOne wit_capture_env (991, 100000) wit_ack s1 = Inr s2" "created s2 = 1" "cur_task s2 \<noteq> None"
    using wit_handshake[of ?s] t(2,3) by (auto simp: wit_collector_def)
  let ?h = "\<lparr>state = s2, queued = [], taken = []\<rparr>"
  have 1: "col_step \<lparr>state = ?s, queued = [], taken = []\<rparr> \<lparr>state = s1, queued = [], taken = []\<rparr>"
    using col_step.capture[of wit_capture_env "(990, 900000)" wit_synack "\<lparr>state = ?s, queued = [], taken = []\<rparr>" s1] s(1) by simp
  have 2: "col_step \<lparr>state = s1, queued = [], taken = []\<rparr> ?h"
    using col_step.capture[of wit_capture_env "(991, 100000)" wit_ack "\<lparr>state = s1, queued = [], taken = []\<rparr>" s2] s(2) by simp
  have "col_reach wit_main_env [''br0'', ''10.0.0.1''] ?h"
    by (rule col_reach.step[OF col_reach.step[OF col_reach.start[OF t(1)] 1] 2])
  note reach = this
  have p: "pending s2 = 1"
    using s(4) by (auto simp: pending_def)
  have "created (state ?h) = freed (state ?h) + overwritten (state ?h) + pending (state ?h) +
      length (q_list (sendQueue (state ?h))) + length (delivered (state ?h))"
    using collector_accounts_for_records[OF reach, of True] by (elim conjE)
  then have "freed s2 + overwritten s2 + length (q_list (sendQueue s2)) + length (delivered s2) = 0"
    unfolding history.simps s(3) p by linarith
  then show ?thesis
    using reach s(3) p by (intro exI[of _ ?h]) (simp only: history.simps simp_thms)
qed

end
