(* ===== verification/FniiTypes.thy ===== *)
theory FniiTypes
  imports CString
begin

text \<open>
  The data of \<^verbatim>\<open>fnii_roam.h\<close>, the interface between hostapd and the controller: the
  commands and reports, the heartbeat, the summary of the interface, and the global state of
  \<^verbatim>\<open>fnii_roam.c\<close>. What goes out on the TCP connection is recorded in \<open>net\<close>, in order.
\<close>

datatype fnii_ret = FNII_RET_OK | FNII_RET_ERR

definition DEL_IF :: int where
  "DEL_IF = 1"

definition NEW_IF :: int where
  "NEW_IF = 2"

definition UPDATE_IF :: int where
  "UPDATE_IF = 3"

definition TYPE_MAX :: int where
  "TYPE_MAX = 4"

record cmd_msg =
  cmd_type :: int
  bssid :: mac
  stamac :: mac

record station_flow =
  flow_mac :: mac
  rx_byte :: int
  tx_byte :: int

text \<open>
  The report of a station that comes or goes (\<^verbatim>\<open>update_station__s\<close>); \<open>us_ssid\<close> is what its
  32-byte array holds before the terminating zero.
\<close>

record update_station =
  us_ap_mac :: mac
  us_sta_mac :: mac
  us_ssid :: string

record mac_rrpair =
  vif_mac :: mac
  sta_mac :: mac

record interface_info =
  ii_vif_mac :: mac
  ii_channel :: int
  ii_ssid :: string

record probe_info =
  pi_rssi :: int
  pi_station_mac :: mac
  pi_channel :: int

record beat_info =
  beat_live :: bool
  beat_cseq :: int

text \<open>The array \<^verbatim>\<open>ssid[SSID_MAX]\<close> holds pointers, NULL before the first report.\<close>

record interface_all_info =
  ia_vap_num :: int
  ia_ssid_num :: int
  ia_channel :: int
  ia_ssid :: "string option list"

definition SSID_MAX :: nat where
  "SSID_MAX = 8"

definition STAION_MAX :: nat where
  "STAION_MAX = 32"

definition SSID_LEN :: nat where
  "SSID_LEN = 32"

text \<open>The stations the controller has assigned to this access point, as (station, AP) pairs.\<close>

record dense_station_hash =
  station :: "(mac \<times> mac) list list"
  station_used :: int

datatype net_event =
    NSend string
  | NShutdown
  | NClose

record fnii =
  socket_enabled :: bool
  master_socket :: int
  master_host :: string
  master_port :: int
  msg_idf :: int
  probe_mac :: mac
  probe_count :: int
  beat :: beat_info
  if_all :: interface_all_info
  dense :: dense_station_hash
  net :: "net_event list"

definition fnii_check_socket_status :: "fnii \<Rightarrow> bool" where
  "fnii_check_socket_status f = socket_enabled f"

definition fnii_set_socket_status :: "bool \<Rightarrow> fnii \<Rightarrow> fnii" where
  "fnii_set_socket_status b f = f\<lparr>socket_enabled := b\<rparr>"

definition net_emit :: "net_event \<Rightarrow> fnii \<Rightarrow> fnii" where
  "net_emit e f = f\<lparr>net := net f @ [e]\<rparr>"

text \<open>The sequence with which every failing path gives the connection up.\<close>

definition drop_connection :: "fnii \<Rightarrow> fnii" where
  "drop_connection f = net_emit NClose (net_emit NShutdown (fnii_set_socket_status False f))"

text \<open>A locally administered address, \<^verbatim>\<open>IS_LOCAL_MAC\<close>.\<close>

definition is_local_mac :: "mac \<Rightarrow> bool" where
  "is_local_mac m \<longleftrightarrow> bit (m ! 0) 1"

definition mac_text :: "mac \<Rightarrow> string" where
  "mac_text m = concat (map (\<lambda>b. fmt_x 2 (unat b)) (take 6 m))"

lemma net_emit_simps [simp]:
  "net (net_emit e f) = net f @ [e]"
  "socket_enabled (net_emit e f) = socket_enabled f"
  "msg_idf (net_emit e f) = msg_idf f"
  "dense (net_emit e f) = dense f"
  "beat (net_emit e f) = beat f"
  "if_all (net_emit e f) = if_all f"
  by (simp_all add: net_emit_def)

lemma drop_connection_simps [simp]:
  "net (drop_connection f) = net f @ [NShutdown, NClose]"
  "\<not> socket_enabled (drop_connection f)"
  "msg_idf (drop_connection f) = msg_idf f"
  "dense (drop_connection f) = dense f"
  "beat (drop_connection f) = beat f"
  by (simp_all add: drop_connection_def fnii_set_socket_status_def)

lemma length_concat_fmt_x2: "length (concat (map (\<lambda>b. fmt_x 2 (unat (b :: u8))) xs)) = 2 * length xs"
  by (induction xs) auto

lemma length_mac_text [buf_simps]: "length m = 6 \<Longrightarrow> length (mac_text m) = 12"
  by (simp add: mac_text_def length_concat_fmt_x2)

lemma mac_text_no_nul: "nul \<notin> set (mac_text m)"
  using fmt_x_no_nul by (auto simp: mac_text_def)

end
