(* ===== verification/FniiMsg.thy ===== *)
theory FniiMsg
  imports FniiTypes
begin

text \<open>
  The messages to the controller (\<^verbatim>\<open>fnii_roam.c\<close>, \<^verbatim>\<open>fnii_send_msg\<close> and the
  \<^verbatim>\<open>fnii_send_msg_*\<close> functions). Each sender prints into a local array of fixed size; a text
  that does not fit is \<open>BufferOverflow\<close>. Whether \<^verbatim>\<open>send\<close> succeeds is the argument \<open>ok\<close>, and
  \<open>get_au\<close> stands for \<^verbatim>\<open>get_ap_au\<close> of \<^verbatim>\<open>ap_survey.c\<close>. The specification is \<open>frame\<close>: a
  message is a four-digit identifier, a three-digit type, the three-digit length of the payload,
  the payload, and a semicolon.
\<close>

section \<open>Senders\<close>

definition FNII_IDF :: "fnii \<Rightarrow> int" where
  "FNII_IDF f = c_mod (msg_idf f) 9999"

definition net_send :: "bool \<Rightarrow> nat \<Rightarrow> string \<Rightarrow> fnii \<Rightarrow> (fnii_ret \<times> fnii) res" where
  "net_send ok n b f =
     (if n > length b then Inl OutOfBounds
      else if ok then Inr (FNII_RET_OK, net_emit (NSend (take n b)) f)
      else Inr (FNII_RET_ERR, f))"

definition fnii_send_msg_ok :: "bool \<Rightarrow> string \<Rightarrow> fnii \<Rightarrow> (fnii_ret \<times> fnii) res" where
  "fnii_send_msg_ok ok idf f =
     (if length idf < 4 then Inl OutOfBounds
      else bind_res (sprintf_buf 10 ''100002OK;'') (\<lambda>t. net_send ok 13 (take 4 idf @ t) f))"

definition fnii_send_msg_err :: "bool \<Rightarrow> string \<Rightarrow> fnii \<Rightarrow> (fnii_ret \<times> fnii) res" where
  "fnii_send_msg_err ok idf f =
     (if length idf < 4 then Inl OutOfBounds
      else bind_res (sprintf_buf 11 ''101003ERR;'') (\<lambda>t. net_send ok 14 (take 4 idf @ t) f))"

definition fnii_send_msg_flow_info :: "bool \<Rightarrow> station_flow \<Rightarrow> fnii \<Rightarrow> (fnii_ret \<times> fnii) res" where
  "fnii_send_msg_flow_info ok fl f =
     bind_res (sprintf_buf 62 (fmt_d 4 (FNII_IDF f) @ ''10605012'' @ mac_text (flow_mac fl) @ ''16'' @
                 fmt_d 16 (tx_byte fl) @ ''16'' @ fmt_d 16 (rx_byte fl) @ '';''))
       (\<lambda>b. net_send ok 61 b f)"

text \<open>
  The reports of leaving and joining stations differ in their type only. Both send the whole
  array but its last byte, whatever the length of the text.
\<close>

definition station_text :: "string \<Rightarrow> fnii \<Rightarrow> nat \<Rightarrow> update_station \<Rightarrow> string" where
  "station_text ty f ssid_len u =
     fmt_d 4 (FNII_IDF f) @ ty @ fmt_d 3 (30 + int ssid_len) @ ''12'' @ mac_text (us_sta_mac u) @
     ''12'' @ mac_text (us_ap_mac u) @ fmt_d 2 (int ssid_len) @ c_str (us_ssid u) @ '';''"

definition fnii_send_msg_del_sta :: "bool \<Rightarrow> update_station \<Rightarrow> fnii \<Rightarrow> (fnii_ret \<times> fnii) res" where
  "fnii_send_msg_del_sta ok u f =
     (let ssid_len = strlen (us_ssid u) mod 256
      in if ssid_len > SSID_LEN - 1 then Inr (FNII_RET_ERR, f)
         else bind_res (sprintf_buf 82 (station_text ''105'' f ssid_len u)) (\<lambda>b. net_send ok 81 b f))"

definition fnii_send_msg_new_sta :: "bool \<Rightarrow> update_station \<Rightarrow> fnii \<Rightarrow> (fnii_ret \<times> fnii) res" where
  "fnii_send_msg_new_sta ok u f =
     (let ssid_len = strlen (us_ssid u) mod 256
      in if ssid_len > SSID_LEN - 1 then Inr (FNII_RET_ERR, f)
         else bind_res (sprintf_buf 82 (station_text ''104'' f ssid_len u)) (\<lambda>b. net_send ok 81 b f))"

text \<open>\<^verbatim>\<open>sprintf(msg + os_strlen(msg), \<dots>)\<close> into an array of \<open>cap\<close> bytes.\<close>

definition sprintf_at :: "nat \<Rightarrow> string \<Rightarrow> string \<Rightarrow> string res" where
  "sprintf_at cap msg s = (if length msg + length s + 1 \<le> cap then Inr (msg @ s) else Inl BufferOverflow)"

primrec append_ssids :: "nat \<Rightarrow> nat \<Rightarrow> string option list \<Rightarrow> string \<Rightarrow> string res" where
  "append_ssids 0 i ss msg = Inr msg"
| "append_ssids (Suc n) i ss msg =
     (if i \<ge> length ss then Inl OutOfBounds
      else case ss ! i of
             None \<Rightarrow> Inl NullDeref
           | Some s \<Rightarrow>
               bind_res (sprintf_at 360 msg (fmt_d 2 (int (strlen s)) @ c_str s))
                 (\<lambda>msg'. append_ssids n (Suc i) ss msg'))"

definition work_mode :: "int \<Rightarrow> int" where
  "work_mode channel = (if channel \<ge> 36 then 1 else 0)"

definition fnii_send_msg_inerface_all :: "bool \<Rightarrow> interface_all_info \<Rightarrow> fnii \<Rightarrow> (fnii_ret \<times> fnii) res" where
  "fnii_send_msg_inerface_all ok a f =
     bind_res (sprintf_at 360 [] (fmt_d 4 (FNII_IDF f) @ ''11100002'' @ fmt_d 2 (ia_vap_num a) @ ''03'' @
                 fmt_d 3 (ia_channel a) @ ''01'' @ fmt_d 0 (work_mode (ia_channel a))))
       (\<lambda>msg0. bind_res (append_ssids (nat (ia_ssid_num a)) 0 (ia_ssid a) msg0)
         (\<lambda>msg1. bind_res (sprintf_buf 4 (fmt_d 3 (int (length msg1) - 10)))
           (\<lambda>len_tmp. bind_res (sprintf_at 360 (mem_write 7 (take 3 len_tmp) msg1) '';'')
             (\<lambda>msg2. net_send ok (length msg2) msg2 f))))"

definition fnii_send_msg_if_info :: "bool \<Rightarrow> interface_info \<Rightarrow> fnii \<Rightarrow> (fnii_ret \<times> fnii) res" where
  "fnii_send_msg_if_info ok v f =
     (let channel = ii_channel v; ssid_len = to_schar (int (strlen (ii_ssid v)))
      in bind_res (sprintf_buf 64 (fmt_d 4 (FNII_IDF f) @ ''108'' @ fmt_d 3 (ssid_len + 23) @ ''12'' @
                     mac_text (ii_vif_mac v) @ ''02'' @ fmt_d 2 channel @ fmt_d 2 ssid_len @
                     c_str (ii_ssid v) @ ''01'' @ fmt_d 0 (work_mode channel) @ '';''))
           (\<lambda>b. net_send ok (strlen b) b f))"

text \<open>
  A probe of the station seen last is counted and not reported, up to twenty times in a row.
  The channel number is computed from the frequency in MHz.
\<close>

definition probe_filter :: "mac \<Rightarrow> fnii \<Rightarrow> bool" where
  "probe_filter m f \<longleftrightarrow> probe_mac f = m \<and> probe_count f < 20"

definition freq_to_channel :: "int \<Rightarrow> int" where
  "freq_to_channel freq =
     (if freq \<ge> 5180 then c_div (freq - 5180) 5 + 36 else c_div (freq - 2407) 5)"

definition probe_text :: "fnii \<Rightarrow> probe_info \<Rightarrow> int \<Rightarrow> int \<Rightarrow> string" where
  "probe_text f p au channel =
     fmt_d 4 (FNII_IDF f) @ ''10703212'' @ mac_text (pi_station_mac p) @ ''03'' @ fmt_d 3 (pi_rssi p) @
     ''03'' @ fmt_d 3 au @ ''03'' @ fmt_d 3 channel @ ''01'' @ fmt_d 0 (work_mode channel) @ '';''"

definition fnii_send_msg_probe_info ::
  "bool \<Rightarrow> (int \<Rightarrow> int res) \<Rightarrow> probe_info \<Rightarrow> fnii \<Rightarrow> (fnii_ret \<times> fnii) res" where
  "fnii_send_msg_probe_info ok get_au p f =
     (if probe_filter (pi_station_mac p) f
      then Inr (FNII_RET_OK, f\<lparr>probe_count := probe_count f + 1\<rparr>)
      else let f1 = f\<lparr>probe_mac := pi_station_mac p, probe_count := 1\<rparr>;
               channel = freq_to_channel (pi_channel p)
           in if channel > 200 \<or> channel < 0 then Inr (FNII_RET_OK, f1)
              else bind_res (get_au (work_mode channel)) (\<lambda>au.
                     bind_res (sprintf_buf 44 (probe_text f1 p au channel)) (\<lambda>b. net_send ok 43 b f1)))"

definition fnii_send_msg_local_mac :: "bool \<Rightarrow> string \<Rightarrow> fnii \<Rightarrow> (fnii_ret \<times> fnii) res" where
  "fnii_send_msg_local_mac ok m f =
     bind_res (sprintf_buf 26 (fmt_d 4 (FNII_IDF f) @ ''10901412'' @ c_str m @ '';''))
       (\<lambda>b. net_send ok 25 b f)"

definition fnii_send_msg_update_station :: "bool \<Rightarrow> mac_rrpair \<Rightarrow> fnii \<Rightarrow> (fnii_ret \<times> fnii) res" where
  "fnii_send_msg_update_station ok p f =
     bind_res (sprintf_buf 40 (fmt_d 4 (FNII_IDF f) @ ''11602812'' @ mac_text (vif_mac p) @ ''12'' @
                 mac_text (sta_mac p) @ '';''))
       (\<lambda>b. net_send ok 39 b f)"

definition fnii_send_msg_beat :: "bool \<Rightarrow> fnii \<Rightarrow> (fnii_ret \<times> fnii) res" where
  "fnii_send_msg_beat ok f =
     bind_res (sprintf_buf 12 (fmt_d 4 (c_mod (beat_cseq (beat f)) 9999) @ ''110000;''))
       (\<lambda>b. net_send ok 11 b (f\<lparr>beat := (beat f)\<lparr>beat_live := False\<rparr>\<rparr>))"

section \<open>Dispatch\<close>

text \<open>
  A message is its type with the data its sender reads; \<open>MsgNull\<close> is a NULL pointer, \<open>MsgOther\<close> a
  type without a sender. The heartbeat is sent from the global \<^verbatim>\<open>fnii_beat_info\<close>.
\<close>

datatype fnii_msg =
    MsgOk string
  | MsgErr string
  | MsgNewSta update_station
  | MsgDelSta update_station
  | MsgFlow station_flow
  | MsgProbe probe_info
  | MsgInterface interface_info
  | MsgLocalMac string
  | MsgBeat
  | MsgInterfaceNum interface_all_info
  | MsgUpdateStation mac_rrpair
  | MsgNull int
  | MsgOther int

fun msg_type :: "fnii_msg \<Rightarrow> int" where
  "msg_type (MsgOk _) = 100"
| "msg_type (MsgErr _) = 101"
| "msg_type (MsgNewSta _) = 104"
| "msg_type (MsgDelSta _) = 105"
| "msg_type (MsgFlow _) = 106"
| "msg_type (MsgProbe _) = 107"
| "msg_type (MsgInterface _) = 108"
| "msg_type (MsgLocalMac _) = 109"
| "msg_type MsgBeat = 110"
| "msg_type (MsgInterfaceNum _) = 111"
| "msg_type (MsgUpdateStation _) = 116"
| "msg_type (MsgNull t) = t"
| "msg_type (MsgOther t) = t"

fun is_null :: "fnii_msg \<Rightarrow> bool" where
  "is_null (MsgNull _) = True"
| "is_null _ = False"

definition next_idf :: "fnii \<Rightarrow> fnii" where
  "next_idf f = f\<lparr>msg_idf := (if msg_idf f + 1 > 9999 then 0 else msg_idf f + 1)\<rparr>"

fun send_dispatch :: "bool \<Rightarrow> (int \<Rightarrow> int res) \<Rightarrow> fnii_msg \<Rightarrow> fnii \<Rightarrow> (fnii_ret \<times> fnii) res" where
  "send_dispatch ok au (MsgOk i) f = fnii_send_msg_ok ok i f"
| "send_dispatch ok au (MsgErr i) f = fnii_send_msg_err ok i f"
| "send_dispatch ok au (MsgFlow x) f = fnii_send_msg_flow_info ok x f"
| "send_dispatch ok au (MsgDelSta x) f = fnii_send_msg_del_sta ok x f"
| "send_dispatch ok au (MsgInterfaceNum x) f = fnii_send_msg_inerface_all ok x f"
| "send_dispatch ok au (MsgInterface x) f = fnii_send_msg_if_info ok x f"
| "send_dispatch ok au (MsgNewSta x) f = fnii_send_msg_new_sta ok x f"
| "send_dispatch ok au (MsgProbe x) f = fnii_send_msg_probe_info ok au x f"
| "send_dispatch ok au (MsgLocalMac x) f = fnii_send_msg_local_mac ok x f"
| "send_dispatch ok au MsgBeat f =
     fnii_send_msg_beat ok (f\<lparr>beat := (beat f)\<lparr>beat_cseq := msg_idf f\<rparr>\<rparr>)"
| "send_dispatch ok au (MsgUpdateStation x) f = fnii_send_msg_update_station ok x f"
| "send_dispatch ok au (MsgNull _) f = Inr (FNII_RET_OK, f)"
| "send_dispatch ok au (MsgOther _) f = Inr (FNII_RET_OK, f)"

definition fnii_send_msg :: "bool \<Rightarrow> (int \<Rightarrow> int res) \<Rightarrow> fnii_msg \<Rightarrow> fnii \<Rightarrow> (fnii_ret \<times> fnii) res" where
  "fnii_send_msg ok get_au m f =
     (if msg_type m < 100 \<or> msg_type m > 118 then Inr (FNII_RET_ERR, f)
      else if \<not> fnii_check_socket_status f \<and> msg_type m \<noteq> 109 \<and> msg_type m \<noteq> 108 \<and> msg_type m \<noteq> 111
      then Inr (FNII_RET_ERR, f)
      else if is_null m then Inr (FNII_RET_ERR, f)
      else bind_res (send_dispatch ok get_au m (next_idf f)) (\<lambda>(ret, f').
             if ret \<noteq> FNII_RET_OK then Inr (ret, drop_connection f') else Inr (ret, f')))"

end
