(* ===== verification/FniiFrame.thy ===== *)
theory FniiFrame
  imports FniiMsg
begin

text \<open>
  What the senders of \<open>FniiMsg\<close> put on the connection, against the specification of the protocol
  as frames: the abstract content of every message, the conditions under which it fits, and the
  proof that the bytes sent are the frame of that content.
\<close>

section \<open>Specification\<close>

definition frame :: "int \<Rightarrow> int \<Rightarrow> string \<Rightarrow> string" where
  "frame i t p = fmt_d 4 i @ fmt_d 3 t @ fmt_d 3 (int (length p)) @ p @ '';''"

definition field :: "string \<Rightarrow> string" where
  "field s = fmt_d 2 (int (length s)) @ s"

definition ssid_fields :: "string option list \<Rightarrow> string" where
  "ssid_fields ss = concat (map (\<lambda>s. field (c_str (the s))) ss)"

fun payload :: "fnii_msg \<Rightarrow> string" where
  "payload (MsgFlow x) = field (mac_text (flow_mac x)) @ field (fmt_d 16 (tx_byte x)) @ field (fmt_d 16 (rx_byte x))"
| "payload (MsgNewSta u) = field (mac_text (us_sta_mac u)) @ field (mac_text (us_ap_mac u)) @ field (c_str (us_ssid u))"
| "payload (MsgDelSta u) = field (mac_text (us_sta_mac u)) @ field (mac_text (us_ap_mac u)) @ field (c_str (us_ssid u))"
| "payload (MsgInterface v) = field (mac_text (ii_vif_mac v)) @ field (fmt_d 2 (ii_channel v)) @
     field (c_str (ii_ssid v)) @ field (fmt_d 0 (work_mode (ii_channel v)))"
| "payload (MsgInterfaceNum a) = field (fmt_d 2 (ia_vap_num a)) @ field (fmt_d 3 (ia_channel a)) @
     field (fmt_d 0 (work_mode (ia_channel a))) @ ssid_fields (take (nat (ia_ssid_num a)) (ia_ssid a))"
| "payload (MsgLocalMac m) = field (c_str m)"
| "payload (MsgUpdateStation p) = field (mac_text (vif_mac p)) @ field (mac_text (sta_mac p))"
| "payload _ = []"

text \<open>The zero bytes sent after the frame of a station report.\<close>

fun padding :: "fnii_msg \<Rightarrow> nat" where
  "padding (MsgNewSta u) = 40 - strlen (us_ssid u)"
| "padding (MsgDelSta u) = 40 - strlen (us_ssid u)"
| "padding _ = 0"

definition int32 :: "int \<Rightarrow> bool" where
  "int32 n \<longleftrightarrow> - 2147483648 \<le> n \<and> n \<le> 2147483647"

text \<open>The messages whose text is sure to fit its array.\<close>

fun msg_fits :: "fnii_msg \<Rightarrow> bool" where
  "msg_fits (MsgFlow x) \<longleftrightarrow> length (flow_mac x) = 6 \<and> int32 (tx_byte x) \<and> int32 (rx_byte x)"
| "msg_fits (MsgNewSta u) \<longleftrightarrow> length (us_sta_mac u) = 6 \<and> length (us_ap_mac u) = 6 \<and> strlen (us_ssid u) \<le> 31"
| "msg_fits (MsgDelSta u) \<longleftrightarrow> length (us_sta_mac u) = 6 \<and> length (us_ap_mac u) = 6 \<and> strlen (us_ssid u) \<le> 31"
| "msg_fits (MsgInterface v) \<longleftrightarrow> length (ii_vif_mac v) = 6 \<and> 0 \<le> ii_channel v \<and> ii_channel v \<le> 99 \<and>
     strlen (ii_ssid v) \<le> 29"
| "msg_fits (MsgInterfaceNum a) \<longleftrightarrow> 0 \<le> ia_vap_num a \<and> ia_vap_num a \<le> 99 \<and> 0 \<le> ia_channel a \<and>
     ia_channel a \<le> 999 \<and> nat (ia_ssid_num a) \<le> length (ia_ssid a) \<and> length (ia_ssid a) = SSID_MAX \<and>
     (\<forall>s \<in> set (take (nat (ia_ssid_num a)) (ia_ssid a)). s \<noteq> None \<and> strlen (the s) \<le> 32)"
| "msg_fits (MsgLocalMac m) \<longleftrightarrow> strlen m = 12"
| "msg_fits (MsgUpdateStation p) \<longleftrightarrow> length (vif_mac p) = 6 \<and> length (sta_mac p) = 6"
| "msg_fits MsgBeat \<longleftrightarrow> True"
| "msg_fits _ \<longleftrightarrow> False"

definition idf_ok :: "fnii \<Rightarrow> bool" where
  "idf_ok f \<longleftrightarrow> 0 \<le> msg_idf f \<and> msg_idf f \<le> 9999"

section \<open>Lengths\<close>

lemma length_fmt_d16: "int32 n \<Longrightarrow> length (fmt_d 16 n) = 16"
  using length_show_base[of 10 "nat (- n)" 15] length_fmt_d[of n 16]
  by (cases "n < 0") (simp_all add: int32_def fmt_d_def length_pad0 max_def nat_less_iff)

lemma length_fmt_d2 [buf_simps]: "0 \<le> n \<Longrightarrow> n \<le> 99 \<Longrightarrow> length (fmt_d 2 n) = 2"
  by (rule length_fmt_d) simp_all

lemma length_fmt_d3 [buf_simps]: "0 \<le> n \<Longrightarrow> n \<le> 999 \<Longrightarrow> length (fmt_d 3 n) = 3"
  by (rule length_fmt_d) simp_all

lemma length_fmt_d4 [buf_simps]: "0 \<le> n \<Longrightarrow> n \<le> 9999 \<Longrightarrow> length (fmt_d 4 n) = 4"
  by (rule length_fmt_d) simp_all

lemma idf_range: "idf_ok f \<Longrightarrow> 0 \<le> FNII_IDF f \<and> FNII_IDF f \<le> 9998"
  by (simp add: idf_ok_def FNII_IDF_def c_mod_nonneg)

lemma idf_ok_next [inv_intros]: "idf_ok f \<Longrightarrow> idf_ok (next_idf f)"
  by (simp add: idf_ok_def next_idf_def)

lemma length_FNII_IDF [buf_simps]: "idf_ok f \<Longrightarrow> length (fmt_d 4 (FNII_IDF f)) = 4"
  using idf_range[of f] by (intro length_fmt_d4) simp_all

lemma next_idf_simps [simp]:
  "socket_enabled (next_idf f) = socket_enabled f"
  "net (next_idf f) = net f"
  "dense (next_idf f) = dense f"
  "beat (next_idf f) = beat f"
  by (simp_all add: next_idf_def)

lemma fmt_d_consts:
  "fmt_d 3 0 = ''000''" "fmt_d 3 14 = ''014''" "fmt_d 3 28 = ''028''" "fmt_d 3 50 = ''050''"
  "fmt_d 3 100 = ''100''" "fmt_d 3 101 = ''101''" "fmt_d 3 104 = ''104''" "fmt_d 3 105 = ''105''"
  "fmt_d 3 106 = ''106''" "fmt_d 3 107 = ''107''" "fmt_d 3 108 = ''108''" "fmt_d 3 109 = ''109''"
  "fmt_d 3 110 = ''110''" "fmt_d 3 111 = ''111''" "fmt_d 3 116 = ''116''"
  "fmt_d 3 2 = ''002''" "fmt_d 3 3 = ''003''" "fmt_d 2 12 = ''12''" "fmt_d 2 16 = ''16''"
  "fmt_d 2 2 = ''02''" "fmt_d 2 3 = ''03''" "fmt_d 2 1 = ''01''"
  by (simp_all add: fmt_d_def pad0_def show_base.simps c_digit_def)
    (simp_all add: numeral_2_eq_2)

lemma length_work_mode [simp]: "length (fmt_d 0 (work_mode c)) = 1"
  by (simp add: work_mode_def fmt_d_def pad0_def show_base.simps)

lemma field_consts:
  "length s = 12 \<Longrightarrow> field s = ''12'' @ s" "length s = 16 \<Longrightarrow> field s = ''16'' @ s"
  "length s = 1 \<Longrightarrow> field s = ''01'' @ s" "length s = 2 \<Longrightarrow> field s = ''02'' @ s"
  "length s = 3 \<Longrightarrow> field s = ''03'' @ s"
  by (simp_all add: field_def fmt_d_consts)

lemma length_field: "length s \<le> 99 \<Longrightarrow> length (field s) = length s + 2"
  by (simp add: field_def buf_simps)

lemma length_frame [buf_simps]:
  "0 \<le> i \<Longrightarrow> i \<le> 9999 \<Longrightarrow> 0 \<le> t \<Longrightarrow> t \<le> 999 \<Longrightarrow> length p \<le> 999 \<Longrightarrow> length (frame i t p) = 11 + length p"
  by (simp add: frame_def buf_simps)

section \<open>Printing and sending\<close>

lemma send_text:
  "length s \<le> n \<Longrightarrow> n < cap \<Longrightarrow>
   bind_res (sprintf_buf cap s) (\<lambda>b. net_send ok n b f) =
     Inr (if ok then (FNII_RET_OK, net_emit (NSend (s @ replicate (n - length s) nul)) f)
          else (FNII_RET_ERR, f))"
  by (simp add: sprintf_buf_def net_send_def min_def)

lemma send_text_exact:
  "length s = n \<Longrightarrow> n < cap \<Longrightarrow>
   bind_res (sprintf_buf cap s) (\<lambda>b. net_send ok n b f) =
     Inr (if ok then (FNII_RET_OK, net_emit (NSend s) f) else (FNII_RET_ERR, f))"
  using send_text[of s n cap ok f] by simp

lemma send_flow:
  assumes "msg_fits (MsgFlow x)" "idf_ok f"
  shows "fnii_send_msg_flow_info True x f =
    Inr (FNII_RET_OK, net_emit (NSend (frame (FNII_IDF f) 106 (payload (MsgFlow x)))) f)"
proof -
  have l: "length (mac_text (flow_mac x)) = 12" "length (fmt_d 16 (tx_byte x)) = 16"
    "length (fmt_d 16 (rx_byte x)) = 16"
    using assms(1) by (simp_all add: buf_simps length_fmt_d16)
  then show ?thesis
    using assms(2) unfolding fnii_send_msg_flow_info_def
    by (subst send_text_exact) (simp_all add: frame_def field_consts fmt_d_consts buf_simps)
qed

lemma station_text_frame:
  assumes "msg_fits (MsgNewSta u)"
  shows "station_text ''104'' f (strlen (us_ssid u)) u = frame (FNII_IDF f) 104 (payload (MsgNewSta u))"
    "station_text ''105'' f (strlen (us_ssid u)) u = frame (FNII_IDF f) 105 (payload (MsgDelSta u))"
proof -
  have l: "length (mac_text (us_sta_mac u)) = 12" "length (mac_text (us_ap_mac u)) = 12"
    "length (field (c_str (us_ssid u))) = strlen (us_ssid u) + 2"
    using assms by (simp_all add: buf_simps length_field strlen_def)
  then show "station_text ''104'' f (strlen (us_ssid u)) u = frame (FNII_IDF f) 104 (payload (MsgNewSta u))"
    "station_text ''105'' f (strlen (us_ssid u)) u = frame (FNII_IDF f) 105 (payload (MsgDelSta u))"
    by (simp_all add: station_text_def frame_def field_consts fmt_d_consts)
      (simp_all add: field_def strlen_def)
qed

lemma length_station_payload:
  assumes "msg_fits (MsgNewSta u)"
  shows "length (payload (MsgNewSta u)) = 30 + strlen (us_ssid u)"
    "length (payload (MsgDelSta u)) = 30 + strlen (us_ssid u)"
  using assms by (simp_all add: length_field buf_simps strlen_def)

lemma send_station:
  assumes "msg_fits (MsgNewSta u)" "idf_ok f"
  shows "fnii_send_msg_new_sta True u f = Inr (FNII_RET_OK,
      net_emit (NSend (frame (FNII_IDF f) 104 (payload (MsgNewSta u)) @ replicate (padding (MsgNewSta u)) nul)) f)"
    "fnii_send_msg_del_sta True u f = Inr (FNII_RET_OK,
      net_emit (NSend (frame (FNII_IDF f) 105 (payload (MsgDelSta u)) @ replicate (padding (MsgDelSta u)) nul)) f)"
proof -
  have s: "strlen (us_ssid u) \<le> 31" "strlen (us_ssid u) mod 256 = strlen (us_ssid u)"
    using assms(1) by simp_all
  have l: "length (frame (FNII_IDF f) 104 (payload (MsgNewSta u))) = 41 + strlen (us_ssid u)"
    "length (frame (FNII_IDF f) 105 (payload (MsgDelSta u))) = 41 + strlen (us_ssid u)"
    using length_frame[of "FNII_IDF f" 104 "payload (MsgNewSta u)"]
      length_frame[of "FNII_IDF f" 105 "payload (MsgDelSta u)"]
      length_station_payload[OF assms(1)] idf_range[OF assms(2)] s(1) by simp_all
  show "fnii_send_msg_new_sta True u f = Inr (FNII_RET_OK,
      net_emit (NSend (frame (FNII_IDF f) 104 (payload (MsgNewSta u)) @ replicate (padding (MsgNewSta u)) nul)) f)"
    using s l(1) send_text[of "frame (FNII_IDF f) 104 (payload (MsgNewSta u))" 81 82 True f]
    by (simp add: fnii_send_msg_new_sta_def station_text_frame[OF assms(1)] SSID_LEN_def del: payload.simps)
  show "fnii_send_msg_del_sta True u f = Inr (FNII_RET_OK,
      net_emit (NSend (frame (FNII_IDF f) 105 (payload (MsgDelSta u)) @ replicate (padding (MsgDelSta u)) nul)) f)"
    using s l(2) send_text[of "frame (FNII_IDF f) 105 (payload (MsgDelSta u))" 81 82 True f]
    by (simp add: fnii_send_msg_del_sta_def station_text_frame[OF assms(1)] SSID_LEN_def del: payload.simps)
qed

lemma c_str_frame_text:
  "nul \<notin> set s \<Longrightarrow> length s < n \<Longrightarrow> c_str (s @ replicate (n - length s) nul) = s"
  using c_str_append_nul[of s "replicate (n - length s - 1) nul"]
  by (cases "n - length s") simp_all

lemma send_if_info:
  assumes "msg_fits (MsgInterface v)" "idf_ok f"
  shows "fnii_send_msg_if_info True v f = Inr (FNII_RET_OK,
    net_emit (NSend (frame (FNII_IDF f) 108 (payload (MsgInterface v)))) f)"
proof -
  let ?n = "strlen (ii_ssid v)"
  let ?s = "fmt_d 4 (FNII_IDF f) @ ''108'' @ fmt_d 3 (int ?n + 23) @ ''12'' @ mac_text (ii_vif_mac v) @
    ''02'' @ fmt_d 2 (ii_channel v) @ fmt_d 2 (int ?n) @ c_str (ii_ssid v) @ ''01'' @
    fmt_d 0 (work_mode (ii_channel v)) @ '';''"
  have l: "length (mac_text (ii_vif_mac v)) = 12" "length (fmt_d 2 (ii_channel v)) = 2"
    "length (c_str (ii_ssid v)) = ?n" "?n \<le> 29" "length (field (c_str (ii_ssid v))) = ?n + 2"
    using assms(1) by (simp_all add: buf_simps strlen_def length_field)
  have fr: "frame (FNII_IDF f) 108 (payload (MsgInterface v)) = ?s"
    using l by (simp add: frame_def field_consts fmt_d_consts) (simp add: field_def strlen_def add.commute)
  have w: "0 \<le> work_mode (ii_channel v)" "0 \<le> FNII_IDF f" "0 \<le> ii_channel v"
    using assms idf_range[OF assms(2)] by (simp_all add: work_mode_def)
  have "nul \<notin> set ?s"
    using mac_text_no_nul c_str_no_nul fmt_d_no_nul w by simp (simp add: nul_def)
  moreover have "length ?s = 34 + ?n"
    using l assms(2) by (simp add: buf_simps)
  moreover from calculation have "c_str (?s @ replicate (64 - length ?s) nul) = ?s"
    using l(4) by (intro c_str_frame_text) linarith+
  ultimately have "sprintf_buf 64 ?s = Inr (?s @ replicate (64 - length ?s) nul)"
    "strlen (?s @ replicate (64 - length ?s) nul) = length ?s"
    unfolding strlen_def[of "?s @ replicate (64 - length ?s) nul"] using l(4)
    by (simp_all only: sprintf_buf_ok)
  moreover have "to_schar (int ?n) = int ?n"
    using l(4) by (simp add: to_schar_id)
  ultimately show ?thesis
    unfolding fr by (simp add: fnii_send_msg_if_info_def Let_def net_send_def del: append_assoc)
qed

lemma append_ssids_ok:
  "i + n \<le> length ss \<Longrightarrow> \<forall>s \<in> set (take n (drop i ss)). s \<noteq> None \<and> strlen (the s) \<le> 32 \<Longrightarrow>
   length msg + 34 * n < 360 \<Longrightarrow>
   append_ssids n i ss msg = Inr (msg @ ssid_fields (take n (drop i ss)))"
proof (induction n arbitrary: i msg)
  case (Suc n)
  have d: "drop i ss = ss ! i # drop (Suc i) ss"
    using Suc.prems(1) by (simp add: Cons_nth_drop_Suc)
  then obtain s where s: "ss ! i = Some s" "strlen s \<le> 32"
    using Suc.prems(2) by auto
  then have l: "length (fmt_d 2 (int (strlen s)) @ c_str s) = 2 + strlen s"
    by (simp add: buf_simps strlen_def)
  then have "append_ssids n (Suc i) ss (msg @ fmt_d 2 (int (strlen s)) @ c_str s) =
      Inr ((msg @ fmt_d 2 (int (strlen s)) @ c_str s) @ ssid_fields (take n (drop (Suc i) ss)))"
    using Suc.prems s d by (intro Suc.IH) auto
  then show ?case
    using Suc.prems s l d by (simp add: sprintf_at_def ssid_fields_def field_def strlen_def)
qed (simp add: ssid_fields_def)

lemma length_ssid_fields:
  "\<forall>s \<in> set ss. strlen (the s) \<le> 32 \<Longrightarrow> length (ssid_fields ss) \<le> 34 * length ss"
proof (induction ss)
  case (Cons s ss)
  then show ?case
    using length_field[of "c_str (the s)"] by (simp add: ssid_fields_def strlen_def)
qed (simp add: ssid_fields_def)

lemma send_inerface_all:
  assumes "msg_fits (MsgInterfaceNum a)" "idf_ok f"
  shows "fnii_send_msg_inerface_all True a f = Inr (FNII_RET_OK,
    net_emit (NSend (frame (FNII_IDF f) 111 (payload (MsgInterfaceNum a)))) f)"
proof -
  let ?p = "payload (MsgInterfaceNum a)" and ?n = "nat (ia_ssid_num a)"
  let ?id = "fmt_d 4 (FNII_IDF f)"
  let ?h = "''02'' @ fmt_d 2 (ia_vap_num a) @ ''03'' @ fmt_d 3 (ia_channel a) @ ''01'' @
    fmt_d 0 (work_mode (ia_channel a))"
  let ?ss = "ssid_fields (take ?n (ia_ssid a))"
  have l: "length (fmt_d 2 (ia_vap_num a)) = 2" "length (fmt_d 3 (ia_channel a)) = 3" "length ?id = 4"
    using assms by (simp_all add: buf_simps)
  have p: "?p = ?h @ ?ss"
    using l by (simp add: field_consts)
  have n: "?n \<le> 8"
    using assms(1) by (simp add: SSID_MAX_def)
  have "length ?ss \<le> 34 * ?n"
    using assms(1) length_ssid_fields[of "take ?n (ia_ssid a)"] by simp
  then have lp: "length ?p \<le> 284"
    using n l unfolding p by simp
  have app: "append_ssids ?n 0 (ia_ssid a) (?id @ ''111000'' @ ?h) = Inr (?id @ ''111000'' @ ?p)"
    using assms(1) l n append_ssids_ok[of 0 ?n "ia_ssid a" "?id @ ''111000'' @ ?h"] unfolding p by simp
  have d: "length (fmt_d 3 (int (length ?p))) = 3"
    using lp by (intro length_fmt_d3) simp_all
  have w: "mem_write 7 (fmt_d 3 (int (length ?p))) (?id @ ''111000'' @ ?p) =
      ?id @ ''111'' @ fmt_d 3 (int (length ?p)) @ ?p"
    using l(3) d by (simp add: mem_write_def)
  have tmp: "sprintf_buf 4 (fmt_d 3 (int (length ?p))) = Inr (fmt_d 3 (int (length ?p)) @ [nul])"
    using d by (simp add: sprintf_buf_def)
  have len: "length (?id @ ''111000'' @ ?p) = 10 + length ?p"
    using l(3) by simp
  have "sprintf_at 360 [] (?id @ ''111000'' @ ?h) = Inr (?id @ ''111000'' @ ?h)"
    using l by (simp add: sprintf_at_def)
  then show ?thesis
    using app tmp w d lp l(3) len unfolding fnii_send_msg_inerface_all_def frame_def
    by (simp add: sprintf_at_def net_send_def fmt_d_consts del: payload.simps)
qed

lemma send_local_mac:
  assumes "msg_fits (MsgLocalMac m)" "idf_ok f"
  shows "fnii_send_msg_local_mac True m f =
    Inr (FNII_RET_OK, net_emit (NSend (frame (FNII_IDF f) 109 (payload (MsgLocalMac m)))) f)"
proof -
  have "length (c_str m) = 12"
    using assms(1) by (simp add: strlen_def)
  then show ?thesis
    using assms(2) unfolding fnii_send_msg_local_mac_def
    by (subst send_text_exact) (simp_all add: frame_def field_consts fmt_d_consts buf_simps)
qed

lemma send_update_station:
  assumes "msg_fits (MsgUpdateStation p)" "idf_ok f"
  shows "fnii_send_msg_update_station True p f =
    Inr (FNII_RET_OK, net_emit (NSend (frame (FNII_IDF f) 116 (payload (MsgUpdateStation p)))) f)"
proof -
  have "length (mac_text (vif_mac p)) = 12" "length (mac_text (sta_mac p)) = 12"
    using assms(1) by (simp_all add: buf_simps)
  then show ?thesis
    using assms(2) unfolding fnii_send_msg_update_station_def
    by (subst send_text_exact) (simp_all add: frame_def field_consts fmt_d_consts buf_simps)
qed

lemma send_beat:
  assumes "idf_ok f"
  shows "fnii_send_msg_beat True (f\<lparr>beat := (beat f)\<lparr>beat_cseq := msg_idf f\<rparr>\<rparr>) =
    Inr (FNII_RET_OK, net_emit (NSend (frame (FNII_IDF f) 110 []))
      (f\<lparr>beat := (beat f)\<lparr>beat_cseq := msg_idf f, beat_live := False\<rparr>\<rparr>))"
  using length_FNII_IDF[OF assms] unfolding fnii_send_msg_beat_def
  by (subst send_text_exact) (simp_all add: frame_def fmt_d_consts FNII_IDF_def)

section \<open>All senders\<close>

definition sent_state :: "fnii_msg \<Rightarrow> fnii \<Rightarrow> fnii" where
  "sent_state m f =
     net_emit (NSend (frame (FNII_IDF f) (msg_type m) (payload m) @ replicate (padding m) nul))
       (if m = MsgBeat then f\<lparr>beat := (beat f)\<lparr>beat_cseq := msg_idf f, beat_live := False\<rparr>\<rparr> else f)"

lemma dispatch_frames:
  "msg_fits m \<Longrightarrow> idf_ok f \<Longrightarrow> send_dispatch True au m f = Inr (FNII_RET_OK, sent_state m f)"
proof (cases m)
  case (MsgNewSta u)
  then show "msg_fits m \<Longrightarrow> idf_ok f \<Longrightarrow> ?thesis"
    using send_station(1)[of u f] by (simp add: sent_state_def)
next
  case (MsgDelSta u)
  then show "msg_fits m \<Longrightarrow> idf_ok f \<Longrightarrow> ?thesis"
    using send_station(2)[of u f] by (simp add: sent_state_def)
next
  case (MsgInterfaceNum a)
  then show "msg_fits m \<Longrightarrow> idf_ok f \<Longrightarrow> ?thesis"
    using send_inerface_all[of a f] by (simp add: sent_state_def)
next
  case (MsgInterface v)
  then show "msg_fits m \<Longrightarrow> idf_ok f \<Longrightarrow> ?thesis"
    using send_if_info[of v f] by (simp add: sent_state_def)
qed (simp_all add: sent_state_def send_flow send_local_mac send_update_station send_beat)

section \<open>Probe reports\<close>

definition probe_fits :: "probe_info \<Rightarrow> bool" where
  "probe_fits p \<longleftrightarrow> length (pi_station_mac p) = 6 \<and> - 99 \<le> pi_rssi p \<and> pi_rssi p \<le> 999 \<and>
     0 \<le> freq_to_channel (pi_channel p) \<and> freq_to_channel (pi_channel p) \<le> 200"

definition au_fits :: "(int \<Rightarrow> int res) \<Rightarrow> bool" where
  "au_fits get_au \<longleftrightarrow> (\<forall>w \<in> {0, 1}. case get_au w of Inl _ \<Rightarrow> False | Inr a \<Rightarrow> 0 \<le> a \<and> a \<le> 999)"

definition probe_payload :: "probe_info \<Rightarrow> int \<Rightarrow> string" where
  "probe_payload p au =
     (let channel = freq_to_channel (pi_channel p)
      in field (mac_text (pi_station_mac p)) @ field (fmt_d 3 (pi_rssi p)) @ field (fmt_d 3 au) @
         field (fmt_d 3 channel) @ field (fmt_d 0 (work_mode channel)))"

lemma length_fmt_d3_neg: "- 99 \<le> n \<Longrightarrow> n \<le> 999 \<Longrightarrow> length (fmt_d 3 n) = 3"
  using length_show_base[of 10 "nat (- n)" 2] length_fmt_d3[of n]
  by (cases "n < 0") (simp_all add: fmt_d_def length_pad0 max_def nat_less_iff)

lemma fmt_d_3_32: "fmt_d 3 32 = ''032''"
  by (simp add: fmt_d_def pad0_def show_base.simps c_digit_def)

lemma probe_text_frame:
  assumes "probe_fits p" "0 \<le> au" "au \<le> 999"
  shows "probe_text f p au (freq_to_channel (pi_channel p)) = frame (FNII_IDF f) 107 (probe_payload p au)"
    and "length (probe_payload p au) = 32"
proof -
  have l: "length (mac_text (pi_station_mac p)) = 12" "length (fmt_d 3 (pi_rssi p)) = 3"
    "length (fmt_d 3 au) = 3" "length (fmt_d 3 (freq_to_channel (pi_channel p))) = 3"
    using assms by (simp_all add: probe_fits_def buf_simps length_fmt_d3_neg)
  then show "probe_text f p au (freq_to_channel (pi_channel p)) = frame (FNII_IDF f) 107 (probe_payload p au)"
    "length (probe_payload p au) = 32"
    by (simp_all add: probe_text_def probe_payload_def frame_def Let_def field_consts fmt_d_consts fmt_d_3_32)
qed

lemma probe_suppressed:
  "socket_enabled f \<Longrightarrow> probe_filter (pi_station_mac p) f \<Longrightarrow>
   fnii_send_msg True au (MsgProbe p) f =
     Inr (FNII_RET_OK, (next_idf f)\<lparr>probe_count := probe_count f + 1\<rparr>)"
  by (simp add: fnii_send_msg_def fnii_check_socket_status_def fnii_send_msg_probe_info_def
      probe_filter_def next_idf_def)

lemma probe_reported_value:
  assumes "socket_enabled f" "idf_ok f" "\<not> probe_filter (pi_station_mac p) f" "probe_fits p"
    and a: "au (work_mode (freq_to_channel (pi_channel p))) = Inr a" "0 \<le> a" "a \<le> 999"
  shows "fnii_send_msg True au (MsgProbe p) f =
     Inr (FNII_RET_OK, net_emit (NSend (frame (FNII_IDF (next_idf f)) 107 (probe_payload p a)))
       ((next_idf f)\<lparr>probe_mac := pi_station_mac p, probe_count := 1\<rparr>))"
proof -
  let ?f = "(next_idf f)\<lparr>probe_mac := pi_station_mac p, probe_count := 1\<rparr>"
  have i: "idf_ok ?f" "FNII_IDF ?f = FNII_IDF (next_idf f)"
    using idf_ok_next[OF assms(2)] by (simp_all add: idf_ok_def FNII_IDF_def)
  note t = probe_text_frame[OF assms(4) a(2,3)]
  have len: "length (frame (FNII_IDF ?f) 107 (probe_payload p a)) = 43"
    using t(2) idf_range[OF i(1)] by (subst length_frame) simp_all
  have nf: "\<not> probe_filter (pi_station_mac p) (next_idf f)"
    using assms(3) by (simp add: probe_filter_def next_idf_def)
  have "fnii_send_msg_probe_info True au p (next_idf f) =
      Inr (FNII_RET_OK, net_emit (NSend (frame (FNII_IDF ?f) 107 (probe_payload p a))) ?f)"
    using nf assms(4) a(1) send_text_exact[OF len, of 44 True ?f]
    by (simp add: fnii_send_msg_probe_info_def probe_fits_def Let_def t)
  then show ?thesis
    using assms(1) i(2) by (simp add: fnii_send_msg_def fnii_check_socket_status_def)
qed

lemma probe_reported:
  assumes "socket_enabled f" "idf_ok f" "\<not> probe_filter (pi_station_mac p) f" "probe_fits p" "au_fits au"
  obtains a where "0 \<le> a" "a \<le> 999" "fnii_send_msg True au (MsgProbe p) f =
     Inr (FNII_RET_OK, net_emit (NSend (frame (FNII_IDF (next_idf f)) 107 (probe_payload p a)))
       ((next_idf f)\<lparr>probe_mac := pi_station_mac p, probe_count := 1\<rparr>))"
proof -
  let ?c = "freq_to_channel (pi_channel p)"
  have "work_mode ?c \<in> {0, 1}"
    by (simp add: work_mode_def)
  with assms(5) have "case au (work_mode ?c) of Inl _ \<Rightarrow> False | Inr a \<Rightarrow> 0 \<le> a \<and> a \<le> 999"
    unfolding au_fits_def by (rule bspec)
  then obtain a where a: "au (work_mode ?c) = Inr a" "0 \<le> a" "a \<le> 999"
    by (auto split: sum.splits)
  show ?thesis
    by (rule that[OF a(2,3) probe_reported_value[OF assms(1-4), of au a, OF a]])
qed

text \<open>A sequence of messages, as the threads send them: the return codes are ignored.\<close>

fun send_all :: "bool \<Rightarrow> (int \<Rightarrow> int res) \<Rightarrow> fnii_msg list \<Rightarrow> fnii \<Rightarrow> fnii res" where
  "send_all ok au [] f = Inr f"
| "send_all ok au (m # ms) f =
     bind_res (fnii_send_msg ok au m f) (\<lambda>(r, f'). send_all ok au ms f')"

lemma probe_run:
  assumes "\<forall>p \<in> set ps. probe_fits p \<and> pi_station_mac p = m" "au_fits au"
  shows "socket_enabled f \<Longrightarrow> idf_ok f \<Longrightarrow> probe_mac f = m \<Longrightarrow> 1 \<le> probe_count f \<Longrightarrow> probe_count f \<le> 20 \<Longrightarrow>
    \<exists>f'. send_all True au (map MsgProbe ps) f = Inr f' \<and>
      length (net f') = length (net f) + nat ((int (length ps) + probe_count f - 1) div 20)"
  using assms(1)
proof (induction ps arbitrary: f)
  case (Cons p ps)
  have p: "probe_fits p" "pi_station_mac p = m" and ps: "\<forall>p \<in> set ps. probe_fits p \<and> pi_station_mac p = m"
    using Cons.prems(6) by auto
  show ?case
  proof (cases "probe_count f < 20")
    case True
    let ?f = "(next_idf f)\<lparr>probe_count := probe_count f + 1\<rparr>"
    have "idf_ok ?f"
      using idf_ok_next[OF Cons.prems(2)] by (simp add: idf_ok_def)
    moreover have "probe_mac ?f = m"
      using Cons.prems(3) by (simp add: next_idf_def)
    ultimately obtain f' where "send_all True au (map MsgProbe ps) ?f = Inr f'"
      "length (net f') = length (net f) + nat ((int (length ps) + (probe_count f + 1) - 1) div 20)"
      using Cons.IH[of ?f] Cons.prems True ps by auto
    then show ?thesis
      using probe_suppressed[of f p au] Cons.prems(1,3) True p
      by (auto simp: probe_filter_def algebra_simps)
  next
    case False
    then have nf: "\<not> probe_filter (pi_station_mac p) f"
      by (simp add: probe_filter_def)
    obtain a where a: "fnii_send_msg True au (MsgProbe p) f =
       Inr (FNII_RET_OK, net_emit (NSend (frame (FNII_IDF (next_idf f)) 107 (probe_payload p a)))
         ((next_idf f)\<lparr>probe_mac := pi_station_mac p, probe_count := 1\<rparr>))" (is "_ = Inr (_, ?f)")
      by (rule probe_reported[OF Cons.prems(1,2) nf p(1) assms(2)])
    have st: "socket_enabled ?f" "idf_ok ?f" "probe_mac ?f = m" "probe_count ?f = 1"
      "length (net ?f) = Suc (length (net f))"
      using idf_ok_next[OF Cons.prems(2)] Cons.prems(1) p(2) by (simp_all add: idf_ok_def net_emit_def)
    then obtain f' where f': "send_all True au (map MsgProbe ps) ?f = Inr f'"
      "length (net f') = Suc (length (net f)) + nat (int (length ps) div 20)"
      using Cons.IH[of ?f] ps by auto
    have "probe_count f = 20"
      using False Cons.prems(5) by simp
    then have "nat ((int (length (p # ps)) + probe_count f - 1) div 20) = Suc (nat (int (length ps) div 20))"
      by simp
    then show ?thesis
      using a f' by (intro exI[of _ f']) simp
  qed
qed simp

section \<open>Properties\<close>


definition wit_fnii :: fnii where
  "wit_fnii = \<lparr>socket_enabled = True, master_socket = 3, master_host = ''10.0.0.1'', master_port = 8888,
     msg_idf = 7, probe_mac = [0, 0, 0, 0, 0, 0], probe_count = 0,
     beat = \<lparr>beat_live = True, beat_cseq = 0\<rparr>,
     if_all = \<lparr>ia_vap_num = 0, ia_ssid_num = 0, ia_channel = 0, ia_ssid = replicate 8 None\<rparr>,
     dense = \<lparr>station = replicate 32 [], station_used = 0\<rparr>, net = []\<rparr>"

definition wit_update :: update_station where
  "wit_update = \<lparr>us_ap_mac = [0x02, 0, 0, 0, 0, 1], us_sta_mac = [0xa4, 0x5e, 0x60, 0, 0x0f, 9],
     us_ssid = ''lab''\<rparr>"

lemma wit_fnii_ok: "socket_enabled wit_fnii" "idf_ok wit_fnii"
  by (simp_all add: wit_fnii_def idf_ok_def)


text \<open>
  The rate limit on probe reports. Of any run of probe requests of one station that was not
  the last one seen, exactly the first, the 21st, the 41st and so on are reported, one frame
  each; the others are only counted, and no text overflows its array.
\<close>

theorem fnii_probe_rate_limit:
  assumes "socket_enabled f" "idf_ok f" "au_fits au" "probe_mac f \<noteq> m"
    and "\<forall>p \<in> set ps. probe_fits p \<and> pi_station_mac p = m"
  shows "\<exists>f'. send_all True au (map MsgProbe ps) f = Inr f' \<and>
    length (net f') = length (net f) + (length ps + 19) div 20"
proof (cases ps)
  case (Cons p qs)
  have nf: "\<not> probe_filter (pi_station_mac p) f" and p: "probe_fits p" "pi_station_mac p = m"
    using assms(4,5) Cons by (simp_all add: probe_filter_def)
  obtain a where a: "fnii_send_msg True au (MsgProbe p) f =
     Inr (FNII_RET_OK, net_emit (NSend (frame (FNII_IDF (next_idf f)) 107 (probe_payload p a)))
       ((next_idf f)\<lparr>probe_mac := pi_station_mac p, probe_count := 1\<rparr>))" (is "_ = Inr (_, ?f)")
    by (rule probe_reported[OF assms(1,2) nf p(1) assms(3)])
  have st: "socket_enabled ?f" "idf_ok ?f" "probe_mac ?f = m" "probe_count ?f = 1"
    "length (net ?f) = Suc (length (net f))"
    using idf_ok_next[OF assms(2)] assms(1) p(2) by (simp_all add: idf_ok_def net_emit_def)
  then obtain f' where f': "send_all True au (map MsgProbe qs) ?f = Inr f'"
    "length (net f') = Suc (length (net f)) + nat (int (length qs) div 20)"
    using probe_run[of qs m au ?f] assms(3,5) Cons by auto
  have "nat (int (length qs) div 20) = length qs div 20"
    by (simp add: nat_div_distrib)
  then have "length (net f') = length (net f) + (length ps + 19) div 20"
    using f'(2) Cons by simp
  then show ?thesis
    using a f'(1) Cons by simp
qed simp

theorem fnii_probe_rate_limit_witness:
  "\<exists>f'. send_all True (\<lambda>_. Inr 35)
     (map MsgProbe (replicate 45 \<lparr>pi_rssi = - 61, pi_station_mac = [1, 2, 3, 4, 5, 6], pi_channel = 2437\<rparr>)) wit_fnii
     = Inr f' \<and> length (net f') = 3"
proof -
  have "probe_fits \<lparr>pi_rssi = - 61, pi_station_mac = [1, 2, 3, 4, 5, 6], pi_channel = 2437\<rparr>"
    by (simp add: probe_fits_def freq_to_channel_def c_div_def)
  then show ?thesis
    using fnii_probe_rate_limit[OF wit_fnii_ok, of "\<lambda>_. Inr 35" "[1, 2, 3, 4, 5, 6]"
      "replicate 45 \<lparr>pi_rssi = - 61, pi_station_mac = [1, 2, 3, 4, 5, 6], pi_channel = 2437\<rparr>"]
    by (simp add: au_fits_def wit_fnii_def)
qed

end
