(* ===== verification/SurveyProps.thy ===== *)
theory SurveyProps
  imports ApSurvey FniiFrame
begin

text \<open>
  What \<^verbatim>\<open>get_ap_au\<close> makes of the output of \<^verbatim>\<open>iw survey dump\<close>, and how its value reaches the
  controller in a probe report.
\<close>

section \<open>Lines\<close>

abbreviation NL :: char where
  "NL \<equiv> CHR 0x0A"

lemma line_of_line: "NL \<notin> set l \<Longrightarrow> length l < n \<Longrightarrow> line_of n (l @ NL # r) = l @ [NL]"
proof (induction l arbitrary: n)
  case Nil
  then show ?case
    by (cases n) auto
next
  case (Cons c l)
  then obtain m where "n = Suc m"
    by (cases n) auto
  then show ?case
    using Cons by auto
qed

lemma fgets_line: "NL \<notin> set l \<Longrightarrow> length l + 1 < n \<Longrightarrow> fgets n (l @ NL # r) = Some (l @ [NL], r)"
  by (simp add: fgets_def Let_def line_of_line)

lemma fgets_lines_line:
  "NL \<notin> set l \<Longrightarrow> length l + 1 < n \<Longrightarrow> fgets_lines n (l @ NL # r) = (l @ [NL]) # fgets_lines n r"
  by (subst fgets_lines.simps) (simp add: fgets_line)

section \<open>The shell\<close>

text \<open>
  What the source relies on of \<^verbatim>\<open>echo -e "..." | awk '{print $2}'\<close>: for text without
  characters that are special to the shell or to \<^verbatim>\<open>echo\<close>, the second word of the line, and an
  empty line for the newline that the text ends with.
\<close>

definition blank :: "char \<Rightarrow> bool" where
  "blank c \<longleftrightarrow> c = CHR '' '' \<or> c = CHR 0x09"

definition plain_char :: "char \<Rightarrow> bool" where
  "plain_char c \<longleftrightarrow>
     c \<in> set ''abcdefghijklmnopqrstuvwxyzABCDEFGHIJKLMNOPQRSTUVWXYZ0123456789:.-'' \<or> blank c"

definition second_word :: "string \<Rightarrow> string" where
  "second_word s =
     (let w1 = dropWhile blank s; r = dropWhile (\<lambda>c. \<not> blank c) w1
      in takeWhile (\<lambda>c. \<not> blank c) (dropWhile blank r))"

definition awk_second_word :: "shell \<Rightarrow> bool" where
  "awk_second_word sh \<longleftrightarrow>
     (\<forall>s. (\<forall>c \<in> set s. plain_char c) \<and> length s \<le> 400 \<longrightarrow>
        sh (parm_cmd (s @ [NL])) = Some (second_word s @ [NL, NL]))"

section \<open>The survey\<close>

definition survey_cmd :: "int \<Rightarrow> string" where
  "survey_cmd mode = ''iw wlan'' @ (if mode = 0 then ''0'' else ''1'') @ '' survey dump''"

definition time_line :: "string \<Rightarrow> int \<Rightarrow> string" where
  "time_line name ms = CHR 0x09 # ''channel '' @ name @ '' time:'' @ [CHR 0x09, CHR 0x09] @ fmt_d 0 ms @ '' ms''"

text \<open>
  The text that the indices of the source fit: a line with the device, one with the frequency, the
  active time, the busy time, and whatever follows.
\<close>

definition survey_dump :: "string \<Rightarrow> string \<Rightarrow> int \<Rightarrow> int \<Rightarrow> string \<Rightarrow> string" where
  "survey_dump dev freq active busy rest =
     dev @ NL # freq @ NL # time_line ''active'' active @ NL # time_line ''busy'' busy @ NL # rest"

definition short_line :: "string \<Rightarrow> bool" where
  "short_line l \<longleftrightarrow> NL \<notin> set l \<and> length l \<le> 254"

lemma digits_plain:
  assumes "0 \<le> n" "c \<in> set (fmt_d w n)"
  shows "plain_char c" "\<not> blank c" "c \<noteq> NL" "c \<noteq> nul" "digit_val c \<noteq> None"
proof -
  obtain d where d: "d < 10" "c = c_digit d"
    using fmt_d_chars[OF assms(1), of w] assms(2) by auto
  then have "d \<in> {0,1,2,3,4,5,6,7,8,9}"
    by (simp add: eval_nat_numeral less_Suc_eq)
  then show "plain_char c" "\<not> blank c" "c \<noteq> NL" "c \<noteq> nul" "digit_val c \<noteq> None"
    using d(2) by (auto simp: c_digit_def plain_char_def blank_def nul_def digit_val_def)
qed

lemma length_fmt_d0: "0 \<le> n \<Longrightarrow> n \<le> 2147483647 \<Longrightarrow> length (fmt_d 0 n) \<le> 10"
  using length_show_base[of 10 "nat n" 10] by (simp add: fmt_d_def pad0_def nat_le_iff)

lemma fmt_d0_nonempty: "fmt_d 0 n \<noteq> []"
  by (simp add: fmt_d_def pad0_def show_base_nonempty)

text \<open>The value of a line with a time.\<close>

lemma second_word_time:
  assumes "0 \<le> n"
  shows "second_word (''time:'' @ [CHR 0x09, CHR 0x09] @ fmt_d 0 n @ '' ms'') = fmt_d 0 n"
proof -
  have "takeWhile (\<lambda>c. \<not> blank c) (dropWhile blank (fmt_d 0 n @ '' ms'')) = fmt_d 0 n"
  proof -
    have "dropWhile blank (fmt_d 0 n @ '' ms'') = fmt_d 0 n @ '' ms''"
      using digits_plain(2)[OF assms, of _ 0] fmt_d0_nonempty[of n] by (cases "fmt_d 0 n") simp_all
    then show ?thesis
      using digits_plain(2)[OF assms, of _ 0] by (simp add: takeWhile_append blank_def)
  qed
  then show ?thesis
    by (simp add: second_word_def Let_def blank_def)
qed

lemma get_parm_time:
  assumes sh: "awk_second_word sh" and n: "0 \<le> n" "n \<le> 2147483647"
    and name: "name = ''active'' \<or> name = ''busy''"
  shows "atoi (get_parm sh (c_str (time_line name n @ [NL])) [] ''time:'') = n"
proof -
  let ?s = "''time:'' @ [CHR 0x09, CHR 0x09] @ fmt_d 0 n @ '' ms''"
  have "c_str (time_line name n @ [NL]) = time_line name n @ [NL]"
    by (rule c_str_id) (use name digits_plain(4)[OF n(1)] in \<open>auto simp: time_line_def nul_def\<close>)
  moreover have "strstr (time_line name n @ [NL]) ''time:'' = Some (?s @ [NL])"
    using name by (auto simp: time_line_def has_prefix_def)
  moreover have "\<forall>c \<in> set ?s. plain_char c"
    using digits_plain(1)[OF n(1), of _ 0] by (auto simp: plain_char_def blank_def)
  then have "sh (parm_cmd (?s @ [NL])) = Some (second_word ?s @ [NL, NL])"
    using sh length_fmt_d0[OF n] unfolding awk_second_word_def by (elim allE[of _ ?s]) simp
  then have "sh (parm_cmd (?s @ [NL])) = Some (fmt_d 0 n @ NL # [NL])"
    unfolding second_word_time[OF n(1)] by simp
  moreover have "fgets 64 (fmt_d 0 n @ NL # [NL]) = Some (fmt_d 0 n @ [NL], [NL])"
    using digits_plain(3)[OF n(1)] length_fmt_d0[OF n] by (intro fgets_line) auto
  moreover have "c_str (fmt_d 0 n @ [NL]) = fmt_d 0 n @ [NL]"
    by (rule c_str_id) (use digits_plain(4)[OF n(1)] in \<open>auto simp: nul_def\<close>)
  moreover have "atoi (fmt_d 0 n @ [NL]) = n"
    by (rule atoi_fmt_d) (use n in \<open>simp_all add: digit_val_def\<close>)
  ultimately show ?thesis
    by (simp add: get_parm_def)
qed

lemma get_ap_au_cmd:
  "get_ap_au sh mode =
     (if mode \<noteq> 0 \<and> mode \<noteq> 1 then Inr c_ERR
      else case sh (survey_cmd mode) of
             None \<Rightarrow> Inr c_ERR
           | Some out \<Rightarrow>
               let (active, busy) = au_loop sh 0 (fgets_lines 256 out) (0, 0)
               in dbl_to_int (dbl_div (busy * 100) active))"
  unfolding get_ap_au_def survey_cmd_def by (rule refl)

lemma au_loop_done: "4 \<le> i \<Longrightarrow> au_loop sh i bs r = r"
  by (induction bs arbitrary: i r) auto

lemma au_loop_lines:
  "au_loop sh 0 (b0 # b1 # b2 # b3 # bs) r =
     (atoi (get_parm sh (c_str b2) [] ''time:''), atoi (get_parm sh (c_str b3) [] ''time:''))"
  by (cases r) (simp add: au_loop_done)

lemma time_line_short:
  assumes "0 \<le> n" "n \<le> 2147483647" "name = ''active'' \<or> name = ''busy''"
  shows "NL \<notin> set (time_line name n)" "length (time_line name n) \<le> 254"
  using assms(3) digits_plain(3)[OF assms(1), of _ 0] length_fmt_d0[OF assms(1,2)]
  by (auto simp: time_line_def)

lemma get_ap_au_survey:
  assumes sh: "awk_second_word sh" and mode: "mode = 0 \<or> mode = 1"
    and out: "sh (survey_cmd mode) = Some (survey_dump dev freq active busy rest)" "short_line dev" "short_line freq"
    and t: "0 < active" "active \<le> 2147483647" "0 \<le> busy" "busy \<le> active"
  shows "get_ap_au sh mode = Inr (busy * 100 div active)" and "0 \<le> busy * 100 div active" "busy * 100 div active \<le> 100"
proof -
  have ta: "0 \<le> active" "active \<le> 2147483647" and tb: "0 \<le> busy" "busy \<le> 2147483647"
    using t by simp_all
  show r: "0 \<le> busy * 100 div active" "busy * 100 div active \<le> 100"
  proof -
    have "busy * 100 div active \<le> active * 100 div active"
      using t by (intro zdiv_mono1) simp_all
    then show "busy * 100 div active \<le> 100"
      using t by simp
    show "0 \<le> busy * 100 div active"
      using t by (simp add: pos_imp_zdiv_nonneg_iff)
  qed
  have l: "fgets_lines 256 (survey_dump dev freq active busy rest) =
      (dev @ [NL]) # (freq @ [NL]) # (time_line ''active'' active @ [NL]) # (time_line ''busy'' busy @ [NL]) # fgets_lines 256 rest"
    using out(2,3) time_line_short[OF ta, of "''active''"] time_line_short[OF tb, of "''busy''"]
    by (simp add: survey_dump_def fgets_lines_line short_line_def)
  have "au_loop sh 0 (fgets_lines 256 (survey_dump dev freq active busy rest)) (0, 0) = (active, busy)"
    unfolding l au_loop_lines using get_parm_time[OF sh ta, of "''active''"] get_parm_time[OF sh tb, of "''busy''"] by simp
  then show "get_ap_au sh mode = Inr (busy * 100 div active)"
    using mode out(1) t r by (auto simp: get_ap_au_cmd dbl_to_int_div)
qed

text \<open>
  When the third line has no time, as the noise level that \<^verbatim>\<open>iw\<close> prints for a channel in use,
  the active time stays 0 and the quotient is not finite.
\<close>

lemma get_ap_au_no_active_time:
  assumes "mode = 0 \<or> mode = 1" "sh (survey_cmd mode) = Some (dev @ NL # freq @ NL # noise @ NL # rest)"
    and "short_line dev" "short_line freq" "short_line noise" "strstr (c_str (noise @ [NL])) ''time:'' = None"
  shows "get_ap_au sh mode = Inl DivZero"
proof -
  have l: "fgets_lines 256 (dev @ NL # freq @ NL # noise @ NL # rest) =
      (dev @ [NL]) # (freq @ [NL]) # (noise @ [NL]) # fgets_lines 256 rest"
    using assms(3-5) by (simp add: fgets_lines_line short_line_def)
  have "atoi (get_parm sh (c_str (noise @ [NL])) [] ''time:'') = 0"
    using assms(6) by (simp add: get_parm_def atoi_def strtol_def saturate32_def)
  then obtain busy where "au_loop sh 0 (fgets_lines 256 (dev @ NL # freq @ NL # noise @ NL # rest)) (0, 0) = (0, busy)"
    unfolding l by (cases "fgets_lines 256 rest") (simp_all add: au_loop_done)
  then show ?thesis
    using assms(1,2) by (simp add: get_ap_au_cmd dbl_to_int_div_zero)
qed

section \<open>Properties\<close>

text \<open>
  The measured channel utilisation reaches the controller. When the survey of the radio gives
  the active and the busy time in the lines the code looks at, a probe request of a station that is
  not the one just seen is reported with the percentage of busy time, rounded down and always
  between 0 and 100, so that the text fills its array exactly; the shell is assumed to print the
  second word of a line.
\<close>

theorem probe_report_carries_utilisation:
  assumes "awk_second_word sh"
    and "sh (survey_cmd (work_mode (freq_to_channel (pi_channel p)))) = Some (survey_dump dev freq active busy rest)"
    and "short_line dev" "short_line freq" "0 < active" "active \<le> 2147483647" "0 \<le> busy" "busy \<le> active"
    and "socket_enabled f" "idf_ok f" "probe_mac f \<noteq> pi_station_mac p" "probe_fits p"
  shows "fnii_send_msg True (get_ap_au sh) (MsgProbe p) f =
       Inr (FNII_RET_OK, net_emit (NSend (frame (FNII_IDF (next_idf f)) 107 (probe_payload p (busy * 100 div active))))
         ((next_idf f)\<lparr>probe_mac := pi_station_mac p, probe_count := 1\<rparr>)) \<and>
     0 \<le> busy * 100 div active \<and> busy * 100 div active \<le> 100"
proof -
  let ?m = "work_mode (freq_to_channel (pi_channel p))"
  have "?m = 0 \<or> ?m = 1"
    by (simp add: work_mode_def)
  note au = get_ap_au_survey[OF assms(1) this assms(2-8)]
  have "busy * 100 div active \<le> 999" "\<not> probe_filter (pi_station_mac p) f"
    using au(3) assms(11) by (simp_all add: probe_filter_def)
  then show ?thesis
    using probe_reported_value[OF assms(9,10) _ assms(12), of "get_ap_au sh" "busy * 100 div active"] au by simp
qed

text \<open>A shell that behaves as assumed.\<close>

definition demo_shell :: shell where
  "demo_shell c =
     (if c = survey_cmd 0 \<or> c = survey_cmd 1
      then Some (survey_dump ''Survey data from wlan0'' ''frequency: 2437 MHz'' 2000 700 [])
      else Some (second_word (butlast (takeWhile (\<lambda>x. x \<noteq> CHR 0x22) (drop 9 c))) @ [NL, NL]))"

lemma demo_shell_awk: "awk_second_word demo_shell"
  unfolding awk_second_word_def
proof (intro allI impI, elim conjE)
  fix s assume s: "\<forall>c \<in> set s. plain_char c" "length s \<le> 400"
  let ?tail = "[CHR 0x22] @ '' | awk '' @ [CHR 0x27] @ ''{print $2}'' @ [CHR 0x27]"
  have no_quote: "\<not> plain_char (CHR 0x22)"
    by (simp add: plain_char_def blank_def)
  have q: "\<forall>c \<in> set (s @ [NL]). c \<noteq> CHR 0x22"
  proof
    fix c assume "c \<in> set (s @ [NL])"
    then have "plain_char c \<or> c = NL"
      using s(1) by auto
    then show "c \<noteq> CHR 0x22"
      by (auto simp: no_quote)
  qed
  have c: "parm_cmd (s @ [NL]) = (''echo -e '' @ [CHR 0x22]) @ (s @ [NL]) @ ?tail"
    unfolding parm_cmd_def using s(2) by (subst take_all) simp_all
  have "drop 9 (parm_cmd (s @ [NL])) = (s @ [NL]) @ ?tail"
    unfolding c by (subst drop_append) simp
  moreover have "takeWhile (\<lambda>x. x \<noteq> CHR 0x22) ((s @ [NL]) @ ?tail) = s @ [NL]"
    by (subst takeWhile_append2) (use q in \<open>blast, simp\<close>)
  ultimately have "takeWhile (\<lambda>x. x \<noteq> CHR 0x22) (drop 9 (parm_cmd (s @ [NL]))) = s @ [NL]"
    by (simp only:)
  moreover have "parm_cmd (s @ [NL]) \<noteq> survey_cmd m" for m
    unfolding c by (simp add: survey_cmd_def)
  ultimately show "demo_shell (parm_cmd (s @ [NL])) = Some (second_word s @ [NL, NL])"
    by (simp add: demo_shell_def)
qed

theorem probe_report_carries_utilisation_witness:
  "\<exists>f'. fnii_send_msg True (get_ap_au demo_shell)
     (MsgProbe \<lparr>pi_rssi = - 61, pi_station_mac = [1, 2, 3, 4, 5, 6], pi_channel = 2437\<rparr>) wit_fnii = Inr (FNII_RET_OK, f') \<and>
     length (net f') = 1"
proof -
  let ?p = "\<lparr>pi_rssi = - 61, pi_station_mac = [1, 2, 3, 4, 5, 6], pi_channel = 2437\<rparr>"
  have p: "probe_fits ?p" "work_mode (freq_to_channel (pi_channel ?p)) = 0"
    by (simp_all add: probe_fits_def freq_to_channel_def c_div_def work_mode_def)
  have l: "short_line ''Survey data from wlan0''" "short_line ''frequency: 2437 MHz''"
    by (simp_all add: short_line_def)
  have out: "demo_shell (survey_cmd (work_mode (freq_to_channel (pi_channel ?p)))) =
      Some (survey_dump ''Survey data from wlan0'' ''frequency: 2437 MHz'' 2000 700 [])"
    unfolding p(2) by (simp add: demo_shell_def)
  have m: "probe_mac wit_fnii \<noteq> pi_station_mac ?p" and n: "net wit_fnii = []"
    by (simp_all add: wit_fnii_def)
  have t: "0 < (2000 :: int)" "(2000 :: int) \<le> 2147483647" "0 \<le> (700 :: int)" "(700 :: int) \<le> 2000"
    by simp_all
  have "length (net (net_emit x ((next_idf wit_fnii)\<lparr>probe_mac := a, probe_count := 1\<rparr>))) = 1" for x a
    using n by (simp add: net_emit_def next_idf_def)
  then show ?thesis
    using probe_report_carries_utilisation[OF demo_shell_awk out l t wit_fnii_ok m p(1)] by blast
qed

end
