(* ===== verification/ChainedHash.thy ===== *)
theory ChainedHash
  imports Prelude
begin

text \<open>
  Hash tables with chained buckets, as the access point keeps them twice: the table of stations
  the controller has assigned to it (\<^verbatim>\<open>fnii_roam.c\<close>, 32 buckets) and hostapd's own station
  table (\<^verbatim>\<open>sta_info.c\<close>, 256 buckets). A chain of pointers is the list of its nodes; a new
  node is pushed in front. The locale states what the hash must satisfy and proves the laws of
  lookup, insertion and removal once; \<open>key_set\<close> is the interface the handlers rely on.
\<close>

fun remove_first :: "('a \<Rightarrow> bool) \<Rightarrow> 'a list \<Rightarrow> 'a list" where
  "remove_first P [] = []"
| "remove_first P (x # xs) = (if P x then xs else x # remove_first P xs)"

lemma set_remove_first_subset: "set (remove_first P xs) \<subseteq> set xs"
  by (induction xs) auto

lemma remove_first_none: "\<forall>x \<in> set xs. \<not> P x \<Longrightarrow> remove_first P xs = xs"
  by (induction xs) auto

lemma length_remove_first: "x \<in> set xs \<Longrightarrow> P x \<Longrightarrow> length (remove_first P xs) = length xs - 1"
proof (induction xs)
  case (Cons y ys)
  then show ?case
    by (cases ys) auto
qed simp

lemma distinct_map_remove_first: "distinct (map f xs) \<Longrightarrow> distinct (map f (remove_first P xs))"
  by (induction xs) (auto dest: subsetD[OF set_remove_first_subset])

lemma key_image_remove_first:
  "distinct (map key xs) \<Longrightarrow> key ` set (remove_first (\<lambda>e. key e = k) xs) = key ` set xs - {k}"
  by (induction xs) (auto simp: image_iff)

section \<open>The table\<close>

locale chained_hash =
  fixes size_n :: nat
    and hash :: "'k \<Rightarrow> nat"
    and key :: "'e \<Rightarrow> 'k"
  assumes hash_bound: "hash k < size_n"
begin

definition wf :: "'e list list \<Rightarrow> bool" where
  "wf t \<longleftrightarrow> length t = size_n \<and>
     (\<forall>i < size_n. (\<forall>e \<in> set (t ! i). hash (key e) = i) \<and> distinct (map key (t ! i)))"

definition keys :: "'e list list \<Rightarrow> 'k set" where
  "keys t = key ` set (concat t)"

definition total :: "'e list list \<Rightarrow> nat" where
  "total t = length (concat t)"

lemma wf_empty: "wf (replicate size_n [])"
  by (simp add: wf_def)

lemma keys_empty: "keys (replicate n []) = {}"
  by (auto simp: keys_def)

lemma total_empty: "total (replicate n []) = 0"
  by (simp add: total_def concat_replicate_trivial)

lemma bucket_in_range: "wf t \<Longrightarrow> hash k < length t"
  using hash_bound by (simp add: wf_def)

lemma key_in_bucket:
  assumes "wf t"
  shows "k \<in> keys t \<longleftrightarrow> k \<in> key ` set (t ! hash k)"
proof
  assume "k \<in> keys t"
  then obtain b e where "b \<in> set t" "e \<in> set b" "key e = k"
    by (auto simp: keys_def)
  then obtain i where "i < size_n" "b = t ! i"
    using assms by (metis in_set_conv_nth wf_def)
  then have "i = hash k"
    using assms \<open>e \<in> set b\<close> \<open>key e = k\<close> by (auto simp: wf_def)
  then show "k \<in> key ` set (t ! hash k)"
    using \<open>b = t ! i\<close> \<open>e \<in> set b\<close> \<open>key e = k\<close> by auto
next
  assume "k \<in> key ` set (t ! hash k)"
  then show "k \<in> keys t"
    using bucket_in_range[OF assms] by (force simp: keys_def)
qed

lemma keys_update:
  assumes "wf t" "\<forall>e \<in> set b. hash (key e) = i" "i < size_n"
  shows "keys (t[i := b]) = {k \<in> keys t. hash k \<noteq> i} \<union> key ` set b"
proof -
  have len: "length t = size_n"
    using assms(1) by (simp add: wf_def)
  have "(\<Union>c \<in> set (t[i := b]). key ` set c) = (\<Union>j < size_n. key ` set (t[i := b] ! j))"
    using len by (auto simp: set_conv_nth)
  also have "\<dots> = (\<Union>j \<in> {..<size_n} - {i}. key ` set (t ! j)) \<union> key ` set b"
    using assms(3) len by (auto simp: nth_list_update split: if_splits)
  also have "(\<Union>j \<in> {..<size_n} - {i}. key ` set (t ! j)) = {k \<in> keys t. hash k \<noteq> i}"
    using assms(1) len key_in_bucket[OF assms(1)] hash_bound
    by (auto simp: wf_def image_iff) blast
  finally have "(\<Union>c \<in> set (t[i := b]). key ` set c) = {k \<in> keys t. hash k \<noteq> i} \<union> key ` set b" .
  moreover have "keys (t[i := b]) = (\<Union>c \<in> set (t[i := b]). key ` set c)"
    by (simp add: keys_def image_UN)
  ultimately show ?thesis
    by simp
qed

lemma wf_update:
  "wf t \<Longrightarrow> i < size_n \<Longrightarrow> \<forall>e \<in> set b. hash (key e) = i \<Longrightarrow> distinct (map key b) \<Longrightarrow>
   wf (t[i := b])"
  by (simp add: wf_def nth_list_update)

lemma push:
  assumes "wf t" "key e \<notin> keys t"
  defines "t' \<equiv> t[hash (key e) := e # t ! hash (key e)]"
  shows "wf t'" "keys t' = insert (key e) (keys t)" "total t' = Suc (total t)"
proof -
  let ?i = "hash (key e)"
  have b: "\<forall>x \<in> set (e # t ! ?i). hash (key x) = ?i"
    using assms(1) hash_bound by (auto simp: wf_def)
  have "key e \<notin> key ` set (t ! ?i)"
    using assms(2) key_in_bucket[OF assms(1)] by simp
  moreover have "distinct (map key (t ! ?i))"
    using assms(1) hash_bound by (simp add: wf_def)
  ultimately show "wf t'"
    unfolding t'_def by (intro wf_update[OF assms(1) hash_bound b]) simp
  have "keys t' = {k \<in> keys t. hash k \<noteq> ?i} \<union> key ` set (e # t ! ?i)"
    unfolding t'_def by (rule keys_update[OF assms(1) b hash_bound])
  also have "\<dots> = insert (key e) (keys t)"
    using key_in_bucket[OF assms(1)] b by fastforce
  finally show "keys t' = insert (key e) (keys t)" .
  show "total t' = Suc (total t)"
    using concat_update_mset[OF bucket_in_range[OF assms(1), of "key e"], of "e # t ! ?i"]
    by (simp add: t'_def total_def)
qed

lemma unlink:
  assumes "wf t" "k \<in> keys t"
  defines "t' \<equiv> t[hash k := remove_first (\<lambda>e. key e = k) (t ! hash k)]"
  shows "wf t'" "keys t' = keys t - {k}" "Suc (total t') = total t"
proof -
  let ?b = "remove_first (\<lambda>e. key e = k) (t ! hash k)"
  have d: "distinct (map key (t ! hash k))" and h: "\<forall>e \<in> set (t ! hash k). hash (key e) = hash k"
    using assms(1) hash_bound by (auto simp: wf_def)
  then have b: "\<forall>e \<in> set ?b. hash (key e) = hash k"
    using set_remove_first_subset by fast
  then show "wf t'"
    unfolding t'_def by (intro wf_update[OF assms(1) hash_bound b] distinct_map_remove_first d)
  have "keys t' = {x \<in> keys t. hash x \<noteq> hash k} \<union> key ` set ?b"
    unfolding t'_def by (rule keys_update[OF assms(1) b hash_bound])
  also have "\<dots> = keys t - {k}"
    using key_in_bucket[OF assms(1)] h key_image_remove_first[OF d] by auto
  finally show "keys t' = keys t - {k}" .
  obtain e where "e \<in> set (t ! hash k)" "key e = k"
    using assms(2) key_in_bucket[OF assms(1)] by auto
  then have "Suc (length ?b) = length (t ! hash k)"
    using length_remove_first[of e "t ! hash k" "\<lambda>e. key e = k"] by (cases "t ! hash k") auto
  then show "Suc (total t') = total t"
    using concat_update_mset[OF bucket_in_range[OF assms(1), of k], of ?b]
    by (simp add: t'_def total_def)
qed

end

section \<open>The interface\<close>

text \<open>
  A set of keys with a membership test, an insertion that refuses a key it has, a removal that
  refuses a key it does not have, and a counter.
\<close>

locale key_set =
  fixes member :: "'t \<Rightarrow> 'k \<Rightarrow> bool"
    and add :: "'t \<Rightarrow> 'k \<Rightarrow> 't option"
    and del :: "'t \<Rightarrow> 'k \<Rightarrow> 't option"
    and count :: "'t \<Rightarrow> int"
    and elems :: "'t \<Rightarrow> 'k set"
    and valid :: "'t \<Rightarrow> bool"
  assumes member_iff: "valid t \<Longrightarrow> member t k \<longleftrightarrow> k \<in> elems t"
    and add_new: "valid t \<Longrightarrow> k \<notin> elems t \<Longrightarrow>
      \<exists>t'. add t k = Some t' \<and> valid t' \<and> elems t' = insert k (elems t) \<and> count t' = count t + 1"
    and add_old: "valid t \<Longrightarrow> k \<in> elems t \<Longrightarrow> add t k = None"
    and del_old: "valid t \<Longrightarrow> k \<in> elems t \<Longrightarrow>
      \<exists>t'. del t k = Some t' \<and> valid t' \<and> elems t' = elems t - {k} \<and> count t' = count t - 1"
    and del_none: "valid t \<Longrightarrow> k \<notin> elems t \<Longrightarrow> del t k = None"
    and count_card: "valid t \<Longrightarrow> count t = int (card (elems t))"
    and elems_finite: "valid t \<Longrightarrow> finite (elems t)"
begin

lemma add_then_member:
  "valid t \<Longrightarrow> add t k = Some t' \<Longrightarrow> valid t' \<and> member t' k \<and> (\<forall>j. j \<noteq> k \<longrightarrow> member t' j = member t j)"
  using add_new[of t k] add_old[of t k] by (cases "k \<in> elems t") (auto simp: member_iff)

lemma del_then_member:
  "valid t \<Longrightarrow> del t k = Some t' \<Longrightarrow> valid t' \<and> \<not> member t' k \<and> (\<forall>j. j \<noteq> k \<longrightarrow> member t' j = member t j)"
  using del_old[of t k] del_none[of t k] by (cases "k \<in> elems t") (auto simp: member_iff)

lemma add_del_elems:
  assumes "valid t" "add t k = Some t'"
  shows "\<exists>t''. del t' k = Some t'' \<and> valid t'' \<and> elems t'' = elems t \<and> count t'' = count t"
proof -
  have "k \<notin> elems t"
    using assms add_old by force
  then obtain "valid t'" "elems t' = insert k (elems t)" "count t' = count t + 1"
    using add_new assms by force
  then show ?thesis
    using del_old[of t' k] \<open>k \<notin> elems t\<close> by fastforce
qed

lemma del_step: "valid t \<Longrightarrow> del t k = Some t' \<Longrightarrow> valid t' \<and> elems t' = elems t - {k}"
  using del_old[of t k] del_none[of t k] by (cases "k \<in> elems t") auto

lemma add_step: "valid t \<Longrightarrow> add t k = Some t' \<Longrightarrow> valid t' \<and> elems t' = insert k (elems t)"
  using add_new[of t k] add_old[of t k] by (cases "k \<in> elems t") auto

end

end
