(* ===== verification/StaTable.thy ===== *)
theory StaTable
  imports ChainedHash FniiTypes
begin

unbundle bit_operations_syntax

text \<open>
  hostapd's station table and the life cycle of a station (\<^verbatim>\<open>hostapd/src/ap/sta_info.c\<close>):
  the hash table by the last byte of the MAC address, the list of all stations, removal with its
  report to the controller, disassociation and deauthentication, and the inactivity timer. A
  pointer to a \<^verbatim>\<open>struct sta_info\<close> is the MAC address of its object in the store \<open>stas\<close>: a
  table holds one object per address, and a pointer whose object was freed is caught as
  \<open>UseAfterFree\<close>. Calls into the driver, accounting, the 802.1X and MLME layers and the
  message to the controller are recorded in \<open>hevents\<close>, in order; \<^verbatim>\<open>eloop\<close> timeouts are the
  list \<open>timers\<close>.
\<close>

section \<open>Data\<close>

datatype sta_timeout =
  STA_NULLFUNC | STA_DISASSOC | STA_DEAUTH | STA_REMOVE | STA_DISASSOC_FROM_CLI

record sta_info =
  sta_addr :: mac
  sta_flags :: u32
  aid :: nat
  last_seq_ctrl :: u16
  timeout_next :: sta_timeout
  deauth_reason :: u16
  disassoc_reason :: u16
  acct_terminate_cause :: nat
  ipaddr :: u32
  nonerp_set :: bool
  no_short_slot_time_set :: bool
  no_short_preamble_set :: bool
  no_ht_gf_set :: bool
  no_ht_set :: bool
  ht_20mhz_set :: bool
  last_subtype :: nat
  auth_alg :: u16
  challenge :: "u8 list option"
  capability :: u16
  listen_interval :: u16
  supported_rates :: "u8 list"
  qosinfo :: u8

definition WLAN_STA_AUTH :: u32 where
  "WLAN_STA_AUTH = 0x00000001"

definition WLAN_STA_ASSOC :: u32 where
  "WLAN_STA_ASSOC = 0x00000002"

definition WLAN_STA_AUTHORIZED :: u32 where
  "WLAN_STA_AUTHORIZED = 0x00000020"

definition WLAN_STA_PENDING_POLL :: u32 where
  "WLAN_STA_PENDING_POLL = 0x00000040"

definition WLAN_STA_SHORT_PREAMBLE :: u32 where
  "WLAN_STA_SHORT_PREAMBLE = 0x00000080"

definition WLAN_STA_PREAUTH :: u32 where
  "WLAN_STA_PREAUTH = 0x00000100"

definition WLAN_STA_WMM :: u32 where
  "WLAN_STA_WMM = 0x00000200"

definition WLAN_STA_MFP :: u32 where
  "WLAN_STA_MFP = 0x00000400"

definition WLAN_STA_WDS :: u32 where
  "WLAN_STA_WDS = 0x00004000"

definition WLAN_STA_ASSOC_REQ_OK :: u32 where
  "WLAN_STA_ASSOC_REQ_OK = 0x00008000"

definition WLAN_STA_GAS :: u32 where
  "WLAN_STA_GAS = 0x00020000"

definition WLAN_STA_WNM_SLEEP_MODE :: u32 where
  "WLAN_STA_WNM_SLEEP_MODE = 0x00080000"

definition WLAN_STA_PENDING_DISASSOC_CB :: u32 where
  "WLAN_STA_PENDING_DISASSOC_CB = 0x20000000"

definition WLAN_STA_PENDING_DEAUTH_CB :: u32 where
  "WLAN_STA_PENDING_DEAUTH_CB = 0x40000000"

definition WLAN_STA_NONERP :: u32 where
  "WLAN_STA_NONERP = 0x80000000"

definition has_flag :: "sta_info \<Rightarrow> u32 \<Rightarrow> bool" where
  "has_flag s f \<longleftrightarrow> sta_flags s AND f \<noteq> 0"

definition set_flag :: "u32 \<Rightarrow> sta_info \<Rightarrow> sta_info" where
  "set_flag f s = s\<lparr>sta_flags := sta_flags s OR f\<rparr>"

definition clear_flag :: "u32 \<Rightarrow> sta_info \<Rightarrow> sta_info" where
  "clear_flag f s = s\<lparr>sta_flags := sta_flags s AND NOT f\<rparr>"

datatype hevent =
    SendDelSta update_station
  | SendNewSta update_station
  | AccountingStop mac
  | SetWdsSta mac
  | DeleteIpNeigh mac
  | DrvStaRemove mac
  | DrvStaDisassoc mac mac u16
  | DrvOnlyDisassoc mac mac u16
  | DrvStaDeauth mac u16
  | DrvPollClient mac bool
  | PortEnabled mac bool
  | Free8021x mac
  | MlmeDisassoc mac u16
  | MlmeDeauth mac u16
  | AuthorizedCb mac bool
  | SetBeacons
  | DrvSetAp mac
  | WpaDeauth mac
  | SetSsidProbe mac
  | SendProbeResp mac bool
  | SendMlme "u8 list"
  | MlmeAuth mac
  | MlmeAssoc mac
  | MlmeReassoc mac
  | DrvStaAdd mac nat
  | SetStaFlags mac
  | NewAssocSta mac bool
  | WpaAuth mac
  | WpaAssoc mac
  | WpaDisassoc mac
  | NoWpa mac
  | NotifyPreAuth mac
  | TxStatus8021x mac bool
  | WmmAction mac
  | SaQueryAction mac
  | PublicAction mac
  | VendorAction mac
  | ApListBeacon mac

datatype timer_kind = HandleTimer | SessionTimer | SessionWarningTimer | DeauthCb | DisassocCb

text \<open>The counters of \<^verbatim>\<open>struct hostapd_iface\<close> that the stations of all its BSSs share.\<close>

record iface_counters =
  num_sta_non_erp :: int
  num_sta_no_short_slot_time :: int
  num_sta_no_short_preamble :: int
  num_sta_ht_no_gf :: int
  num_sta_no_ht :: int
  num_sta_ht_20mhz :: int
  mode_11g :: bool
  driver_ap_teardown :: bool
  deauth_tx_status :: bool
  ht_op_changed :: bool

datatype vap_flag = VAP_IDLE | VAP_UNLOCK | VAP_LOCK

record hostapd_data =
  own_addr :: mac
  conf_ssid :: string
  ap_max_inactivity :: int
  skip_inactivity_poll :: bool
  max_num_sta :: int
  sta_hash :: "mac list list"
  sta_list :: "mac list"
  num_sta :: int
  sta_aid :: "u32 list"
  stas :: "mac \<rightharpoonup> sta_info"
  timers :: "(timer_kind \<times> mac \<times> int) list"
  hevents :: "hevent list"
  own_sta :: mac
  flag_priv :: vap_flag
  csa_in_progress :: bool
  beacon_set_done :: bool

definition emit :: "hevent \<Rightarrow> hostapd_data \<Rightarrow> hostapd_data" where
  "emit e h = h\<lparr>hevents := hevents h @ [e]\<rparr>"

definition eloop_cancel_timeout :: "timer_kind \<Rightarrow> mac \<Rightarrow> hostapd_data \<Rightarrow> hostapd_data" where
  "eloop_cancel_timeout k m h = h\<lparr>timers := filter (\<lambda>(k', m', _). \<not> (k' = k \<and> m' = m)) (timers h)\<rparr>"

definition eloop_register_timeout :: "int \<Rightarrow> timer_kind \<Rightarrow> mac \<Rightarrow> hostapd_data \<Rightarrow> hostapd_data" where
  "eloop_register_timeout n k m h = h\<lparr>timers := timers h @ [(k, m, n)]\<rparr>"

definition put_sta :: "sta_info \<Rightarrow> hostapd_data \<Rightarrow> hostapd_data" where
  "put_sta s h = h\<lparr>stas := (stas h)(sta_addr s \<mapsto> s)\<rparr>"

definition with_sta :: "hostapd_data \<Rightarrow> mac \<Rightarrow> (sta_info \<Rightarrow> 'a res) \<Rightarrow> 'a res" where
  "with_sta h m f = (case stas h m of None \<Rightarrow> Inl UseAfterFree | Some s \<Rightarrow> f s)"

section \<open>The table\<close>

definition STA_HASH :: "mac \<Rightarrow> nat" where
  "STA_HASH m = unat (m ! 5)"

fun chain_find :: "mac list \<Rightarrow> mac \<Rightarrow> mac option" where
  "chain_find [] m = None"
| "chain_find (s # ss) m = (if s \<noteq> m then chain_find ss m else Some s)"

definition ap_get_sta :: "hostapd_data \<Rightarrow> mac \<Rightarrow> mac option" where
  "ap_get_sta h m = chain_find (sta_hash h ! STA_HASH m) m"

text \<open>Unlinking from the chain of all stations: the first node that is the station.\<close>

definition ap_sta_list_del :: "hostapd_data \<Rightarrow> mac \<Rightarrow> hostapd_data" where
  "ap_sta_list_del h m = h\<lparr>sta_list := remove_first (\<lambda>s. s = m) (sta_list h)\<rparr>"

definition ap_sta_hash_add :: "hostapd_data \<Rightarrow> mac \<Rightarrow> hostapd_data" where
  "ap_sta_hash_add h m =
     h\<lparr>sta_hash := (sta_hash h)[STA_HASH m := m # sta_hash h ! STA_HASH m]\<rparr>"

text \<open>The loop of \<^verbatim>\<open>ap_sta_hash_del\<close> looks one node ahead of \<^verbatim>\<open>s\<close>.\<close>

fun hash_del_after :: "mac \<Rightarrow> mac list \<Rightarrow> mac \<Rightarrow> mac list" where
  "hash_del_after s [] m = [s]"
| "hash_del_after s (n # ns) m = (if n = m then s # ns else s # hash_del_after n ns m)"

definition ap_sta_hash_del :: "hostapd_data \<Rightarrow> mac \<Rightarrow> hostapd_data" where
  "ap_sta_hash_del h m =
     (case sta_hash h ! STA_HASH m of
        [] \<Rightarrow> h
      | s # ss \<Rightarrow> h\<lparr>sta_hash := (sta_hash h)[STA_HASH m := (if s = m then ss else hash_del_after s ss m)]\<rparr>)"

section \<open>Association identifiers\<close>

text \<open>The identifiers in use, one bit each, in words of 32 bits.\<close>

definition AID_WORDS :: nat where
  "AID_WORDS = 63"

definition clear_aid :: "nat \<Rightarrow> u32 list \<Rightarrow> u32 list" where
  "clear_aid a ws = (let i = (a - 1) div 32 in ws[i := ws ! i AND NOT (push_bit ((a - 1) mod 32) 1)])"

section \<open>Leaving\<close>

text \<open>
  The report of a station to the controller. The SSID of a BSS has up to 32 bytes, the field
  of the report 32 bytes, and the terminating zero is stored at the index of the SSID's length.
\<close>

definition make_update_station :: "hostapd_data \<Rightarrow> mac \<Rightarrow> update_station res" where
  "make_update_station h m =
     (if length (conf_ssid h) < 32
      then Inr \<lparr>us_ap_mac = own_addr h, us_sta_mac = m, us_ssid = conf_ssid h\<rparr>
      else Inl OutOfBounds)"

definition ap_sta_set_authorized :: "hostapd_data \<Rightarrow> sta_info \<Rightarrow> bool \<Rightarrow> hostapd_data \<times> sta_info" where
  "ap_sta_set_authorized h s authorized =
     (if authorized = has_flag s WLAN_STA_AUTHORIZED then (h, s)
      else (emit (AuthorizedCb (sta_addr s) authorized) h,
            if authorized then set_flag WLAN_STA_AUTHORIZED s else clear_flag WLAN_STA_AUTHORIZED s))"

definition drop_counter :: "bool \<Rightarrow> int \<Rightarrow> int" where
  "drop_counter b n = (if b then n - 1 else n)"

text \<open>
  The shared counters when a station goes, and whether the beacons have to be rebuilt;
  \<open>ht_op_changed\<close> is the result of \<^verbatim>\<open>hostapd_ht_operation_update\<close>.
\<close>

definition leave_counters :: "iface_counters \<Rightarrow> sta_info \<Rightarrow> iface_counters \<times> bool" where
  "leave_counters c s =
     (let c1 = c\<lparr>num_sta_non_erp := drop_counter (nonerp_set s) (num_sta_non_erp c)\<rparr>;
          b1 = (nonerp_set s \<and> num_sta_non_erp c1 = 0);
          c2 = c1\<lparr>num_sta_no_short_slot_time :=
                    drop_counter (no_short_slot_time_set s) (num_sta_no_short_slot_time c1)\<rparr>;
          b2 = (no_short_slot_time_set s \<and> mode_11g c \<and> num_sta_no_short_slot_time c2 = 0);
          c3 = c2\<lparr>num_sta_no_short_preamble :=
                    drop_counter (no_short_preamble_set s) (num_sta_no_short_preamble c2)\<rparr>;
          b3 = (no_short_preamble_set s \<and> mode_11g c \<and> num_sta_no_short_preamble c3 = 0);
          c4 = c3\<lparr>num_sta_ht_no_gf := drop_counter (no_ht_gf_set s) (num_sta_ht_no_gf c3)\<rparr>;
          c5 = c4\<lparr>num_sta_no_ht := drop_counter (no_ht_set s) (num_sta_no_ht c4)\<rparr>;
          c6 = c5\<lparr>num_sta_ht_20mhz := drop_counter (ht_20mhz_set s) (num_sta_ht_20mhz c5)\<rparr>
      in (c6, b1 \<or> b2 \<or> b3 \<or> ht_op_changed c))"

definition cancel_all :: "mac \<Rightarrow> hostapd_data \<Rightarrow> hostapd_data" where
  "cancel_all m h =
     eloop_cancel_timeout DisassocCb m (eloop_cancel_timeout DeauthCb m
       (eloop_cancel_timeout SessionWarningTimer m (eloop_cancel_timeout SessionTimer m
         (eloop_cancel_timeout HandleTimer m h))))"

definition emit_if :: "bool \<Rightarrow> hevent \<Rightarrow> hostapd_data \<Rightarrow> hostapd_data" where
  "emit_if b e h = (if b then emit e h else h)"

definition ap_free_sta ::
  "iface_counters \<Rightarrow> hostapd_data \<Rightarrow> mac \<Rightarrow> (iface_counters \<times> hostapd_data) res" where
  "ap_free_sta c h m =
     with_sta h m (\<lambda>s. bind_res (make_update_station h m) (\<lambda>u.
       let h1 = emit (AccountingStop m) (emit (SendDelSta u) h);
           (h2, s2) = ap_sta_set_authorized h1 s False;
           h3 = emit_if (has_flag s2 WLAN_STA_WDS) (SetWdsSta m) h2;
           h4 = emit_if (ipaddr s2 \<noteq> 0) (DeleteIpNeigh m) h3;
           h5 = emit_if (\<not> driver_ap_teardown c \<and> \<not> has_flag s2 WLAN_STA_PREAUTH) (DrvStaRemove m) h4;
           h6 = ap_sta_list_del (ap_sta_hash_del h5 m) m;
           h7 = (if aid s2 > 0 then h6\<lparr>sta_aid := clear_aid (aid s2) (sta_aid h6)\<rparr> else h6);
           h8 = h7\<lparr>num_sta := num_sta h7 - 1\<rparr>;
           (c', set_beacon) = leave_counters c s2;
           h9 = emit_if set_beacon SetBeacons h8;
           h10 = emit (Free8021x m) (cancel_all m h9)
       in Inr (c', h10\<lparr>stas := (stas h10)(m := None)\<rparr>)))"

definition ap_sta_disassociate :: "iface_counters \<Rightarrow> hostapd_data \<Rightarrow> mac \<Rightarrow> u16 \<Rightarrow> hostapd_data res" where
  "ap_sta_disassociate c h m reason =
     with_sta h m (\<lambda>s.
       let s1 = clear_flag (WLAN_STA_ASSOC OR WLAN_STA_ASSOC_REQ_OK) (s\<lparr>last_seq_ctrl := 0xFFFF\<rparr>);
           (h1, s2) = ap_sta_set_authorized h s1 False;
           s3 = s2\<lparr>timeout_next := STA_DEAUTH\<rparr>;
           h2 = eloop_register_timeout 30 HandleTimer m (eloop_cancel_timeout HandleTimer m h1);
           h3 = emit (Free8021x m) (emit (AccountingStop m) h2);
           s4 = set_flag WLAN_STA_PENDING_DISASSOC_CB (s3\<lparr>disassoc_reason := reason\<rparr>);
           h4 = eloop_register_timeout (if deauth_tx_status c then 2 else 0) DisassocCb m
                  (eloop_cancel_timeout DisassocCb m h3)
       in Inr (put_sta s4 h4))"

definition ap_sta_deauthenticate :: "iface_counters \<Rightarrow> hostapd_data \<Rightarrow> mac \<Rightarrow> u16 \<Rightarrow> hostapd_data res" where
  "ap_sta_deauthenticate c h m reason =
     with_sta h m (\<lambda>s.
       let s1 = clear_flag (WLAN_STA_AUTH OR WLAN_STA_ASSOC OR WLAN_STA_ASSOC_REQ_OK)
                  (s\<lparr>last_seq_ctrl := 0xFFFF\<rparr>);
           (h1, s2) = ap_sta_set_authorized h s1 False;
           s3 = s2\<lparr>timeout_next := STA_REMOVE\<rparr>;
           h2 = eloop_register_timeout 5 HandleTimer m (eloop_cancel_timeout HandleTimer m h1);
           h3 = emit (Free8021x m) (emit (AccountingStop m) h2);
           s4 = set_flag WLAN_STA_PENDING_DEAUTH_CB (s3\<lparr>deauth_reason := reason\<rparr>);
           h4 = eloop_register_timeout (if deauth_tx_status c then 2 else 0) DeauthCb m
                  (eloop_cancel_timeout DeauthCb m h3)
       in Inr (put_sta s4 h4))"

section \<open>The inactivity timer\<close>

text \<open>
  \<open>inact\<close> is what the driver reports as seconds of inactivity (-1 when it cannot tell,
  \<^verbatim>\<open>-ENOENT\<close> = -2 when it lost the station) and \<open>fuzz\<close> the random summand below 20. The
  first part decides about the next poll; its result is the station, the time to the next call
  (0 for none), and whether the second check is skipped.
\<close>

definition timer_check_inactivity ::
  "int \<Rightarrow> int \<Rightarrow> hostapd_data \<Rightarrow> sta_info \<Rightarrow> sta_info \<times> int \<times> bool" where
  "timer_check_inactivity inact fuzz h s =
     (if has_flag s WLAN_STA_ASSOC \<and> (timeout_next s = STA_NULLFUNC \<or> timeout_next s = STA_DISASSOC)
      then if inact = -1 then (s, ap_max_inactivity h + fuzz, False)
           else if inact = -2 then (s\<lparr>timeout_next := STA_DISASSOC\<rparr>, 0, True)
           else if inact < ap_max_inactivity h
           then (s\<lparr>timeout_next := STA_NULLFUNC\<rparr>, ap_max_inactivity h + fuzz - inact, False)
           else (if skip_inactivity_poll h then s\<lparr>timeout_next := STA_DISASSOC\<rparr> else s, 0, False)
      else (s, 0, False))"

definition timer_check_poll ::
  "hostapd_data \<Rightarrow> sta_info \<times> int \<times> bool \<Rightarrow> sta_info \<times> int" where
  "timer_check_poll h r =
     (let (s, next_time, skip_poll) = r
      in if \<not> skip_poll \<and> has_flag s WLAN_STA_ASSOC \<and> timeout_next s = STA_DISASSOC \<and>
            \<not> has_flag s WLAN_STA_PENDING_POLL \<and> \<not> skip_inactivity_poll h
         then (s\<lparr>timeout_next := STA_NULLFUNC\<rparr>, ap_max_inactivity h)
         else (s, next_time))"

definition timer_notify :: "hostapd_data \<Rightarrow> sta_info \<Rightarrow> hostapd_data \<times> sta_info" where
  "timer_notify h s =
     (if timeout_next s = STA_NULLFUNC \<and> has_flag s WLAN_STA_ASSOC
      then let s1 = set_flag WLAN_STA_PENDING_POLL s
           in (emit (DrvPollClient (sta_addr s) (has_flag s1 WLAN_STA_WMM)) h, s1)
      else if timeout_next s \<noteq> STA_REMOVE
      then if timeout_next s = STA_DEAUTH
           then (emit (DrvStaDeauth (sta_addr s) 2) h, s)
           else (emit (DrvStaDisassoc (own_addr h) (sta_addr s)
                   (if timeout_next s = STA_DISASSOC then 4 else 2)) h, s)
      else (h, s))"

definition set_idle_cause :: "sta_info \<Rightarrow> sta_info" where
  "set_idle_cause s = (if acct_terminate_cause s = 0 then s\<lparr>acct_terminate_cause := 4\<rparr> else s)"

definition timer_advance ::
  "iface_counters \<Rightarrow> hostapd_data \<Rightarrow> sta_info \<Rightarrow> (iface_counters \<times> hostapd_data) res" where
  "timer_advance c h s =
     (let m = sta_addr s
      in case timeout_next s of
           STA_NULLFUNC \<Rightarrow>
             Inr (c, eloop_register_timeout 3 HandleTimer m (put_sta (s\<lparr>timeout_next := STA_DISASSOC\<rparr>) h))
         | STA_DEAUTH \<Rightarrow>
             ap_free_sta c (put_sta (set_idle_cause s) (emit (MlmeDeauth m 2) h)) m
         | STA_REMOVE \<Rightarrow>
             ap_free_sta c (put_sta (set_idle_cause s) (emit (MlmeDeauth m 2) h)) m
         | _ \<Rightarrow>
             let (h1, s1) = ap_sta_set_authorized h s False;
                 s2 = set_idle_cause (clear_flag WLAN_STA_ASSOC s1);
                 h2 = emit (Free8021x m) (emit (AccountingStop m) (emit (PortEnabled m False) h1));
                 reason = (if timeout_next s = STA_DISASSOC then 4 else 2);
                 h3 = eloop_register_timeout 1 HandleTimer m (put_sta (s2\<lparr>timeout_next := STA_DEAUTH\<rparr>) h2)
             in Inr (c, emit (MlmeDisassoc m reason) h3))"

definition ap_handle_timer ::
  "int \<Rightarrow> int \<Rightarrow> iface_counters \<Rightarrow> hostapd_data \<Rightarrow> mac \<Rightarrow> (iface_counters \<times> hostapd_data) res" where
  "ap_handle_timer inact fuzz c h m =
     with_sta h m (\<lambda>s.
       if timeout_next s = STA_REMOVE then ap_free_sta c h m
       else let (s1, next_time) = timer_check_poll h (timer_check_inactivity inact fuzz h s)
            in if next_time \<noteq> 0
               then Inr (c, eloop_register_timeout next_time HandleTimer m (put_sta s1 h))
               else let (h2, s2) = timer_notify h s1 in timer_advance c h2 s2)"

definition ap_handle_session_timer ::
  "iface_counters \<Rightarrow> hostapd_data \<Rightarrow> mac \<Rightarrow> (iface_counters \<times> hostapd_data) res" where
  "ap_handle_session_timer c h m =
     with_sta h m (\<lambda>s.
       if \<not> has_flag s WLAN_STA_AUTH
       then if has_flag s WLAN_STA_GAS then ap_free_sta c h m else Inr (c, h)
       else ap_free_sta c
              (put_sta (s\<lparr>acct_terminate_cause := 5\<rparr>) (emit (MlmeDeauth m 2) (emit (DrvStaDeauth m 2) h))) m)"

text \<open>\<^verbatim>\<open>hostapd_free_stas\<close>: the loop saves the next station before it frees the current one.\<close>

fun hostapd_free_stas_loop ::
  "iface_counters \<Rightarrow> hostapd_data \<Rightarrow> mac list \<Rightarrow> (iface_counters \<times> hostapd_data) res" where
  "hostapd_free_stas_loop c h [] = Inr (c, h)"
| "hostapd_free_stas_loop c h (m # ms) =
     with_sta h m (\<lambda>s.
       bind_res (ap_free_sta c (emit_if (has_flag s WLAN_STA_AUTH) (MlmeDeauth m 1) h) m)
         (\<lambda>(c', h'). hostapd_free_stas_loop c' h' ms))"

definition hostapd_free_stas ::
  "iface_counters \<Rightarrow> hostapd_data \<Rightarrow> (iface_counters \<times> hostapd_data) res" where
  "hostapd_free_stas c h = hostapd_free_stas_loop c h (sta_list h)"

text \<open>
  \<^verbatim>\<open>ap_sta_add\<close> up to the removal of the station from the other BSSs of the interface.
  \<open>alloc\<close> says whether the allocation succeeds; \<open>no_timer\<close> is the driver flag
  \<^verbatim>\<open>WPA_DRIVER_FLAGS_INACTIVITY_TIMER\<close>.
\<close>

definition new_sta :: "mac \<Rightarrow> sta_info" where
  "new_sta m = \<lparr>sta_addr = m, sta_flags = 0, aid = 0, last_seq_ctrl = 0xFFFF,
     timeout_next = STA_NULLFUNC, deauth_reason = 0, disassoc_reason = 0, acct_terminate_cause = 0,
     ipaddr = 0, nonerp_set = False, no_short_slot_time_set = False, no_short_preamble_set = False,
     no_ht_gf_set = False, no_ht_set = False, ht_20mhz_set = False, last_subtype = 0, auth_alg = 0,
     challenge = None, capability = 0, listen_interval = 0, supported_rates = [], qosinfo = 0\<rparr>"

definition ap_sta_add :: "bool \<Rightarrow> bool \<Rightarrow> hostapd_data \<Rightarrow> mac \<Rightarrow> mac option \<times> hostapd_data" where
  "ap_sta_add alloc no_timer h m =
     (case ap_get_sta h m of
        Some s \<Rightarrow> (Some s, h)
      | None \<Rightarrow>
          if num_sta h \<ge> max_num_sta h then (None, h)
          else if \<not> alloc then (None, h)
          else let h1 = (if no_timer then h
                         else eloop_register_timeout (ap_max_inactivity h) HandleTimer m h);
                   h2 = h1\<lparr>sta_list := m # sta_list h1, num_sta := num_sta h1 + 1\<rparr>
               in (Some m, put_sta (new_sta m) (ap_sta_hash_add h2 m)))"

section \<open>Confirmations and disconnection\<close>

text \<open>The return value of \<^verbatim>\<open>ap_sta_remove\<close> is ignored by both of its callers.\<close>

definition ap_sta_remove :: "hostapd_data \<Rightarrow> sta_info \<Rightarrow> hostapd_data" where
  "ap_sta_remove h s =
     emit (DrvStaRemove (sta_addr s))
       (emit_if (ipaddr s \<noteq> 0) (DeleteIpNeigh (sta_addr s)) (emit (PortEnabled (sta_addr s) False) h))"

definition ap_sta_disassoc_cb_timeout :: "hostapd_data \<Rightarrow> mac \<Rightarrow> hostapd_data res" where
  "ap_sta_disassoc_cb_timeout h m =
     with_sta h m (\<lambda>s. Inr (emit (MlmeDisassoc m (disassoc_reason s)) (ap_sta_remove h s)))"

definition ap_sta_deauth_cb_timeout :: "hostapd_data \<Rightarrow> mac \<Rightarrow> hostapd_data res" where
  "ap_sta_deauth_cb_timeout h m =
     with_sta h m (\<lambda>s. Inr (emit (MlmeDeauth m (deauth_reason s)) (ap_sta_remove h s)))"

definition ap_sta_deauth_cb :: "hostapd_data \<Rightarrow> mac \<Rightarrow> hostapd_data res" where
  "ap_sta_deauth_cb h m =
     with_sta h m (\<lambda>s.
       if \<not> has_flag s WLAN_STA_PENDING_DEAUTH_CB then Inr h
       else ap_sta_deauth_cb_timeout
              (eloop_cancel_timeout DeauthCb m (put_sta (clear_flag WLAN_STA_PENDING_DEAUTH_CB s) h)) m)"

definition ap_sta_disassoc_cb :: "hostapd_data \<Rightarrow> mac \<Rightarrow> hostapd_data res" where
  "ap_sta_disassoc_cb h m =
     with_sta h m (\<lambda>s.
       if \<not> has_flag s WLAN_STA_PENDING_DISASSOC_CB then Inr h
       else ap_sta_disassoc_cb_timeout
              (eloop_cancel_timeout DisassocCb m (put_sta (clear_flag WLAN_STA_PENDING_DISASSOC_CB s) h)) m)"

definition ap_sta_session_timeout :: "hostapd_data \<Rightarrow> mac \<Rightarrow> int \<Rightarrow> hostapd_data" where
  "ap_sta_session_timeout h m t = eloop_register_timeout t SessionTimer m (eloop_cancel_timeout SessionTimer m h)"

definition ap_sta_no_session_timeout :: "hostapd_data \<Rightarrow> mac \<Rightarrow> hostapd_data" where
  "ap_sta_no_session_timeout h m = eloop_cancel_timeout SessionTimer m h"

definition ap_sta_session_warning_timeout :: "hostapd_data \<Rightarrow> mac \<Rightarrow> int \<Rightarrow> hostapd_data" where
  "ap_sta_session_warning_timeout h m t =
     eloop_register_timeout t SessionWarningTimer m (eloop_cancel_timeout SessionWarningTimer m h)"

text \<open>
  \<^verbatim>\<open>ap_sta_disconnect\<close> with the station given, given by its address only, or unknown; the
  address is always passed in the calls of this code.
\<close>

definition disconnect_sta :: "iface_counters \<Rightarrow> hostapd_data \<Rightarrow> sta_info \<Rightarrow> u16 \<Rightarrow> hostapd_data" where
  "disconnect_sta c h s reason =
     (let m = sta_addr s;
          (h1, s1) = ap_sta_set_authorized h s False;
          h2 = emit (PortEnabled m False) (emit (WpaDeauth m) h1);
          s2 = clear_flag (WLAN_STA_AUTH OR WLAN_STA_ASSOC) s1;
          h3 = eloop_register_timeout 5 HandleTimer m (eloop_cancel_timeout HandleTimer m h2);
          s3 = set_flag WLAN_STA_PENDING_DEAUTH_CB (s2\<lparr>timeout_next := STA_REMOVE, deauth_reason := reason\<rparr>);
          h4 = eloop_register_timeout (if deauth_tx_status c then 2 else 0) DeauthCb m
                 (eloop_cancel_timeout DeauthCb m h3)
      in put_sta s3 h4)"

definition ap_sta_disconnect :: "iface_counters \<Rightarrow> hostapd_data \<Rightarrow> mac \<Rightarrow> u16 \<Rightarrow> hostapd_data res" where
  "ap_sta_disconnect c h m reason =
     (let h1 = emit (DrvStaDeauth m reason) h
      in case ap_get_sta h m of
           None \<Rightarrow> Inr h1
         | Some p \<Rightarrow> with_sta h p (\<lambda>s. Inr (disconnect_sta c h1 s reason)))"

text \<open>
  Joining at the level of the interface: a station that is new to BSS \<open>i\<close> is disconnected from
  every other BSS that still has it.
\<close>

fun remove_in_other_bss ::
  "iface_counters \<Rightarrow> nat \<Rightarrow> mac \<Rightarrow> nat \<Rightarrow> hostapd_data list \<Rightarrow> hostapd_data list res" where
  "remove_in_other_bss c i m j [] = Inr []"
| "remove_in_other_bss c i m j (b # bs) =
     bind_res (if j = i \<or> ap_get_sta b m = None then Inr b else ap_sta_disconnect c b m 2) (\<lambda>b'.
       bind_res (remove_in_other_bss c i m (Suc j) bs) (\<lambda>bs'. Inr (b' # bs')))"

definition ap_sta_add_bss ::
  "bool \<Rightarrow> bool \<Rightarrow> iface_counters \<Rightarrow> hostapd_data list \<Rightarrow> nat \<Rightarrow> mac \<Rightarrow> (mac option \<times> hostapd_data list) res" where
  "ap_sta_add_bss alloc no_timer c bs i m =
     (case ap_get_sta (bs ! i) m of
        Some s \<Rightarrow> Inr (Some s, bs)
      | None \<Rightarrow>
          (case ap_sta_add alloc no_timer (bs ! i) m of
             (None, _) \<Rightarrow> Inr (None, bs)
           | (Some s, h) \<Rightarrow>
               bind_res (remove_in_other_bss c i m 0 (bs[i := h])) (\<lambda>bs'. Inr (Some s, bs'))))"

end
