(* ===== verification/StaLife.thy ===== *)
theory StaLife
  imports StaTable
begin

text \<open>
  The invariant of hostapd's station table and what its operations do: the hash table, the list
  of stations, the store and the counter agree; a freed station leaves no trace in any of them
  and no timer behind; the inactivity timer removes silent stations and keeps active ones.
\<close>

section \<open>The table as a chained hash\<close>

interpretation sh: chained_hash 256 STA_HASH "\<lambda>e. e"
proof
  fix k :: mac
  show "STA_HASH k < 256"
    using unsigned_less[of "k ! 5", where ?'a = nat] by (simp add: STA_HASH_def)
qed

definition sta_keys :: "hostapd_data \<Rightarrow> mac set" where
  "sta_keys h = sh.keys (sta_hash h)"

definition sta_inv :: "hostapd_data \<Rightarrow> bool" where
  "sta_inv h \<longleftrightarrow> sh.wf (sta_hash h) \<and> distinct (sta_list h) \<and> set (sta_list h) = sta_keys h \<and>
     dom (stas h) = sta_keys h \<and> (\<forall>m s. stas h m = Some s \<longrightarrow> sta_addr s = m) \<and>
     num_sta h = int (length (sta_list h))"

lemma chain_find_eq: "chain_find c m = (if m \<in> set c then Some m else None)"
  by (induction c m rule: chain_find.induct) auto

lemma ap_get_sta_eq: "sta_inv h \<Longrightarrow> ap_get_sta h m = (if m \<in> sta_keys h then Some m else None)"
  using sh.key_in_bucket[of "sta_hash h" m]
  by (simp add: ap_get_sta_def chain_find_eq sta_inv_def sta_keys_def)

lemma hash_del_after_eq: "s \<noteq> m \<Longrightarrow> hash_del_after s ss m = s # remove_first (\<lambda>x. x = m) ss"
  by (induction s ss m rule: hash_del_after.induct) auto

lemma ap_sta_hash_del_eq:
  "ap_sta_hash_del h m =
     h\<lparr>sta_hash := (sta_hash h)[STA_HASH m := remove_first (\<lambda>x. x = m) (sta_hash h ! STA_HASH m)]\<rparr>"
proof (cases "sta_hash h ! STA_HASH m")
  case Nil
  then have "(sta_hash h)[STA_HASH m := []] = sta_hash h"
    by (metis list_update_id)
  then show ?thesis
    using Nil by (simp add: ap_sta_hash_del_def)
qed (auto simp: ap_sta_hash_del_def hash_del_after_eq)

section \<open>What the helpers leave alone\<close>

lemma emit_simps [simp]:
  "sta_hash (emit e h) = sta_hash h" "sta_list (emit e h) = sta_list h" "num_sta (emit e h) = num_sta h"
  "stas (emit e h) = stas h" "timers (emit e h) = timers h" "hevents (emit e h) = hevents h @ [e]"
  "conf_ssid (emit e h) = conf_ssid h" "own_addr (emit e h) = own_addr h" "sta_aid (emit e h) = sta_aid h"
  "ap_max_inactivity (emit e h) = ap_max_inactivity h" "skip_inactivity_poll (emit e h) = skip_inactivity_poll h"
  "max_num_sta (emit e h) = max_num_sta h"
  by (simp_all add: emit_def)

lemma emit_if_simps [simp]:
  "sta_hash (emit_if b e h) = sta_hash h" "sta_list (emit_if b e h) = sta_list h"
  "num_sta (emit_if b e h) = num_sta h" "stas (emit_if b e h) = stas h" "timers (emit_if b e h) = timers h"
  "hevents (emit_if b e h) = hevents h @ (if b then [e] else [])" "conf_ssid (emit_if b e h) = conf_ssid h"
  "own_addr (emit_if b e h) = own_addr h" "sta_aid (emit_if b e h) = sta_aid h"
  by (simp_all add: emit_if_def)

lemma cancel_simps [simp]:
  "sta_hash (eloop_cancel_timeout k m h) = sta_hash h" "sta_list (eloop_cancel_timeout k m h) = sta_list h"
  "num_sta (eloop_cancel_timeout k m h) = num_sta h" "stas (eloop_cancel_timeout k m h) = stas h"
  "hevents (eloop_cancel_timeout k m h) = hevents h" "conf_ssid (eloop_cancel_timeout k m h) = conf_ssid h"
  "own_addr (eloop_cancel_timeout k m h) = own_addr h"
  by (simp_all add: eloop_cancel_timeout_def)

lemma register_simps [simp]:
  "sta_hash (eloop_register_timeout n k m h) = sta_hash h" "sta_list (eloop_register_timeout n k m h) = sta_list h"
  "num_sta (eloop_register_timeout n k m h) = num_sta h" "stas (eloop_register_timeout n k m h) = stas h"
  "hevents (eloop_register_timeout n k m h) = hevents h" "conf_ssid (eloop_register_timeout n k m h) = conf_ssid h"
  "timers (eloop_register_timeout n k m h) = timers h @ [(k, m, n)]"
  "own_addr (eloop_register_timeout n k m h) = own_addr h"
  by (simp_all add: eloop_register_timeout_def)

lemma put_sta_simps [simp]:
  "sta_hash (put_sta s h) = sta_hash h" "sta_list (put_sta s h) = sta_list h"
  "num_sta (put_sta s h) = num_sta h" "stas (put_sta s h) = (stas h)(sta_addr s \<mapsto> s)"
  "hevents (put_sta s h) = hevents h" "conf_ssid (put_sta s h) = conf_ssid h" "timers (put_sta s h) = timers h"
  "own_addr (put_sta s h) = own_addr h"
  by (simp_all add: put_sta_def)

lemma flag_simps [simp]:
  "sta_addr (set_flag f s) = sta_addr s" "sta_addr (clear_flag f s) = sta_addr s"
  "timeout_next (set_flag f s) = timeout_next s" "timeout_next (clear_flag f s) = timeout_next s"
  by (simp_all add: set_flag_def clear_flag_def)

lemma set_authorized_simps [simp]:
  "sta_hash (fst (ap_sta_set_authorized h s a)) = sta_hash h"
  "sta_list (fst (ap_sta_set_authorized h s a)) = sta_list h"
  "num_sta (fst (ap_sta_set_authorized h s a)) = num_sta h"
  "stas (fst (ap_sta_set_authorized h s a)) = stas h"
  "timers (fst (ap_sta_set_authorized h s a)) = timers h"
  "conf_ssid (fst (ap_sta_set_authorized h s a)) = conf_ssid h"
  "own_addr (fst (ap_sta_set_authorized h s a)) = own_addr h"
  "sta_addr (snd (ap_sta_set_authorized h s a)) = sta_addr s"
  "timeout_next (snd (ap_sta_set_authorized h s a)) = timeout_next s"
  by (simp_all add: ap_sta_set_authorized_def)

lemma sta_inv_cong:
  "sta_hash h' = sta_hash h \<Longrightarrow> sta_list h' = sta_list h \<Longrightarrow> num_sta h' = num_sta h \<Longrightarrow>
   stas h' = stas h \<Longrightarrow> sta_inv h' = sta_inv h"
  by (simp add: sta_inv_def sta_keys_def)

lemma sta_inv_put [inv_intros]:
  "sta_inv h \<Longrightarrow> sta_addr s \<in> sta_keys h \<Longrightarrow> sta_inv (put_sta s h)"
  by (auto simp: sta_inv_def sta_keys_def)

lemma sta_keys_simps [simp]:
  "sta_keys (emit e h) = sta_keys h" "sta_keys (emit_if b e h) = sta_keys h"
  "sta_keys (eloop_cancel_timeout k m h) = sta_keys h" "sta_keys (eloop_register_timeout n k m h) = sta_keys h"
  "sta_keys (put_sta s h) = sta_keys h" "sta_keys (fst (ap_sta_set_authorized h s a)) = sta_keys h"
  by (simp_all add: sta_keys_def)

lemma sta_inv_simps [simp]:
  "sta_inv (emit e h) = sta_inv h" "sta_inv (emit_if b e h) = sta_inv h"
  "sta_inv (eloop_cancel_timeout k m h) = sta_inv h" "sta_inv (eloop_register_timeout n k m h) = sta_inv h"
  "sta_inv (fst (ap_sta_set_authorized h s a)) = sta_inv h"
  by (rule sta_inv_cong; simp)+

lemma sta_lookup: "sta_inv h \<Longrightarrow> m \<in> sta_keys h \<Longrightarrow> \<exists>s. stas h m = Some s \<and> sta_addr s = m"
  unfolding sta_inv_def by (metis domD)

section \<open>Freeing a station\<close>

definition unlink_sta :: "mac \<Rightarrow> hostapd_data \<Rightarrow> hostapd_data \<Rightarrow> bool" where
  "unlink_sta m h h' \<longleftrightarrow>
     sta_hash h' = (sta_hash h)[STA_HASH m := remove_first (\<lambda>x. x = m) (sta_hash h ! STA_HASH m)] \<and>
     sta_list h' = remove_first (\<lambda>x. x = m) (sta_list h) \<and> num_sta h' = num_sta h - 1 \<and>
     stas h' = (stas h)(m := None)"

lemma set_remove_first_distinct: "distinct xs \<Longrightarrow> set (remove_first (\<lambda>x. x = m) xs) = set xs - {m}"
  by (induction xs) auto

lemma distinct_remove_first: "distinct xs \<Longrightarrow> distinct (remove_first P xs)"
  using distinct_map_remove_first[of id xs P] by simp

lemma unlink_sta_inv:
  assumes "sta_inv h" "m \<in> sta_keys h" "unlink_sta m h h'"
  shows "sta_inv h'" "sta_keys h' = sta_keys h - {m}"
proof -
  have wf: "sh.wf (sta_hash h)" and k: "m \<in> sh.keys (sta_hash h)" and l: "distinct (sta_list h)"
    "set (sta_list h) = sta_keys h"
    using assms by (auto simp: sta_inv_def sta_keys_def)
  note u = sh.unlink[OF wf k]
  show keys: "sta_keys h' = sta_keys h - {m}"
    using assms(3) u(2) by (simp add: unlink_sta_def sta_keys_def)
  have "length (remove_first (\<lambda>x. x = m) (sta_list h)) = length (sta_list h) - 1" "sta_list h \<noteq> []"
    using assms(2) l length_remove_first[of m "sta_list h" "\<lambda>x. x = m"] by auto
  then show "sta_inv h'"
    using assms u(1) keys l unfolding sta_inv_def unlink_sta_def
    by (auto simp: set_remove_first_distinct distinct_remove_first Suc_le_eq of_nat_diff)
qed

lemma timers_cancel_all: "timers (cancel_all m h) =
    filter (\<lambda>(k, n, _). n \<noteq> m) (timers h)"
proof -
  have "k \<in> {HandleTimer, SessionTimer, SessionWarningTimer, DeauthCb, DisassocCb}" for k
    by (cases k) simp_all
  then show ?thesis
    by (auto simp: cancel_all_def eloop_cancel_timeout_def intro!: filter_cong)
qed

lemma cancel_all_simps [simp]:
  "sta_hash (cancel_all m h) = sta_hash h" "sta_list (cancel_all m h) = sta_list h"
  "num_sta (cancel_all m h) = num_sta h" "stas (cancel_all m h) = stas h" "hevents (cancel_all m h) = hevents h"
  "conf_ssid (cancel_all m h) = conf_ssid h" "own_addr (cancel_all m h) = own_addr h"
  by (simp_all add: cancel_all_def)

lemma ap_free_sta_effect:
  assumes "stas h m = Some s" "length (conf_ssid h) < 32"
  obtains c' h' where "ap_free_sta c h m = Inr (c', h')" "unlink_sta m h h'"
    "timers h' = filter (\<lambda>(k, n, _). n \<noteq> m) (timers h)" "conf_ssid h' = conf_ssid h" "own_addr h' = own_addr h"
    "\<exists>es. hevents h' = hevents h @
       SendDelSta \<lparr>us_ap_mac = own_addr h, us_sta_mac = m, us_ssid = conf_ssid h\<rparr> # es \<and>
       (\<forall>u. SendDelSta u \<notin> set es)"
proof -
  obtain h2 s2 where a: "ap_sta_set_authorized (emit (AccountingStop m) (emit (SendDelSta
      \<lparr>us_ap_mac = own_addr h, us_sta_mac = m, us_ssid = conf_ssid h\<rparr>) h)) s False = (h2, s2)"
    by fastforce
  have h2: "sta_hash h2 = sta_hash h" "sta_list h2 = sta_list h" "num_sta h2 = num_sta h" "stas h2 = stas h"
    "timers h2 = timers h" "conf_ssid h2 = conf_ssid h" "own_addr h2 = own_addr h"
    using set_authorized_simps[of "emit (AccountingStop m) (emit (SendDelSta
      \<lparr>us_ap_mac = own_addr h, us_sta_mac = m, us_ssid = conf_ssid h\<rparr>) h)" s False] a by simp_all
  obtain es where es: "hevents h2 = hevents h @
      SendDelSta \<lparr>us_ap_mac = own_addr h, us_sta_mac = m, us_ssid = conf_ssid h\<rparr> # es" "\<forall>u. SendDelSta u \<notin> set es"
    using a by (auto simp: ap_sta_set_authorized_def split: if_splits)
  obtain c' sb where c: "leave_counters c s2 = (c', sb)"
    by fastforce
  define h5 where "h5 = emit_if (\<not> driver_ap_teardown c \<and> \<not> has_flag s2 WLAN_STA_PREAUTH) (DrvStaRemove m)
    (emit_if (ipaddr s2 \<noteq> 0) (DeleteIpNeigh m) (emit_if (has_flag s2 WLAN_STA_WDS) (SetWdsSta m) h2))"
  define h6 where "h6 = ap_sta_list_del (ap_sta_hash_del h5 m) m"
  define h7 where "h7 = (if aid s2 > 0 then h6\<lparr>sta_aid := clear_aid (aid s2) (sta_aid h6)\<rparr> else h6)"
  define h10 where "h10 = emit (Free8021x m) (cancel_all m (emit_if sb SetBeacons (h7\<lparr>num_sta := num_sta h7 - 1\<rparr>)))"
  have h7: "sta_hash h7 = (sta_hash h)[STA_HASH m := remove_first (\<lambda>x. x = m) (sta_hash h ! STA_HASH m)]"
    "sta_list h7 = remove_first (\<lambda>x. x = m) (sta_list h)" "num_sta h7 = num_sta h" "stas h7 = stas h"
    "timers h7 = timers h" "conf_ssid h7 = conf_ssid h" "own_addr h7 = own_addr h" "hevents h7 = hevents h5"
    by (simp_all add: h7_def h6_def ap_sta_list_del_def ap_sta_hash_del_eq h5_def h2)
  have "ap_free_sta c h m = Inr (c', h10\<lparr>stas := (stas h10)(m := None)\<rparr>)"
    using assms a c by (simp add: ap_free_sta_def with_sta_def make_update_station_def Let_def h5_def h6_def h7_def h10_def)
  then show ?thesis
  proof (rule that)
    show "unlink_sta m h (h10\<lparr>stas := (stas h10)(m := None)\<rparr>)"
      by (simp add: unlink_sta_def h10_def h7)
    show "timers (h10\<lparr>stas := (stas h10)(m := None)\<rparr>) = filter (\<lambda>(k, n, _). n \<noteq> m) (timers h)"
      by (simp add: h10_def timers_cancel_all h7)
    show "\<exists>es. hevents (h10\<lparr>stas := (stas h10)(m := None)\<rparr>) = hevents h @
       SendDelSta \<lparr>us_ap_mac = own_addr h, us_sta_mac = m, us_ssid = conf_ssid h\<rparr> # es \<and>
       (\<forall>u. SendDelSta u \<notin> set es)"
      using es by (simp add: h10_def h7 h5_def)
  qed (simp_all add: h10_def h7)
qed

lemma ap_free_sta_ok:
  assumes "sta_inv h" "m \<in> sta_keys h" "length (conf_ssid h) < 32"
  obtains c' h' where "ap_free_sta c h m = Inr (c', h')" "sta_inv h'" "sta_keys h' = sta_keys h - {m}"
    "timers h' = filter (\<lambda>(k, n, _). n \<noteq> m) (timers h)" "conf_ssid h' = conf_ssid h"
    "\<exists>es. hevents h' = hevents h @
       SendDelSta \<lparr>us_ap_mac = own_addr h, us_sta_mac = m, us_ssid = conf_ssid h\<rparr> # es \<and>
       (\<forall>u. SendDelSta u \<notin> set es)"
proof -
  obtain s where "stas h m = Some s"
    using sta_lookup[OF assms(1,2)] by blast
  then show ?thesis
    by (rule ap_free_sta_effect[OF _ assms(3), of m s c]) (use that unlink_sta_inv[OF assms(1,2)] in blast)
qed

section \<open>Joining and disassociating\<close>

lemma ap_sta_add_inv:
  assumes "sta_inv h" "ap_sta_add alloc no_timer h m = (r, h')"
  shows "sta_inv h'" "r = Some m' \<Longrightarrow> m' = m \<and> ap_get_sta h' m = Some m"
    "r = None \<Longrightarrow> h' = h \<and> (num_sta h \<ge> max_num_sta h \<or> \<not> alloc)"
proof -
  let ?h1 = "if no_timer then h else eloop_register_timeout (ap_max_inactivity h) HandleTimer m h"
  let ?h2 = "?h1\<lparr>sta_list := m # sta_list ?h1, num_sta := num_sta ?h1 + 1\<rparr>"
  let ?n = "put_sta (new_sta m) (ap_sta_hash_add ?h2 m)"
  have cases: "(m \<in> sta_keys h \<and> r = Some m \<and> h' = h) \<or>
      (m \<notin> sta_keys h \<and> r = None \<and> h' = h \<and> (num_sta h \<ge> max_num_sta h \<or> \<not> alloc)) \<or>
      (m \<notin> sta_keys h \<and> r = Some m \<and> h' = ?n)"
    using assms(2) by (auto simp: ap_sta_add_def ap_get_sta_eq[OF assms(1)] Let_def split: if_splits)
  have new: "sta_inv ?n \<and> m \<in> sta_keys ?n" if k: "m \<notin> sta_keys h"
  proof -
    have wf: "sh.wf (sta_hash h)" "m \<notin> sh.keys (sta_hash h)"
      using assms(1) k by (simp_all add: sta_inv_def sta_keys_def)
    have t: "sta_hash ?n = (sta_hash h)[STA_HASH m := m # sta_hash h ! STA_HASH m]" "sta_list ?n = m # sta_list h"
      "num_sta ?n = num_sta h + 1" "stas ?n = (stas h)(m \<mapsto> new_sta m)"
      by (simp_all add: ap_sta_hash_add_def new_sta_def)
    have keys: "sta_keys ?n = insert m (sta_keys h)"
      using sh.push(2)[OF wf] t(1) by (simp add: sta_keys_def)
    moreover have "sh.wf (sta_hash ?n)"
      using sh.push(1)[OF wf] t(1) by simp
    moreover have "sta_addr (new_sta m) = m"
      by (simp add: new_sta_def)
    ultimately show ?thesis
      using assms(1) k t(2-4) by (auto simp: sta_inv_def simp del: put_sta_simps split: if_splits)
  qed
  show inv: "sta_inv h'"
    using cases new assms(1) by blast
  show "m' = m \<and> ap_get_sta h' m = Some m" if "r = Some m'"
    using cases new that ap_get_sta_eq[OF inv, of m] by auto
  show "h' = h \<and> (num_sta h \<ge> max_num_sta h \<or> \<not> alloc)" if "r = None"
    using cases that by auto
qed

lemma has_flag_set_other: "f AND g = 0 \<Longrightarrow> has_flag (set_flag f s) g = has_flag s g"
  by (simp add: has_flag_def set_flag_def bit.conj_disj_distrib2)

lemma has_flag_set_same: "f \<noteq> 0 \<Longrightarrow> has_flag (set_flag f s) f"
  by (auto simp: has_flag_def set_flag_def bit.conj_disj_distrib2 or_eq_0_iff)

lemma has_flag_clear: "f AND g = g \<Longrightarrow> \<not> has_flag (clear_flag f s) g"
proof -
  assume "f AND g = g"
  then have "sta_flags s AND NOT f AND g = sta_flags s AND (NOT f AND (f AND g))"
    by (simp add: and.assoc)
  also have "\<dots> = 0"
    by (simp add: and.assoc[symmetric])
  finally show ?thesis
    by (simp add: has_flag_def clear_flag_def and.assoc)
qed

lemma ap_sta_disassociate_ok:
  assumes "sta_inv h" "m \<in> sta_keys h"
  obtains h' s' where "ap_sta_disassociate c h m reason = Inr h'" "sta_inv h'" "sta_keys h' = sta_keys h"
    "stas h' m = Some s'" "timeout_next s' = STA_DEAUTH" "\<not> has_flag s' WLAN_STA_ASSOC"
    "disassoc_reason s' = reason" "(HandleTimer, m, 30) \<in> set (timers h')" "own_addr h' = own_addr h"
    "conf_ssid h' = conf_ssid h"
proof -
  obtain s where s: "stas h m = Some s" "sta_addr s = m"
    using sta_lookup[OF assms] by blast
  define s1 where "s1 = clear_flag (WLAN_STA_ASSOC OR WLAN_STA_ASSOC_REQ_OK) (s\<lparr>last_seq_ctrl := 0xFFFF\<rparr>)"
  obtain h1 s2 where a: "ap_sta_set_authorized h s1 False = (h1, s2)"
    by fastforce
  have h1: "sta_inv h1" "sta_keys h1 = sta_keys h" "own_addr h1 = own_addr h" "conf_ssid h1 = conf_ssid h"
    "sta_addr s2 = m"
    using a assms(1) set_authorized_simps[of h s1 False] sta_inv_simps(5)[of h s1 False]
      sta_keys_simps(6)[of h s1 False] s(2) by (simp_all add: s1_def)
  have "\<not> has_flag s1 WLAN_STA_ASSOC"
    unfolding s1_def by (rule has_flag_clear) (simp add: WLAN_STA_ASSOC_def WLAN_STA_ASSOC_REQ_OK_def)
  then have f2: "\<not> has_flag s2 WLAN_STA_ASSOC"
    using a has_flag_clear[of WLAN_STA_ASSOC WLAN_STA_ASSOC]
    by (auto simp: ap_sta_set_authorized_def has_flag_def clear_flag_def and.assoc split: if_splits)
      (simp add: WLAN_STA_ASSOC_def WLAN_STA_AUTHORIZED_def and.assoc)
  define s4 where "s4 = set_flag WLAN_STA_PENDING_DISASSOC_CB (s2\<lparr>timeout_next := STA_DEAUTH, disassoc_reason := reason\<rparr>)"
  define h4 where "h4 = eloop_register_timeout (if deauth_tx_status c then 2 else 0) DisassocCb m
    (eloop_cancel_timeout DisassocCb m (emit (Free8021x m) (emit (AccountingStop m)
      (eloop_register_timeout 30 HandleTimer m (eloop_cancel_timeout HandleTimer m h1)))))"
  have "ap_sta_disassociate c h m reason = Inr (put_sta s4 h4)"
    using s(1) a by (simp add: ap_sta_disassociate_def with_sta_def s1_def s4_def h4_def Let_def)
  moreover have "sta_inv (put_sta s4 h4)"
    using h1 assms(2) by (intro sta_inv_put) (simp_all add: h4_def s4_def)
  moreover have "\<not> has_flag s4 WLAN_STA_ASSOC"
    unfolding s4_def using f2
    by (subst has_flag_set_other) (simp_all add: WLAN_STA_ASSOC_def WLAN_STA_PENDING_DISASSOC_CB_def has_flag_def)
  moreover have "timers h4 = filter (\<lambda>(k', m', _). \<not> (k' = DisassocCb \<and> m' = m))
      (timers (eloop_register_timeout 30 HandleTimer m (eloop_cancel_timeout HandleTimer m h1))) @
      [(DisassocCb, m, if deauth_tx_status c then 2 else 0)]"
    by (simp add: h4_def eloop_cancel_timeout_def emit_def eloop_register_timeout_def)
  then have "(HandleTimer, m, 30) \<in> set (timers (put_sta s4 h4))"
    by simp
  ultimately show ?thesis
    using that[of "put_sta s4 h4" s4] h1 by (simp add: h4_def s4_def set_flag_def)
qed

section \<open>The inactivity timer\<close>

text \<open>
  Successive calls of the timer of one station, with what the driver reports as its inactivity
  unchanged. A call for a station that is gone never happens: its timers are cancelled.
\<close>

primrec timer_run ::
  "nat \<Rightarrow> int \<Rightarrow> int \<Rightarrow> iface_counters \<Rightarrow> hostapd_data \<Rightarrow> mac \<Rightarrow> (iface_counters \<times> hostapd_data) res" where
  "timer_run 0 inact fuzz c h m = Inr (c, h)"
| "timer_run (Suc n) inact fuzz c h m =
     bind_res (ap_handle_timer inact fuzz c h m) (\<lambda>(c', h'). timer_run n inact fuzz c' h' m)"

text \<open>The address, the length of the SSID and the limits of a BSS, which its timers leave alone.\<close>

definition same_conf :: "hostapd_data \<Rightarrow> hostapd_data \<Rightarrow> bool" where
  "same_conf h h' \<longleftrightarrow> own_addr h' = own_addr h \<and> conf_ssid h' = conf_ssid h \<and>
     ap_max_inactivity h' = ap_max_inactivity h \<and> skip_inactivity_poll h' = skip_inactivity_poll h"

lemma same_conf_helpers [simp]:
  "same_conf h h" "same_conf h (emit e h') = same_conf h h'" "same_conf h (put_sta s h') = same_conf h h'"
  "same_conf h (eloop_register_timeout n k m h') = same_conf h h'"
  "same_conf h (fst (ap_sta_set_authorized h' s a)) = same_conf h h'"
  by (simp_all add: same_conf_def emit_def put_sta_def eloop_register_timeout_def ap_sta_set_authorized_def)

lemma assoc_poll_flags:
  "has_flag (set_flag WLAN_STA_PENDING_POLL s) WLAN_STA_ASSOC = has_flag s WLAN_STA_ASSOC"
  "has_flag (set_flag WLAN_STA_PENDING_POLL s) WLAN_STA_PENDING_POLL"
  by (rule has_flag_set_other, simp add: WLAN_STA_PENDING_POLL_def WLAN_STA_ASSOC_def)
    (rule has_flag_set_same, simp add: WLAN_STA_PENDING_POLL_def)

lemma has_flag_update [simp]:
  "has_flag (s\<lparr>timeout_next := t\<rparr>) f = has_flag s f" "has_flag (s\<lparr>acct_terminate_cause := n\<rparr>) f = has_flag s f"
  by (simp_all add: has_flag_def)

text \<open>First call on a silent station that was not polled yet: it is polled, or disassociated at once.\<close>

lemma timer_poll:
  assumes "sta_inv h" "stas h m = Some s" "has_flag s WLAN_STA_ASSOC" "timeout_next s = STA_NULLFUNC"
    "ap_max_inactivity h \<le> inact" "0 \<le> inact" "\<not> skip_inactivity_poll h"
  obtains h' s' where "ap_handle_timer inact fuzz c h m = Inr (c, h')" "sta_inv h'" "sta_keys h' = sta_keys h"
    "stas h' m = Some s'" "has_flag s' WLAN_STA_ASSOC" "has_flag s' WLAN_STA_PENDING_POLL"
    "timeout_next s' = STA_DISASSOC" "same_conf h h'"
proof -
  have m: "sta_addr s = m" "m \<in> sta_keys h"
    using assms(1,2) by (auto simp: sta_inv_def)
  let ?s = "set_flag WLAN_STA_PENDING_POLL s"
  let ?h = "eloop_register_timeout 3 HandleTimer m (put_sta (?s\<lparr>timeout_next := STA_DISASSOC\<rparr>)
    (emit (DrvPollClient m (has_flag ?s WLAN_STA_WMM)) h))"
  have "ap_handle_timer inact fuzz c h m = Inr (c, ?h)"
    using assms m by (simp add: ap_handle_timer_def with_sta_def timer_check_inactivity_def timer_check_poll_def
        timer_notify_def timer_advance_def Let_def)
  moreover have "sta_inv ?h"
    using m assms(1) by (simp add: sta_inv_put)
  ultimately show ?thesis
    using that[of ?h "?s\<lparr>timeout_next := STA_DISASSOC\<rparr>"] m assms(3) by (simp add: assoc_poll_flags)
qed

text \<open>The call that disassociates: the poll was not answered, or polling is switched off.\<close>

lemma timer_disassoc:
  assumes "sta_inv h" "stas h m = Some s" "has_flag s WLAN_STA_ASSOC"
    "timeout_next s = STA_DISASSOC \<and> has_flag s WLAN_STA_PENDING_POLL \<or>
     (timeout_next s = STA_NULLFUNC \<or> timeout_next s = STA_DISASSOC) \<and> skip_inactivity_poll h"
    "ap_max_inactivity h \<le> inact" "0 \<le> inact"
  obtains h' s' where "ap_handle_timer inact fuzz c h m = Inr (c, h')" "sta_inv h'" "sta_keys h' = sta_keys h"
    "stas h' m = Some s'" "timeout_next s' = STA_DEAUTH" "same_conf h h'"
    "DrvStaDisassoc (own_addr h) m 4 \<in> set (hevents h')"
proof -
  have m: "sta_addr s = m" "m \<in> sta_keys h"
    using assms(1,2) by (auto simp: sta_inv_def)
  let ?s = "s\<lparr>timeout_next := STA_DISASSOC\<rparr>" and ?e = "emit (DrvStaDisassoc (own_addr h) m 4) h"
  obtain h1 s1 where a: "ap_sta_set_authorized ?e ?s False = (h1, s1)"
    by fastforce
  let ?s2 = "(set_idle_cause (clear_flag WLAN_STA_ASSOC s1))\<lparr>timeout_next := STA_DEAUTH\<rparr>"
  let ?h = "emit (MlmeDisassoc m 4) (eloop_register_timeout 1 HandleTimer m (put_sta ?s2
    (emit (Free8021x m) (emit (AccountingStop m) (emit (PortEnabled m False) h1)))))"
  have a': "ap_sta_set_authorized ?e s False = (h1, s1)" if "timeout_next s = STA_DISASSOC"
  proof -
    have "s\<lparr>timeout_next := STA_DISASSOC\<rparr> = s"
      using that by (cases s) simp
    then show ?thesis
      using a by simp
  qed
  have "ap_handle_timer inact fuzz c h m = Inr (c, ?h)"
    using assms m a a'
    by (auto simp: ap_handle_timer_def with_sta_def timer_check_inactivity_def timer_check_poll_def
        timer_notify_def timer_advance_def Let_def)
  moreover have f: "sta_inv h1" "sta_keys h1 = sta_keys h" "stas h1 = stas h" "sta_addr s1 = m" "same_conf h h1"
    using a assms(1) m set_authorized_simps[of ?e ?s False] sta_inv_simps(5)[of ?e ?s False]
      sta_keys_simps(6)[of ?e ?s False] same_conf_helpers(5)[of h ?e ?s False] by simp_all
  moreover have addr: "sta_addr ?s2 = m"
    using f(4) by (simp add: set_idle_cause_def)
  moreover have "sta_inv ?h"
    using f m(2) addr by (simp add: sta_inv_put)
  moreover have "DrvStaDisassoc (own_addr h) m 4 \<in> set (hevents h1)"
    using a by (auto simp: ap_sta_set_authorized_def split: if_splits)
  ultimately show ?thesis
    using that[of ?h ?s2] by simp
qed

lemma timer_remove:
  assumes "sta_inv h" "stas h m = Some s" "timeout_next s = STA_DEAUTH" "length (conf_ssid h) < 32"
  obtains c' h' where "ap_handle_timer inact fuzz c h m = Inr (c', h')" "sta_inv h'"
    "sta_keys h' = sta_keys h - {m}" "\<forall>k n. (k, m, n) \<notin> set (timers h')"
    "SendDelSta \<lparr>us_ap_mac = own_addr h, us_sta_mac = m, us_ssid = conf_ssid h\<rparr> \<in> set (hevents h')"
proof -
  have m: "sta_addr s = m" "m \<in> sta_keys h"
    using assms(1,2) by (auto simp: sta_inv_def)
  let ?h = "put_sta (set_idle_cause s) (emit (MlmeDeauth m 2) (emit (DrvStaDeauth m 2) h))"
  have addr: "sta_addr (set_idle_cause s) = m"
    using m(1) by (simp add: set_idle_cause_def)
  have e: "ap_handle_timer inact fuzz c h m = ap_free_sta c ?h m"
    using assms m by (simp add: ap_handle_timer_def with_sta_def timer_check_inactivity_def timer_check_poll_def
        timer_notify_def timer_advance_def Let_def)
  have inv: "sta_inv ?h" "m \<in> sta_keys ?h" "length (conf_ssid ?h) < 32"
    using assms(1,4) m(2) addr by (simp_all add: sta_inv_put)
  obtain c' h' where r: "ap_free_sta c ?h m = Inr (c', h')" "sta_inv h'" "sta_keys h' = sta_keys ?h - {m}"
    "timers h' = filter (\<lambda>(k, n, _). n \<noteq> m) (timers ?h)"
    "\<exists>es. hevents h' = hevents ?h @
       SendDelSta \<lparr>us_ap_mac = own_addr ?h, us_sta_mac = m, us_ssid = conf_ssid ?h\<rparr> # es \<and>
       (\<forall>u. SendDelSta u \<notin> set es)"
    by (rule ap_free_sta_ok[OF inv, of c]) blast
  show ?thesis
    using r e by (intro that[of c' h']) auto
qed

text \<open>An associated station that the driver reports as active is left alone and rescheduled.\<close>

lemma timer_active:
  assumes "sta_inv h" "stas h m = Some s" "has_flag s WLAN_STA_ASSOC"
    "timeout_next s = STA_NULLFUNC \<or> timeout_next s = STA_DISASSOC"
    "0 \<le> inact" "inact < ap_max_inactivity h" "0 \<le> fuzz"
  shows "ap_handle_timer inact fuzz c h m =
    Inr (c, eloop_register_timeout (ap_max_inactivity h + fuzz - inact) HandleTimer m
              (put_sta (s\<lparr>timeout_next := STA_NULLFUNC\<rparr>) h))"
  using assms by (auto simp: ap_handle_timer_def with_sta_def timer_check_inactivity_def timer_check_poll_def)

section \<open>Removing all stations\<close>

lemma free_stas_loop_ok:
  "sta_inv h \<Longrightarrow> set ms \<subseteq> sta_keys h \<Longrightarrow> distinct ms \<Longrightarrow> length (conf_ssid h) < 32 \<Longrightarrow>
   \<exists>c' h'. hostapd_free_stas_loop c h ms = Inr (c', h') \<and> sta_inv h' \<and> sta_keys h' = sta_keys h - set ms \<and>
     timers h' = filter (\<lambda>(k, n, _). n \<notin> set ms) (timers h) \<and> conf_ssid h' = conf_ssid h"
proof (induction ms arbitrary: c h)
  case (Cons m ms)
  obtain s where s: "stas h m = Some s"
    using sta_lookup[OF Cons.prems(1), of m] Cons.prems(2) by auto
  let ?h = "emit_if (has_flag s WLAN_STA_AUTH) (MlmeDeauth m 1) h"
  have p: "sta_inv ?h" "m \<in> sta_keys ?h" "length (conf_ssid ?h) < 32"
    using Cons.prems by simp_all
  obtain c1 h1 where f: "ap_free_sta c ?h m = Inr (c1, h1)" "sta_inv h1" "sta_keys h1 = sta_keys ?h - {m}"
    "timers h1 = filter (\<lambda>(k, n, _). n \<noteq> m) (timers ?h)" "conf_ssid h1 = conf_ssid ?h"
    by (rule ap_free_sta_ok[OF p, of c]) blast
  have "set ms \<subseteq> sta_keys h1" "distinct ms" "length (conf_ssid h1) < 32"
    using Cons.prems f(3,5) by auto
  then obtain c' h' where r: "hostapd_free_stas_loop c1 h1 ms = Inr (c', h')" "sta_inv h'"
    "sta_keys h' = sta_keys h1 - set ms" "timers h' = filter (\<lambda>(k, n, _). n \<notin> set ms) (timers h1)"
    "conf_ssid h' = conf_ssid h1"
    using Cons.IH[OF f(2)] by blast
  have "timers h' = filter (\<lambda>(k, n, _). n \<notin> set (m # ms)) (timers h)"
    using r(4) f(4) by (auto intro!: filter_cong)
  moreover have "sta_keys h' = sta_keys h - set (m # ms)"
    using r(3) f(3) by auto
  ultimately show ?case
    using s f(1,5) r(1,2,5) by (simp add: with_sta_def)
qed simp

section \<open>Roaming between the BSSs of an interface\<close>

text \<open>A station that is connected to a BSS: authenticated or associated there.\<close>

definition sta_connected :: "mac \<Rightarrow> hostapd_data \<Rightarrow> bool" where
  "sta_connected m h \<longleftrightarrow> (\<exists>s. stas h m = Some s \<and> (has_flag s WLAN_STA_AUTH \<or> has_flag s WLAN_STA_ASSOC))"

lemma disconnect_sta_ok:
  assumes "sta_inv h" "stas h m = Some s"
  shows "sta_inv (disconnect_sta c h s r)" "\<not> sta_connected m (disconnect_sta c h s r)"
    "sta_keys (disconnect_sta c h s r) = sta_keys h"
proof -
  have m: "sta_addr s = m" "m \<in> sta_keys h"
    using assms by (auto simp: sta_inv_def)
  obtain h1 s1 where a: "ap_sta_set_authorized h s False = (h1, s1)"
    by fastforce
  have h1: "sta_inv h1" "sta_keys h1 = sta_keys h" "sta_addr s1 = m"
    using a assms(1) m set_authorized_simps[of h s False] sta_inv_simps(5)[of h s False]
      sta_keys_simps(6)[of h s False] by simp_all
  let ?s = "set_flag WLAN_STA_PENDING_DEAUTH_CB ((clear_flag (WLAN_STA_AUTH OR WLAN_STA_ASSOC) s1)
    \<lparr>timeout_next := STA_REMOVE, deauth_reason := r\<rparr>)"
  let ?h = "eloop_register_timeout (if deauth_tx_status c then 2 else 0) DeauthCb m
    (eloop_cancel_timeout DeauthCb m (eloop_register_timeout 5 HandleTimer m
      (eloop_cancel_timeout HandleTimer m (emit (PortEnabled m False) (emit (WpaDeauth m) h1)))))"
  have d: "disconnect_sta c h s r = put_sta ?s ?h"
    using a m(1) by (simp add: disconnect_sta_def Let_def)
  have addr: "sta_addr ?s = m"
    using h1(3) by simp
  show "sta_inv (disconnect_sta c h s r)"
    unfolding d using h1 m addr by (intro sta_inv_put) simp_all
  show "sta_keys (disconnect_sta c h s r) = sta_keys h"
    unfolding d using h1 by simp
  have "\<not> has_flag (clear_flag (WLAN_STA_AUTH OR WLAN_STA_ASSOC) s1) WLAN_STA_AUTH"
    "\<not> has_flag (clear_flag (WLAN_STA_AUTH OR WLAN_STA_ASSOC) s1) WLAN_STA_ASSOC"
    by (rule has_flag_clear, simp add: WLAN_STA_AUTH_def WLAN_STA_ASSOC_def)+
  moreover have "WLAN_STA_PENDING_DEAUTH_CB AND WLAN_STA_AUTH = 0" "WLAN_STA_PENDING_DEAUTH_CB AND WLAN_STA_ASSOC = 0"
    by (simp_all add: WLAN_STA_PENDING_DEAUTH_CB_def WLAN_STA_AUTH_def WLAN_STA_ASSOC_def)
  ultimately have "\<not> has_flag ?s WLAN_STA_AUTH" "\<not> has_flag ?s WLAN_STA_ASSOC"
    by (simp_all add: has_flag_set_other) (simp_all add: has_flag_def)
  then show "\<not> sta_connected m (disconnect_sta c h s r)"
    unfolding d sta_connected_def using addr by simp
qed

lemma ap_sta_disconnect_ok:
  assumes "sta_inv h" "m \<in> sta_keys h"
  obtains h' where "ap_sta_disconnect c h m r = Inr h'" "sta_inv h'" "\<not> sta_connected m h'" "sta_keys h' = sta_keys h"
proof -
  obtain s where s: "stas h m = Some s"
    using sta_lookup[OF assms] by blast
  let ?h = "emit (DrvStaDeauth m r) h"
  have "sta_inv ?h" "stas ?h m = Some s"
    using assms(1) s by simp_all
  from disconnect_sta_ok[OF this, of c r] show ?thesis
    using that[of "disconnect_sta c ?h s r"] s assms
    by (simp add: ap_sta_disconnect_def ap_get_sta_eq with_sta_def)
qed

lemma not_connected_absent: "sta_inv h \<Longrightarrow> m \<notin> sta_keys h \<Longrightarrow> \<not> sta_connected m h"
  by (auto simp: sta_connected_def sta_inv_def)

lemma remove_in_other_bss_ok:
  "\<forall>b \<in> set bs. sta_inv b \<Longrightarrow>
   \<exists>bs'. remove_in_other_bss c i m j bs = Inr bs' \<and> length bs' = length bs \<and> (\<forall>b \<in> set bs'. sta_inv b) \<and>
     (\<forall>k < length bs. j + k \<noteq> i \<longrightarrow> \<not> sta_connected m (bs' ! k)) \<and> (\<forall>k < length bs. j + k = i \<longrightarrow> bs' ! k = bs ! k)"
proof (induction bs arbitrary: j)
  case (Cons b bs)
  obtain bs' where bs': "remove_in_other_bss c i m (Suc j) bs = Inr bs'" "length bs' = length bs"
    "\<forall>b \<in> set bs'. sta_inv b" "\<forall>k < length bs. Suc j + k \<noteq> i \<longrightarrow> \<not> sta_connected m (bs' ! k)"
    "\<forall>k < length bs. Suc j + k = i \<longrightarrow> bs' ! k = bs ! k"
    using Cons.IH[of "Suc j"] Cons.prems by auto
  have inv: "sta_inv b"
    using Cons.prems by simp
  obtain b' where b': "(if j = i \<or> ap_get_sta b m = None then Inr b else ap_sta_disconnect c b m 2) = Inr b'"
    "sta_inv b'" "j \<noteq> i \<Longrightarrow> \<not> sta_connected m b'" "j = i \<Longrightarrow> b' = b"
  proof (cases "j = i \<or> ap_get_sta b m = None")
    case True
    then show ?thesis
      using that[of b] inv not_connected_absent[OF inv, of m] by (auto simp: ap_get_sta_eq split: if_splits)
  next
    case False
    then have "m \<in> sta_keys b"
      using inv by (auto simp: ap_get_sta_eq split: if_splits)
    from ap_sta_disconnect_ok[OF inv this, of c 2] show ?thesis
      using that False by auto
  qed
  have "\<forall>k < length (b # bs). j + k \<noteq> i \<longrightarrow> \<not> sta_connected m ((b' # bs') ! k)"
    using b'(3) bs'(4) by (auto simp: less_Suc_eq_0_disj)
  moreover have "\<forall>k < length (b # bs). j + k = i \<longrightarrow> (b' # bs') ! k = (b # bs) ! k"
    using b'(4) bs'(5) by (auto simp: less_Suc_eq_0_disj)
  ultimately show ?case
    using b'(1,2) bs'(1-3) by (intro exI[of _ "b' # bs'"]) simp
qed simp

section \<open>Properties\<close>



text \<open>
  An active station is never disconnected by its timer: while the driver reports less than the
  limit of inactivity, every call leaves the station table and the events unchanged and schedules
  the next call in a positive number of seconds.
\<close>

theorem ap_handle_timer_keeps_active:
  assumes "sta_inv h" "stas h m = Some s" "has_flag s WLAN_STA_ASSOC"
    "timeout_next s = STA_NULLFUNC \<or> timeout_next s = STA_DISASSOC"
    "0 \<le> inact" "inact < ap_max_inactivity h" "0 \<le> fuzz"
  shows "\<exists>h' t. ap_handle_timer inact fuzz c h m = Inr (c, h') \<and> sta_inv h' \<and> hevents h' = hevents h \<and>
    (\<forall>n. ap_get_sta h' n = ap_get_sta h n) \<and> stas h' m = Some (s\<lparr>timeout_next := STA_NULLFUNC\<rparr>) \<and>
    0 < t \<and> timers h' = timers h @ [(HandleTimer, m, t)]"
proof -
  have m: "sta_addr s = m" "m \<in> sta_keys h"
    using assms(1,2) by (auto simp: sta_inv_def)
  let ?h = "eloop_register_timeout (ap_max_inactivity h + fuzz - inact) HandleTimer m
    (put_sta (s\<lparr>timeout_next := STA_NULLFUNC\<rparr>) h)"
  have "sta_inv ?h"
    using assms(1) m by (simp add: sta_inv_put)
  then show ?thesis
    using timer_active[OF assms, of c] assms(1,6,7) m(1)
    by (intro exI[of _ ?h] exI[of _ "ap_max_inactivity h + fuzz - inact"]) (simp add: ap_get_sta_eq)
qed

text \<open>
  A station that joins is found, and only it: after \<^verbatim>\<open>ap_sta_add\<close> succeeds the lookup of
  its address gives it, all other lookups are unchanged and the invariant holds; it fails only when
  the table is full or memory is exhausted, and then changes nothing.
\<close>

theorem ap_sta_add_get:
  assumes "sta_inv h" "ap_sta_add alloc no_timer h m = (r, h')"
  shows "sta_inv h' \<and> (r = Some m \<and> ap_get_sta h' m = Some m \<or>
    r = None \<and> h' = h \<and> (num_sta h \<ge> max_num_sta h \<or> \<not> alloc))"
  using ap_sta_add_inv[OF assms] by (cases r) auto

text \<open>
  The report writes out of bounds for the longest SSIDs. With an SSID of 32 bytes, which the
  configuration allows, freeing any station stores the terminating zero behind the 32-byte array.
\<close>

theorem ap_free_sta_ssid32_overflow:
  assumes "stas h m = Some s" "length (conf_ssid h) = 32"
  shows "ap_free_sta c h m = Inl OutOfBounds"
  using assms by (simp add: ap_free_sta_def with_sta_def make_update_station_def)

text \<open>\<^verbatim>\<open>hostapd_free_stas\<close> empties the table and leaves no timer of any of its stations.\<close>

theorem hostapd_free_stas_empties:
  assumes "sta_inv h" "length (conf_ssid h) < 32"
  shows "\<exists>c' h'. hostapd_free_stas c h = Inr (c', h') \<and> sta_inv h' \<and> sta_list h' = [] \<and> num_sta h' = 0 \<and>
    (\<forall>m. ap_get_sta h' m = None) \<and> (\<forall>k m t. m \<in> sta_keys h \<longrightarrow> (k, m, t) \<notin> set (timers h'))"
proof -
  have l: "set (sta_list h) = sta_keys h" "distinct (sta_list h)"
    using assms(1) by (simp_all add: sta_inv_def)
  obtain c' h' where r: "hostapd_free_stas_loop c h (sta_list h) = Inr (c', h')" "sta_inv h'"
    "sta_keys h' = sta_keys h - set (sta_list h)"
    "timers h' = filter (\<lambda>(k, n, _). n \<notin> set (sta_list h)) (timers h)"
    using free_stas_loop_ok[OF assms(1) _ l(2) assms(2), of c] l(1) by auto
  have "sta_list h' = []" "num_sta h' = 0"
    using r(2,3) l(1) by (auto simp: sta_inv_def)
  then show ?thesis
    using r l(1) by (auto simp: hostapd_free_stas_def ap_get_sta_eq)
qed

text \<open>
  A station is connected to one BSS at a time. When a station joins a BSS where it was unknown,
  it is disconnected from every other BSS of the interface, all tables stay consistent and the
  joined BSS knows it.
\<close>

theorem joining_disconnects_elsewhere:
  assumes "\<forall>b \<in> set bs. sta_inv b" "i < length bs" "ap_get_sta (bs ! i) m = None"
    and "ap_sta_add_bss alloc no_timer c bs i m = Inr (Some m', bs')"
  shows "m' = m \<and> length bs' = length bs \<and> (\<forall>b \<in> set bs'. sta_inv b) \<and> ap_get_sta (bs' ! i) m = Some m \<and>
    (\<forall>k < length bs. k \<noteq> i \<longrightarrow> \<not> sta_connected m (bs' ! k))"
proof -
  obtain h where h: "ap_sta_add alloc no_timer (bs ! i) m = (Some m', h)"
    "remove_in_other_bss c i m 0 (bs[i := h]) = Inr bs'"
    using assms(3,4) by (auto simp: ap_sta_add_bss_def bind_res_Inr_iff split: prod.splits option.splits)
  have inv: "sta_inv (bs ! i)"
    using assms(1,2) by simp
  note add = ap_sta_add_inv[OF inv h(1)]
  have "\<forall>b \<in> set (bs[i := h]). sta_inv b"
    using assms(1) add(1) by (auto dest: subsetD[OF set_update_subset_insert])
  from remove_in_other_bss_ok[OF this, of c i m 0] show ?thesis
    using h(2) add(2)[OF refl] assms(2) by auto
qed

section \<open>Witnesses\<close>

definition wit_bss0 :: hostapd_data where
  "wit_bss0 = \<lparr>own_addr = [2, 0, 0, 0, 0, 1], conf_ssid = ''lab'', ap_max_inactivity = 300,
     skip_inactivity_poll = False, max_num_sta = 16, sta_hash = replicate 256 [], sta_list = [], num_sta = 0,
     sta_aid = replicate AID_WORDS 0, stas = Map.empty, timers = [], hevents = [], own_sta = [0, 0, 0, 0, 0, 0],
     flag_priv = VAP_IDLE, csa_in_progress = False, beacon_set_done = False\<rparr>"

definition wit_mac :: mac where
  "wit_mac = [0xa4, 0x5e, 0x60, 0, 0x0f, 9]"

definition wit_sta :: sta_info where
  "wit_sta = (new_sta wit_mac)\<lparr>sta_flags := 0x23\<rparr>"

definition wit_bss :: hostapd_data where
  "wit_bss = put_sta wit_sta (snd (ap_sta_add True False wit_bss0 wit_mac))"

definition wit_counters :: iface_counters where
  "wit_counters = \<lparr>num_sta_non_erp = 0, num_sta_no_short_slot_time = 0, num_sta_no_short_preamble = 0,
     num_sta_ht_no_gf = 0, num_sta_no_ht = 0, num_sta_ht_20mhz = 0, mode_11g = True,
     driver_ap_teardown = False, deauth_tx_status = True, ht_op_changed = False\<rparr>"

lemma wit_bss0_inv: "sta_inv wit_bss0"
  using sh.wf_empty sh.keys_empty by (simp add: sta_inv_def sta_keys_def wit_bss0_def)

lemma wit_add: "ap_sta_add True False wit_bss0 wit_mac = (Some wit_mac, snd (ap_sta_add True False wit_bss0 wit_mac))"
  using wit_bss0_inv
  by (simp add: ap_sta_add_def ap_get_sta_eq sta_keys_def Let_def)
    (simp add: wit_bss0_def sh.keys_empty)

lemma wit_bss: "sta_inv wit_bss" "wit_mac \<in> sta_keys wit_bss" "stas wit_bss wit_mac = Some wit_sta"
  "conf_ssid wit_bss = ''lab''" "own_addr wit_bss = [2, 0, 0, 0, 0, 1]" "ap_max_inactivity wit_bss = 300"
proof -
  note a = ap_sta_add_inv[OF wit_bss0_inv wit_add]
  have m: "sta_addr wit_sta = wit_mac"
    by (simp add: wit_sta_def new_sta_def)
  have k: "wit_mac \<in> sta_keys (snd (ap_sta_add True False wit_bss0 wit_mac))"
    using a(2)[OF refl] ap_get_sta_eq[OF a(1), of wit_mac] by (auto split: if_splits)
  then show "sta_inv wit_bss" "wit_mac \<in> sta_keys wit_bss" "stas wit_bss wit_mac = Some wit_sta"
    using a(1) m by (simp_all add: wit_bss_def sta_inv_put)
  show "conf_ssid wit_bss = ''lab''" "own_addr wit_bss = [2, 0, 0, 0, 0, 1]" "ap_max_inactivity wit_bss = 300"
    by (auto simp: wit_bss_def ap_sta_add_def Let_def wit_bss0_def put_sta_def ap_sta_hash_add_def
        eloop_register_timeout_def split: option.splits)
qed

lemma wit_sta_flags: "has_flag wit_sta WLAN_STA_ASSOC" "timeout_next wit_sta = STA_NULLFUNC"
  by (simp_all add: has_flag_def wit_sta_def new_sta_def WLAN_STA_ASSOC_def)



theorem ap_handle_timer_keeps_active_witness:
  "\<exists>h' t. ap_handle_timer 20 7 wit_counters wit_bss wit_mac = Inr (wit_counters, h') \<and> sta_inv h' \<and>
     hevents h' = hevents wit_bss \<and> 0 < t \<and> timers h' = timers wit_bss @ [(HandleTimer, wit_mac, t)]"
  using ap_handle_timer_keeps_active[OF wit_bss(1,3) wit_sta_flags(1), of 20 7 wit_counters]
    wit_sta_flags(2) wit_bss(6) by auto

theorem ap_sta_add_get_witness:
  "\<exists>h'. ap_sta_add True False wit_bss0 wit_mac = (Some wit_mac, h') \<and> sta_inv h' \<and> ap_get_sta h' wit_mac = Some wit_mac"
  using ap_sta_add_get[OF wit_bss0_inv wit_add] wit_add by auto

theorem ap_free_sta_ssid32_overflow_witness:
  "ap_free_sta wit_counters (wit_bss\<lparr>conf_ssid := replicate 32 (CHR ''x'')\<rparr>) wit_mac = Inl OutOfBounds"
  by (rule ap_free_sta_ssid32_overflow[of _ _ wit_sta]) (simp_all add: wit_bss(3))

theorem hostapd_free_stas_empties_witness:
  "\<exists>c' h'. hostapd_free_stas wit_counters wit_bss = Inr (c', h') \<and> sta_inv h' \<and> sta_list h' = [] \<and>
     (\<forall>m. ap_get_sta h' m = None)"
  using hostapd_free_stas_empties[OF wit_bss(1), of wit_counters] wit_bss(4) by auto

theorem joining_disconnects_elsewhere_witness:
  "\<exists>bs'. ap_sta_add_bss True True wit_counters [wit_bss, wit_bss0] 1 wit_mac = Inr (Some wit_mac, bs') \<and>
     ap_get_sta (bs' ! 1) wit_mac = Some wit_mac \<and> \<not> sta_connected wit_mac (bs' ! 0)"
proof -
  have inv: "\<forall>b \<in> set [wit_bss, wit_bss0]. sta_inv b"
    using wit_bss(1) wit_bss0_inv by simp
  have none: "ap_get_sta ([wit_bss, wit_bss0] ! 1) wit_mac = None"
    using wit_bss0_inv by (simp add: ap_get_sta_eq sta_keys_def) (simp add: wit_bss0_def sh.keys_empty)
  obtain h where h: "ap_sta_add True True wit_bss0 wit_mac = (Some wit_mac, h)"
    using none by (auto simp: ap_sta_add_def Let_def wit_bss0_def)
  have "\<forall>b \<in> set [wit_bss, h]. sta_inv b"
    using wit_bss(1) ap_sta_add_inv(1)[OF wit_bss0_inv h] by simp
  then obtain bs' where "remove_in_other_bss wit_counters 1 wit_mac 0 [wit_bss, h] = Inr bs'"
    using remove_in_other_bss_ok by blast
  then have r: "ap_sta_add_bss True True wit_counters [wit_bss, wit_bss0] 1 wit_mac = Inr (Some wit_mac, bs')"
    using none h by (simp add: ap_sta_add_bss_def)
  show ?thesis
    using joining_disconnects_elsewhere[OF inv _ none r] r by simp
qed

end
