(* ===== verification/DenseStation.thy ===== *)
theory DenseStation
  imports ChainedHash FniiTypes
begin

text \<open>
  The table of stations that the controller has assigned to this access point
  (\<^verbatim>\<open>fnii_roam.c\<close>, \<^verbatim>\<open>fnii_init_dense_station_hash\<close> to
  \<^verbatim>\<open>fnii_dense_station_del\<close>): 32 chains selected by the first byte of the station's
  address. Each operation holds \<^verbatim>\<open>fnii_sta_lock\<close> from its first to its last access, so a
  call is one atomic step. The argument is None where the code is passed NULL.
\<close>

section \<open>Operations\<close>

definition fnii_init_dense_station_hash :: "dense_station_hash \<Rightarrow> dense_station_hash" where
  "fnii_init_dense_station_hash t =
     t\<lparr>station := replicate STAION_MAX [] @ drop STAION_MAX (station t), station_used := 0\<rparr>"

definition station_idx :: "cmd_msg \<Rightarrow> nat" where
  "station_idx a = unat (stamac a ! 0) mod STAION_MAX"

fun chain_mem :: "(mac \<times> mac) list \<Rightarrow> cmd_msg \<Rightarrow> bool" where
  "chain_mem [] a = False"
| "chain_mem ((s, p) # r) a = (if s = stamac a \<and> p = bssid a then True else chain_mem r a)"

definition fnii_dense_station_find :: "bool \<Rightarrow> dense_station_hash \<Rightarrow> cmd_msg option \<Rightarrow> fnii_ret" where
  "fnii_dense_station_find socket t addr =
     (case addr of
        None \<Rightarrow> FNII_RET_ERR
      | Some a \<Rightarrow>
          if \<not> socket then FNII_RET_ERR
          else if chain_mem (station t ! station_idx a) a then FNII_RET_OK else FNII_RET_ERR)"

text \<open>The result of \<^verbatim>\<open>os_malloc\<close> is used unchecked; \<open>alloc\<close> says whether it is not NULL.\<close>

definition fnii_dense_station_add ::
  "bool \<Rightarrow> dense_station_hash \<Rightarrow> cmd_msg option \<Rightarrow> (fnii_ret \<times> dense_station_hash) res" where
  "fnii_dense_station_add alloc t addr =
     (case addr of
        None \<Rightarrow> Inr (FNII_RET_ERR, t)
      | Some a \<Rightarrow>
          let i = station_idx a
          in if chain_mem (station t ! i) a then Inr (FNII_RET_ERR, t)
             else if \<not> alloc then Inl NullDeref
             else Inr (FNII_RET_OK,
                       t\<lparr>station := (station t)[i := (stamac a, bssid a) # station t ! i],
                         station_used := station_used t + 1\<rparr>))"

text \<open>The scan keeps the node before the current one, to relink it.\<close>

fun chain_del :: "(mac \<times> mac) list \<Rightarrow> cmd_msg \<Rightarrow> (mac \<times> mac) list option" where
  "chain_del [] a = None"
| "chain_del ((s, p) # r) a =
     (if s = stamac a \<and> p = bssid a then Some r
      else map_option ((#) (s, p)) (chain_del r a))"

definition fnii_dense_station_del ::
  "dense_station_hash \<Rightarrow> cmd_msg option \<Rightarrow> fnii_ret \<times> dense_station_hash" where
  "fnii_dense_station_del t addr =
     (case addr of
        None \<Rightarrow> (FNII_RET_ERR, t)
      | Some a \<Rightarrow>
          let i = station_idx a
          in case chain_del (station t ! i) a of
               None \<Rightarrow> (FNII_RET_ERR, t)
             | Some r \<Rightarrow>
                 (FNII_RET_OK, t\<lparr>station := (station t)[i := r], station_used := station_used t - 1\<rparr>))"

section \<open>The table as a chained hash\<close>

definition pair_hash :: "mac \<times> mac \<Rightarrow> nat" where
  "pair_hash k = unat (fst k ! 0) mod STAION_MAX"

interpretation ds: chained_hash STAION_MAX pair_hash "\<lambda>e. e"
  by unfold_locales (simp add: pair_hash_def STAION_MAX_def)

definition cmd_key :: "cmd_msg \<Rightarrow> mac \<times> mac" where
  "cmd_key a = (stamac a, bssid a)"

definition dense_valid :: "dense_station_hash \<Rightarrow> bool" where
  "dense_valid t \<longleftrightarrow> ds.wf (station t) \<and> station_used t = int (ds.total (station t))"

definition dense_set :: "dense_station_hash \<Rightarrow> (mac \<times> mac) set" where
  "dense_set t = ds.keys (station t)"

lemma station_idx_hash: "station_idx a = pair_hash (cmd_key a)"
  by (simp add: station_idx_def pair_hash_def cmd_key_def)

lemma chain_mem_iff: "chain_mem c a \<longleftrightarrow> cmd_key a \<in> set c"
  by (induction c a rule: chain_mem.induct) (auto simp: cmd_key_def)

lemma chain_del_eq:
  "chain_del c a =
     (if cmd_key a \<in> set c then Some (remove_first (\<lambda>e. e = cmd_key a) c) else None)"
  by (induction c a rule: chain_del.induct) (auto simp: cmd_key_def)

lemma chain_mem_keys: "dense_valid t \<Longrightarrow> chain_mem (station t ! station_idx a) a \<longleftrightarrow> cmd_key a \<in> dense_set t"
  using ds.key_in_bucket[of "station t" "cmd_key a"]
  by (simp add: chain_mem_iff station_idx_hash dense_valid_def dense_set_def)

lemma dense_find_iff:
  "dense_valid t \<Longrightarrow>
   fnii_dense_station_find socket t (Some a) = FNII_RET_OK \<longleftrightarrow> socket \<and> cmd_key a \<in> dense_set t"
  by (simp add: fnii_dense_station_find_def chain_mem_keys)

lemma dense_add_old:
  "dense_valid t \<Longrightarrow> cmd_key a \<in> dense_set t \<Longrightarrow>
   fnii_dense_station_add alloc t (Some a) = Inr (FNII_RET_ERR, t)"
  by (simp add: fnii_dense_station_add_def chain_mem_keys)

lemma dense_add_new:
  assumes "dense_valid t" "cmd_key a \<notin> dense_set t"
  obtains t' where "fnii_dense_station_add True t (Some a) = Inr (FNII_RET_OK, t')"
    "dense_valid t'" "dense_set t' = insert (cmd_key a) (dense_set t)"
    "station_used t' = station_used t + 1"
proof
  let ?i = "pair_hash (cmd_key a)"
  let ?t = "t\<lparr>station := (station t)[?i := cmd_key a # station t ! ?i], station_used := station_used t + 1\<rparr>"
  have wf: "ds.wf (station t)" and k: "cmd_key a \<notin> ds.keys (station t)"
    using assms by (simp_all add: dense_valid_def dense_set_def)
  note push = ds.push[OF wf k]
  show "fnii_dense_station_add True t (Some a) = Inr (FNII_RET_OK, ?t)"
    using assms chain_mem_keys[of t a]
    by (simp add: fnii_dense_station_add_def station_idx_hash Let_def) (simp add: cmd_key_def)
  show "dense_valid ?t"
    using push assms(1) by (simp add: dense_valid_def)
  show "dense_set ?t = insert (cmd_key a) (dense_set t)"
    using push by (simp add: dense_set_def)
  show "station_used ?t = station_used t + 1"
    by simp
qed

lemma dense_del_none:
  "dense_valid t \<Longrightarrow> cmd_key a \<notin> dense_set t \<Longrightarrow> fnii_dense_station_del t (Some a) = (FNII_RET_ERR, t)"
  using chain_mem_keys[of t a] by (simp add: fnii_dense_station_del_def chain_del_eq chain_mem_iff)

lemma dense_del_old:
  assumes "dense_valid t" "cmd_key a \<in> dense_set t"
  obtains t' where "fnii_dense_station_del t (Some a) = (FNII_RET_OK, t')"
    "dense_valid t'" "dense_set t' = dense_set t - {cmd_key a}" "station_used t' = station_used t - 1"
proof
  let ?i = "pair_hash (cmd_key a)"
  let ?t = "t\<lparr>station := (station t)[?i := remove_first (\<lambda>e. e = cmd_key a) (station t ! ?i)],
              station_used := station_used t - 1\<rparr>"
  have wf: "ds.wf (station t)" and k: "cmd_key a \<in> ds.keys (station t)"
    using assms by (simp_all add: dense_valid_def dense_set_def)
  note unlink = ds.unlink[OF wf k]
  have "cmd_key a \<in> set (station t ! ?i)"
    using assms chain_mem_keys[of t a] by (simp add: chain_mem_iff station_idx_hash)
  then show "fnii_dense_station_del t (Some a) = (FNII_RET_OK, ?t)"
    by (simp add: fnii_dense_station_del_def chain_del_eq station_idx_hash Let_def)
  show "dense_valid ?t"
    using unlink assms(1) by (auto simp: dense_valid_def)
  show "dense_set ?t = dense_set t - {cmd_key a}"
    using unlink by (simp add: dense_set_def)
  show "station_used ?t = station_used t - 1"
    by simp
qed

lemma dense_init:
  assumes "length (station t) = STAION_MAX"
  shows "dense_valid (fnii_init_dense_station_hash t)" "dense_set (fnii_init_dense_station_hash t) = {}"
proof -
  have s: "station (fnii_init_dense_station_hash t) = replicate STAION_MAX []"
    using assms by (simp add: fnii_init_dense_station_hash_def)
  have u: "station_used (fnii_init_dense_station_hash t) = 0"
    by (simp add: fnii_init_dense_station_hash_def)
  show "dense_valid (fnii_init_dense_station_hash t)"
    unfolding dense_valid_def s u by (simp add: ds.wf_empty ds.total_empty)
  show "dense_set (fnii_init_dense_station_hash t) = {}"
    unfolding dense_set_def s by (rule ds.keys_empty)
qed

section \<open>The interface\<close>

text \<open>
  With the socket enabled and memory available, the table is a set of (station, AP) pairs with a
  counter, which is what the handlers of the controller's commands rely on.
\<close>

definition cmd_of :: "mac \<times> mac \<Rightarrow> cmd_msg" where
  "cmd_of k = \<lparr>cmd_type = NEW_IF, bssid = snd k, stamac = fst k\<rparr>"

lemma cmd_key_of [simp]: "cmd_key (cmd_of k) = k"
  by (simp add: cmd_key_def cmd_of_def)

definition dense_add_opt :: "dense_station_hash \<Rightarrow> mac \<times> mac \<Rightarrow> dense_station_hash option" where
  "dense_add_opt t k = (case fnii_dense_station_add True t (Some (cmd_of k)) of
     Inr (FNII_RET_OK, t') \<Rightarrow> Some t' | _ \<Rightarrow> None)"

definition dense_del_opt :: "dense_station_hash \<Rightarrow> mac \<times> mac \<Rightarrow> dense_station_hash option" where
  "dense_del_opt t k = (case fnii_dense_station_del t (Some (cmd_of k)) of
     (FNII_RET_OK, t') \<Rightarrow> Some t' | _ \<Rightarrow> None)"

lemma wf_distinct_concat:
  assumes "ds.wf ts"
  shows "distinct (concat ts)"
proof (rule distinct_concat_nth)
  show "\<forall>i < length ts. distinct (ts ! i)"
    using assms by (simp add: ds.wf_def)
  show "\<forall>j < length ts. \<forall>i < j. set (ts ! i) \<inter> set (ts ! j) = {}"
    using assms unfolding ds.wf_def disjoint_iff by (metis less_trans nat_neq_iff)
qed

lemma total_card: "ds.wf ts \<Longrightarrow> ds.total ts = card (ds.keys ts)"
  using distinct_card[OF wf_distinct_concat] by (simp add: ds.total_def ds.keys_def)

interpretation dks: key_set
  "\<lambda>t k. fnii_dense_station_find True t (Some (cmd_of k)) = FNII_RET_OK"
  dense_add_opt dense_del_opt station_used dense_set dense_valid
proof
  fix t k assume t: "dense_valid t"
  show "(fnii_dense_station_find True t (Some (cmd_of k)) = FNII_RET_OK) = (k \<in> dense_set t)"
    using t by (simp add: dense_find_iff)
  show "\<exists>t'. dense_add_opt t k = Some t' \<and> dense_valid t' \<and> dense_set t' = insert k (dense_set t) \<and>
     station_used t' = station_used t + 1" if "k \<notin> dense_set t"
    by (rule dense_add_new[of t "cmd_of k"]) (use t that in \<open>auto simp: dense_add_opt_def\<close>)
  show "dense_add_opt t k = None" if "k \<in> dense_set t"
    using dense_add_old[of t "cmd_of k" True] t that by (simp add: dense_add_opt_def)
  show "\<exists>t'. dense_del_opt t k = Some t' \<and> dense_valid t' \<and> dense_set t' = dense_set t - {k} \<and>
     station_used t' = station_used t - 1" if "k \<in> dense_set t"
    by (rule dense_del_old[of t "cmd_of k"]) (use t that in \<open>auto simp: dense_del_opt_def\<close>)
  show "dense_del_opt t k = None" if "k \<notin> dense_set t"
    using dense_del_none[of t "cmd_of k"] t that by (simp add: dense_del_opt_def)
  show "station_used t = int (card (dense_set t))"
    using t by (simp add: dense_valid_def dense_set_def total_card)
  show "finite (dense_set t)"
    by (simp add: dense_set_def ds.keys_def)
qed

end
