(* ===== verification/Beacon.thy ===== *)
theory Beacon
  imports StaLife DenseStation
begin

text \<open>
  The hooks in hostapd's beacon code (\<^verbatim>\<open>hostapd/src/ap/beacon.c\<close>): the admission of probe
  requests by the controller's table, the removal of stations on the controller's command, and
  the beacons of the virtual access points. The outcomes of the functions that build and set the
  beacon in the driver are arguments; \<open>DrvSetAp\<close> records the destination address of a beacon
  that was handed to the driver.
\<close>

section \<open>The interface\<close>

record hostapd_iface =
  bsses :: "hostapd_data list"
  counters :: iface_counters
  if_channel :: int
  phy :: string

definition set_bss :: "nat \<Rightarrow> hostapd_data \<Rightarrow> hostapd_iface \<Rightarrow> hostapd_iface" where
  "set_bss i b fc = fc\<lparr>bsses := (bsses fc)[i := b]\<rparr>"

text \<open>The index of the first BSS with the given address.\<close>

fun find_bss :: "nat \<Rightarrow> mac \<Rightarrow> hostapd_data list \<Rightarrow> nat option" where
  "find_bss i m [] = None"
| "find_bss i m (b # bs) = (if own_addr b = m then Some i else find_bss (Suc i) m bs)"

section \<open>Removing stations\<close>

definition WLAN_REASON_DISASSOC_AP_BUSY :: u16 where
  "WLAN_REASON_DISASSOC_AP_BUSY = 5"

definition ieee802_11_del_station_of_vap ::
  "iface_counters \<Rightarrow> hostapd_data \<Rightarrow> mac \<Rightarrow> hostapd_data res" where
  "ieee802_11_del_station_of_vap c bss addr =
     (case ap_get_sta bss addr of
        None \<Rightarrow> Inr bss
      | Some sta \<Rightarrow>
          ap_sta_disassociate c
            (emit (DrvStaDisassoc (own_addr bss) addr WLAN_REASON_DISASSOC_AP_BUSY) bss)
            sta WLAN_REASON_DISASSOC_AP_BUSY)"

definition ieee802_11_del_offline :: "hostapd_data \<Rightarrow> mac \<Rightarrow> hostapd_data" where
  "ieee802_11_del_offline bss addr =
     (case ap_get_sta bss addr of
        None \<Rightarrow> bss
      | Some sta \<Rightarrow> emit (DrvOnlyDisassoc (own_addr bss) addr WLAN_REASON_DISASSOC_AP_BUSY) bss)"

definition ieee802_11_del_station :: "hostapd_iface \<Rightarrow> mac \<times> mac \<Rightarrow> hostapd_iface res" where
  "ieee802_11_del_station fc addr =
     (case find_bss 0 (snd addr) (bsses fc) of
        None \<Rightarrow> Inr fc
      | Some i \<Rightarrow>
          bind_res (ieee802_11_del_station_of_vap (counters fc) (bsses fc ! i) (fst addr))
            (\<lambda>b. Inr (set_bss i b fc)))"

section \<open>Beacons of the virtual access points\<close>

definition MACNULL :: mac where
  "MACNULL = [0x66, 0x55, 0x44, 0x33, 0x22, 0x11]"

datatype odin_ret = RET_SUSS | RET_ERR | RET_TYPE_UNKOWN | RET_CSA

text \<open>What the beacon construction and the driver answer.\<close>

record beacon_env =
  params_ok :: bool
  extra_ies_ok :: bool
  set_ap_ok :: bool

text \<open>
  With a station given, the station of the BSS is disassociated and the caller's copy of its
  address is overwritten with \<open>MACNULL\<close>.
\<close>

definition ieee802_11_find_bss_odin ::
  "hostapd_iface \<Rightarrow> mac \<Rightarrow> mac option \<Rightarrow> (hostapd_iface \<times> nat option \<times> mac option) res" where
  "ieee802_11_find_bss_odin fc m sta =
     (case sta of
        None \<Rightarrow> Inr (fc, find_bss 0 m (bsses fc), None)
      | Some s \<Rightarrow>
          (case find_bss 0 m (bsses fc) of
             None \<Rightarrow> Inr (fc, None, sta)
           | Some i \<Rightarrow>
               bind_res (ieee802_11_del_station_of_vap (counters fc) (bsses fc ! i) s)
                 (\<lambda>b. Inr (set_bss i b fc, Some i, Some MACNULL))))"

definition ieee802_11_update_bssflag_odin :: "hostapd_data \<Rightarrow> int \<Rightarrow> hostapd_data" where
  "ieee802_11_update_bssflag_odin bss flag =
     (if flag = DEL_IF then bss\<lparr>flag_priv := VAP_IDLE\<rparr>
      else if is_local_mac (own_sta bss) then bss\<lparr>flag_priv := VAP_UNLOCK\<rparr>
      else bss\<lparr>flag_priv := VAP_LOCK\<rparr>)"

definition drv_set_ap :: "beacon_env \<Rightarrow> mac \<Rightarrow> hostapd_data \<Rightarrow> hostapd_data" where
  "drv_set_ap env da bss = emit_if (set_ap_ok env) (DrvSetAp da) bss"

definition ieee802_11_update_beacons_odin ::
  "beacon_env \<Rightarrow> hostapd_iface \<Rightarrow> cmd_msg \<Rightarrow> (odin_ret \<times> hostapd_iface) res" where
  "ieee802_11_update_beacons_odin env fc a =
     (if cmd_type a \<ge> TYPE_MAX \<or> cmd_type a < DEL_IF then Inr (RET_TYPE_UNKOWN, fc)
      else bind_res (ieee802_11_find_bss_odin fc (bssid a)
                       (if cmd_type a = NEW_IF then None else Some (stamac a)))
        (\<lambda>(fc1, found, s).
          let sta = (case s of None \<Rightarrow> stamac a | Some s' \<Rightarrow> s')
          in case found of
               None \<Rightarrow> Inr (RET_ERR, fc1)
             | Some i \<Rightarrow>
                 let b1 = (bsses fc1 ! i)\<lparr>own_sta := sta\<rparr>
                 in if csa_in_progress b1 then Inr (RET_CSA, set_bss i b1 fc1)
                    else let b2 = b1\<lparr>beacon_set_done := True\<rparr>
                         in if \<not> params_ok env \<or> \<not> extra_ies_ok env then Inr (RET_ERR, set_bss i b2 fc1)
                            else let b3 = ieee802_11_update_bssflag_odin (drv_set_ap env sta b2) (cmd_type a)
                                 in Inr (if set_ap_ok env then RET_SUSS else RET_ERR, set_bss i b3 fc1)))"

text \<open>
  The report of the station that owns the BSS: when the extra elements cannot be built the jump
  to \<^verbatim>\<open>fail\<close> skips the initialisation of the pair that is sent afterwards, so it holds
  \<open>junk\<close>.
\<close>

definition ieee802_11_set_own_sta_odin ::
  "beacon_env \<Rightarrow> mac_rrpair \<Rightarrow> hostapd_data \<Rightarrow> odin_ret \<times> hostapd_data \<times> mac_rrpair option" where
  "ieee802_11_set_own_sta_odin env junk bss =
     (if csa_in_progress bss then (RET_CSA, bss, None)
      else let b1 = bss\<lparr>beacon_set_done := True\<rparr>
           in if \<not> params_ok env then (RET_ERR, b1, None)
              else if \<not> extra_ies_ok env then (RET_SUSS, b1, Some junk)
              else (RET_SUSS, drv_set_ap env (own_sta bss) b1,
                    Some \<lparr>vif_mac = own_addr bss, sta_mac = own_sta bss\<rparr>))"

definition ieee802_11_set_beacon_odin :: "beacon_env \<Rightarrow> bool \<Rightarrow> hostapd_data \<Rightarrow> odin_ret \<times> hostapd_data" where
  "ieee802_11_set_beacon_odin env flag bss =
     (let b1 = bss\<lparr>own_sta := MACNULL, beacon_set_done := True\<rparr>;
          da = (if flag then replicate 6 0xff else MACNULL)
      in if \<not> params_ok env \<or> \<not> extra_ies_ok env then (RET_ERR, b1)
         else (if set_ap_ok env then RET_SUSS else RET_ERR, drv_set_ap env da b1))"

definition ieee802_11_update_all_beacons_odin :: "beacon_env \<Rightarrow> bool \<Rightarrow> hostapd_iface \<Rightarrow> hostapd_iface" where
  "ieee802_11_update_all_beacons_odin env flag fc =
     fc\<lparr>bsses := map (\<lambda>b. snd (ieee802_11_set_beacon_odin env flag b)) (bsses fc)\<rparr>"

section \<open>Probe requests\<close>

datatype ssid_match_result = NO_SSID_MATCH | EXACT_SSID_MATCH | WILDCARD_SSID_MATCH

definition byte_at :: "string \<Rightarrow> nat \<Rightarrow> nat" where
  "byte_at s i = of_char (s ! i)"

text \<open>
  The loop over the SSID list looks at the length byte of an element whose first byte is inside
  the list, so it can read one byte behind the list; \<open>behind\<close> is what the frame holds there. The
  result is whether an element is the SSID of the BSS, and whether a wildcard was seen.
\<close>

fun ssid_list_loop :: "string \<Rightarrow> string \<Rightarrow> string \<Rightarrow> bool \<Rightarrow> (bool \<times> bool) res" where
  "ssid_list_loop own [] behind wildcard = Inr (False, wildcard)"
| "ssid_list_loop own [e] behind wildcard = (if behind = [] then Inl OutOfBounds else Inr (False, wildcard))"
| "ssid_list_loop own (e # l # rest) behind wildcard =
     (let n = of_char l
      in if n > length rest then Inr (False, wildcard)
         else if n = length own \<and> take n rest = own then Inr (True, wildcard \<or> n = 0)
         else ssid_list_loop own (drop n rest) behind (wildcard \<or> n = 0))"

definition ssid_match :: "string \<Rightarrow> string \<Rightarrow> (string \<times> string) option \<Rightarrow> ssid_match_result res" where
  "ssid_match own ssid ssid_list =
     (let wildcard = (ssid = [])
      in if ssid = own then Inr EXACT_SSID_MATCH
         else case ssid_list of
                None \<Rightarrow> Inr (if wildcard then WILDCARD_SSID_MATCH else NO_SSID_MATCH)
              | Some (l, behind) \<Rightarrow>
                  bind_res (ssid_list_loop own l behind wildcard) (\<lambda>(exact, w).
                    Inr (if exact then EXACT_SSID_MATCH
                         else if w then WILDCARD_SSID_MATCH else NO_SSID_MATCH)))"

text \<open>The elements of a probe request that the code looks at.\<close>

record probe_elems =
  pe_ssid :: "string option"
  pe_rates :: bool
  pe_ds_params :: "string option"
  pe_ssid_list :: "(string \<times> string) option"

record probe_req =
  pr_da :: mac
  pr_sa :: mac
  pr_bssid :: mac
  pr_len :: nat
  pr_elems :: "probe_elems option"

text \<open>
  The rest of what the decision depends on: the results of the registered callbacks, the
  configuration, the mode of the radio, the verdict of ubus, and whether a response can be built.
\<close>

record probe_env =
  cb_results :: "int list"
  send_probe_response :: bool
  mode_bg :: bool
  conf_channel :: nat
  ubus_reject :: bool
  resp_ok :: bool

definition bcast :: mac where
  "bcast = replicate 6 0xff"

text \<open>Whether the controller's table lets the broadcast probe of this station through.\<close>

definition probe_drop :: "bool \<Rightarrow> dense_station_hash \<Rightarrow> hostapd_data \<Rightarrow> probe_req \<Rightarrow> bool" where
  "probe_drop socket t bss r \<longleftrightarrow>
     pr_bssid r = bcast \<and>
     (\<not> is_local_mac (pr_sa r) \<or> station_used t \<ge> int STAION_MAX) \<and>
     fnii_dense_station_find socket t
       (Some \<lparr>cmd_type = 0, bssid = own_addr bss, stamac = pr_sa r\<rparr>) = FNII_RET_ERR"

definition ds_mismatch :: "probe_env \<Rightarrow> probe_elems \<Rightarrow> bool" where
  "ds_mismatch env e \<longleftrightarrow>
     (case pe_ds_params e of
        Some d \<Rightarrow> length d = 1 \<and> mode_bg env \<and> conf_channel env \<noteq> byte_at d 0
      | None \<Rightarrow> False)"

definition handle_probe_req ::
  "probe_env \<Rightarrow> bool \<Rightarrow> dense_station_hash \<Rightarrow> hostapd_data \<Rightarrow> probe_req \<Rightarrow> hostapd_data res" where
  "handle_probe_req env socket t bss r =
     (let drop_it = probe_drop socket t bss r
      in if drop_it \<and> station_used t \<ge> int STAION_MAX then Inr bss
         else if pr_len r < 24 then Inr bss
         else if \<exists>v \<in> set (cb_results env). v > 0 then Inr bss
         else if \<not> send_probe_response env then Inr bss
         else case pr_elems r of
                None \<Rightarrow> Inr bss
              | Some e \<Rightarrow>
                  (case pe_ssid e of
                     None \<Rightarrow> Inr bss
                   | Some ssid \<Rightarrow>
                       if \<not> pe_rates e then Inr bss
                       else if drop_it \<and> \<not> socket then Inr bss
                       else if drop_it \<and> ssid \<noteq> conf_ssid bss then Inr bss
                       else if ds_mismatch env e then Inr bss
                       else bind_res (ssid_match (conf_ssid bss) ssid (pe_ssid_list e)) (\<lambda>m.
                              if m = NO_SSID_MATCH then Inr bss
                              else let b1 = emit_if (ap_get_sta bss (pr_sa r) \<noteq> None) (SetSsidProbe (pr_sa r)) bss
                                   in if ubus_reject env \<or> \<not> resp_ok env then Inr b1
                                      else Inr (emit (SendProbeResp (pr_sa r)
                                             (m = WILDCARD_SSID_MATCH \<and> pr_da r = bcast)) b1))))"

section \<open>Lemmas\<close>

lemma del_station_of_vap_ok:
  assumes "sta_inv bss"
  obtains b' where "ieee802_11_del_station_of_vap c bss m = Inr b'" "sta_inv b'" "sta_keys b' = sta_keys bss"
    "own_addr b' = own_addr bss" "conf_ssid b' = conf_ssid bss"
    "m \<in> sta_keys bss \<Longrightarrow> \<exists>s. stas b' m = Some s \<and> \<not> has_flag s WLAN_STA_ASSOC \<and> timeout_next s = STA_DEAUTH \<and>
       disassoc_reason s = 5 \<and> (HandleTimer, m, 30) \<in> set (timers b')"
proof (cases "m \<in> sta_keys bss")
  case True
  let ?e = "emit (DrvStaDisassoc (own_addr bss) m WLAN_REASON_DISASSOC_AP_BUSY) bss"
  have p: "sta_inv ?e" "m \<in> sta_keys ?e"
    using assms True by simp_all
  have e: "ieee802_11_del_station_of_vap c bss m = ap_sta_disassociate c ?e m 5"
    using True by (simp add: ieee802_11_del_station_of_vap_def ap_get_sta_eq[OF assms] WLAN_REASON_DISASSOC_AP_BUSY_def)
  show ?thesis
    by (rule ap_sta_disassociate_ok[OF p, of c 5]) (use e that in auto)
next
  case False
  then show ?thesis
    using that[of bss] assms by (simp add: ieee802_11_del_station_of_vap_def ap_get_sta_eq)
qed

lemma probe_events:
  assumes "handle_probe_req env socket t bss r = Inr b'" "hevents b' \<noteq> hevents bss" "probe_drop socket t bss r"
  shows "station_used t < int STAION_MAX \<and> socket \<and> (\<exists>e. pr_elems r = Some e \<and> pe_ssid e = Some (conf_ssid bss))"
  using assms by (auto simp: handle_probe_req_def Let_def split: option.splits if_splits)

section \<open>Properties\<close>

text \<open>
  C10: only admitted stations are answered. A probe request to the broadcast BSSID has an effect only
  if the controller is connected and has assigned the station to this BSS; or the table has fewer
  than 32 entries and the station uses a locally administered address; or the table has fewer
  than 32 entries, the controller is connected and the request names exactly the SSID of the BSS.
\<close>

theorem probe_admission:
  assumes "dense_valid t" "handle_probe_req env socket t bss r = Inr b'" "hevents b' \<noteq> hevents bss" "pr_bssid r = bcast"
  shows "socket \<and> (pr_sa r, own_addr bss) \<in> dense_set t \<or>
    station_used t < 32 \<and>
      (is_local_mac (pr_sa r) \<or> socket \<and> (\<exists>e. pr_elems r = Some e \<and> pe_ssid e = Some (conf_ssid bss)))"
proof (cases "probe_drop socket t bss r")
  case True
  then show ?thesis
    using probe_events[OF assms(2,3)] by (simp add: STAION_MAX_def)
next
  case False
  let ?a = "\<lparr>cmd_type = 0, bssid = own_addr bss, stamac = pr_sa r\<rparr>"
  have "cmd_key ?a = (pr_sa r, own_addr bss)"
    by (simp add: cmd_key_def)
  then show ?thesis
    using False assms(4) dense_find_iff[OF assms(1), of socket ?a]
    by (cases "fnii_dense_station_find socket t (Some ?a)") (auto simp: probe_drop_def STAION_MAX_def)
qed

definition wit_dense :: dense_station_hash where
  "wit_dense = \<lparr>station = (replicate 32 [])[4 := [(wit_mac, [2, 0, 0, 0, 0, 1])]], station_used = 1\<rparr>"

definition wit_probe :: probe_req where
  "wit_probe = \<lparr>pr_da = bcast, pr_sa = wit_mac, pr_bssid = bcast, pr_len = 60,
     pr_elems = Some \<lparr>pe_ssid = Some [], pe_rates = True, pe_ds_params = Some [CHR 0x06], pe_ssid_list = None\<rparr>\<rparr>"

definition wit_env :: probe_env where
  "wit_env = \<lparr>cb_results = [0], send_probe_response = True, mode_bg = True, conf_channel = 6,
     ubus_reject = False, resp_ok = True\<rparr>"

lemma wit_dense: "dense_valid wit_dense" "dense_set wit_dense = {(wit_mac, [2, 0, 0, 0, 0, 1])}"
proof -
  have h: "pair_hash (wit_mac, [2, 0, 0, 0, 0, 1]) = 4"
    by (simp add: pair_hash_def wit_mac_def STAION_MAX_def)
  have r: "(replicate 32 [])[4 := [(wit_mac, [2, 0, 0, 0, 0, 1])]] =
      (replicate STAION_MAX [])[pair_hash (wit_mac, [2, 0, 0, 0, 0, 1]) :=
        (wit_mac, [2, 0, 0, 0, 0, 1]) # replicate STAION_MAX [] ! pair_hash (wit_mac, [2, 0, 0, 0, 0, 1])]"
    unfolding h by (simp add: STAION_MAX_def)
  note p = ds.push[OF ds.wf_empty, of "(wit_mac, [2, 0, 0, 0, 0, 1])"]
  show "dense_valid wit_dense"
    using p(1,3) unfolding dense_valid_def wit_dense_def r[symmetric]
    by (simp add: ds.keys_empty ds.total_empty flip: r)
  show "dense_set wit_dense = {(wit_mac, [2, 0, 0, 0, 0, 1])}"
    using p(2) unfolding dense_set_def wit_dense_def r[symmetric] by (simp add: ds.keys_empty flip: r)
qed

lemma wit_probe_run:
  "\<exists>b'. handle_probe_req wit_env True wit_dense wit_bss wit_probe = Inr b' \<and> hevents b' \<noteq> hevents wit_bss"
proof -
  have "fnii_dense_station_find True wit_dense
      (Some \<lparr>cmd_type = 0, bssid = own_addr wit_bss, stamac = pr_sa wit_probe\<rparr>) = FNII_RET_OK"
    by (simp add: dense_find_iff wit_dense cmd_key_def wit_bss(5) wit_probe_def)
  then have "\<not> probe_drop True wit_dense wit_bss wit_probe"
    by (simp add: probe_drop_def)
  then show ?thesis
    by (simp add: handle_probe_req_def wit_probe_def wit_env_def ssid_match_def wit_bss(4) ds_mismatch_def byte_at_def)
qed

theorem probe_admission_witness:
  "(wit_mac, [2, 0, 0, 0, 0, 1]) \<in> dense_set wit_dense \<or>
   station_used wit_dense < 32 \<and> (is_local_mac wit_mac \<or> (\<exists>e. pr_elems wit_probe = Some e \<and> pe_ssid e = Some ''lab''))"
proof -
  obtain b' where b: "handle_probe_req wit_env True wit_dense wit_bss wit_probe = Inr b'" "hevents b' \<noteq> hevents wit_bss"
    using wit_probe_run by blast
  have "pr_bssid wit_probe = bcast" "pr_sa wit_probe = wit_mac"
    by (simp_all add: wit_probe_def)
  then show ?thesis
    using probe_admission[OF wit_dense(1) b] by (simp add: wit_bss(4,5))
qed

text \<open>
  Assigned stations are served. When the controller is connected and has assigned the station,
  a well-formed broadcast probe request with the wildcard SSID, on the right channel and not vetoed
  by a callback or ubus, is answered with one probe response that is not retried.
\<close>

theorem probe_served:
  assumes "dense_valid t" "(pr_sa r, own_addr bss) \<in> dense_set t"
    and "pr_bssid r = bcast" "pr_da r = bcast" "24 \<le> pr_len r" "pr_elems r = Some e"
    and "pe_ssid e = Some []" "pe_rates e" "pe_ssid_list e = None" "\<not> ds_mismatch env e" "conf_ssid bss \<noteq> []"
    and "\<forall>v \<in> set (cb_results env). v \<le> 0" "send_probe_response env" "\<not> ubus_reject env" "resp_ok env"
  shows "\<exists>b' es. handle_probe_req env True t bss r = Inr b' \<and>
    hevents b' = hevents bss @ es @ [SendProbeResp (pr_sa r) True] \<and> (\<forall>m n. SendProbeResp m n \<notin> set es)"
proof -
  let ?a = "\<lparr>cmd_type = 0, bssid = own_addr bss, stamac = pr_sa r\<rparr>"
  have "cmd_key ?a = (pr_sa r, own_addr bss)"
    by (simp add: cmd_key_def)
  then have "\<not> probe_drop True t bss r"
    using dense_find_iff[OF assms(1), of True ?a] assms(2) by (simp add: probe_drop_def)
  moreover have "\<not> (\<exists>v \<in> set (cb_results env). v > 0)"
    using assms(12) by fastforce
  ultimately show ?thesis
    using assms by (auto simp: handle_probe_req_def Let_def ssid_match_def)
qed

theorem probe_served_witness:
  "\<exists>b' es. handle_probe_req wit_env True wit_dense wit_bss wit_probe = Inr b' \<and>
    hevents b' = hevents wit_bss @ es @ [SendProbeResp wit_mac True] \<and> (\<forall>m n. SendProbeResp m n \<notin> set es)"
  using probe_served[of wit_dense wit_probe wit_bss _ wit_env] wit_dense wit_bss(4,5)
  by (simp add: wit_probe_def wit_env_def ds_mismatch_def byte_at_def)

text \<open>
  The withdrawal of a station by the controller keeps the station table consistent, and a
  station that is connected is told to leave: it is no longer associated, has reason 5, and a timer
  that will deauthenticate it in 30 seconds.
\<close>

theorem del_station_of_vap_disassociates:
  assumes "sta_inv bss"
  shows "\<exists>b'. ieee802_11_del_station_of_vap c bss m = Inr b' \<and> sta_inv b' \<and>
    (\<forall>n. ap_get_sta b' n = ap_get_sta bss n) \<and>
    (ap_get_sta bss m \<noteq> None \<longrightarrow> (\<exists>s. stas b' m = Some s \<and> \<not> has_flag s WLAN_STA_ASSOC \<and>
       timeout_next s = STA_DEAUTH \<and> disassoc_reason s = 5 \<and> (HandleTimer, m, 30) \<in> set (timers b')))"
proof -
  obtain b' where b: "ieee802_11_del_station_of_vap c bss m = Inr b'" "sta_inv b'" "sta_keys b' = sta_keys bss"
    "m \<in> sta_keys bss \<Longrightarrow> \<exists>s. stas b' m = Some s \<and> \<not> has_flag s WLAN_STA_ASSOC \<and> timeout_next s = STA_DEAUTH \<and>
       disassoc_reason s = 5 \<and> (HandleTimer, m, 30) \<in> set (timers b')"
    by (rule del_station_of_vap_ok[OF assms, of c m]) blast
  then show ?thesis
    using assms by (auto simp: ap_get_sta_eq)
qed

theorem del_station_of_vap_disassociates_witness:
  "\<exists>b' s. ieee802_11_del_station_of_vap wit_counters wit_bss wit_mac = Inr b' \<and> sta_inv b' \<and>
     stas b' wit_mac = Some s \<and> \<not> has_flag s WLAN_STA_ASSOC \<and> disassoc_reason s = 5"
  using del_station_of_vap_disassociates[OF wit_bss(1), of wit_counters wit_mac] wit_bss(1,2)
  by (auto simp: ap_get_sta_eq)

end
