(* ===== verification/FniiParse.thy ===== *)
theory FniiParse
  imports Beacon FniiFrame
begin

text \<open>
  The commands of the controller (\<^verbatim>\<open>fnii_roam.c\<close>, \<^verbatim>\<open>fnii_get_mac\<close> to
  \<^verbatim>\<open>fnii_parse_msg\<close>). A message is the receive buffer with the offset where it starts; every
  read is checked against the buffer. \<open>junk\<close> is what the uninitialised \<^verbatim>\<open>cmd_info.bssid\<close> on
  the stack of \<^verbatim>\<open>fnii_handle_add_vap\<close> holds.
\<close>

section \<open>State and reads\<close>

record apstate =
  fn :: fnii
  fc :: hostapd_iface

definition rd :: "string \<Rightarrow> int \<Rightarrow> nat \<Rightarrow> string res" where
  "rd b p n = (if 0 \<le> p \<and> p + int n \<le> int (length b) then Inr (take n (drop (nat p) b)) else Inl OutOfBounds)"

definition mac_of_text :: "string \<Rightarrow> mac" where
  "mac_of_text s = map (\<lambda>i. word_of_int (strtol 16 (c_str (take 2 (drop (2 * i) s))))) [0..<6]"

definition fnii_get_mac :: "string \<Rightarrow> int \<Rightarrow> mac res" where
  "fnii_get_mac b p = bind_res (rd b p 12) (\<lambda>s. Inr (mac_of_text s))"

text \<open>
  The SSID field of a command: two digits at offset 31, converted to a \<^verbatim>\<open>char\<close>, then the SSID.
  None is the early return for a length above 31; a negative length reaches \<^verbatim>\<open>memcpy\<close>.
\<close>

definition read_ssid :: "string \<Rightarrow> int \<Rightarrow> string option res" where
  "read_ssid b p =
     bind_res (rd b (p + 31) 2) (\<lambda>t.
       let ssid_len = to_schar (atoi (c_str t))
       in if ssid_len > 31 then Inr None
          else if ssid_len < 0 then Inl NegativeSize
          else bind_res (rd b (p + 33) (nat ssid_len)) (\<lambda>s. Inr (Some s)))"

text \<open>The configured SSID in its 32-byte array, and the first BSS whose SSID starts with \<open>s\<close>.\<close>

definition ssid_array :: "hostapd_data \<Rightarrow> string" where
  "ssid_array bss = conf_ssid bss @ replicate (SSID_LEN - length (conf_ssid bss)) nul"

fun match_bss :: "nat \<Rightarrow> string \<Rightarrow> hostapd_data list \<Rightarrow> nat option" where
  "match_bss i s [] = None"
| "match_bss i s (b # bs) = (if take (length s) (ssid_array b) = s then Some i else match_bss (Suc i) s bs)"

definition bssid_unset :: "mac \<Rightarrow> bool" where
  "bssid_unset m \<longleftrightarrow> m ! 0 = 0 \<and> m ! 5 = 0"

section \<open>Handlers\<close>

definition set_dense :: "dense_station_hash \<Rightarrow> apstate \<Rightarrow> apstate" where
  "set_dense t st = st\<lparr>fn := (fn st)\<lparr>dense := t\<rparr>\<rparr>"

definition fnii_handle_add_vap ::
  "bool \<Rightarrow> mac \<Rightarrow> string \<Rightarrow> int \<Rightarrow> int \<Rightarrow> apstate \<Rightarrow> (fnii_ret \<times> apstate) res" where
  "fnii_handle_add_vap alloc junk b p len st =
     (if len < 31 then Inr (FNII_RET_ERR, st)
      else bind_res (fnii_get_mac b (p + 2)) (\<lambda>sm. bind_res (read_ssid b p) (\<lambda>o_ssid.
        case o_ssid of
          None \<Rightarrow> Inr (FNII_RET_ERR, st)
        | Some s \<Rightarrow>
            let bs = (case match_bss 0 s (bsses (fc st)) of
                        None \<Rightarrow> junk | Some i \<Rightarrow> own_addr (bsses (fc st) ! i))
            in if bssid_unset bs then Inr (FNII_RET_ERR, st)
               else bind_res (fnii_dense_station_add alloc (dense (fn st))
                                (Some \<lparr>cmd_type = NEW_IF, bssid = bs, stamac = sm\<rparr>))
                      (\<lambda>(r, t). Inr (r, set_dense t st)))))"

definition fnii_handle_del_vap :: "string \<Rightarrow> int \<Rightarrow> int \<Rightarrow> apstate \<Rightarrow> (fnii_ret \<times> apstate) res" where
  "fnii_handle_del_vap b p len st =
     (if len < 28 then Inr (FNII_RET_ERR, st)
      else bind_res (fnii_get_mac b (p + 2)) (\<lambda>sm. bind_res (read_ssid b p) (\<lambda>o_ssid.
        case o_ssid of
          None \<Rightarrow> Inr (FNII_RET_ERR, st)
        | Some s \<Rightarrow>
            (case match_bss 0 s (bsses (fc st)) of
               None \<Rightarrow> Inr (FNII_RET_ERR, st)
             | Some i \<Rightarrow>
                 let bss = bsses (fc st) ! i
                 in if bssid_unset (own_addr bss) then Inr (FNII_RET_ERR, st)
                    else let (r, t) = fnii_dense_station_del (dense (fn st))
                               (Some \<lparr>cmd_type = DEL_IF, bssid = own_addr bss, stamac = sm\<rparr>)
                         in bind_res (ieee802_11_del_station_of_vap (counters (fc st)) bss sm) (\<lambda>bss'.
                              Inr (r, (set_dense t st)\<lparr>fc := set_bss i bss' (fc st)\<rparr>))))))"

definition fnii_handle_offline_vap :: "string \<Rightarrow> int \<Rightarrow> int \<Rightarrow> apstate \<Rightarrow> (fnii_ret \<times> apstate) res" where
  "fnii_handle_offline_vap b p len st =
     (if len < 28 then Inr (FNII_RET_ERR, st)
      else bind_res (fnii_get_mac b (p + 2)) (\<lambda>sm. bind_res (read_ssid b p) (\<lambda>o_ssid.
        case o_ssid of
          None \<Rightarrow> Inr (FNII_RET_ERR, st)
        | Some s \<Rightarrow>
            (case match_bss 0 s (bsses (fc st)) of
               None \<Rightarrow> Inr (FNII_RET_ERR, st)
             | Some i \<Rightarrow>
                 let bss = bsses (fc st) ! i
                 in if bssid_unset (own_addr bss) then Inr (FNII_RET_ERR, st)
                    else Inr (FNII_RET_OK, st\<lparr>fc := set_bss i (ieee802_11_del_offline bss sm) (fc st)\<rparr>)))))"

definition fnii_handle_beat :: "int \<Rightarrow> fnii \<Rightarrow> fnii_ret \<times> fnii" where
  "fnii_handle_beat cseq f =
     (if c_mod (beat_cseq (beat f)) 9999 \<noteq> cseq then (FNII_RET_ERR, f)
      else (FNII_RET_OK, f\<lparr>beat := (beat f)\<lparr>beat_live := True\<rparr>\<rparr>))"

text \<open>
  The type field is converted to a \<^verbatim>\<open>char\<close>, and a length that disagrees with the caller's is
  only reported.
\<close>

definition fnii_parse_msg ::
  "bool \<Rightarrow> mac \<Rightarrow> string \<Rightarrow> int \<Rightarrow> int \<Rightarrow> apstate \<Rightarrow> (fnii_ret \<times> apstate) res" where
  "fnii_parse_msg alloc junk b p len st =
     (if len < 10 then Inr (FNII_RET_ERR, st)
      else bind_res (rd b p 4) (\<lambda>s_seq. bind_res (rd b (p + 4) 3) (\<lambda>s_type. bind_res (rd b (p + 7) 3) (\<lambda>s_len.
        let cseq = atoi (c_str s_seq);
            ty = to_schar (atoi (c_str s_type));
            field_len = atoi (c_str s_len)
        in if ty = 102 then fnii_handle_add_vap alloc junk b (p + 10) field_len st
           else if ty = 103 then fnii_handle_del_vap b (p + 10) field_len st
           else if ty = 117 then fnii_handle_offline_vap b (p + 10) field_len st
           else if ty = 110 then let (r, f) = fnii_handle_beat cseq (fn st) in Inr (r, st\<lparr>fn := f\<rparr>)
           else Inr (FNII_RET_ERR, st)))))"

section \<open>Reading what was printed\<close>

lemma rd_mid: "p = int (length pre) \<Longrightarrow> n = length x \<Longrightarrow> rd (pre @ x @ post) p n = Inr x"
  by (simp add: rd_def)

lemma rd_mid_off:
  "p = int (length pre) \<Longrightarrow> q = p + int (length a) \<Longrightarrow> n = length x \<Longrightarrow> rd (pre @ a @ x @ post) q n = Inr x"
  using rd_mid[of q "pre @ a" n x post] by simp

lemma mac_of_text_append:
  "length xs = 6 \<Longrightarrow> mac_of_text (concat (map (\<lambda>b. fmt_x 2 (unat (b :: u8))) xs)) = xs"
proof -
  assume "length xs = 6"
  then obtain a b c d e f where xs: "xs = [a, b, c, d, e, f]"
    by (auto simp: length_Suc_conv eval_nat_numeral)
  have r: "word_of_int (strtol 16 (c_str (fmt_x 2 (unat (z :: u8))))) = z" for z
    by (simp add: c_str_id fmt_x_no_nul strtol16_fmt_x2)
  show ?thesis
    by (simp add: xs mac_of_text_def upt_conv_Cons r del: strtol16_fmt_x2)
qed

lemma mac_text_roundtrip: "length m = 6 \<Longrightarrow> mac_of_text (mac_text m) = m"
  by (simp add: mac_text_def mac_of_text_append)

lemma atoi_c_str_fmt_d: "0 \<le> n \<Longrightarrow> n \<le> 2147483647 \<Longrightarrow> atoi (c_str (fmt_d w n)) = n"
  by (simp add: c_str_id fmt_d_no_nul atoi_fmt_d0)

text \<open>The header of a frame anywhere in the buffer is read back as printed.\<close>

lemma rd_header:
  assumes "0 \<le> i" "i \<le> 9999" "0 \<le> t" "t \<le> 999" "length p \<le> 999"
  shows "rd (pre @ frame i t p @ post) (int (length pre)) 4 = Inr (fmt_d 4 i)"
    "rd (pre @ frame i t p @ post) (int (length pre) + 4) 3 = Inr (fmt_d 3 t)"
    "rd (pre @ frame i t p @ post) (int (length pre) + 7) 3 = Inr (fmt_d 3 (int (length p)))"
proof -
  have l: "length (fmt_d 4 i) = 4" "length (fmt_d 3 t) = 3" "length (fmt_d 3 (int (length p))) = 3"
    using assms by (simp_all add: buf_simps)
  show "rd (pre @ frame i t p @ post) (int (length pre)) 4 = Inr (fmt_d 4 i)"
    using l rd_mid[of _ pre 4 "fmt_d 4 i"] by (simp add: frame_def)
  show "rd (pre @ frame i t p @ post) (int (length pre) + 4) 3 = Inr (fmt_d 3 t)"
    using l rd_mid_off[of _ pre _ "fmt_d 4 i" 3 "fmt_d 3 t"] by (simp add: frame_def)
  show "rd (pre @ frame i t p @ post) (int (length pre) + 7) 3 = Inr (fmt_d 3 (int (length p)))"
    using l rd_mid_off[of _ pre _ "fmt_d 4 i @ fmt_d 3 t" 3 "fmt_d 3 (int (length p))"]
    by (simp add: frame_def)
qed

definition handle_cmd :: "bool \<Rightarrow> mac \<Rightarrow> int \<Rightarrow> int \<Rightarrow> string \<Rightarrow> int \<Rightarrow> int \<Rightarrow> apstate \<Rightarrow> (fnii_ret \<times> apstate) res" where
  "handle_cmd alloc junk ty cseq b p len st =
     (if ty = 102 then fnii_handle_add_vap alloc junk b p len st
      else if ty = 103 then fnii_handle_del_vap b p len st
      else if ty = 117 then fnii_handle_offline_vap b p len st
      else if ty = 110 then let (r, f) = fnii_handle_beat cseq (fn st) in Inr (r, st\<lparr>fn := f\<rparr>)
      else Inr (FNII_RET_ERR, st))"

lemma parse_frame:
  assumes "0 \<le> i" "i \<le> 9999" "0 \<le> t" "t \<le> 999" "length p \<le> 999" "10 \<le> len"
  shows "fnii_parse_msg alloc junk (pre @ frame i t p @ post) (int (length pre)) len st =
    handle_cmd alloc junk (to_schar t) i (pre @ frame i t p @ post) (int (length pre) + 10) (int (length p)) st"
  using assms rd_header[OF assms(1-5), of pre post]
  by (simp add: fnii_parse_msg_def handle_cmd_def atoi_c_str_fmt_d)

text \<open>
  The payload of the commands that assign and withdraw a station: the station, a second address
  that the handlers skip, a one-character field, and the SSID.
\<close>

definition cmd_payload :: "mac \<Rightarrow> mac \<Rightarrow> char \<Rightarrow> string \<Rightarrow> string" where
  "cmd_payload sta other c ssid = field (mac_text sta) @ field (mac_text other) @ ''01'' @ [c] @ field ssid"

lemma length_cmd_payload:
  "length sta = 6 \<Longrightarrow> length other = 6 \<Longrightarrow> length ssid \<le> 31 \<Longrightarrow>
   length (cmd_payload sta other c ssid) = 33 + length ssid"
  by (simp add: cmd_payload_def length_field buf_simps)

lemma cmd_fields:
  assumes "length sta = 6" "length other = 6" "length ssid \<le> 31" "0 \<le> i" "i \<le> 9999" "0 \<le> t" "t \<le> 999"
    and b_def: "b = pre @ frame i t (cmd_payload sta other c ssid) @ post"
  shows "fnii_get_mac b (int (length pre) + 12) = Inr sta" "read_ssid b (int (length pre) + 10) = Inr (Some ssid)"
proof -
  let ?n = "int (length (cmd_payload sta other c ssid))"
  have len: "length (cmd_payload sta other c ssid) \<le> 999"
    using length_cmd_payload[OF assms(1-3), of c] assms(3) by simp
  then have l: "length (fmt_d 4 i) = 4" "length (fmt_d 3 t) = 3" "length (fmt_d 3 ?n) = 3"
    "length (mac_text sta) = 12" "length (mac_text other) = 12" "length (fmt_d 2 (int (length ssid))) = 2"
    using assms by (simp_all add: buf_simps)
  have b: "b = pre @ (fmt_d 4 i @ fmt_d 3 t @ fmt_d 3 ?n @ ''12'') @ mac_text sta @ (''12'' @ mac_text other @
      ''01'' @ [c]) @ fmt_d 2 (int (length ssid)) @ ssid @ '';'' @ post"
    using l by (simp add: b_def frame_def cmd_payload_def field_consts) (simp add: field_def)
  have "rd b (int (length pre) + 12) 12 = Inr (mac_text sta)"
    unfolding b using l by (intro rd_mid_off[OF refl]) simp_all
  then show "fnii_get_mac b (int (length pre) + 12) = Inr sta"
    using assms(1) by (simp add: fnii_get_mac_def mac_text_roundtrip)
  let ?a = "(fmt_d 4 i @ fmt_d 3 t @ fmt_d 3 ?n @ ''12'') @ mac_text sta @ (''12'' @ mac_text other @ ''01'' @ [c])"
  have "rd b (int (length pre) + 41) 2 = Inr (fmt_d 2 (int (length ssid)))"
    using l rd_mid_off[OF refl refl refl, of pre ?a "fmt_d 2 (int (length ssid))"] unfolding b by simp
  moreover have "rd b (int (length pre) + 43) (length ssid) = Inr ssid"
    using l rd_mid_off[OF refl refl refl, of pre "?a @ fmt_d 2 (int (length ssid))" ssid] unfolding b by simp
  ultimately show "read_ssid b (int (length pre) + 10) = Inr (Some ssid)"
    using assms(3) by (simp add: read_ssid_def atoi_c_str_fmt_d to_schar_id add.assoc)
qed

section \<open>Properties\<close>

lemma assign_ok:
  assumes "dense_valid (dense (fn st))" "match_bss 0 ssid (bsses (fc st)) = Some k"
    and "own = own_addr (bsses (fc st) ! k)" "\<not> bssid_unset own"
    and "length sta = 6" "length other = 6" "length ssid \<le> 31" "0 \<le> i" "i \<le> 9999"
  shows "\<exists>r st'. fnii_parse_msg True junk (pre @ frame i 102 (cmd_payload sta other c ssid) @ post)
      (int (length pre)) (int (length ssid) + 44) st = Inr (r, st') \<and>
    fc st' = fc st \<and> dense_valid (dense (fn st')) \<and>
    dense_set (dense (fn st')) = insert (sta, own) (dense_set (dense (fn st))) \<and>
    (r = FNII_RET_OK \<longleftrightarrow> (sta, own) \<notin> dense_set (dense (fn st)))"
proof -
  let ?p = "cmd_payload sta other c ssid"
  let ?b = "pre @ frame i 102 ?p @ post"
  let ?a = "\<lparr>cmd_type = NEW_IF, bssid = own, stamac = sta\<rparr>"
  have len: "length ?p = 33 + length ssid"
    using assms by (intro length_cmd_payload)
  have "fnii_parse_msg True junk ?b (int (length pre)) (int (length ssid) + 44) st =
      handle_cmd True junk 102 i ?b (int (length pre) + 10) (int (length ?p)) st"
    using parse_frame[of i 102 ?p "int (length ssid) + 44" True junk pre post st] len assms
    by (simp add: to_schar_id)
  also have "\<dots> = bind_res (fnii_dense_station_add True (dense (fn st)) (Some ?a)) (\<lambda>(r, t). Inr (r, set_dense t st))"
    using cmd_fields[OF assms(5-9), of 102 ?b pre c post] assms(2-4) len
    by (simp add: handle_cmd_def fnii_handle_add_vap_def add.assoc)
  finally have e: "fnii_parse_msg True junk ?b (int (length pre)) (int (length ssid) + 44) st =
      bind_res (fnii_dense_station_add True (dense (fn st)) (Some ?a)) (\<lambda>(r, t). Inr (r, set_dense t st))" .
  have k: "cmd_key ?a = (sta, own)"
    by (simp add: cmd_key_def)
  show ?thesis
  proof (cases "(sta, own) \<in> dense_set (dense (fn st))")
    case True
    then have "fnii_dense_station_add True (dense (fn st)) (Some ?a) = Inr (FNII_RET_ERR, dense (fn st))"
      using dense_add_old[OF assms(1), of ?a True] k by simp
    then show ?thesis
      using e True assms(1) by (auto simp: set_dense_def)
  next
    case False
    then obtain t' where "fnii_dense_station_add True (dense (fn st)) (Some ?a) = Inr (FNII_RET_OK, t')"
      "dense_valid t'" "dense_set t' = insert (sta, own) (dense_set (dense (fn st)))"
      using dense_add_new[OF assms(1), of ?a] k by auto
    then show ?thesis
      using e False by (simp add: set_dense_def)
  qed
qed


lemma withdraw_ok:
  assumes "dense_valid (dense (fn st))" "match_bss 0 ssid (bsses (fc st)) = Some k" "k < length (bsses (fc st))"
    and "own = own_addr (bsses (fc st) ! k)" "\<not> bssid_unset own" "sta_inv (bsses (fc st) ! k)"
    and "length sta = 6" "length other = 6" "length ssid \<le> 31" "0 \<le> i" "i \<le> 9999"
  shows "\<exists>r st'. fnii_parse_msg True junk (pre @ frame i 103 (cmd_payload sta other c ssid) @ post)
      (int (length pre)) (int (length ssid) + 44) st = Inr (r, st') \<and>
    dense_valid (dense (fn st')) \<and> dense_set (dense (fn st')) = dense_set (dense (fn st)) - {(sta, own)} \<and>
    (r = FNII_RET_OK \<longleftrightarrow> (sta, own) \<in> dense_set (dense (fn st))) \<and>
    sta_inv (bsses (fc st') ! k) \<and> (\<forall>j. j \<noteq> k \<longrightarrow> bsses (fc st') ! j = bsses (fc st) ! j) \<and>
    (\<forall>s. stas (bsses (fc st') ! k) sta = Some s \<longrightarrow> \<not> has_flag s WLAN_STA_ASSOC) \<and>
    (\<exists>b. ieee802_11_del_station_of_vap (counters (fc st)) (bsses (fc st) ! k) sta = Inr b \<and> fc st' = set_bss k b (fc st))"
proof -
  let ?p = "cmd_payload sta other c ssid" and ?bss = "bsses (fc st) ! k"
  let ?b = "pre @ frame i 103 ?p @ post"
  let ?a = "\<lparr>cmd_type = DEL_IF, bssid = own, stamac = sta\<rparr>"
  have len: "length ?p = 33 + length ssid"
    using assms by (intro length_cmd_payload)
  obtain b' where b: "ieee802_11_del_station_of_vap (counters (fc st)) ?bss sta = Inr b'" "sta_inv b'"
    "sta_keys b' = sta_keys ?bss"
    "sta \<in> sta_keys ?bss \<Longrightarrow> \<exists>s. stas b' sta = Some s \<and> \<not> has_flag s WLAN_STA_ASSOC \<and> timeout_next s = STA_DEAUTH \<and>
       disassoc_reason s = 5 \<and> (HandleTimer, sta, 30) \<in> set (timers b')"
    by (rule del_station_of_vap_ok[OF assms(6), of "counters (fc st)" sta]) blast
  obtain r t where d: "fnii_dense_station_del (dense (fn st)) (Some ?a) = (r, t)"
    by fastforce
  have "fnii_parse_msg True junk ?b (int (length pre)) (int (length ssid) + 44) st =
      handle_cmd True junk 103 i ?b (int (length pre) + 10) (int (length ?p)) st"
    using parse_frame[of i 103 ?p "int (length ssid) + 44" True junk pre post st] len assms
    by (simp add: to_schar_id)
  also have "\<dots> = Inr (r, (set_dense t st)\<lparr>fc := set_bss k b' (fc st)\<rparr>)"
    using cmd_fields[OF assms(7-11), of 103 ?b pre c post] assms(2,4,5) len d b(1)
    by (simp add: handle_cmd_def fnii_handle_del_vap_def add.assoc)
  finally have e: "fnii_parse_msg True junk ?b (int (length pre)) (int (length ssid) + 44) st =
      Inr (r, (set_dense t st)\<lparr>fc := set_bss k b' (fc st)\<rparr>)" .
  have "dense_valid t \<and> dense_set t = dense_set (dense (fn st)) - {(sta, own)} \<and>
      (r = FNII_RET_OK \<longleftrightarrow> (sta, own) \<in> dense_set (dense (fn st)))"
  proof (cases "cmd_key ?a \<in> dense_set (dense (fn st))")
    case True
    obtain t' where "fnii_dense_station_del (dense (fn st)) (Some ?a) = (FNII_RET_OK, t')"
      "dense_valid t'" "dense_set t' = dense_set (dense (fn st)) - {cmd_key ?a}"
      by (rule dense_del_old[OF assms(1) True])
    then show ?thesis
      using d True by (simp add: cmd_key_def)
  next
    case False
    then show ?thesis
      using dense_del_none[OF assms(1) False] d assms(1) by (simp add: cmd_key_def)
  qed
  moreover have "\<not> has_flag s WLAN_STA_ASSOC" if "stas b' sta = Some s" for s
  proof -
    have "sta \<in> sta_keys b'"
      using that b(2) by (auto simp: sta_inv_def)
    then show ?thesis
      using b(3,4) that by auto
  qed
  ultimately show ?thesis
    using e b(1,2) assms(3) by (simp add: set_dense_def set_bss_def)
qed

text \<open>
  C12: the command that withdraws a station. The station is taken out of the table for the first BSS
  that matches the SSID, with the answer OK exactly when it was there, and if the station is
  connected to that BSS it is disassociated; the other BSSs are untouched.
\<close>

theorem controller_withdraws_station:
  assumes "dense_valid (dense (fn st))" "match_bss 0 ssid (bsses (fc st)) = Some k" "k < length (bsses (fc st))"
    and "own = own_addr (bsses (fc st) ! k)" "\<not> bssid_unset own" "sta_inv (bsses (fc st) ! k)"
    and "length sta = 6" "length other = 6" "length ssid \<le> 31" "0 \<le> i" "i \<le> 9999"
  shows "\<exists>r st'. fnii_parse_msg True junk (pre @ frame i 103 (cmd_payload sta other c ssid) @ post)
      (int (length pre)) (int (length ssid) + 44) st = Inr (r, st') \<and>
    dense_valid (dense (fn st')) \<and> dense_set (dense (fn st')) = dense_set (dense (fn st)) - {(sta, own)} \<and>
    (r = FNII_RET_OK \<longleftrightarrow> (sta, own) \<in> dense_set (dense (fn st))) \<and>
    sta_inv (bsses (fc st') ! k) \<and> (\<forall>j. j \<noteq> k \<longrightarrow> bsses (fc st') ! j = bsses (fc st) ! j) \<and>
    (\<forall>s. stas (bsses (fc st') ! k) sta = Some s \<longrightarrow> \<not> has_flag s WLAN_STA_ASSOC)"
  using withdraw_ok[OF assms, of junk pre c post] by blast

text \<open>
  An unknown SSID assigns the station to a random access point. When no BSS matches, the
  handler goes on with the uninitialised bytes of its stack as the address of the access point:
  unless the first and the last of them happen to be zero it answers OK and stores them.
\<close>

theorem add_vap_unknown_ssid_uses_stack:
  assumes "dense_valid (dense (fn st))" "match_bss 0 ssid (bsses (fc st)) = None"
    and "\<not> bssid_unset junk" "(sta, junk) \<notin> dense_set (dense (fn st))"
    and "length sta = 6" "length other = 6" "length ssid \<le> 31" "0 \<le> i" "i \<le> 9999"
  shows "\<exists>st'. fnii_parse_msg True junk (pre @ frame i 102 (cmd_payload sta other c ssid) @ post)
      (int (length pre)) (int (length ssid) + 44) st = Inr (FNII_RET_OK, st') \<and>
    (sta, junk) \<in> dense_set (dense (fn st'))"
proof -
  let ?p = "cmd_payload sta other c ssid"
  let ?b = "pre @ frame i 102 ?p @ post"
  let ?a = "\<lparr>cmd_type = NEW_IF, bssid = junk, stamac = sta\<rparr>"
  have len: "length ?p = 33 + length ssid"
    using assms by (intro length_cmd_payload)
  have k: "cmd_key ?a \<notin> dense_set (dense (fn st))"
    using assms(4) by (simp add: cmd_key_def)
  obtain t' where t: "fnii_dense_station_add True (dense (fn st)) (Some ?a) = Inr (FNII_RET_OK, t')"
    "dense_set t' = insert (cmd_key ?a) (dense_set (dense (fn st)))"
    by (rule dense_add_new[OF assms(1) k])
  have "fnii_parse_msg True junk ?b (int (length pre)) (int (length ssid) + 44) st =
      handle_cmd True junk 102 i ?b (int (length pre) + 10) (int (length ?p)) st"
    using parse_frame[of i 102 ?p "int (length ssid) + 44" True junk pre post st] len assms
    by (simp add: to_schar_id)
  also have "\<dots> = Inr (FNII_RET_OK, set_dense t' st)"
    using cmd_fields[OF assms(5-9), of 102 ?b pre c post] assms(2,3) len t(1)
    by (simp add: handle_cmd_def fnii_handle_add_vap_def add.assoc)
  finally show ?thesis
    using t(2) by (simp add: set_dense_def cmd_key_def)
qed

text \<open>
  The type of a command wraps around at 256: a frame whose type field is 256 more than a known
  type is executed as that type, because the type is kept in a \<^verbatim>\<open>char\<close>.
\<close>

theorem command_type_wraps:
  assumes "0 \<le> t" "t \<le> 127" "0 \<le> i" "i \<le> 9999" "length p \<le> 999"
  shows "fnii_parse_msg alloc junk (pre @ frame i (t + 256) p @ post) (int (length pre)) (int (length p) + 11) st =
    handle_cmd alloc junk t i (pre @ frame i (t + 256) p @ post) (int (length pre) + 10) (int (length p)) st"
proof -
  have "to_schar (t + 256) = to_schar t"
  proof -
    have "take_bit 8 (t + 256) = take_bit 8 t"
      by (simp add: take_bit_eq_mod)
    then show ?thesis
      by (simp add: to_schar_def signed_take_bit_eq_iff_take_bit_eq)
  qed
  then show ?thesis
    using assms parse_frame[of i "t + 256" p "int (length p) + 11" alloc junk pre post st]
    by (simp add: to_schar_id)
qed

text \<open>
  The heartbeat is a round trip. Sending one marks the peer as dead and prints an identifier;
  the echo of exactly that identifier, and no other, marks it as alive again.
\<close>

theorem heartbeat_roundtrip:
  assumes "socket_enabled f" "idf_ok f" "fn st = f"
  shows "\<exists>f'. fnii_send_msg True au MsgBeat f = Inr (FNII_RET_OK, f') \<and> \<not> beat_live (beat f') \<and>
    net f' = net f @ [NSend (frame (FNII_IDF (next_idf f)) 110 [])] \<and>
    (\<forall>j. 0 \<le> j \<and> j \<le> 9999 \<longrightarrow>
      (\<exists>r st'. fnii_parse_msg alloc junk (pre @ frame j 110 [] @ post) (int (length pre)) 11 (st\<lparr>fn := f'\<rparr>) =
         Inr (r, st') \<and>
       (r = FNII_RET_OK \<longleftrightarrow> j = FNII_IDF (next_idf f)) \<and> (beat_live (beat (fn st')) \<longleftrightarrow> j = FNII_IDF (next_idf f))))"
proof -
  let ?f = "next_idf f"
  let ?f' = "net_emit (NSend (frame (FNII_IDF ?f) 110 []))
    (?f\<lparr>beat := (beat ?f)\<lparr>beat_cseq := msg_idf ?f, beat_live := False\<rparr>\<rparr>)"
  have snd: "fnii_send_msg True au MsgBeat f = Inr (FNII_RET_OK, ?f')"
    using assms(1) send_beat[OF idf_ok_next[OF assms(2)]]
    by (simp add: fnii_send_msg_def fnii_check_socket_status_def)
  have p: "\<exists>r st'. fnii_parse_msg alloc junk (pre @ frame j 110 [] @ post) (int (length pre)) 11 (st\<lparr>fn := ?f'\<rparr>) =
         Inr (r, st') \<and>
       (r = FNII_RET_OK \<longleftrightarrow> j = FNII_IDF ?f) \<and> (beat_live (beat (fn st')) \<longleftrightarrow> j = FNII_IDF ?f)"
    if "0 \<le> j" "j \<le> 9999" for j
    using that parse_frame[of j 110 "[]" 11 alloc junk pre post "st\<lparr>fn := ?f'\<rparr>"]
    by (auto simp: to_schar_id handle_cmd_def fnii_handle_beat_def FNII_IDF_def)
  show ?thesis
    using snd p by (intro exI[of _ ?f']) simp
qed

section \<open>Witnesses\<close>

definition wit_st :: apstate where
  "wit_st = \<lparr>fn = wit_fnii, fc = \<lparr>bsses = [wit_bss], counters = wit_counters, if_channel = 6, phy = ''phy0''\<rparr>\<rparr>"

lemma wit_st: "dense_valid (dense (fn wit_st))" "dense_set (dense (fn wit_st)) = {}"
  "match_bss 0 ''lab'' (bsses (fc wit_st)) = Some 0" "match_bss 0 ''office'' (bsses (fc wit_st)) = None"
  "own_addr (bsses (fc wit_st) ! 0) = [2, 0, 0, 0, 0, 1]" "sta_inv (bsses (fc wit_st) ! 0)"
  "length (bsses (fc wit_st)) = 1"
proof -
  have s: "station (dense (fn wit_st)) = replicate STAION_MAX []" "station_used (dense (fn wit_st)) = 0"
    by (simp_all add: wit_st_def wit_fnii_def STAION_MAX_def)
  show "dense_valid (dense (fn wit_st))" "dense_set (dense (fn wit_st)) = {}"
    unfolding dense_valid_def dense_set_def s by (simp_all add: ds.wf_empty ds.total_empty ds.keys_empty)
  show "match_bss 0 ''lab'' (bsses (fc wit_st)) = Some 0" "match_bss 0 ''office'' (bsses (fc wit_st)) = None"
    by (simp_all add: wit_st_def ssid_array_def wit_bss(4))
  show "own_addr (bsses (fc wit_st) ! 0) = [2, 0, 0, 0, 0, 1]" "sta_inv (bsses (fc wit_st) ! 0)"
    "length (bsses (fc wit_st)) = 1"
    by (simp_all add: wit_st_def wit_bss)
qed

lemma wit_macs: "length wit_mac = 6" "length [2, 0, 0, 0, 0, 1 :: u8] = 6" "\<not> bssid_unset [2, 0, 0, 0, 0, 1]"
  by (simp_all add: wit_mac_def bssid_unset_def)


theorem controller_withdraws_station_witness:
  "\<exists>r st'. fnii_parse_msg True [] (frame 18 103 (cmd_payload wit_mac wit_mac (CHR ''1'') ''lab'')) 0 47 wit_st = Inr (r, st') \<and>
     r = FNII_RET_ERR \<and> dense_set (dense (fn st')) = {} \<and> sta_inv (bsses (fc st') ! 0) \<and>
     (\<forall>s. stas (bsses (fc st') ! 0) wit_mac = Some s \<longrightarrow> \<not> has_flag s WLAN_STA_ASSOC)"
  using controller_withdraws_station[OF wit_st(1,3) _ wit_st(5)[symmetric] wit_macs(3) wit_st(6) wit_macs(1,1),
      of 18 "[]" "[]" "CHR ''1''" "[]"] wit_st(2,7)
  by (auto intro: fnii_ret.exhaust)

theorem add_vap_unknown_ssid_uses_stack_witness:
  "\<exists>st'. fnii_parse_msg True [9, 8, 7, 6, 5, 4]
      (frame 17 102 (cmd_payload wit_mac wit_mac (CHR ''1'') ''office'')) 0 50 wit_st = Inr (FNII_RET_OK, st') \<and>
     (wit_mac, [9, 8, 7, 6, 5, 4]) \<in> dense_set (dense (fn st'))"
  using add_vap_unknown_ssid_uses_stack[OF wit_st(1,4) _ _ wit_macs(1,1), of "[9, 8, 7, 6, 5, 4]" 17 "[]" "CHR ''1''" "[]"]
    wit_st(2) by (simp add: bssid_unset_def)

theorem command_type_wraps_witness:
  "fnii_parse_msg True [] (frame 17 358 (cmd_payload wit_mac wit_mac (CHR ''1'') ''lab'')) 0 47 wit_st =
     handle_cmd True [] 102 17 (frame 17 358 (cmd_payload wit_mac wit_mac (CHR ''1'') ''lab'')) 10 36 wit_st"
  using command_type_wraps[of 102 17 "cmd_payload wit_mac wit_mac (CHR ''1'') ''lab''" True "[]" "[]" "[]" wit_st]
    length_cmd_payload[OF wit_macs(1,1), of "''lab''" "CHR ''1''"] by simp

theorem heartbeat_roundtrip_witness:
  "\<exists>f'. fnii_send_msg True Inr MsgBeat wit_fnii = Inr (FNII_RET_OK, f') \<and> \<not> beat_live (beat f') \<and>
     (\<exists>st'. fnii_parse_msg True [] (frame (FNII_IDF (next_idf wit_fnii)) 110 []) 0 11 (wit_st\<lparr>fn := f'\<rparr>) =
        Inr (FNII_RET_OK, st') \<and> beat_live (beat (fn st')))"
proof -
  have i: "0 \<le> FNII_IDF (next_idf wit_fnii) \<and> FNII_IDF (next_idf wit_fnii) \<le> 9999"
    using idf_range[OF idf_ok_next[OF wit_fnii_ok(2)]] by simp
  have "fn wit_st = wit_fnii"
    by (simp add: wit_st_def)
  then show ?thesis
    using heartbeat_roundtrip[OF wit_fnii_ok, of wit_st Inr True "[]" "[]" "[]"] i by fastforce
qed

end
