(* ===== verification/FniiRecv.thy ===== *)
theory FniiRecv
  imports FniiParse
begin

text \<open>
  The thread that receives the controller's commands (\<^verbatim>\<open>fnii_receive_msg_thread\<close> of
  \<^verbatim>\<open>fnii_roam.c\<close>). Its buffer has twice 68 bytes: a receive fills the second half, and the
  incomplete message left over from before is kept at the end of the first half, where
  \<^verbatim>\<open>msg_alig\<close> points. An iteration of the outer loop is \<open>fnii_receive_iter\<close>; the inner loop
  over the messages takes fuel, since a length field can make it run forever. Whether a
  \<^verbatim>\<open>send\<close> succeeds may depend on the whole state.
\<close>

section \<open>The thread\<close>

record rx =
  rbuf :: string
  alig :: int

datatype recv_result = RecvFail | RecvData string

definition reply_msg :: "fnii_ret \<Rightarrow> string \<Rightarrow> fnii_msg" where
  "reply_msg r idf = (if r = FNII_RET_OK then MsgOk idf else MsgErr idf)"

text \<open>One message: parse, and answer with its own identifier.\<close>

definition rx_one ::
  "(fnii \<Rightarrow> bool) \<Rightarrow> (int \<Rightarrow> int res) \<Rightarrow> bool \<Rightarrow> mac \<Rightarrow> string \<Rightarrow> int \<Rightarrow> int \<Rightarrow> apstate \<Rightarrow> apstate res" where
  "rx_one ok au alloc junk b p len st =
     bind_res (fnii_parse_msg alloc junk b p len st) (\<lambda>(r, st1).
       bind_res (fnii_send_msg (ok (fn st1)) au (reply_msg r (drop (nat p) b)) (fn st1)) (\<lambda>(_, f).
         Inr (st1\<lparr>fn := f\<rparr>)))"

fun rx_messages ::
  "nat \<Rightarrow> (fnii \<Rightarrow> bool) \<Rightarrow> (int \<Rightarrow> int res) \<Rightarrow> bool \<Rightarrow> mac \<Rightarrow> string \<Rightarrow> int \<Rightarrow> int \<Rightarrow> apstate \<Rightarrow> (int \<times> apstate) res" where
  "rx_messages 0 ok au alloc junk b p len st = Inl OutOfFuel"
| "rx_messages (Suc n) ok au alloc junk b p len st =
     (if len < 10 then Inr (len, st)
      else bind_res (rd b (p + 7) 3) (\<lambda>t.
        let sg = atoi (c_str t)
        in if sg > len - 10 then Inr (len, st)
           else bind_res (rx_one ok au alloc junk b p (sg + 11) st) (\<lambda>st1.
                  rx_messages n ok au alloc junk b (p + (sg + 11)) (len - (sg + 11)) st1)))"

text \<open>Saving the \<open>len\<close> bytes that are left: the source of the copy is the end of the buffer.\<close>

definition rx_save :: "string \<Rightarrow> int \<Rightarrow> rx res" where
  "rx_save b len =
     (if len < 0 then Inl NegativeSize
      else if len > 68 then Inl OutOfBounds
      else Inr \<lparr>rbuf = mem_write (68 - nat len) (drop (136 - nat len) b) b, alig = 68 - len\<rparr>)"

definition fnii_receive_iter ::
  "nat \<Rightarrow> (fnii \<Rightarrow> bool) \<Rightarrow> (int \<Rightarrow> int res) \<Rightarrow> bool \<Rightarrow> mac \<Rightarrow> recv_result \<Rightarrow> rx \<Rightarrow> apstate \<Rightarrow> (rx \<times> apstate) res" where
  "fnii_receive_iter fuel ok au alloc junk rr x st =
     (if \<not> fnii_check_socket_status (fn st) then Inr (x\<lparr>alig := 68\<rparr>, st)
      else case rr of
             RecvFail \<Rightarrow>
               Inr (x\<lparr>rbuf := take 68 (rbuf x) @ replicate 68 nul\<rparr>, st\<lparr>fn := drop_connection (fn st)\<rparr>)
           | RecvData d \<Rightarrow>
               let b = take 68 (rbuf x) @ d @ replicate (68 - length d) nul;
                   len = int (length d) + (68 - alig x)
               in bind_res (rx_messages fuel ok au alloc junk b (alig x) len st) (\<lambda>(len', st').
                    bind_res (rx_save b len') (\<lambda>x'. Inr (x', st'))))"

section \<open>Framing\<close>

text \<open>The messages of a buffer handled one after the other, given their lengths.\<close>

fun handle_frames ::
  "(fnii \<Rightarrow> bool) \<Rightarrow> (int \<Rightarrow> int res) \<Rightarrow> bool \<Rightarrow> mac \<Rightarrow> string \<Rightarrow> int \<Rightarrow> nat list \<Rightarrow> apstate \<Rightarrow> apstate res" where
  "handle_frames ok au alloc junk b p [] st = Inr st"
| "handle_frames ok au alloc junk b p (n # ns) st =
     bind_res (rx_one ok au alloc junk b p (int n) st) (\<lambda>st1.
       handle_frames ok au alloc junk b (p + int n) ns st1)"

type_synonym msg = "int \<times> int \<times> string"

definition msg_ok :: "msg \<Rightarrow> bool" where
  "msg_ok m = (case m of (i, t, p) \<Rightarrow> 0 \<le> i \<and> i \<le> 9999 \<and> 0 \<le> t \<and> t \<le> 999 \<and> length p \<le> 999)"

definition msg_text :: "msg \<Rightarrow> string" where
  "msg_text m = (case m of (i, t, p) \<Rightarrow> frame i t p)"

definition stream_of :: "msg list \<Rightarrow> string" where
  "stream_of ms = concat (map msg_text ms)"

text \<open>A remainder that the inner loop leaves for the next receive.\<close>

definition incomplete :: "string \<Rightarrow> bool" where
  "incomplete r \<longleftrightarrow> length r < 10 \<or> atoi (c_str (take 3 (drop 7 r))) > int (length r) - 10"

lemma length_msg_text: "msg_ok m \<Longrightarrow> length (msg_text m) = 11 + length (snd (snd m))"
  by (auto simp: msg_ok_def msg_text_def length_frame split: prod.splits)

lemma rd_rest:
  "10 \<le> length r \<Longrightarrow> rd (pre @ r @ post) (int (length pre) + 7) 3 = Inr (take 3 (drop 7 r))"
  by (simp add: rd_def nat_add_distrib)

lemma rx_messages_frames:
  "\<forall>m \<in> set ms. msg_ok m \<Longrightarrow> incomplete rest \<Longrightarrow> length ms < fuel \<Longrightarrow>
   rx_messages fuel ok au alloc junk (pre @ stream_of ms @ rest @ post) (int (length pre))
     (int (length (stream_of ms @ rest))) st =
   bind_res (handle_frames ok au alloc junk (pre @ stream_of ms @ rest @ post) (int (length pre))
       (map (\<lambda>m. length (msg_text m)) ms) st)
     (\<lambda>st'. Inr (int (length rest), st'))"
proof (induction ms arbitrary: fuel pre st)
  case Nil
  then obtain n where n: "fuel = Suc n"
    by (cases fuel) auto
  then show ?case
    using Nil.prems(2) rd_rest[of rest pre post] by (auto simp: stream_of_def incomplete_def)
next
  case (Cons m ms)
  obtain i t p where m: "m = (i, t, p)"
    by (cases m)
  obtain n where n: "fuel = Suc n" "length ms < n"
    using Cons.prems(3) by (cases fuel) auto
  have ok: "0 \<le> i" "i \<le> 9999" "0 \<le> t" "t \<le> 999" "length p \<le> 999"
    using Cons.prems(1) m by (simp_all add: msg_ok_def)
  let ?b = "pre @ stream_of (m # ms) @ rest @ post"
  have b: "?b = pre @ frame i t p @ (stream_of ms @ rest @ post)"
    by (simp add: stream_of_def msg_text_def m)
  have len: "length (frame i t p) = 11 + length p"
    using ok by (rule length_frame)
  have hdr: "rd ?b (int (length pre) + 7) 3 = Inr (fmt_d 3 (int (length p)))"
    unfolding b by (rule rd_header(3)[OF ok])
  have sg: "atoi (c_str (fmt_d 3 (int (length p)))) = int (length p)"
    using ok by (simp add: atoi_c_str_fmt_d)
  have tot: "int (length (stream_of (m # ms) @ rest)) = 11 + int (length p) + int (length (stream_of ms @ rest))"
    using len by (simp add: stream_of_def msg_text_def m)
  have IH: "rx_messages n ok au alloc junk ?b (int (length pre) + (int (length p) + 11))
      (int (length (stream_of ms @ rest))) st1 =
    bind_res (handle_frames ok au alloc junk ?b (int (length pre) + (int (length p) + 11))
       (map (\<lambda>m. length (msg_text m)) ms) st1) (\<lambda>st'. Inr (int (length rest), st'))" for st1
    using Cons.IH[of n "pre @ frame i t p" st1] Cons.prems n(2) len
    by (simp add: b add.commute add.left_commute)
  have step: "rx_messages fuel ok au alloc junk ?b (int (length pre)) (int (length (stream_of (m # ms) @ rest))) st =
      bind_res (rx_one ok au alloc junk ?b (int (length pre)) (int (length p) + 11) st) (\<lambda>st1.
        rx_messages n ok au alloc junk ?b (int (length pre) + (int (length p) + 11))
          (int (length (stream_of ms @ rest))) st1)"
    unfolding n(1) tot by (simp add: hdr sg Let_def)
  have lm: "int (length (msg_text m)) = int (length p) + 11"
    using len by (simp add: msg_text_def m)
  show ?case
    unfolding step IH list.map handle_frames.simps lm
    by (cases "rx_one ok au alloc junk ?b (int (length pre)) (int (length p) + 11) st") simp_all
qed

lemma length_stream_of: "\<forall>m \<in> set ms. msg_ok m \<Longrightarrow> 11 * length ms \<le> length (stream_of ms)"
proof (induction ms)
  case (Cons m ms)
  then show ?case
    using length_msg_text[of m] by (simp add: stream_of_def)
qed simp

text \<open>The buffer holds the bytes \<open>r\<close> of an incomplete message for the next receive.\<close>

definition rx_pending :: "rx \<Rightarrow> string \<Rightarrow> bool" where
  "rx_pending x r \<longleftrightarrow> length (rbuf x) = 136 \<and> length r \<le> 68 \<and> alig x = 68 - int (length r) \<and>
     drop (68 - length r) (take 68 (rbuf x)) = r"

lemma pending_split:
  assumes "rx_pending x r"
  obtains pre where "take 68 (rbuf x) = pre @ r" "int (length pre) = alig x"
proof
  show "take 68 (rbuf x) = take (68 - length r) (take 68 (rbuf x)) @ r"
    using assms append_take_drop_id[of "68 - length r" "take 68 (rbuf x)"] by (simp add: rx_pending_def del: append_take_drop_id)
  show "int (length (take (68 - length r) (take 68 (rbuf x)))) = alig x"
    using assms by (simp add: rx_pending_def)
qed

lemma rx_save_pending:
  assumes "length b = 136" "length r \<le> 68" "drop (136 - length r) b = r"
  obtains x where "rx_save b (int (length r)) = Inr x" "rx_pending x r"
proof -
  let ?x = "\<lparr>rbuf = mem_write (68 - length r) r b, alig = 68 - int (length r)\<rparr>"
  have "length (mem_write (68 - length r) r b) = 136"
    using assms by (subst length_mem_write) simp_all
  moreover have "drop (68 - length r) (take 68 (mem_write (68 - length r) r b)) = r"
    using assms(1,2) by (cases r) (simp_all add: mem_write_def)
  ultimately show ?thesis
    using that[of ?x] assms by (simp add: rx_save_def rx_pending_def)
qed

text \<open>An iteration up to the point where the remainder is saved.\<close>

lemma rx_iter_messages:
  assumes "socket_enabled (fn st)" "rx_pending x r0" "length d \<le> 68" "r0 @ d = stream_of ms @ rest"
    and "\<forall>m \<in> set ms. msg_ok m" "incomplete rest"
  defines "b \<equiv> take 68 (rbuf x) @ d @ replicate (68 - length d) nul"
  shows "fnii_receive_iter 13 ok au alloc junk (RecvData d) x st =
    bind_res (handle_frames ok au alloc junk b (alig x) (map (\<lambda>m. length (msg_text m)) ms) st) (\<lambda>st'.
      bind_res (rx_save b (int (length rest))) (\<lambda>x'. Inr (x', st')))"
proof -
  obtain pre where pre: "take 68 (rbuf x) = pre @ r0" "int (length pre) = alig x"
    by (rule pending_split[OF assms(2)])
  have b: "b = pre @ stream_of ms @ rest @ replicate (68 - length d) nul"
    using arg_cong[OF assms(4), of "\<lambda>z. pre @ z @ replicate (68 - length d) nul"] by (simp add: b_def pre(1))
  have r0: "length r0 \<le> 68" "alig x = 68 - int (length r0)"
    using assms(2) by (simp_all add: rx_pending_def)
  have l: "length (stream_of ms @ rest) = length r0 + length d"
    by (metis assms(4) length_append)
  then have "length ms < 13"
    using length_stream_of[OF assms(5)] r0(1) assms(3) by simp
  then have "rx_messages 13 ok au alloc junk b (alig x) (int (length (stream_of ms @ rest))) st =
     bind_res (handle_frames ok au alloc junk b (alig x) (map (\<lambda>m. length (msg_text m)) ms) st)
       (\<lambda>st'. Inr (int (length rest), st'))"
    using rx_messages_frames[OF assms(5,6), of 13 ok au alloc junk pre] pre(2) b by simp
  moreover have "int (length d) + (68 - alig x) = int (length (stream_of ms @ rest))"
    using l r0(2) by simp
  ultimately have "fnii_receive_iter 13 ok au alloc junk (RecvData d) x st =
    bind_res (bind_res (handle_frames ok au alloc junk b (alig x) (map (\<lambda>m. length (msg_text m)) ms) st)
       (\<lambda>st'. Inr (int (length rest), st'))) (\<lambda>(len', st'). bind_res (rx_save b len') (\<lambda>x'. Inr (x', st')))"
    using assms(1) by (simp add: fnii_receive_iter_def fnii_check_socket_status_def Let_def b_def)
  then show ?thesis
    by (cases "handle_frames ok au alloc junk b (alig x) (map (\<lambda>m. length (msg_text m)) ms) st") simp_all
qed

section \<open>Properties\<close>

text \<open>
  C3: the command stream is cut into its messages. When a receive fills the buffer (or ends with
  a message), the bytes kept from before and the new ones are handled message by message, each
  exactly once and in order, the remainder is kept as the pending bytes of the next iteration, and
  thirteen rounds of the inner loop are always enough.
\<close>

theorem receive_reassembles:
  assumes "socket_enabled (fn st)" "rx_pending x r0" "r0 @ d = stream_of ms @ rest"
    and "\<forall>m \<in> set ms. msg_ok m" "incomplete rest" "length d = 68 \<or> rest = [] \<and> length d \<le> 68" "length rest \<le> 68"
  shows "\<exists>b x'. rx_pending x' rest \<and>
    take (length (r0 @ d)) (drop (nat (alig x)) b) = r0 @ d \<and>
    fnii_receive_iter 13 ok au alloc junk (RecvData d) x st =
      bind_res (handle_frames ok au alloc junk b (alig x) (map (\<lambda>m. length (msg_text m)) ms) st)
        (\<lambda>st'. Inr (x', st'))"
proof -
  let ?b = "take 68 (rbuf x) @ d @ replicate (68 - length d) nul"
  obtain pre where pre: "take 68 (rbuf x) = pre @ r0" "int (length pre) = alig x"
    by (rule pending_split[OF assms(2)])
  have d: "length d \<le> 68"
    using assms(6) by auto
  have lb: "length ?b = 136"
    using assms(2) d by (simp add: rx_pending_def)
  have "drop (136 - length rest) ?b = rest"
  proof (cases "rest = []")
    case False
    then have "length d = 68"
      using assms(6) by simp
    then have b: "?b = (pre @ stream_of ms) @ rest"
      using assms(3) pre(1) by simp
    then have "length (pre @ stream_of ms) = 136 - length rest"
      using lb by (metis diff_add_inverse2 length_append)
    then show ?thesis
      unfolding b by simp
  qed (use lb in simp)
  then obtain x' where x': "rx_save ?b (int (length rest)) = Inr x'" "rx_pending x' rest"
    using rx_save_pending[OF lb assms(7)] by blast
  have "take (length (r0 @ d)) (drop (nat (alig x)) ?b) = r0 @ d"
    using pre by (simp flip: pre(2))
  then show ?thesis
    using rx_iter_messages[OF assms(1,2) d assms(3-5), of ok au alloc junk] x'(1)
    by (intro exI[of _ ?b] exI[of _ x'] conjI x'(2)) simp_all
qed

text \<open>
  A message that arrives in pieces is lost. After a receive of fewer than 68 bytes the
  remainder is copied from the end of the buffer, not from where it was received: when the
  remainder is not longer than the unused part of the buffer, what is kept is zeros.
\<close>

theorem partial_receive_loses_bytes:
  assumes "socket_enabled (fn st)" "rx_pending x r0" "r0 @ d = stream_of ms @ rest"
    and "\<forall>m \<in> set ms. msg_ok m" "incomplete rest" "length d + length rest \<le> 68"
    and "handle_frames ok au alloc junk (take 68 (rbuf x) @ d @ replicate (68 - length d) nul) (alig x)
           (map (\<lambda>m. length (msg_text m)) ms) st = Inr st'"
  shows "\<exists>x'. fnii_receive_iter 13 ok au alloc junk (RecvData d) x st = Inr (x', st') \<and>
    rx_pending x' (replicate (length rest) nul)"
proof -
  let ?b = "take 68 (rbuf x) @ d @ replicate (68 - length d) nul"
  let ?z = "replicate (length rest) nul"
  have lb: "length ?b = 136"
    using assms(2,6) by (simp add: rx_pending_def)
  have "drop (136 - length ?z) ?b = drop (136 - length rest - 68 - length d) (replicate (68 - length d) nul)"
    using assms(2,6) by (simp add: rx_pending_def)
  also have "\<dots> = ?z"
    using assms(6) by simp
  finally have dz: "drop (136 - length ?z) ?b = ?z" .
  have lz: "length ?z \<le> 68"
    using assms(6) by simp
  obtain x' where "rx_save ?b (int (length ?z)) = Inr x'" "rx_pending x' ?z"
    by (rule rx_save_pending[OF lb lz dz])
  moreover have "length d \<le> 68"
    using assms(6) by simp
  ultimately show ?thesis
    using rx_iter_messages[OF assms(1,2) _ assms(3-5), of ok au alloc junk] assms(7) by simp
qed

text \<open>
  A receive that ends one byte before the end of a message brings the process down. The check
  for a complete message leaves out the final semicolon, so the message is handled, the number of
  bytes left becomes -1, and \<^verbatim>\<open>memcpy\<close> is called with that length.
\<close>

theorem receive_missing_semicolon_crashes:
  assumes "socket_enabled (fn st)" "rx_pending x []" "d @ '';'' = frame i t p" "msg_ok (i, t, p)" "length p \<le> 58"
    and "rx_one ok au alloc junk (take 68 (rbuf x) @ d @ replicate (68 - length d) nul) 68 (int (length p) + 11) st = Inr st'"
  shows "fnii_receive_iter (Suc (Suc n)) ok au alloc junk (RecvData d) x st = Inl NegativeSize"
proof -
  let ?b = "take 68 (rbuf x) @ d @ replicate (68 - length d) nul"
  have ok: "0 \<le> i" "i \<le> 9999" "0 \<le> t" "t \<le> 999" "length p \<le> 999"
    using assms(4) by (simp_all add: msg_ok_def)
  have ld: "length d = 10 + length p"
    using arg_cong[OF assms(3), of length] length_frame[OF ok] by simp
  have "d = fmt_d 4 i @ fmt_d 3 t @ fmt_d 3 (int (length p)) @ p"
    using assms(3) by (simp add: frame_def)
  moreover have "length (fmt_d 4 i) = 4" "length (fmt_d 3 t) = 3" "length (fmt_d 3 (int (length p))) = 3"
    using ok by (simp_all add: buf_simps)
  ultimately have "take 3 (drop 7 d) = fmt_d 3 (int (length p))"
    by simp
  moreover have x: "length (rbuf x) = 136" "alig x = 68"
    using assms(2) by (simp_all add: rx_pending_def)
  ultimately have hdr: "rd ?b 75 3 = Inr (fmt_d 3 (int (length p)))"
    using rd_rest[of d "take 68 (rbuf x)" "replicate (68 - length d) nul"] ld by simp
  have "rx_messages (Suc (Suc n)) ok au alloc junk ?b 68 (int (length d)) st = Inr (- 1, st')"
    using assms(6) ok ld hdr by (simp add: atoi_c_str_fmt_d Let_def)
  then show ?thesis
    using assms(1) x ld by (simp add: fnii_receive_iter_def fnii_check_socket_status_def Let_def rx_save_def)
qed

lemma parse_short: "len < 10 \<Longrightarrow> fnii_parse_msg alloc junk b p len st = Inr (FNII_RET_ERR, st)"
  by (simp add: fnii_parse_msg_def)

lemma send_err_returns:
  assumes "4 \<le> length idf"
  shows "\<exists>r f'. fnii_send_msg k au (MsgErr idf) f = Inr (r, f')"
proof -
  have "sprintf_buf 11 ''101003ERR;'' = Inr (''101003ERR;'' @ [nul])"
    by (simp add: sprintf_buf_def)
  then show ?thesis
    using assms by (simp add: fnii_send_msg_def fnii_send_msg_err_def net_send_def fnii_check_socket_status_def)
qed


section \<open>Witnesses\<close>

definition wit_rx :: rx where
  "wit_rx = \<lparr>rbuf = replicate 136 nul, alig = 68\<rparr>"

lemma wit_rx_pending: "rx_pending wit_rx []"
  by (simp add: rx_pending_def wit_rx_def)

lemma wit_enabled: "socket_enabled (fn wit_st)"
  by (simp add: wit_st_def wit_fnii_ok)

theorem receive_reassembles_witness:
  "\<exists>b x'. rx_pending x' ''00'' \<and>
     fnii_receive_iter 13 (\<lambda>_. True) Inr True [] (RecvData (stream_of (replicate 6 (3, 110, [])) @ ''00'')) wit_rx wit_st =
     bind_res (handle_frames (\<lambda>_. True) Inr True [] b (alig wit_rx) (map (\<lambda>m. length (msg_text m)) (replicate 6 (3, 110, []))) wit_st)
       (\<lambda>st'. Inr (x', st'))"
proof -
  have "length (stream_of (replicate 6 (3, 110, [])) @ ''00'') = 68"
    by code_simp
  moreover have "\<forall>m \<in> set (replicate 6 (3, 110, [])). msg_ok m" "incomplete ''00''"
    by (simp_all add: msg_ok_def incomplete_def)
  ultimately show ?thesis
    using receive_reassembles[OF wit_enabled wit_rx_pending, of "stream_of (replicate 6 (3, 110, [])) @ ''00''"
        "replicate 6 (3, 110, [])" "''00''" "\<lambda>_. True" Inr True "[]"] by auto
qed

theorem partial_receive_loses_bytes_witness:
  "\<exists>x'. fnii_receive_iter 13 (\<lambda>_. True) Inr True [] (RecvData ''000'') wit_rx wit_st = Inr (x', wit_st) \<and>
     rx_pending x' [nul, nul, nul]"
  using partial_receive_loses_bytes[OF wit_enabled wit_rx_pending, of "''000''" "[]" "''000''" "\<lambda>_. True" Inr True "[]" wit_st]
  by (simp add: stream_of_def incomplete_def numeral_3_eq_3)

lemma wit_rx_one:
  "\<exists>st'. rx_one (\<lambda>_. True) Inr True [] (take 68 (rbuf wit_rx) @ ''0003110000'' @ replicate 58 nul) 68 11 wit_st = Inr st'"
proof -
  define b where "b = take 68 (rbuf wit_rx) @ ''0003110000'' @ replicate 58 nul"
  have r: "rd b 68 4 = Inr ''0003''" "rd b 72 3 = Inr ''110''" "rd b 75 3 = Inr ''000''"
    by (simp_all add: b_def rd_def wit_rx_def)
  have a: "atoi (c_str ''0003'') = 3" "to_schar (atoi (c_str ''110'')) = 110" "atoi (c_str ''000'') = 0"
    by code_simp+
  have "beat_cseq (beat (fn wit_st)) = 0"
    by (simp add: wit_st_def wit_fnii_def)
  then have "fnii_parse_msg True [] b 68 11 wit_st = Inr (FNII_RET_ERR, wit_st)"
    by (simp add: fnii_parse_msg_def r a fnii_handle_beat_def c_mod_nonneg)
  moreover obtain r f' where "fnii_send_msg True Inr (MsgErr (drop 68 b)) (fn wit_st) = Inr (r, f')"
    using send_err_returns[of "drop 68 b" True Inr "fn wit_st"] by (auto simp: b_def wit_rx_def)
  ultimately show ?thesis
    unfolding b_def[symmetric] by (simp add: rx_one_def reply_msg_def)
qed

theorem receive_missing_semicolon_crashes_witness:
  "fnii_receive_iter 13 (\<lambda>_. True) Inr True [] (RecvData ''0003110000'') wit_rx wit_st = Inl NegativeSize"
proof -
  have f: "''0003110000'' @ '';'' = frame 3 110 []"
    by code_simp
  have m: "msg_ok (3, 110, [])"
    by (simp add: msg_ok_def)
  obtain st' where "rx_one (\<lambda>_. True) Inr True [] (take 68 (rbuf wit_rx) @ ''0003110000'' @ replicate 58 nul) 68 11 wit_st = Inr st'"
    using wit_rx_one by blast
  then have r: "rx_one (\<lambda>_. True) Inr True [] (take 68 (rbuf wit_rx) @ ''0003110000'' @
      replicate (68 - length ''0003110000'') nul) 68 (int (length []) + 11) wit_st = Inr st'"
    by simp
  show ?thesis
    using receive_missing_semicolon_crashes[OF wit_enabled wit_rx_pending f m _ r, of 11]
    by (simp add: eval_nat_numeral)
qed


end
