(* ===== verification/FniiRoam.thy ===== *)
theory FniiRoam
  imports FniiParse Scanf
begin

text \<open>
  The connection to the controller (\<^verbatim>\<open>fnii_roam.c\<close>): reading the controller's address from
  the configuration, connecting, what is announced after connecting, the reports of the traffic
  of each station, and the thread that sends heartbeats, drops a dead connection and reconnects.
  The output of a command or the contents of a file is an argument, None where the command or
  file cannot be opened.
\<close>

section \<open>Configuration\<close>

text \<open>
  The scan for the text between \<^verbatim>\<open>>\<close> and \<^verbatim>\<open><\<close>; its result is \<^verbatim>\<open>value_s\<close> and
  \<^verbatim>\<open>value_e\<close>.
\<close>

fun scan_value :: "string \<Rightarrow> nat \<Rightarrow> nat \<Rightarrow> nat \<times> nat" where
  "scan_value [] i value_s = (value_s, 0)"
| "scan_value (c # cs) i value_s =
     (let value_s' = (if c = CHR ''>'' then i + 1 else value_s)
      in if c = CHR ''<'' \<and> value_s' \<noteq> 0 then (value_s', i) else scan_value cs (i + 1) value_s')"

text \<open>When the pipe cannot be opened the function reports success and leaves the buffer alone.\<close>

definition fnii_read_config :: "string option \<Rightarrow> string \<Rightarrow> fnii_ret \<times> string" where
  "fnii_read_config out read_data =
     (case out of
        None \<Rightarrow> (FNII_RET_OK, read_data)
      | Some text \<Rightarrow>
          let buffer = take 63 text; read_len = length buffer
          in if read_len < 17 then (FNII_RET_ERR, read_data)
             else let (value_s, value_e) = scan_value buffer 0 0
                  in if value_s = 0 \<or> value_e = 0 \<or> value_e < value_s \<or> value_e - value_s > 32
                     then (FNII_RET_ERR, read_data)
                     else (FNII_RET_OK, mem_write 0 (take (value_e - value_s) (drop value_s buffer)) read_data))"

definition to_int16 :: "int \<Rightarrow> int" where
  "to_int16 n = signed_take_bit 15 n"

definition fnii_get_master_connect_info ::
  "string option \<Rightarrow> string option \<Rightarrow> fnii \<Rightarrow> fnii_ret \<times> fnii" where
  "fnii_get_master_connect_info out_ip out_port f =
     (let (r1, bufip) = fnii_read_config out_ip (replicate 32 nul)
      in if r1 \<noteq> FNII_RET_OK then (FNII_RET_ERR, f)
         else let (r2, bufport) = fnii_read_config out_port (replicate 32 nul)
              in if r2 \<noteq> FNII_RET_OK then (FNII_RET_ERR, f)
                 else (FNII_RET_OK, f\<lparr>master_host := bufip, master_port := to_int16 (atoi (c_str bufport))\<rparr>))"

section \<open>Connecting\<close>

text \<open>What \<^verbatim>\<open>socket\<close>, \<^verbatim>\<open>inet_pton\<close> and \<^verbatim>\<open>connect\<close> answer.\<close>

record conn_env =
  ce_socket :: int
  ce_pton_ok :: bool
  ce_connect_ok :: bool

definition fnii_connect2master :: "conn_env \<Rightarrow> fnii \<Rightarrow> fnii_ret \<times> fnii" where
  "fnii_connect2master e f =
     (let f1 = f\<lparr>master_socket := ce_socket e\<rparr>
      in if ce_socket e < 0 \<or> \<not> ce_pton_ok e \<or> \<not> ce_connect_ok e then (FNII_RET_ERR, f1)
         else (FNII_RET_OK, f1\<lparr>beat := (beat f1)\<lparr>beat_live := True\<rparr>\<rparr>))"

definition fnii_roam_init :: "string option \<Rightarrow> string option \<Rightarrow> conn_env \<Rightarrow> fnii \<Rightarrow> fnii_ret \<times> fnii" where
  "fnii_roam_init out_ip out_port e f =
     (let f1 = f\<lparr>dense := fnii_init_dense_station_hash (dense f)\<rparr>;
          (r1, f2) = fnii_get_master_connect_info out_ip out_port f1;
          (r2, f3) = (if r1 = FNII_RET_OK then fnii_connect2master e f2 else (FNII_RET_ERR, f2))
      in if r2 \<noteq> FNII_RET_OK then (FNII_RET_ERR, net_emit NClose (fnii_set_socket_status False f3))
         else (FNII_RET_OK, f3))"

definition fnii_roam_close :: "fnii \<Rightarrow> fnii_ret \<times> fnii" where
  "fnii_roam_close f = (FNII_RET_OK, net_emit NClose f)"

section \<open>Announcing the access point\<close>

text \<open>
  The threads call \<^verbatim>\<open>fnii_send_msg\<close> and ignore its result; \<open>ok\<close> says for the state at the call
  whether \<^verbatim>\<open>send\<close> succeeds.
\<close>

definition post :: "(fnii \<Rightarrow> bool) \<Rightarrow> (int \<Rightarrow> int res) \<Rightarrow> fnii_msg \<Rightarrow> fnii \<Rightarrow> fnii res" where
  "post ok au m f = bind_res (fnii_send_msg (ok f) au m f) (\<lambda>(_, f'). Inr f')"

definition fnii_get_wan_mac :: "(fnii \<Rightarrow> bool) \<Rightarrow> (int \<Rightarrow> int res) \<Rightarrow> string option \<Rightarrow> fnii \<Rightarrow> fnii res" where
  "fnii_get_wan_mac ok au contents f =
     (case contents of
        None \<Rightarrow> Inr f
      | Some text \<Rightarrow>
          let tmp = take 17 text @ replicate (18 - length (take 17 text)) nul;
              local_mac = concat (map (\<lambda>i. take 2 (drop (3 * i) tmp)) [0..<6]) @ [nul]
          in post ok au (MsgLocalMac local_mac) f)"

text \<open>Filling the pointers \<^verbatim>\<open>ssid[i]\<close> from the configuration, one allocation each.\<close>

fun fill_ssids :: "bool \<Rightarrow> nat \<Rightarrow> hostapd_data list \<Rightarrow> string option list \<Rightarrow> string option list res" where
  "fill_ssids alloc i [] ss = Inr ss"
| "fill_ssids alloc i (b # bs) ss =
     (if i \<ge> length ss then Inl OutOfBounds
      else if \<not> alloc then Inl NullDeref
      else fill_ssids alloc (Suc i) bs
             (ss[i := Some (conf_ssid b @ replicate (33 - length (conf_ssid b)) nul)]))"

definition fnii_update_ap_info ::
  "(fnii \<Rightarrow> bool) \<Rightarrow> (int \<Rightarrow> int res) \<Rightarrow> bool \<Rightarrow> (bool \<Rightarrow> string option) \<Rightarrow> hostapd_iface \<Rightarrow> fnii \<Rightarrow> fnii res" where
  "fnii_update_ap_info ok au alloc wan_mac fi f =
     bind_res (fnii_get_wan_mac ok au (wan_mac (take 4 (phy fi) = ''phy1'')) f) (\<lambda>f1.
       if ia_ssid (if_all f1) ! 0 \<noteq> None then post ok au (MsgInterfaceNum (if_all f1)) f1
       else bind_res (fill_ssids alloc 0 (bsses fi) (ia_ssid (if_all f1))) (\<lambda>ss.
              let a = \<lparr>ia_vap_num = int STAION_MAX, ia_ssid_num = int (length (bsses fi)),
                       ia_channel = if_channel fi, ia_ssid = ss\<rparr>
              in post ok au (MsgInterfaceNum a) (f1\<lparr>if_all := a\<rparr>)))"

section \<open>Traffic of the stations\<close>

definition station_format :: "scan_dir list" where
  "station_format = lits ''Station '' @ [Hex, Lit (CHR '':''), Hex, Lit (CHR '':''), Hex, Lit (CHR '':''),
     Hex, Lit (CHR '':''), Hex, Lit (CHR '':''), Hex]"

definition set_tx :: "string \<Rightarrow> station_flow \<Rightarrow> station_flow" where
  "set_tx l fl = (case sscanf (lits '' tx bytes:'' @ [Dec]) l of [] \<Rightarrow> fl | v # _ \<Rightarrow> fl\<lparr>tx_byte := to_int32 v\<rparr>)"

definition set_rx :: "string \<Rightarrow> station_flow \<Rightarrow> station_flow" where
  "set_rx l fl = (case sscanf (lits '' rx bytes:'' @ [Dec]) l of [] \<Rightarrow> fl | v # _ \<Rightarrow> fl\<lparr>rx_byte := to_int32 v\<rparr>)"

text \<open>
  The two nested loops over the lines of \<^verbatim>\<open>iw dev \<dots> station dump\<close>: \<open>flow_outer\<close> looks for a
  station, \<open>flow_inner\<close> collects its two counters and sends the report. \<open>macs\<close> are the integers
  \<^verbatim>\<open>sta_mac[6]\<close>, at first uninitialised.
\<close>

fun flow_outer ::
  "(fnii \<Rightarrow> bool) \<Rightarrow> (int \<Rightarrow> int res) \<Rightarrow> string list \<Rightarrow> int list \<Rightarrow> station_flow \<Rightarrow> fnii \<Rightarrow> fnii res"
and flow_inner ::
  "(fnii \<Rightarrow> bool) \<Rightarrow> (int \<Rightarrow> int res) \<Rightarrow> string list \<Rightarrow> int list \<Rightarrow> station_flow \<Rightarrow> nat \<Rightarrow> fnii \<Rightarrow> fnii res" where
  "flow_outer ok au [] macs fl f = Inr f"
| "flow_outer ok au (l # ls) macs fl f =
     (if has_prefix ''Station'' (c_str l)
      then let macs' = scan_into (sscanf station_format (c_str l)) macs
           in flow_inner ok au ls macs' (fl\<lparr>flow_mac := map word_of_int macs'\<rparr>) 0 f
      else flow_outer ok au ls macs fl f)"
| "flow_inner ok au [] macs fl n f = Inr f"
| "flow_inner ok au (l # ls) macs fl n f =
     (let (fl', n') =
        (if has_prefix (CHR 0x09 # ''tx bytes'') (c_str l) then (set_tx (c_str l) fl, n + 1)
         else if has_prefix (CHR 0x09 # ''rx bytes'') (c_str l) then (set_rx (c_str l) fl, n + 1)
         else (fl, n))
      in if n' = 2 then bind_res (post ok au (MsgFlow fl') f) (\<lambda>f'. flow_outer ok au ls macs fl' f')
         else flow_inner ok au ls macs fl' n' f)"

definition fnii_get_flow_info ::
  "(fnii \<Rightarrow> bool) \<Rightarrow> (int \<Rightarrow> int res) \<Rightarrow> int list \<Rightarrow> string option \<Rightarrow> fnii \<Rightarrow> fnii res" where
  "fnii_get_flow_info ok au junk out f =
     (case out of
        None \<Rightarrow> Inr f
      | Some text \<Rightarrow>
          flow_outer ok au (fgets_lines 128 text) junk \<lparr>flow_mac = replicate 6 0, rx_byte = 0, tx_byte = 0\<rparr> f)"

fun flow_all ::
  "(fnii \<Rightarrow> bool) \<Rightarrow> (int \<Rightarrow> int res) \<Rightarrow> int list \<Rightarrow> string option list \<Rightarrow> fnii \<Rightarrow> fnii res" where
  "flow_all ok au junk [] f = Inr f"
| "flow_all ok au junk (out # outs) f =
     bind_res (fnii_get_flow_info ok au junk out f) (\<lambda>f'. flow_all ok au junk outs f')"

section \<open>Starting over\<close>

text \<open>
  The table of assigned stations is emptied chain by chain, and each station in it is
  disassociated.
\<close>

fun del_stations :: "hostapd_iface \<Rightarrow> (mac \<times> mac) list \<Rightarrow> hostapd_iface res" where
  "del_stations fi [] = Inr fi"
| "del_stations fi (e # es) = bind_res (ieee802_11_del_station fi e) (\<lambda>fi'. del_stations fi' es)"

definition fnii_reset_dense_station_hash ::
  "hostapd_iface \<Rightarrow> dense_station_hash \<Rightarrow> (hostapd_iface \<times> dense_station_hash) res" where
  "fnii_reset_dense_station_hash fi t =
     bind_res (del_stations fi (concat (take STAION_MAX (station t)))) (\<lambda>fi'.
       Inr (fi', t\<lparr>station := replicate STAION_MAX [] @ drop STAION_MAX (station t), station_used := 0\<rparr>))"

section \<open>The heartbeat thread\<close>

text \<open>What the thread meets in one round.\<close>

record round_env =
  re_ok :: "fnii \<Rightarrow> bool"
  re_au :: "int \<Rightarrow> int res"
  re_alloc :: bool
  re_wan_mac :: "bool \<Rightarrow> string option"
  re_conn :: conn_env
  re_beacon :: beacon_env
  re_junk :: "int list"
  re_flows :: "string option list"

definition flow_start :: "round_env \<Rightarrow> apstate \<Rightarrow> apstate res" where
  "flow_start e st =
     bind_res (fnii_update_ap_info (re_ok e) (re_au e) (re_alloc e) (re_wan_mac e) (fc st) (fn st)) (\<lambda>f.
       Inr (st\<lparr>fn := fnii_set_socket_status True f\<rparr>))"

definition flow_reconnect :: "round_env \<Rightarrow> apstate \<Rightarrow> apstate res" where
  "flow_reconnect e st =
     bind_res (fnii_reset_dense_station_hash (fc st) (dense (fn st))) (\<lambda>(fi, t).
       bind_res (fnii_update_ap_info (re_ok e) (re_au e) (re_alloc e) (re_wan_mac e) fi ((fn st)\<lparr>dense := t\<rparr>)) (\<lambda>f.
         let fi1 = ieee802_11_update_all_beacons_odin (re_beacon e) False fi;
             fi2 = ieee802_11_update_all_beacons_odin (re_beacon e) True fi1
         in Inr \<lparr>fn = fnii_set_socket_status True f, fc = fi2\<rparr>))"

definition flow_beat :: "round_env \<Rightarrow> apstate \<Rightarrow> apstate res" where
  "flow_beat e st =
     (if beat_live (beat (fn st))
      then bind_res (flow_all (re_ok e) (re_au e) (re_junk e) (take 16 (re_flows e)) (fn st)) (\<lambda>f.
             bind_res (post (re_ok e) (re_au e) MsgBeat f) (\<lambda>f'. Inr (st\<lparr>fn := f'\<rparr>)))
      else Inr (st\<lparr>fn := drop_connection (fn st)\<rparr>))"

text \<open>One round of \<^verbatim>\<open>fnii_statistics_flow_thread\<close>.\<close>

definition fnii_statistics_flow_round :: "round_env \<Rightarrow> apstate \<Rightarrow> apstate res" where
  "fnii_statistics_flow_round e st =
     (if \<not> fnii_check_socket_status (fn st)
      then let (r, f) = fnii_connect2master (re_conn e) (fn st)
           in if r \<noteq> FNII_RET_OK
              then Inr (st\<lparr>fn := net_emit NClose (fnii_set_socket_status False f)\<rparr>)
              else bind_res (flow_reconnect e (st\<lparr>fn := f\<rparr>)) (\<lambda>st'. flow_beat e st')
      else flow_beat e st)"

end
