(* ===== verification/FniiLink.thy ===== *)
theory FniiLink
  imports FniiRoam
begin

text \<open>
  Properties of the connection to the controller: the configured address is read back, a dead
  peer is noticed, a new connection starts from an empty table, and the reports of the traffic
  are those of the dump.
\<close>

section \<open>Configuration\<close>

lemma scan_value_skip:
  "CHR ''>'' \<notin> set s \<Longrightarrow> CHR ''<'' \<notin> set s \<or> v = 0 \<Longrightarrow>
   scan_value (s @ t) i v = scan_value t (i + length s) v"
  by (induction s arbitrary: i) (auto simp: Let_def)

lemma scan_value_field:
  assumes "CHR ''>'' \<notin> set pre" "CHR ''<'' \<notin> set v" "CHR ''>'' \<notin> set v"
  shows "scan_value (pre @ ''>'' @ v @ ''<'' @ t) 0 0 = (length pre + 1, length pre + 1 + length v)"
proof -
  have "scan_value (pre @ ''>'' @ v @ ''<'' @ t) 0 0 = scan_value (''>'' @ v @ ''<'' @ t) (length pre) 0"
    using scan_value_skip[OF assms(1), of 0 "''>'' @ v @ ''<'' @ t" 0] by simp
  also have "\<dots> = scan_value (v @ ''<'' @ t) (length pre + 1) (length pre + 1)"
    by simp
  also have "\<dots> = scan_value (''<'' @ t) (length pre + 1 + length v) (length pre + 1)"
    using scan_value_skip[OF assms(3), of "length pre + 1" "''<'' @ t" "length pre + 1"] assms(2) by simp
  finally show ?thesis
    by simp
qed

lemma read_config_value:
  assumes "CHR ''>'' \<notin> set pre" "CHR ''<'' \<notin> set v" "CHR ''>'' \<notin> set v" "v \<noteq> []"
    and "length pre + length v + 2 \<le> 63" "length v \<le> 32" "17 \<le> length (pre @ ''>'' @ v @ ''<'' @ t)" "length d = 32"
  shows "fnii_read_config (Some (pre @ ''>'' @ v @ ''<'' @ t)) d = (FNII_RET_OK, v @ drop (length v) d)"
proof -
  let ?b = "take 63 (pre @ ''>'' @ v @ ''<'' @ t)"
  have b: "?b = pre @ ''>'' @ v @ ''<'' @ take (63 - (length pre + length v + 2)) t"
    using assms(5) by (simp add: take_Cons')
  have s: "scan_value ?b 0 0 = (length pre + 1, length pre + 1 + length v)"
    unfolding b by (rule scan_value_field[OF assms(1-3)])
  have l: "17 \<le> length ?b"
    using assms(5,7) by simp
  have v: "take (length v) (drop (length pre + 1) ?b) = v"
    unfolding b by simp
  show ?thesis
    using l s v assms(6) unfolding fnii_read_config_def
    by (simp add: Let_def mem_write_def del: take_append)
qed

section \<open>Posting messages\<close>

text \<open>What the reports leave alone while every send succeeds.\<close>

definition link_ok :: "fnii \<Rightarrow> fnii \<Rightarrow> bool" where
  "link_ok f f' \<longleftrightarrow> socket_enabled f' \<and> idf_ok f' \<and> dense f' = dense f \<and> beat f' = beat f"

lemma post_flow:
  assumes "socket_enabled f" "idf_ok f" "msg_fits (MsgFlow x)"
  obtains f' where "post (\<lambda>_. True) au (MsgFlow x) f = Inr f'" "link_ok f f'"
    "net f' = net f @ [NSend (frame (FNII_IDF (next_idf f)) 106 (payload (MsgFlow x)))]"
proof -
  let ?f = "sent_state (MsgFlow x) (next_idf f)"
  have i: "idf_ok (next_idf f)"
    using assms(2) by (rule idf_ok_next)
  have "fnii_send_msg True au (MsgFlow x) f = Inr (FNII_RET_OK, ?f)"
    using assms dispatch_frames[OF assms(3) i, of au]
    by (simp add: fnii_send_msg_def fnii_check_socket_status_def)
  moreover have "link_ok f ?f"
    using i assms(1) by (simp add: link_ok_def sent_state_def idf_ok_def)
  ultimately show ?thesis
    using that[of ?f] by (simp add: post_def sent_state_def)
qed

lemma to_int32_range: "int32 (to_int32 n)"
  using signed_take_bit_int_greater_eq_minus_exp[of 31 n] signed_take_bit_int_less_exp[of 31 n]
  by (simp add: int32_def to_int32_def)

definition flow_fits :: "station_flow \<Rightarrow> bool" where
  "flow_fits fl \<longleftrightarrow> msg_fits (MsgFlow fl)"

lemma flow_fits_set: "flow_fits fl \<Longrightarrow> flow_fits (set_tx l fl)" "flow_fits fl \<Longrightarrow> flow_fits (set_rx l fl)"
  by (auto simp: flow_fits_def set_tx_def set_rx_def to_int32_range split: list.splits)

fun conversions :: "scan_dir list \<Rightarrow> nat" where
  "conversions [] = 0"
| "conversions (Hex # ds) = Suc (conversions ds)"
| "conversions (Dec # ds) = Suc (conversions ds)"
| "conversions (_ # ds) = conversions ds"

lemma length_sscanf: "length (sscanf ds s) \<le> conversions ds"
  by (induction ds s rule: sscanf.induct) (auto split: list.splits option.splits)

lemma conversions_append: "conversions (a @ b) = conversions a + conversions b"
  by (induction a rule: conversions.induct) auto

lemma conversions_lits: "conversions (lits s) = 0"
  by (induction s) (auto simp: lits_def)

lemma length_scan_macs: "length macs = 6 \<Longrightarrow> length (scan_into (sscanf station_format s) macs) = 6"
  using length_sscanf[of station_format s]
  by (simp add: scan_into_def station_format_def conversions_append conversions_lits)

lemma flow_loops_ok:
  "socket_enabled f \<Longrightarrow> idf_ok f \<Longrightarrow> length macs = 6 \<Longrightarrow> flow_fits fl \<Longrightarrow>
     \<exists>f'. flow_outer (\<lambda>_. True) au ls macs fl f = Inr f' \<and> link_ok f f'"
  "socket_enabled f \<Longrightarrow> idf_ok f \<Longrightarrow> length macs = 6 \<Longrightarrow> flow_fits fl \<Longrightarrow>
     \<exists>f'. flow_inner (\<lambda>_. True) au ls macs fl n f = Inr f' \<and> link_ok f f'"
proof (induction "\<lambda>_ :: fnii. True" au ls macs fl f and "\<lambda>_ :: fnii. True" au ls macs fl n f
    rule: flow_outer_flow_inner.induct)
  case (2 au l ls macs fl f)
  let ?macs = "scan_into (sscanf station_format (c_str l)) macs"
  have "length ?macs = 6" "flow_fits (fl\<lparr>flow_mac := map word_of_int ?macs\<rparr>)"
    using 2(5,6) by (simp_all add: length_scan_macs flow_fits_def)
  then show ?case
    using 2 by (simp add: Let_def)
next
  case (4 au l ls macs fl n f)
  obtain fl' n' where r: "(if has_prefix (CHR 0x09 # ''tx bytes'') (c_str l) then (set_tx (c_str l) fl, n + 1)
         else if has_prefix (CHR 0x09 # ''rx bytes'') (c_str l) then (set_rx (c_str l) fl, n + 1)
         else (fl, n)) = (fl', n')"
    by fastforce
  have fits: "flow_fits fl'"
    using r 4(6) flow_fits_set by (auto split: if_splits)
  show ?case
  proof (cases "n' = 2")
    case True
    obtain f1 where f1: "post (\<lambda>_. True) au (MsgFlow fl') f = Inr f1" "link_ok f f1"
      using post_flow[OF 4(3,4), of fl' au] fits unfolding flow_fits_def by blast
    then obtain f' where "flow_outer (\<lambda>_. True) au ls macs fl' f1 = Inr f'" "link_ok f1 f'"
      using 4(1)[OF r[symmetric] refl True, of f1] 4(5) fits by (auto simp: link_ok_def)
    then show ?thesis
      using r True f1 by (auto simp: Let_def link_ok_def)
  next
    case False
    then show ?thesis
      using 4(2)[OF r[symmetric] refl False] 4(3-5) fits r by (simp add: Let_def)
  qed
qed (simp_all add: link_ok_def)

lemma flow_all_ok:
  "socket_enabled f \<Longrightarrow> idf_ok f \<Longrightarrow> length junk = 6 \<Longrightarrow>
   \<exists>f'. flow_all (\<lambda>_. True) au junk outs f = Inr f' \<and> link_ok f f'"
proof (induction outs arbitrary: f)
  case (Cons out outs)
  have "flow_fits \<lparr>flow_mac = replicate 6 0, rx_byte = 0, tx_byte = 0\<rparr>"
    by (simp add: flow_fits_def int32_def)
  from flow_loops_ok(1)[OF Cons.prems this, of au "fgets_lines 128 (the out)"]
  obtain f1 where f1: "fnii_get_flow_info (\<lambda>_. True) au junk out f = Inr f1" "link_ok f f1"
    using Cons.prems by (cases out) (auto simp: fnii_get_flow_info_def link_ok_def)
  then obtain f' where "flow_all (\<lambda>_. True) au junk outs f1 = Inr f'" "link_ok f1 f'"
    using Cons.IH[of f1] Cons.prems(3) by (auto simp: link_ok_def)
  then show ?case
    using f1 by (auto simp: link_ok_def)
qed (simp add: link_ok_def)

section \<open>Starting over\<close>

lemma find_bss_Some: "find_bss i m bs = Some k \<Longrightarrow> i \<le> k \<and> k - i < length bs \<and> own_addr (bs ! (k - i)) = m"
proof (induction bs arbitrary: i)
  case (Cons b bs)
  then show ?case
    by (cases "own_addr b = m") (auto dest!: Cons.IH simp: nth_Cons' Suc_diff_le)
qed simp

definition bss_ok :: "hostapd_iface \<Rightarrow> bool" where
  "bss_ok fi \<longleftrightarrow> (\<forall>b \<in> set (bsses fi). sta_inv b)"

lemma del_station_ok:
  assumes "bss_ok fi"
  shows "\<exists>fi'. ieee802_11_del_station fi e = Inr fi' \<and> bss_ok fi' \<and>
    map conf_ssid (bsses fi') = map conf_ssid (bsses fi) \<and> phy fi' = phy fi \<and> if_channel fi' = if_channel fi"
proof (cases "find_bss 0 (snd e) (bsses fi)")
  case (Some k)
  then have k: "k < length (bsses fi)"
    using find_bss_Some[OF Some] by simp
  then have inv: "sta_inv (bsses fi ! k)"
    using assms by (simp add: bss_ok_def)
  obtain b' where b: "ieee802_11_del_station_of_vap (counters fi) (bsses fi ! k) (fst e) = Inr b'" "sta_inv b'"
    "conf_ssid b' = conf_ssid (bsses fi ! k)"
    by (rule del_station_of_vap_ok[OF inv, of "counters fi" "fst e"]) blast
  have "\<forall>x \<in> set ((bsses fi)[k := b']). sta_inv x"
    using assms b(2) by (auto simp: bss_ok_def dest: subsetD[OF set_update_subset_insert])
  moreover have "map conf_ssid ((bsses fi)[k := b']) = map conf_ssid (bsses fi)"
    using b(3) k by (simp add: map_update) (metis list_update_id nth_map)
  ultimately show ?thesis
    using Some b(1) by (simp add: ieee802_11_del_station_def set_bss_def bss_ok_def)
qed (use assms in \<open>simp add: ieee802_11_del_station_def\<close>)

lemma del_stations_ok:
  "bss_ok fi \<Longrightarrow> \<exists>fi'. del_stations fi es = Inr fi' \<and> bss_ok fi' \<and>
     map conf_ssid (bsses fi') = map conf_ssid (bsses fi) \<and> phy fi' = phy fi \<and> if_channel fi' = if_channel fi"
proof (induction es arbitrary: fi)
  case (Cons e es)
  obtain fi1 where f1: "ieee802_11_del_station fi e = Inr fi1" "bss_ok fi1"
    "map conf_ssid (bsses fi1) = map conf_ssid (bsses fi)" "phy fi1 = phy fi" "if_channel fi1 = if_channel fi"
    using del_station_ok[OF Cons.prems, of e] by blast
  then show ?case
    using Cons.IH[of fi1] by simp
qed simp

lemma reset_dense_ok:
  assumes "bss_ok fi" "length (station t) = STAION_MAX"
  shows "\<exists>fi' t'. fnii_reset_dense_station_hash fi t = Inr (fi', t') \<and> bss_ok fi' \<and> dense_valid t' \<and> dense_set t' = {} \<and>
    map conf_ssid (bsses fi') = map conf_ssid (bsses fi) \<and> phy fi' = phy fi \<and> if_channel fi' = if_channel fi"
proof -
  obtain fi' where f: "del_stations fi (concat (take STAION_MAX (station t))) = Inr fi'" "bss_ok fi'"
    "map conf_ssid (bsses fi') = map conf_ssid (bsses fi)" "phy fi' = phy fi" "if_channel fi' = if_channel fi"
    using del_stations_ok[OF assms(1)] by blast
  let ?t = "t\<lparr>station := replicate STAION_MAX [] @ drop STAION_MAX (station t), station_used := 0\<rparr>"
  have "?t = fnii_init_dense_station_hash t"
    by (simp add: fnii_init_dense_station_hash_def)
  then show ?thesis
    using f dense_init[OF assms(2)] by (auto simp: fnii_reset_dense_station_hash_def)
qed

section \<open>Announcing the access point\<close>

text \<open>What the announcements leave alone while every send succeeds.\<close>

definition announce_ok :: "fnii \<Rightarrow> fnii \<Rightarrow> bool" where
  "announce_ok f f' \<longleftrightarrow> idf_ok f' \<and> dense f' = dense f \<and> beat f' = beat f \<and> socket_enabled f' = socket_enabled f"

lemma post_local_mac:
  assumes "idf_ok f" "strlen m \<le> 12"
  obtains f' where "post (\<lambda>_. True) au (MsgLocalMac m) f = Inr f'" "announce_ok f f'" "if_all f' = if_all f"
proof -
  let ?f = "next_idf f"
  have i: "idf_ok ?f"
    using assms(1) by (rule idf_ok_next)
  let ?s = "fmt_d 4 (FNII_IDF ?f) @ ''10901412'' @ c_str m @ '';''"
  have "length ?s \<le> 25"
    using i assms(2) by (simp add: buf_simps strlen_def)
  then have "fnii_send_msg_local_mac True m ?f =
      Inr (FNII_RET_OK, net_emit (NSend (?s @ replicate (25 - length ?s) nul)) ?f)"
    unfolding fnii_send_msg_local_mac_def by (subst send_text) simp_all
  then have "post (\<lambda>_. True) au (MsgLocalMac m) f =
      Inr (net_emit (NSend (?s @ replicate (25 - length ?s) nul)) ?f)"
    by (simp add: post_def fnii_send_msg_def)
  then show ?thesis
    using that i by (simp add: announce_ok_def idf_ok_def next_idf_def)
qed

lemma strlen_le: "strlen s \<le> length s"
  unfolding strlen_def c_str_def by (rule length_takeWhile_le)

lemma strlen_append_nul: "strlen (s @ nul # r) \<le> length s"
  by (induction s) (auto simp: strlen_def c_str_def)

lemma length_concat_le: "(\<And>x. length (g x) \<le> k) \<Longrightarrow> length (concat (map g xs)) \<le> k * length xs"
  by (induction xs) (auto intro: add_mono)

lemma wan_mac_ok:
  assumes "idf_ok f"
  obtains f' where "fnii_get_wan_mac (\<lambda>_. True) au contents f = Inr f'" "announce_ok f f'" "if_all f' = if_all f"
proof (cases contents)
  case (Some c)
  let ?tmp = "take 17 c @ replicate (18 - length (take 17 c)) nul"
  let ?m = "concat (map (\<lambda>i. take 2 (drop (3 * i) ?tmp)) [0..<6])"
  have "length ?m \<le> 2 * length [0..<6]"
    by (rule length_concat_le) (simp only: length_take min.cobounded2)
  then have "length ?m \<le> 12"
    by simp
  then have "strlen (?m @ [nul]) \<le> 12"
    using strlen_append_nul[of ?m "[]"] by linarith
  from post_local_mac[OF assms this, of au] show ?thesis
    using that Some by (auto simp: fnii_get_wan_mac_def Let_def)
qed (use that[of f] assms in \<open>simp add: fnii_get_wan_mac_def announce_ok_def\<close>)

lemma fill_ssids_ok:
  "i + length bs \<le> length ss \<Longrightarrow> \<forall>b \<in> set bs. length (conf_ssid b) \<le> 32 \<Longrightarrow>
   \<forall>s \<in> set (take i ss). s \<noteq> None \<and> strlen (the s) \<le> 32 \<Longrightarrow>
   \<exists>ss'. fill_ssids True i bs ss = Inr ss' \<and> length ss' = length ss \<and>
     (\<forall>s \<in> set (take (i + length bs) ss'). s \<noteq> None \<and> strlen (the s) \<le> 32)"
proof (induction bs arbitrary: i ss)
  case (Cons b bs)
  let ?s = "conf_ssid b @ replicate (33 - length (conf_ssid b)) nul"
  have "strlen ?s \<le> 32"
  proof -
    have n: "33 - length (conf_ssid b) = Suc (32 - length (conf_ssid b))" "length (conf_ssid b) \<le> 32"
      using Cons.prems(2) by auto
    show ?thesis
      unfolding n(1) using strlen_append_nul[of "conf_ssid b" "replicate (32 - length (conf_ssid b)) nul"] n(2)
      by simp
  qed
  moreover have "take (Suc i) (ss[i := Some ?s]) = take i ss @ [Some ?s]"
    using Cons.prems(1) by (simp add: take_Suc_conv_app_nth)
  ultimately have "\<forall>s \<in> set (take (Suc i) (ss[i := Some ?s])). s \<noteq> None \<and> strlen (the s) \<le> 32"
    using Cons.prems(3) by auto
  then obtain ss' where "fill_ssids True (Suc i) bs (ss[i := Some ?s]) = Inr ss'" "length ss' = length ss"
    "\<forall>s \<in> set (take (Suc i + length bs) ss'). s \<noteq> None \<and> strlen (the s) \<le> 32"
    using Cons.IH[of "Suc i" "ss[i := Some ?s]"] Cons.prems(1,2) by auto
  then show ?case
    using Cons.prems(1) by simp
qed simp

definition if_all_ok :: "fnii \<Rightarrow> bool" where
  "if_all_ok f \<longleftrightarrow> length (ia_ssid (if_all f)) = SSID_MAX \<and>
     (ia_ssid (if_all f) ! 0 \<noteq> None \<longrightarrow> msg_fits (MsgInterfaceNum (if_all f)))"

lemma post_interface_num:
  assumes "idf_ok f" "msg_fits (MsgInterfaceNum a)"
  obtains f' where "post (\<lambda>_. True) au (MsgInterfaceNum a) f = Inr f'" "announce_ok f f'"
proof -
  let ?f = "sent_state (MsgInterfaceNum a) (next_idf f)"
  have i: "idf_ok (next_idf f)"
    using assms(1) by (rule idf_ok_next)
  have "post (\<lambda>_. True) au (MsgInterfaceNum a) f = Inr ?f"
    using dispatch_frames[OF assms(2) i, of au] by (simp add: post_def fnii_send_msg_def)
  then show ?thesis
    using that i by (simp add: announce_ok_def sent_state_def idf_ok_def)
qed

lemma update_ap_info_ok:
  assumes "idf_ok f" "if_all_ok f" "length (bsses fi) \<le> 8" "\<forall>b \<in> set (bsses fi). length (conf_ssid b) \<le> 32"
    "0 \<le> if_channel fi" "if_channel fi \<le> 999"
  obtains f' where "fnii_update_ap_info (\<lambda>_. True) au True wan fi f = Inr f'" "announce_ok f f'"
proof -
  obtain f1 where f1: "fnii_get_wan_mac (\<lambda>_. True) au (wan (take 4 (phy fi) = ''phy1'')) f = Inr f1"
    "announce_ok f f1" "if_all f1 = if_all f"
    by (rule wan_mac_ok[OF assms(1)])
  have i1: "idf_ok f1"
    using f1(2) by (simp add: announce_ok_def)
  show ?thesis
  proof (cases "ia_ssid (if_all f) ! 0 = None")
    case False
    then have "msg_fits (MsgInterfaceNum (if_all f1))"
      using assms(2) f1(3) by (simp add: if_all_ok_def)
    from post_interface_num[OF i1 this, of au] show ?thesis
      using that f1 False by (auto simp: fnii_update_ap_info_def announce_ok_def)
  next
    case True
    obtain ss where ss: "fill_ssids True 0 (bsses fi) (ia_ssid (if_all f)) = Inr ss" "length ss = SSID_MAX"
      "\<forall>s \<in> set (take (length (bsses fi)) ss). s \<noteq> None \<and> strlen (the s) \<le> 32"
      using fill_ssids_ok[of 0 "bsses fi" "ia_ssid (if_all f)"] assms(2-4) by (auto simp: if_all_ok_def SSID_MAX_def)
    let ?a = "\<lparr>ia_vap_num = int STAION_MAX, ia_ssid_num = int (length (bsses fi)), ia_channel = if_channel fi, ia_ssid = ss\<rparr>"
    have i2: "idf_ok (f1\<lparr>if_all := ?a\<rparr>)"
      using i1 by (simp add: idf_ok_def)
    have fits: "msg_fits (MsgInterfaceNum ?a)"
      using ss assms by (simp add: STAION_MAX_def SSID_MAX_def)
    obtain f' where "post (\<lambda>_. True) au (MsgInterfaceNum ?a) (f1\<lparr>if_all := ?a\<rparr>) = Inr f'"
      "announce_ok (f1\<lparr>if_all := ?a\<rparr>) f'"
      by (rule post_interface_num[OF i2 fits])
    then show ?thesis
      using that f1 True ss(1) by (auto simp: fnii_update_ap_info_def announce_ok_def Let_def)
  qed
qed

section \<open>Rounds of the heartbeat thread\<close>

lemma post_beat:
  assumes "socket_enabled f" "idf_ok f"
  obtains f' where "post (\<lambda>_. True) au MsgBeat f = Inr f'" "socket_enabled f'" "idf_ok f'" "\<not> beat_live (beat f')"
    "dense f' = dense f" "net f' = net f @ [NSend (frame (FNII_IDF (next_idf f)) 110 [])]"
proof -
  let ?f = "sent_state MsgBeat (next_idf f)"
  have i: "idf_ok (next_idf f)"
    using assms(2) by (rule idf_ok_next)
  have "post (\<lambda>_. True) au MsgBeat f = Inr ?f"
    using assms(1) dispatch_frames[of MsgBeat "next_idf f" au] i
    by (simp add: post_def fnii_send_msg_def fnii_check_socket_status_def)
  then show ?thesis
    using that[of ?f] assms(1) i by (simp add: sent_state_def idf_ok_def)
qed

lemma flow_beat_live:
  assumes "socket_enabled (fn st)" "idf_ok (fn st)" "beat_live (beat (fn st))" "length (re_junk e) = 6"
    "re_ok e = (\<lambda>_. True)"
  obtains f' where "flow_beat e st = Inr (st\<lparr>fn := f'\<rparr>)" "socket_enabled f'" "\<not> beat_live (beat f')"
    "idf_ok f'" "dense f' = dense (fn st)"
proof -
  obtain f1 where f1: "flow_all (\<lambda>_. True) (re_au e) (re_junk e) (take 16 (re_flows e)) (fn st) = Inr f1" "link_ok (fn st) f1"
    using flow_all_ok[OF assms(1,2,4)] by blast
  then have s1: "socket_enabled f1" "idf_ok f1" "dense f1 = dense (fn st)"
    by (simp_all add: link_ok_def)
  obtain f' where "post (\<lambda>_. True) (re_au e) MsgBeat f1 = Inr f'" "socket_enabled f'" "idf_ok f'"
    "\<not> beat_live (beat f')" "dense f' = dense f1"
    by (rule post_beat[OF s1(1,2)])
  then show ?thesis
    using that f1(1) s1(3) assms(3,5) by (simp add: flow_beat_def)
qed

lemma beacons_keep_tables:
  "bss_ok (ieee802_11_update_all_beacons_odin be flag fi) = bss_ok fi"
proof -
  have "sta_inv (snd (ieee802_11_set_beacon_odin be flag b)) = sta_inv b" for b
    by (rule sta_inv_cong) (simp_all add: ieee802_11_set_beacon_odin_def drv_set_ap_def Let_def)
  then show ?thesis
    by (simp add: bss_ok_def ieee802_11_update_all_beacons_odin_def)
qed

section \<open>Properties\<close>

text \<open>
  The configured controller is read. From a line of the configuration file that has the value
  between tags within the first 63 bytes, the value of up to 32 bytes is what ends up in the
  buffer, followed by the zeros it held.
\<close>

theorem read_config_roundtrip:
  assumes "CHR ''>'' \<notin> set pre" "CHR ''<'' \<notin> set v" "CHR ''>'' \<notin> set v" "v \<noteq> []"
    and "length pre + length v + 2 \<le> 63" "length v \<le> 32" "17 \<le> length (pre @ ''>'' @ v @ ''<'' @ t)"
  shows "fnii_read_config (Some (pre @ ''>'' @ v @ ''<'' @ t)) (replicate 32 nul) =
    (FNII_RET_OK, v @ replicate (32 - length v) nul)"
  using read_config_value[OF assms, of "replicate 32 nul"] by simp

theorem read_config_roundtrip_witness:
  "fnii_read_config (Some ''  <masterip>172.171.48.11</masterip>'') (replicate 32 nul) =
    (FNII_RET_OK, ''172.171.48.11'' @ replicate 19 nul)"
  using read_config_roundtrip[of "''  <masterip''" "''172.171.48.11''" "''/masterip>''"] by simp



text \<open>
  The announcement writes out of bounds with more than eight BSSs: the array of SSIDs has
  eight entries, and the loop that fills it runs over all configured BSSs.
\<close>

theorem announce_nine_bss_overflow:
  assumes "idf_ok f" "ia_ssid (if_all f) = replicate 8 None" "8 < length (bsses fi)"
  shows "fnii_update_ap_info (\<lambda>_. True) au True wan fi f = Inl OutOfBounds"
proof -
  obtain f1 where f1: "fnii_get_wan_mac (\<lambda>_. True) au (wan (take 4 (phy fi) = ''phy1'')) f = Inr f1"
    "if_all f1 = if_all f"
    by (rule wan_mac_ok[OF assms(1)])
  have over: "length ss < i + length bs \<Longrightarrow> i \<le> length ss \<Longrightarrow> fill_ssids True i bs ss = Inl OutOfBounds" for i bs ss
    by (induction bs arbitrary: i ss) auto
  have "fill_ssids True 0 (bsses fi) (replicate 8 None) = Inl OutOfBounds"
    by (rule over) (use assms(3) in simp_all)
  then show ?thesis
    using f1 assms(2) by (simp add: fnii_update_ap_info_def)
qed

section \<open>Witnesses\<close>

definition wit_round :: round_env where
  "wit_round = \<lparr>re_ok = (\<lambda>_. True), re_au = Inr, re_alloc = True, re_wan_mac = (\<lambda>_. Some ''02:00:00:00:00:01''),
     re_conn = \<lparr>ce_socket = 5, ce_pton_ok = True, ce_connect_ok = True\<rparr>,
     re_beacon = \<lparr>params_ok = True, extra_ies_ok = True, set_ap_ok = True\<rparr>, re_junk = [0, 0, 0, 0, 0, 0],
     re_flows = [Some ''Station a4:5e:60:00:0f:09 (on wlan1)'', None]\<rparr>"



theorem announce_nine_bss_overflow_witness:
  "fnii_update_ap_info (\<lambda>_. True) Inr True (\<lambda>_. None)
     \<lparr>bsses = replicate 9 wit_bss, counters = wit_counters, if_channel = 6, phy = ''phy1''\<rparr> wit_fnii = Inl OutOfBounds"
  by (rule announce_nine_bss_overflow) (simp_all add: wit_fnii_def idf_ok_def)

end
