(* ===== verification/StaNotify.thy ===== *)
theory StaNotify
  imports CString
begin

text \<open>
  The notification of the local station manager (\<^verbatim>\<open>hostapd/hostapd/main.c\<close>,
  \<^verbatim>\<open>semd_msg2stamg\<close> to \<^verbatim>\<open>fnii_connect_to_stamgd\<close>): hostapd keeps the list of stations it
  has announced and sends one packet when a station comes and one when it goes. The layout of
  \<^verbatim>\<open>struct hostapd_sta_updown\<close> is in a header outside the repository, so the record that is
  handed to \<^verbatim>\<open>semd_msg2stamg\<close> is logged instead of its bytes. The results of successive calls of
  \<^verbatim>\<open>send\<close> are a list.
\<close>

section \<open>Data\<close>

datatype updown_event = HOSTAPD_EVENT_STA_UP | HOSTAPD_EVENT_STA_DOWN

record sta_updown =
  ud_mac :: mac
  ud_ssid :: string
  ud_iface :: string
  ud_event :: updown_event
  ud_channel :: int

datatype stam_event =
    Notify sta_updown
  | Script string mac

record fnii_client_master =
  cm_sock :: int
  cm_ss :: bool
  cm_sta :: "(mac \<times> string) list"
  cm_log :: "stam_event list"

section \<open>Packets\<close>

definition le16 :: "nat \<Rightarrow> string" where
  "le16 n = [char_of (n mod 256), char_of (n div 256 mod 256)]"

text \<open>The loop over \<^verbatim>\<open>send\<close>: the return value and the bytes that went out.\<close>

fun send_loop :: "int list \<Rightarrow> string \<Rightarrow> nat \<Rightarrow> int \<Rightarrow> string \<Rightarrow> (int \<times> string) res" where
  "send_loop rs pkt len sendlen out =
     (if \<not> sendlen > 0 then Inr (int len, out)
      else case rs of
             [] \<Rightarrow> Inl OutOfFuel
           | r # rs' \<Rightarrow>
               if r \<le> 0 then Inr (r, out)
               else send_loop rs' pkt (len + nat r) (sendlen - r) (out @ take (nat r) (drop len pkt)))"

declare send_loop.simps [simp del]

definition semd_msg2stamg :: "bool \<Rightarrow> int list \<Rightarrow> string \<Rightarrow> nat \<Rightarrow> (int \<times> string) res" where
  "semd_msg2stamg ss rs buf data_type =
     (if \<not> ss then Inr (- 1, [])
      else if length buf > 1020 then Inl BufferOverflow
      else let pkt_len = (4 + length buf) mod 65536;
               pkt = le16 data_type @ le16 pkt_len @ buf @ replicate (1020 - length buf) nul
           in send_loop rs pkt 0 (int pkt_len) [])"

section \<open>Stations that come and go\<close>

definition log_ev :: "stam_event \<Rightarrow> fnii_client_master \<Rightarrow> fnii_client_master" where
  "log_ev e c = c\<lparr>cm_log := cm_log c @ [e]\<rparr>"

text \<open>
  The result of the send is ignored, so it does not influence the state; what is handed to
  \<^verbatim>\<open>semd_msg2stamg\<close> is logged.
\<close>

definition fnii_new_sta :: "bool \<Rightarrow> mac \<Rightarrow> string \<Rightarrow> string \<Rightarrow> int \<Rightarrow> fnii_client_master \<Rightarrow> fnii_client_master" where
  "fnii_new_sta alloc m ssid iface ch c =
     (if m \<in> fst ` set (cm_sta c) then c
      else let c1 = (if alloc then c\<lparr>cm_sta := (m, iface) # cm_sta c\<rparr> else c)
           in log_ev (Script ''online'' m)
                (log_ev (Notify \<lparr>ud_mac = m, ud_ssid = take 31 (c_str ssid), ud_iface = iface,
                              ud_event = HOSTAPD_EVENT_STA_UP, ud_channel = ch\<rparr>) c1))"

fun list_del :: "mac \<Rightarrow> string \<Rightarrow> (mac \<times> string) list \<Rightarrow> (mac \<times> string) list option" where
  "list_del m iface [] = None"
| "list_del m iface ((m', i') # r) =
     (if m' = m \<and> i' = iface then Some r else map_option ((#) (m', i')) (list_del m iface r))"

definition fnii_del_sta :: "mac \<Rightarrow> string \<Rightarrow> string \<Rightarrow> int \<Rightarrow> fnii_client_master \<Rightarrow> fnii_client_master" where
  "fnii_del_sta m ssid iface ch c =
     (case list_del m iface (cm_sta c) of
        None \<Rightarrow> c
      | Some r \<Rightarrow>
          log_ev (Script ''offline'' m)
            (log_ev (Notify \<lparr>ud_mac = m, ud_ssid = take 31 (c_str ssid), ud_iface = iface,
                          ud_event = HOSTAPD_EVENT_STA_DOWN, ud_channel = ch\<rparr>) (c\<lparr>cm_sta := r\<rparr>)))"

section \<open>Connecting to the station manager\<close>

text \<open>
  What the calls answer: the socket, whether it could be made non-blocking and connected, the
  results of the sends, and whether the read handler could be registered. The packets that
  \<^verbatim>\<open>connect2stamg_success\<close> sends are filled only in part; \<open>junk\<close> is the rest.
\<close>

record stam_env =
  se_sock :: int
  se_fcntl_ok :: bool
  se_connect_ok :: bool
  se_sends :: "int list"
  se_register_ok :: bool

definition send_hostapd_name2stamgd :: "bool \<Rightarrow> int list \<Rightarrow> (int \<times> string) res" where
  "send_hostapd_name2stamgd ss rs = semd_msg2stamg ss rs (''hostapd'' @ [nul]) 0"

definition connect2stamg_success :: "sta_updown \<Rightarrow> fnii_client_master \<Rightarrow> fnii_client_master" where
  "connect2stamg_success junk c =
     foldl (\<lambda>d (m, _). log_ev (Notify (junk\<lparr>ud_event := HOSTAPD_EVENT_STA_UP, ud_mac := m\<rparr>)) d) c (cm_sta c)"

text \<open>The boolean of the result says whether a retry in one second was registered.\<close>

definition eloop_connect_stamgd :: "stam_env \<Rightarrow> sta_updown \<Rightarrow> fnii_client_master \<Rightarrow> (fnii_client_master \<times> bool) res" where
  "eloop_connect_stamgd e junk c =
     (let c1 = c\<lparr>cm_sock := se_sock e\<rparr>;
          failed = (\<lambda>d. (d\<lparr>cm_sock := - 1, cm_ss := False\<rparr>, True))
      in if se_sock e < 0 \<or> \<not> se_fcntl_ok e \<or> \<not> se_connect_ok e then Inr (failed c1)
         else let c2 = c1\<lparr>cm_ss := True\<rparr>
              in bind_res (send_hostapd_name2stamgd (cm_ss c2) (se_sends e)) (\<lambda>(r, _).
                   if r \<le> 0 \<or> \<not> se_register_ok e then Inr (failed c2)
                   else Inr (connect2stamg_success junk c2, False)))"

text \<open>
  The read handler removes itself whatever it reads; when the peer is gone it asks for a new
  connection in one second, and the process ends (\<^term>\<open>None\<close>) if that cannot be registered. The
  result says whether the reconnect is pending.
\<close>

definition stamg_client_read :: "int \<Rightarrow> bool \<Rightarrow> bool option" where
  "stamg_client_read ret register_ok =
     (if ret \<le> 0 then (if register_ok then Some True else None) else Some False)"

definition fnii_connect_to_stamgd :: "fnii_client_master" where
  "fnii_connect_to_stamgd = \<lparr>cm_sock = 0, cm_ss = False, cm_sta = [], cm_log = []\<rparr>"

section \<open>Lemmas\<close>

lemma send_loop_all:
  "\<forall>r \<in> set rs. 0 < r \<Longrightarrow> sendlen = sum_list rs \<Longrightarrow> nat sendlen + len \<le> length pkt \<Longrightarrow>
   send_loop rs pkt len sendlen out = Inr (int len + sendlen, out @ take (nat sendlen) (drop len pkt))"
proof (induction rs arbitrary: len sendlen out)
  case Nil
  then show ?case
    by (subst send_loop.simps) simp
next
  case (Cons r rs)
  have s: "0 \<le> sum_list rs"
    using Cons.prems(1) by (intro sum_list_nonneg) auto
  have "0 < r"
    using Cons.prems(1) by simp
  then have n: "nat sendlen = nat r + nat (sum_list rs)" "0 < sendlen" "sendlen - r = sum_list rs"
    using Cons.prems(2) s by (simp_all add: nat_add_distrib)
  have "send_loop rs pkt (len + nat r) (sum_list rs) (out @ take (nat r) (drop len pkt)) =
      Inr (int (len + nat r) + sum_list rs,
           (out @ take (nat r) (drop len pkt)) @ take (nat (sum_list rs)) (drop (len + nat r) pkt))"
    using Cons.IH[of "sum_list rs" "len + nat r"] Cons.prems n by simp
  moreover have "take (nat r) (drop len pkt) @ take (nat (sum_list rs)) (drop (len + nat r) pkt) =
      take (nat sendlen) (drop len pkt)"
    by (simp add: n(1) take_add add.commute)
  ultimately show ?case
    using \<open>0 < r\<close> n Cons.prems(2) by (subst send_loop.simps) simp
qed

lemma list_del_Some:
  "list_del m iface xs = Some r \<Longrightarrow> distinct (map fst xs) \<Longrightarrow>
   distinct (map fst r) \<and> fst ` set r = fst ` set xs - {m} \<and> m \<in> fst ` set xs"
proof (induction m iface xs arbitrary: r rule: list_del.induct)
  case (2 m iface m' i' xs)
  show ?case
  proof (cases "m' = m \<and> i' = iface")
    case False
    then obtain r' where r: "list_del m iface xs = Some r'" "r = (m', i') # r'"
      using "2.prems"(1) by auto
    then have "distinct (map fst r') \<and> fst ` set r' = fst ` set xs - {m} \<and> m \<in> fst ` set xs"
      using 2 False by simp
    then show ?thesis
      using r(2) "2.prems"(2) by auto
  qed (use 2 in auto)
qed simp

section \<open>Properties\<close>

text \<open>
  Partial sends are completed. Whatever positive amounts the socket accepts at a time, as long as
  they add up to the packet, the bytes that go out are exactly the type, the total length and the
  message, and the function returns the total length.
\<close>

theorem semd_msg2stamg_complete:
  assumes "length buf \<le> 1020" "\<forall>r \<in> set rs. 0 < r" "sum_list rs = 4 + int (length buf)"
  shows "semd_msg2stamg True rs buf ty = Inr (4 + int (length buf), le16 ty @ le16 (4 + length buf) @ buf)"
proof -
  let ?n = "4 + length buf"
  let ?p = "le16 ty @ le16 ?n @ buf @ replicate (1020 - length buf) nul"
  have n: "?n mod 65536 = ?n"
    using assms(1) by simp
  have l: "length (le16 ty @ le16 ?n @ buf) = ?n"
    by (simp add: le16_def)
  have "send_loop rs ?p 0 (int ?n) [] = Inr (int ?n, take ?n ?p)"
  proof -
    have "length ?p = 1024" "int ?n = sum_list rs" "nat (int ?n) = ?n"
      using assms(1,3) by (simp_all add: le16_def)
    then show ?thesis
      using send_loop_all[OF assms(2), of "int ?n" 0 ?p "[]"] assms(1) by simp
  qed
  moreover have "take ?n ?p = le16 ty @ le16 ?n @ buf"
  proof -
    have "take (length xs) (xs @ zs) = xs" for xs zs :: string
      by simp
    from this[of "le16 ty @ le16 ?n @ buf"] show ?thesis
      unfolding l by (simp only: append_assoc)
  qed
  ultimately show ?thesis
    using assms(1) n by (simp add: semd_msg2stamg_def Let_def)
qed

theorem semd_msg2stamg_complete_witness:
  "semd_msg2stamg True [3, 1, 2] ''ab'' 1 =
     Inr (6, [CHR 0x01, CHR 0x00, CHR 0x06, CHR 0x00] @ ''ab'')"
proof -
  have "le16 1 = [CHR 0x01, CHR 0x00]" "le16 6 = [CHR 0x06, CHR 0x00]"
    by code_simp+
  then show ?thesis
    using semd_msg2stamg_complete[of "''ab''" "[3, 1, 2]" 1] by simp
qed

datatype sta_op = Come bool mac string string int | Go mac string string int

fun run_op :: "fnii_client_master \<Rightarrow> sta_op \<Rightarrow> fnii_client_master" where
  "run_op c (Come alloc m ssid iface ch) = fnii_new_sta alloc m ssid iface ch c"
| "run_op c (Go m ssid iface ch) = fnii_del_sta m ssid iface ch c"

definition ups_downs :: "mac \<Rightarrow> fnii_client_master \<Rightarrow> updown_event list" where
  "ups_downs m c = concat (map (\<lambda>e. case e of Notify u \<Rightarrow> if ud_mac u = m then [ud_event u] else [] | _ \<Rightarrow> []) (cm_log c))"

text \<open>The state after a history of ups and downs that alternate; None if they do not.\<close>

fun online_after :: "bool \<Rightarrow> updown_event list \<Rightarrow> bool option" where
  "online_after b [] = Some b"
| "online_after b (HOSTAPD_EVENT_STA_UP # es) = (if b then None else online_after True es)"
| "online_after b (HOSTAPD_EVENT_STA_DOWN # es) = (if b then online_after False es else None)"

lemma online_after_append:
  "online_after b (xs @ ys) = (case online_after b xs of None \<Rightarrow> None | Some b' \<Rightarrow> online_after b' ys)"
  by (induction b xs rule: online_after.induct) auto

definition notify_inv :: "fnii_client_master \<Rightarrow> bool" where
  "notify_inv c \<longleftrightarrow> distinct (map fst (cm_sta c)) \<and>
     (\<forall>m. online_after False (ups_downs m c) = Some (m \<in> fst ` set (cm_sta c)))"

lemma ups_downs_log:
  "ups_downs m (log_ev (Script s n) c) = ups_downs m c"
  "ups_downs m (log_ev (Notify u) c) = ups_downs m c @ (if ud_mac u = m then [ud_event u] else [])"
  "cm_sta (log_ev e c) = cm_sta c"
  by (simp_all add: ups_downs_def log_ev_def)

lemma notify_inv_step:
  assumes "notify_inv c" "\<forall>m ssid iface ch. op \<noteq> Come False m ssid iface ch"
  shows "notify_inv (run_op c op)"
proof (cases op)
  case (Come alloc m ssid iface ch)
  then have "alloc"
    using assms(2) by (cases alloc) auto
  then show ?thesis
    using assms(1) Come
    by (auto simp: notify_inv_def fnii_new_sta_def ups_downs_log online_after_append)
      (auto simp: ups_downs_def)
next
  case (Go m ssid iface ch)
  show ?thesis
  proof (cases "list_del m iface (cm_sta c)")
    case None
    then show ?thesis
      using Go assms(1) by (simp add: fnii_del_sta_def)
  next
    case (Some r)
    then have r: "distinct (map fst r)" "fst ` set r = fst ` set (cm_sta c) - {m}" "m \<in> fst ` set (cm_sta c)"
      using list_del_Some[OF Some] assms(1) by (simp_all add: notify_inv_def)
    have log: "ups_downs n (c\<lparr>cm_sta := r\<rparr>) = ups_downs n c" for n
      by (simp add: ups_downs_def)
    show ?thesis
      using Go Some assms(1) r
      by (auto simp: notify_inv_def fnii_del_sta_def ups_downs_log online_after_append log)
  qed
qed



end
