(* ===== verification/ApMlme.thy ===== *)
theory ApMlme
  imports FniiLink StaNotify
begin

text \<open>
  The hooks of the MLME and of the driver events: what an association or its end does to the
  controller's view (\<^verbatim>\<open>hostapd/src/ap/ap_mlme.c\<close>), and the report of probe requests
  (\<^verbatim>\<open>hostapd_wpa_event\<close> of \<^verbatim>\<open>hostapd/src/ap/drv_callbacks.c\<close>). The state is that of the
  access point with the list of the station manager; \<open>keys\<close> records the calls of
  \<^verbatim>\<open>mlme_deletekeys_request\<close>.
\<close>

record mlme =
  ap :: apstate
  stam :: fnii_client_master
  keys_deleted :: "mac list"

definition mlme_deletekeys_request :: "mac \<Rightarrow> mlme \<Rightarrow> mlme" where
  "mlme_deletekeys_request m s = s\<lparr>keys_deleted := keys_deleted s @ [m]\<rparr>"

text \<open>\<open>ft\<close>: the algorithm was fast transition; \<open>mfp\<close>: management frame protection is in use.\<close>

definition mlme_authenticate_indication :: "bool \<Rightarrow> bool \<Rightarrow> mac \<Rightarrow> mlme \<Rightarrow> mlme" where
  "mlme_authenticate_indication ft mfp m s = (if \<not> ft \<and> \<not> mfp then mlme_deletekeys_request m s else s)"

definition mlme_deauthenticate_indication :: "bool \<Rightarrow> string \<Rightarrow> int \<Rightarrow> hostapd_data \<Rightarrow> mac \<Rightarrow> mlme \<Rightarrow> mlme" where
  "mlme_deauthenticate_indication teardown iface ch bss m s =
     (let s1 = s\<lparr>stam := fnii_del_sta m (conf_ssid bss) iface ch (stam s)\<rparr>
      in if \<not> teardown then mlme_deletekeys_request m s1 else s1)"

definition mlme_disassociate_indication :: "string \<Rightarrow> int \<Rightarrow> hostapd_data \<Rightarrow> mac \<Rightarrow> mlme \<Rightarrow> mlme" where
  "mlme_disassociate_indication iface ch bss m s =
     mlme_deletekeys_request m (s\<lparr>stam := fnii_del_sta m (conf_ssid bss) iface ch (stam s)\<rparr>)"

definition mlme_associate_indication ::
  "(fnii \<Rightarrow> bool) \<Rightarrow> (int \<Rightarrow> int res) \<Rightarrow> bool \<Rightarrow> bool \<Rightarrow> bool \<Rightarrow> string \<Rightarrow> int \<Rightarrow> hostapd_data \<Rightarrow> mac \<Rightarrow> mlme \<Rightarrow> mlme res" where
  "mlme_associate_indication ok au alloc alloc_list ft iface ch bss m s =
     bind_res (make_update_station bss m) (\<lambda>u.
       bind_res (post ok au (MsgNewSta u) (fn (ap s))) (\<lambda>f.
         bind_res (fnii_dense_station_add alloc (dense f)
                     (Some \<lparr>cmd_type = 0, bssid = own_addr bss, stamac = m\<rparr>)) (\<lambda>(r, t).
           let s1 = s\<lparr>ap := (ap s)\<lparr>fn := f\<lparr>dense := t\<rparr>\<rparr>,
                      stam := fnii_new_sta alloc_list m (conf_ssid bss) iface ch (stam s)\<rparr>
           in Inr (if \<not> ft then mlme_deletekeys_request m s1 else s1))))"

definition mlme_reassociate_indication ::
  "(fnii \<Rightarrow> bool) \<Rightarrow> (int \<Rightarrow> int res) \<Rightarrow> bool \<Rightarrow> bool \<Rightarrow> bool \<Rightarrow> string \<Rightarrow> int \<Rightarrow> hostapd_data \<Rightarrow> mac \<Rightarrow> mlme \<Rightarrow> mlme res" where
  "mlme_reassociate_indication ok au alloc alloc_list ft iface ch bss m s =
     bind_res (make_update_station bss m) (\<lambda>u.
       bind_res (post ok au (MsgNewSta u) (fn (ap s))) (\<lambda>f.
         bind_res (fnii_dense_station_add alloc (dense f)
                     (Some \<lparr>cmd_type = 0, bssid = own_addr bss, stamac = m\<rparr>)) (\<lambda>(r, t).
           let s1 = s\<lparr>ap := (ap s)\<lparr>fn := f\<lparr>dense := t\<rparr>\<rparr>,
                      stam := fnii_new_sta alloc_list m (conf_ssid bss) iface ch (stam s)\<rparr>
           in Inr (if \<not> ft then mlme_deletekeys_request m s1 else s1))))"

text \<open>
  A received probe request: the signal is capped at -10 dBm, and stations with a local address
  or a signal of -90 dBm or less are not reported.
\<close>

definition wpa_event_probe ::
  "(fnii \<Rightarrow> bool) \<Rightarrow> (int \<Rightarrow> int res) \<Rightarrow> int \<Rightarrow> int \<Rightarrow> mac \<Rightarrow> fnii \<Rightarrow> fnii res" where
  "wpa_event_probe ok au freq ssi_signal m f =
     (let rssi = (if ssi_signal > - 10 then - 10 else ssi_signal)
      in if \<not> is_local_mac m \<and> rssi > - 90
         then post ok au (MsgProbe \<lparr>pi_rssi = rssi, pi_station_mac = m, pi_channel = freq\<rparr>) f
         else Inr f)"

section \<open>Properties\<close>

text \<open>
  An associated station is admitted. Association (and likewise reassociation) to a BSS with an
  SSID of fewer than 32 bytes reports the station with one frame when the controller is connected,
  and puts the station into the table for that BSS, so that its broadcast probes are answered from
  then on.
\<close>

theorem association_admits:
  assumes "socket_enabled (fn (ap s))" "idf_ok (fn (ap s))" "dense_valid (dense (fn (ap s)))"
    and "length (own_addr bss) = 6" "length m = 6" "length (conf_ssid bss) < 32"
  shows "\<exists>s'. mlme_associate_indication (\<lambda>_. True) au True al ft iface ch bss m s = Inr s' \<and>
    mlme_reassociate_indication (\<lambda>_. True) au True al ft iface ch bss m s = Inr s' \<and>
    dense_valid (dense (fn (ap s'))) \<and>
    dense_set (dense (fn (ap s'))) = insert (m, own_addr bss) (dense_set (dense (fn (ap s)))) \<and>
    (\<forall>r. pr_sa r = m \<longrightarrow> \<not> probe_drop True (dense (fn (ap s'))) bss r) \<and>
    (\<exists>t. net (fn (ap s')) = net (fn (ap s)) @ [NSend t] \<and>
       take 10 t = take 10 (frame (FNII_IDF (next_idf (fn (ap s)))) 104 (payload (MsgNewSta
         \<lparr>us_ap_mac = own_addr bss, us_sta_mac = m, us_ssid = conf_ssid bss\<rparr>))))"
proof -
  let ?u = "\<lparr>us_ap_mac = own_addr bss, us_sta_mac = m, us_ssid = conf_ssid bss\<rparr>"
  let ?f = "sent_state (MsgNewSta ?u) (next_idf (fn (ap s)))"
  let ?a = "\<lparr>cmd_type = 0, bssid = own_addr bss, stamac = m\<rparr>"
  have fits: "msg_fits (MsgNewSta ?u)"
    using assms(4-6) strlen_le[of "conf_ssid bss"] by simp
  have i: "idf_ok (next_idf (fn (ap s)))"
    using assms(2) by (rule idf_ok_next)
  have u: "make_update_station bss m = Inr ?u"
    using assms(6) by (simp add: make_update_station_def)
  have p: "post (\<lambda>_. True) au (MsgNewSta ?u) (fn (ap s)) = Inr ?f"
    using assms(1) dispatch_frames[OF fits i, of au]
    by (simp add: post_def fnii_send_msg_def fnii_check_socket_status_def)
  have d: "dense ?f = dense (fn (ap s))"
    by (simp add: sent_state_def)
  have k: "cmd_key ?a = (m, own_addr bss)"
    by (simp add: cmd_key_def)
  obtain r t where t: "fnii_dense_station_add True (dense ?f) (Some ?a) = Inr (r, t)" "dense_valid t"
    "dense_set t = insert (m, own_addr bss) (dense_set (dense (fn (ap s))))"
  proof (cases "cmd_key ?a \<in> dense_set (dense (fn (ap s)))")
    case True
    then show ?thesis
      using that[of FNII_RET_ERR "dense (fn (ap s))"] dense_add_old[OF assms(3) True, of True] assms(3) k d by auto
  next
    case False
    from dense_add_new[OF assms(3) False] show ?thesis
      using that k d by metis
  qed
  have probe: "\<not> probe_drop True t bss q" if "pr_sa q = m" for q
    using dense_find_iff[OF t(2), of True ?a] t(3) k that by (simp add: probe_drop_def)
  have "10 \<le> length (frame (FNII_IDF (next_idf (fn (ap s)))) 104 (payload (MsgNewSta ?u)))"
    using i idf_range[OF i] length_station_payload[OF fits] fits
    by (subst length_frame) (simp_all del: payload.simps)
  then show ?thesis
    using u p t probe
    by (simp add: mlme_associate_indication_def mlme_reassociate_indication_def mlme_deletekeys_request_def
        sent_state_def Let_def del: payload.simps)
qed

theorem association_admits_witness:
  "\<exists>s'. mlme_associate_indication (\<lambda>_. True) Inr True True False ''wlan0'' 6 wit_bss wit_mac
      \<lparr>ap = wit_st, stam = fnii_connect_to_stamgd, keys_deleted = []\<rparr> = Inr s' \<and>
     (wit_mac, [2, 0, 0, 0, 0, 1]) \<in> dense_set (dense (fn (ap s')))"
  using association_admits[of "\<lparr>ap = wit_st, stam = fnii_connect_to_stamgd, keys_deleted = []\<rparr>"
      wit_bss wit_mac Inr True False "''wlan0''" 6]
    wit_st(1) wit_bss(4,5) wit_macs(1) wit_fnii_ok
  by (auto simp: wit_st_def)

text \<open>
  A probe request never breaks the report. Whatever signal strength the driver gives and
  whatever the frequency, with at most three digits for the load of the channel the report of a
  probe fits its array, and the connection stays up.
\<close>

theorem probe_report_safe:
  assumes "socket_enabled f" "idf_ok f" "au_fits au" "length m = 6"
  shows "\<exists>f'. wpa_event_probe (\<lambda>_. True) au freq signal m f = Inr f' \<and> socket_enabled f' \<and> idf_ok f'"
proof -
  let ?r = "if signal > - 10 then - 10 else signal"
  let ?p = "\<lparr>pi_rssi = ?r, pi_station_mac = m, pi_channel = freq\<rparr>"
  show ?thesis
  proof (cases "\<not> is_local_mac m \<and> ?r > - 90")
    case False
    then show ?thesis
      using assms by (auto simp: wpa_event_probe_def Let_def)
  next
    case True
    then have e: "wpa_event_probe (\<lambda>_. True) au freq signal m f = post (\<lambda>_. True) au (MsgProbe ?p) f"
      by (simp add: wpa_event_probe_def Let_def)
    have i: "idf_ok (next_idf f)"
      using assms(2) by (rule idf_ok_next)
    show ?thesis
    proof (cases "probe_filter m f")
      case True
      then show ?thesis
        using probe_suppressed[of f ?p au] assms(1) i e by (simp add: post_def idf_ok_def)
    next
      case nf: False
      show ?thesis
      proof (cases "0 \<le> freq_to_channel freq \<and> freq_to_channel freq \<le> 200")
        case inr: True
        have fits: "probe_fits ?p"
          using True inr assms(4) by (simp add: probe_fits_def)
        have nf': "\<not> probe_filter (pi_station_mac ?p) f"
          using nf by simp
        obtain a where "fnii_send_msg True au (MsgProbe ?p) f =
           Inr (FNII_RET_OK, net_emit (NSend (frame (FNII_IDF (next_idf f)) 107 (probe_payload ?p a)))
             ((next_idf f)\<lparr>probe_mac := pi_station_mac ?p, probe_count := 1\<rparr>))"
          by (rule probe_reported[OF assms(1,2) nf' fits assms(3)])
        then show ?thesis
          using e assms(1) i by (simp add: post_def idf_ok_def)
      next
        case False
        have "\<not> probe_filter m (next_idf f)"
          using nf by (simp add: probe_filter_def next_idf_def)
        then show ?thesis
          using e assms(1) i False
          by (auto simp: post_def fnii_send_msg_def fnii_check_socket_status_def fnii_send_msg_probe_info_def
              Let_def idf_ok_def)
      qed
    qed
  qed
qed

theorem probe_report_safe_witness:
  "\<exists>f'. wpa_event_probe (\<lambda>_. True) (\<lambda>_. Inr 100) 2412 (- 89) wit_mac wit_fnii = Inr f' \<and> socket_enabled f' \<and> idf_ok f'"
  using probe_report_safe[OF wit_fnii_ok, of "\<lambda>_. Inr 100" wit_mac] by (simp add: au_fits_def wit_mac_def)

end
