(* ===== verification/Eloop.thy ===== *)
theory Eloop
  imports Prelude
begin

text \<open>
  The event loop on which hostapd runs (\<^verbatim>\<open>hostapd/src/utils/eloop.c\<close>, in its variant with
  \<^verbatim>\<open>select\<close>, and the time functions of \<^verbatim>\<open>os.h\<close>): timeouts in a list in order of time, tables
  of sockets, pending signals, and the loop that calls the handlers. The list of timeouts is doubly
  linked in the source and a list here. A handler is a value of type \<open>'h\<close>; what calling it does
  to the loop and to the rest of the process is the argument \<open>run\<close>.
\<close>

section \<open>Time\<close>

record os_reltime =
  t_sec :: int
  t_usec :: int

definition os_reltime_before :: "os_reltime \<Rightarrow> os_reltime \<Rightarrow> bool" where
  "os_reltime_before a b \<longleftrightarrow> t_sec a < t_sec b \<or> t_sec a = t_sec b \<and> t_usec a < t_usec b"

definition os_reltime_sub :: "os_reltime \<Rightarrow> os_reltime \<Rightarrow> os_reltime" where
  "os_reltime_sub a b =
     (let s = to_int32 (t_sec a - t_sec b); u = to_int32 (t_usec a - t_usec b)
      in if u < 0 then \<lparr>t_sec = to_int32 (s - 1), t_usec = u + 1000000\<rparr> else \<lparr>t_sec = s, t_usec = u\<rparr>)"

definition os_reltime_expired :: "os_reltime \<Rightarrow> os_reltime \<Rightarrow> int \<Rightarrow> bool" where
  "os_reltime_expired now ts timeout_secs \<longleftrightarrow>
     (let age = os_reltime_sub now ts
      in t_sec age > timeout_secs \<or> t_sec age = timeout_secs \<and> t_usec age > 0)"

section \<open>State\<close>

record ('h, 'd) eloop_timeout =
  to_time :: os_reltime
  to_eloop_data :: 'd
  to_user_data :: 'd
  to_handler :: 'h

record ('h, 'd) eloop_sock =
  sk_sock :: int
  sk_eloop_data :: 'd
  sk_user_data :: 'd
  sk_handler :: 'h

record ('h, 'd) eloop_signal =
  sg_sig :: int
  sg_user_data :: 'd
  sg_handler :: 'h
  sg_signaled :: int

record ('h, 'd) eloop_sock_table =
  sk_table :: "('h, 'd) eloop_sock list"
  sk_changed :: bool

record ('h, 'd) eloop_data =
  max_sock :: int
  el_count :: int
  readers :: "('h, 'd) eloop_sock_table"
  writers :: "('h, 'd) eloop_sock_table"
  exceptions :: "('h, 'd) eloop_sock_table"
  timeouts :: "('h, 'd) eloop_timeout list"
  signals :: "('h, 'd) eloop_signal list"
  signaled :: int
  pending_terminate :: bool
  terminate :: bool

datatype eloop_event_type = EVENT_TYPE_READ | EVENT_TYPE_WRITE | EVENT_TYPE_EXCEPTION

text \<open>An argument of a cancellation: a context, or \<^verbatim>\<open>ELOOP_ALL_CTX\<close>.\<close>

datatype 'd ctx = ELOOP_ALL_CTX | Ctx 'd

definition eloop_init :: "('h, 'd) eloop_data" where
  "eloop_init =
     \<lparr>max_sock = 0, el_count = 0, readers = \<lparr>sk_table = [], sk_changed = False\<rparr>,
      writers = \<lparr>sk_table = [], sk_changed = False\<rparr>, exceptions = \<lparr>sk_table = [], sk_changed = False\<rparr>,
      timeouts = [], signals = [], signaled = 0, pending_terminate = False, terminate = False\<rparr>"

section \<open>Timeouts\<close>

text \<open>The loop that carries the microseconds over.\<close>

function carry_usec :: "os_reltime \<Rightarrow> os_reltime" where
  "carry_usec t =
     (if t_usec t \<ge> 1000000 then carry_usec \<lparr>t_sec = to_int32 (t_sec t + 1), t_usec = t_usec t - 1000000\<rparr> else t)"
  by pat_completeness auto
termination
  by (relation "measure (\<lambda>t. nat (t_usec t))") auto

declare carry_usec.simps [simp del]

text \<open>Before the first timeout that is later; behind those of the same time.\<close>

fun insert_timeout :: "('h, 'd) eloop_timeout \<Rightarrow> ('h, 'd) eloop_timeout list \<Rightarrow> ('h, 'd) eloop_timeout list" where
  "insert_timeout t [] = [t]"
| "insert_timeout t (x # xs) =
     (if os_reltime_before (to_time t) (to_time x) then t # x # xs else x # insert_timeout t xs)"

text \<open>
  \<open>now\<close> is the time, None when it cannot be read. A time that wraps around is taken as never.
\<close>

definition eloop_register_timeout ::
  "bool \<Rightarrow> os_reltime option \<Rightarrow> u32 \<Rightarrow> u32 \<Rightarrow> 'h \<Rightarrow> 'd \<Rightarrow> 'd \<Rightarrow> ('h, 'd) eloop_timeout list \<Rightarrow>
   int \<times> ('h, 'd) eloop_timeout list" where
  "eloop_register_timeout mem now secs usecs h ed ud ts =
     (case now of
        None \<Rightarrow> (- 1, ts)
      | Some n \<Rightarrow>
          if \<not> mem then (- 1, ts)
          else let s = to_int32 (t_sec n + uint secs)
               in if s < t_sec n then (0, ts)
                  else (0, insert_timeout
                             \<lparr>to_time = carry_usec \<lparr>t_sec = s, t_usec = to_int32 (t_usec n + uint usecs)\<rparr>,
                              to_eloop_data = ed, to_user_data = ud, to_handler = h\<rparr> ts))"

definition ctx_match :: "'d ctx \<Rightarrow> 'd \<Rightarrow> bool" where
  "ctx_match c d \<longleftrightarrow> c = ELOOP_ALL_CTX \<or> c = Ctx d"

definition timeout_match :: "'h \<Rightarrow> 'd ctx \<Rightarrow> 'd ctx \<Rightarrow> ('h, 'd) eloop_timeout \<Rightarrow> bool" where
  "timeout_match h ed ud t \<longleftrightarrow> to_handler t = h \<and> ctx_match ed (to_eloop_data t) \<and> ctx_match ud (to_user_data t)"

fun eloop_cancel_timeout ::
  "'h \<Rightarrow> 'd ctx \<Rightarrow> 'd ctx \<Rightarrow> ('h, 'd) eloop_timeout list \<Rightarrow> nat \<times> ('h, 'd) eloop_timeout list" where
  "eloop_cancel_timeout h ed ud [] = (0, [])"
| "eloop_cancel_timeout h ed ud (t # ts) =
     (let (n, r) = eloop_cancel_timeout h ed ud ts
      in if timeout_match h ed ud t then (n + 1, r) else (n, t # r))"

text \<open>The result: whether one was removed, and the time that was left.\<close>

fun eloop_cancel_timeout_one ::
  "os_reltime \<Rightarrow> 'h \<Rightarrow> 'd \<Rightarrow> 'd \<Rightarrow> ('h, 'd) eloop_timeout list \<Rightarrow> nat \<times> os_reltime \<times> ('h, 'd) eloop_timeout list" where
  "eloop_cancel_timeout_one now h ed ud [] = (0, \<lparr>t_sec = 0, t_usec = 0\<rparr>, [])"
| "eloop_cancel_timeout_one now h ed ud (t # ts) =
     (if timeout_match h (Ctx ed) (Ctx ud) t
      then (1, if os_reltime_before now (to_time t) then os_reltime_sub (to_time t) now else \<lparr>t_sec = 0, t_usec = 0\<rparr>, ts)
      else let (n, rem, r) = eloop_cancel_timeout_one now h ed ud ts in (n, rem, t # r))"

fun eloop_is_timeout_registered :: "'h \<Rightarrow> 'd \<Rightarrow> 'd \<Rightarrow> ('h, 'd) eloop_timeout list \<Rightarrow> bool" where
  "eloop_is_timeout_registered h ed ud [] = False"
| "eloop_is_timeout_registered h ed ud (t # ts) =
     (if timeout_match h (Ctx ed) (Ctx ud) t then True else eloop_is_timeout_registered h ed ud ts)"

fun find_timeout :: "'h \<Rightarrow> 'd \<Rightarrow> 'd \<Rightarrow> ('h, 'd) eloop_timeout list \<Rightarrow> ('h, 'd) eloop_timeout option" where
  "find_timeout h ed ud [] = None"
| "find_timeout h ed ud (t # ts) = (if timeout_match h (Ctx ed) (Ctx ud) t then Some t else find_timeout h ed ud ts)"

text \<open>
  The two operations that move a timeout differ in the comparison only. The time is read once for
  the comparison and again by the registration.
\<close>

definition retime ::
  "(os_reltime \<Rightarrow> os_reltime \<Rightarrow> bool) \<Rightarrow> bool \<Rightarrow> os_reltime \<Rightarrow> os_reltime option \<Rightarrow> u32 \<Rightarrow> u32 \<Rightarrow> 'h \<Rightarrow> 'd \<Rightarrow> 'd \<Rightarrow> ('h, 'd) eloop_timeout list \<Rightarrow>
   int \<times> ('h, 'd) eloop_timeout list" where
  "retime needed mem now now2 secs usecs h ed ud ts =
     (case find_timeout h ed ud ts of
        None \<Rightarrow> (- 1, ts)
      | Some t \<Rightarrow>
          let requested = \<lparr>t_sec = sint secs, t_usec = sint usecs\<rparr>;
              remaining = os_reltime_sub (to_time t) now
          in if needed requested remaining
             then (1, snd (eloop_register_timeout mem now2 secs usecs h ed ud
                             (snd (eloop_cancel_timeout h (Ctx ed) (Ctx ud) ts))))
             else (0, ts))"

definition eloop_deplete_timeout ::
  "bool \<Rightarrow> os_reltime \<Rightarrow> os_reltime option \<Rightarrow> u32 \<Rightarrow> u32 \<Rightarrow> 'h \<Rightarrow> 'd \<Rightarrow> 'd \<Rightarrow> ('h, 'd) eloop_timeout list \<Rightarrow>
   int \<times> ('h, 'd) eloop_timeout list" where
  "eloop_deplete_timeout = retime (\<lambda>requested remaining. os_reltime_before requested remaining)"

definition eloop_replenish_timeout ::
  "bool \<Rightarrow> os_reltime \<Rightarrow> os_reltime option \<Rightarrow> u32 \<Rightarrow> u32 \<Rightarrow> 'h \<Rightarrow> 'd \<Rightarrow> 'd \<Rightarrow> ('h, 'd) eloop_timeout list \<Rightarrow>
   int \<times> ('h, 'd) eloop_timeout list" where
  "eloop_replenish_timeout = retime (\<lambda>requested remaining. os_reltime_before remaining requested)"

section \<open>Sockets\<close>

definition get_table :: "eloop_event_type \<Rightarrow> ('h, 'd) eloop_data \<Rightarrow> ('h, 'd) eloop_sock_table" where
  "get_table ty e =
     (case ty of EVENT_TYPE_READ \<Rightarrow> readers e | EVENT_TYPE_WRITE \<Rightarrow> writers e | EVENT_TYPE_EXCEPTION \<Rightarrow> exceptions e)"

definition set_table :: "eloop_event_type \<Rightarrow> ('h, 'd) eloop_sock_table \<Rightarrow> ('h, 'd) eloop_data \<Rightarrow> ('h, 'd) eloop_data" where
  "set_table ty t e =
     (case ty of EVENT_TYPE_READ \<Rightarrow> e\<lparr>readers := t\<rparr> | EVENT_TYPE_WRITE \<Rightarrow> e\<lparr>writers := t\<rparr>
      | EVENT_TYPE_EXCEPTION \<Rightarrow> e\<lparr>exceptions := t\<rparr>)"

definition eloop_sock_table_add_sock ::
  "bool \<Rightarrow> eloop_event_type \<Rightarrow> int \<Rightarrow> 'h \<Rightarrow> 'd \<Rightarrow> 'd \<Rightarrow> ('h, 'd) eloop_data \<Rightarrow> int \<times> ('h, 'd) eloop_data" where
  "eloop_sock_table_add_sock mem ty sock h ed ud e =
     (if \<not> mem then (- 1, e)
      else (0, (set_table ty \<lparr>sk_table = sk_table (get_table ty e) @
                  [\<lparr>sk_sock = sock, sk_eloop_data = ed, sk_user_data = ud, sk_handler = h\<rparr>], sk_changed = True\<rparr> e)
               \<lparr>max_sock := max sock (max_sock e), el_count := el_count e + 1\<rparr>))"

definition eloop_register_sock ::
  "bool \<Rightarrow> int \<Rightarrow> eloop_event_type \<Rightarrow> 'h \<Rightarrow> 'd \<Rightarrow> 'd \<Rightarrow> ('h, 'd) eloop_data \<Rightarrow> (int \<times> ('h, 'd) eloop_data) res" where
  "eloop_register_sock mem sock ty h ed ud e =
     (if sock \<ge> 0 then Inr (eloop_sock_table_add_sock mem ty sock h ed ud e) else Inl AssertFail)"

text \<open>The first entry of the socket is taken out.\<close>

fun remove_sock :: "int \<Rightarrow> ('h, 'd) eloop_sock list \<Rightarrow> ('h, 'd) eloop_sock list option" where
  "remove_sock sock [] = None"
| "remove_sock sock (s # ss) =
     (if sk_sock s = sock then Some ss else case remove_sock sock ss of None \<Rightarrow> None | Some r \<Rightarrow> Some (s # r))"

definition eloop_unregister_sock :: "int \<Rightarrow> eloop_event_type \<Rightarrow> ('h, 'd) eloop_data \<Rightarrow> ('h, 'd) eloop_data" where
  "eloop_unregister_sock sock ty e =
     (case remove_sock sock (sk_table (get_table ty e)) of
        None \<Rightarrow> e
      | Some r \<Rightarrow> (set_table ty \<lparr>sk_table = r, sk_changed = True\<rparr> e)\<lparr>el_count := el_count e - 1\<rparr>)"

definition eloop_register_read_sock ::
  "bool \<Rightarrow> int \<Rightarrow> 'h \<Rightarrow> 'd \<Rightarrow> 'd \<Rightarrow> ('h, 'd) eloop_data \<Rightarrow> (int \<times> ('h, 'd) eloop_data) res" where
  "eloop_register_read_sock mem sock h ed ud e = eloop_register_sock mem sock EVENT_TYPE_READ h ed ud e"

definition eloop_unregister_read_sock :: "int \<Rightarrow> ('h, 'd) eloop_data \<Rightarrow> ('h, 'd) eloop_data" where
  "eloop_unregister_read_sock sock e = eloop_unregister_sock sock EVENT_TYPE_READ e"

section \<open>Signals\<close>

definition SIGHUP :: int where
  "SIGHUP = 1"

definition SIGINT :: int where
  "SIGINT = 2"

definition SIGTERM :: int where
  "SIGTERM = 15"

definition eloop_register_signal :: "bool \<Rightarrow> int \<Rightarrow> 'h \<Rightarrow> 'd \<Rightarrow> ('h, 'd) eloop_data \<Rightarrow> int \<times> ('h, 'd) eloop_data" where
  "eloop_register_signal mem sig h ud e =
     (if \<not> mem then (- 1, e)
      else (0, e\<lparr>signals := signals e @ [\<lparr>sg_sig = sig, sg_user_data = ud, sg_handler = h, sg_signaled = 0\<rparr>]\<rparr>))"

definition eloop_register_signal_terminate :: "bool \<Rightarrow> 'h \<Rightarrow> 'd \<Rightarrow> ('h, 'd) eloop_data \<Rightarrow> int \<times> ('h, 'd) eloop_data" where
  "eloop_register_signal_terminate mem h ud e =
     (let (ret, e1) = eloop_register_signal mem SIGINT h ud e
      in if ret = 0 then eloop_register_signal mem SIGTERM h ud e1 else (ret, e1))"

definition eloop_register_signal_reconfig :: "bool \<Rightarrow> 'h \<Rightarrow> 'd \<Rightarrow> ('h, 'd) eloop_data \<Rightarrow> int \<times> ('h, 'd) eloop_data" where
  "eloop_register_signal_reconfig mem h ud e = eloop_register_signal mem SIGHUP h ud e"

fun mark_signal :: "int \<Rightarrow> ('h, 'd) eloop_signal list \<Rightarrow> ('h, 'd) eloop_signal list" where
  "mark_signal sig [] = []"
| "mark_signal sig (s # ss) =
     (if sg_sig s = sig then s\<lparr>sg_signaled := sg_signaled s + 1\<rparr> # ss else s # mark_signal sig ss)"

definition eloop_handle_signal :: "int \<Rightarrow> ('h, 'd) eloop_data \<Rightarrow> ('h, 'd) eloop_data" where
  "eloop_handle_signal sig e =
     e\<lparr>pending_terminate := pending_terminate e \<or> sig = SIGINT \<or> sig = SIGTERM,
       signaled := signaled e + 1, signals := mark_signal sig (signals e)\<rparr>"

section \<open>The loop\<close>

datatype ('h, 'd) call =
    TimeoutCall 'h 'd 'd
  | SockCall 'h int 'd 'd
  | SignalCall 'h int 'd

type_synonym ('h, 'd, 's) process = "('h, 'd) eloop_data \<times> 's"
type_synonym ('h, 'd, 's) handlers = "('h, 'd) call \<Rightarrow> ('h, 'd, 's) process \<Rightarrow> ('h, 'd, 's) process res"

text \<open>
  The signals from index \<open>i\<close> on; the count is read anew after each handler, so \<open>n\<close> is fuel. It
  starts with the number of signals, which is enough for handlers that register no signals.
\<close>

fun run_signals :: "('h, 'd, 's) handlers \<Rightarrow> nat \<Rightarrow> nat \<Rightarrow> ('h, 'd, 's) process \<Rightarrow> ('h, 'd, 's) process res" where
  "run_signals run n i (e, s) =
     (if i < length (signals e)
      then (case n of
              0 \<Rightarrow> Inl OutOfFuel
            | Suc m \<Rightarrow>
                let g = signals e ! i
                in if sg_signaled g \<noteq> 0
                   then bind_res (run (SignalCall (sg_handler g) (sg_sig g) (sg_user_data g))
                                    (e\<lparr>signals := (signals e)[i := g\<lparr>sg_signaled := 0\<rparr>]\<rparr>, s))
                          (run_signals run m (i + 1))
                   else run_signals run m (i + 1) (e, s))
      else Inr (e, s))"

declare run_signals.simps [simp del]

definition eloop_process_pending_signals ::
  "('h, 'd, 's) handlers \<Rightarrow> ('h, 'd, 's) process \<Rightarrow> ('h, 'd, 's) process res" where
  "eloop_process_pending_signals run p =
     (if signaled (fst p) = 0 then Inr p
      else run_signals run (length (signals (fst p))) 0 ((fst p)\<lparr>signaled := 0, pending_terminate := False\<rparr>, snd p))"

text \<open>The first timeout, if its time has come, is taken out and its handler called.\<close>

definition eloop_fire :: "('h, 'd, 's) handlers \<Rightarrow> os_reltime \<Rightarrow> ('h, 'd, 's) process \<Rightarrow> ('h, 'd, 's) process res" where
  "eloop_fire run now p =
     (case timeouts (fst p) of
        [] \<Rightarrow> Inr p
      | t # ts \<Rightarrow>
          if os_reltime_before now (to_time t) then Inr p
          else run (TimeoutCall (to_handler t) (to_eloop_data t) (to_user_data t)) ((fst p)\<lparr>timeouts := ts\<rparr>, snd p))"

text \<open>How long \<^verbatim>\<open>select\<close> may wait; None is for ever.\<close>

definition eloop_wait :: "os_reltime \<Rightarrow> ('h, 'd) eloop_timeout list \<Rightarrow> os_reltime option" where
  "eloop_wait now ts =
     (case ts of
        [] \<Rightarrow> None
      | t # _ \<Rightarrow> Some (if os_reltime_before now (to_time t) then os_reltime_sub (to_time t) now else \<lparr>t_sec = 0, t_usec = 0\<rparr>))"

text \<open>
  The dispatch goes on with the next entry unless the handler has changed the table. The fuel \<open>n\<close>
  starts with the number of entries: a handler that adds one also marks the table as changed.
\<close>

fun dispatch_from ::
  "('h, 'd, 's) handlers \<Rightarrow> eloop_event_type \<Rightarrow> (int \<Rightarrow> bool) \<Rightarrow> nat \<Rightarrow> nat \<Rightarrow> ('h, 'd, 's) process \<Rightarrow> ('h, 'd, 's) process res" where
  "dispatch_from run ty ready n i (e, s) =
     (let tab = sk_table (get_table ty e)
      in if i < length tab
         then (case n of
                 0 \<Rightarrow> Inl OutOfFuel
               | Suc m \<Rightarrow>
                   let k = tab ! i
                   in if ready (sk_sock k)
                      then bind_res (run (SockCall (sk_handler k) (sk_sock k) (sk_eloop_data k) (sk_user_data k)) (e, s))
                             (\<lambda>p. if sk_changed (get_table ty (fst p)) then Inr p else dispatch_from run ty ready m (i + 1) p)
                      else dispatch_from run ty ready m (i + 1) (e, s))
         else Inr (e, s))"

declare dispatch_from.simps [simp del]

text \<open>A table that was never allocated has no entries and its mark is clear already.\<close>

definition eloop_sock_table_dispatch ::
  "('h, 'd, 's) handlers \<Rightarrow> eloop_event_type \<Rightarrow> (int \<Rightarrow> bool) \<Rightarrow> ('h, 'd, 's) process \<Rightarrow> ('h, 'd, 's) process res" where
  "eloop_sock_table_dispatch run ty ready p =
     dispatch_from run ty ready (length (sk_table (get_table ty (fst p)))) 0
       (set_table ty ((get_table ty (fst p))\<lparr>sk_changed := False\<rparr>) (fst p), snd p)"

text \<open>The sockets that \<^verbatim>\<open>select\<close> is asked about; an \<^verbatim>\<open>fd_set\<close> has room for 1024.\<close>

definition FD_SETSIZE :: int where
  "FD_SETSIZE = 1024"

fun set_fds :: "('h, 'd) eloop_sock list \<Rightarrow> int list res" where
  "set_fds [] = Inr []"
| "set_fds (k # ks) =
     (if sk_sock k < 0 then Inl AssertFail
      else if sk_sock k \<ge> FD_SETSIZE then Inl OutOfBounds
      else bind_res (set_fds ks) (\<lambda>fds. Inr (sk_sock k # fds)))"

definition eloop_sock_table_set_fds :: "('h, 'd) eloop_sock_table \<Rightarrow> int list res" where
  "eloop_sock_table_set_fds t = set_fds (sk_table t)"

text \<open>
  What a round of the loop meets: the signals that arrive during the wait, the result of
  \<^verbatim>\<open>select\<close> and whether a failure is one that ends the loop (\<^verbatim>\<open>errno\<close> neither
  \<^verbatim>\<open>EINTR\<close> nor 0), the sockets of its sets that it leaves set, and the time afterwards.
\<close>

record round_env =
  re_signals :: "int list"
  re_res :: int
  re_fatal :: bool
  re_ready :: "eloop_event_type \<Rightarrow> int \<Rightarrow> bool"
  re_now :: os_reltime

definition eloop_running :: "('h, 'd) eloop_data \<Rightarrow> bool" where
  "eloop_running e \<longleftrightarrow> \<not> terminate e \<and>
     (timeouts e \<noteq> [] \<or> sk_table (readers e) \<noteq> [] \<or> sk_table (writers e) \<noteq> [] \<or> sk_table (exceptions e) \<noteq> [])"

text \<open>The sets of the three tables.\<close>

definition fd_sets :: "('h, 'd) eloop_data \<Rightarrow> (eloop_event_type \<Rightarrow> int list) res" where
  "fd_sets e =
     bind_res (eloop_sock_table_set_fds (readers e)) (\<lambda>rfds.
     bind_res (eloop_sock_table_set_fds (writers e)) (\<lambda>wfds.
     bind_res (eloop_sock_table_set_fds (exceptions e)) (\<lambda>efds.
       Inr (\<lambda>ty. case ty of EVENT_TYPE_READ \<Rightarrow> rfds | EVENT_TYPE_WRITE \<Rightarrow> wfds | EVENT_TYPE_EXCEPTION \<Rightarrow> efds))))"

definition isset :: "round_env \<Rightarrow> (eloop_event_type \<Rightarrow> int list) \<Rightarrow> eloop_event_type \<Rightarrow> int \<Rightarrow> bool" where
  "isset re fds ty sock \<longleftrightarrow> sock \<in> set (fds ty) \<and> re_ready re ty sock"

definition dispatch_all ::
  "('h, 'd, 's) handlers \<Rightarrow> (eloop_event_type \<Rightarrow> int \<Rightarrow> bool) \<Rightarrow> ('h, 'd, 's) process \<Rightarrow> ('h, 'd, 's) process res" where
  "dispatch_all run ready p =
     bind_res (eloop_sock_table_dispatch run EVENT_TYPE_READ (ready EVENT_TYPE_READ) p) (\<lambda>p1.
     bind_res (eloop_sock_table_dispatch run EVENT_TYPE_WRITE (ready EVENT_TYPE_WRITE) p1) (\<lambda>p2.
       eloop_sock_table_dispatch run EVENT_TYPE_EXCEPTION (ready EVENT_TYPE_EXCEPTION) p2))"

text \<open>A round; the boolean says whether the loop goes on.\<close>

definition eloop_round ::
  "('h, 'd, 's) handlers \<Rightarrow> round_env \<Rightarrow> ('h, 'd, 's) process \<Rightarrow> (bool \<times> ('h, 'd, 's) process) res" where
  "eloop_round run re p =
     bind_res (fd_sets (fst p)) (\<lambda>fds.
       let p0 = (fold eloop_handle_signal (re_signals re) (fst p), snd p)
       in if re_res re < 0 \<and> re_fatal re then Inr (False, p0)
          else bind_res (eloop_process_pending_signals run p0) (\<lambda>p1.
               bind_res (eloop_fire run (re_now re) p1) (\<lambda>p2.
                 if re_res re \<le> 0 then Inr (True, p2)
                 else bind_res (dispatch_all run (isset re fds) p2) (\<lambda>p3. Inr (True, p3)))))"

text \<open>The loop over a sequence of rounds; it leaves early when there is nothing to wait for.\<close>

fun eloop_run :: "('h, 'd, 's) handlers \<Rightarrow> round_env list \<Rightarrow> ('h, 'd, 's) process \<Rightarrow> ('h, 'd, 's) process res" where
  "eloop_run run [] p = Inr p"
| "eloop_run run (r # rs) p =
     (if \<not> eloop_running (fst p) then Inr ((fst p)\<lparr>terminate := False\<rparr>, snd p)
      else bind_res (eloop_round run r p) (\<lambda>(go, p'). if go then eloop_run run rs p' else Inr p'))"

definition eloop_terminate :: "('h, 'd) eloop_data \<Rightarrow> ('h, 'd) eloop_data" where
  "eloop_terminate e = e\<lparr>terminate := True\<rparr>"

definition eloop_terminated :: "('h, 'd) eloop_data \<Rightarrow> bool" where
  "eloop_terminated e = terminate e"

text \<open>The tables are freed, too; nothing uses them afterwards.\<close>

definition eloop_destroy :: "('h, 'd) eloop_data \<Rightarrow> ('h, 'd) eloop_data" where
  "eloop_destroy e = e\<lparr>timeouts := []\<rparr>"

end
