(* ===== verification/EloopTimers.thy ===== *)
theory EloopTimers
  imports Eloop "HOL-Library.Multiset"
begin

text \<open>
  The timeouts of the event loop: the list stays in order of time, a registration adds exactly
  one entry at the requested distance from now, a cancellation removes exactly the matching
  entries, and the two operations that move a timeout keep the shorter or the longer time. The
  locale \<open>timer_store\<close> is the contract on which the station table relies.
\<close>

section \<open>Time\<close>

definition usecs_of :: "os_reltime \<Rightarrow> int" where
  "usecs_of t = t_sec t * 1000000 + t_usec t"

definition normal_time :: "os_reltime \<Rightarrow> bool" where
  "normal_time t \<longleftrightarrow> 0 \<le> t_usec t \<and> t_usec t < 1000000"

lemma os_reltime_before_iff:
  "normal_time a \<Longrightarrow> normal_time b \<Longrightarrow> os_reltime_before a b \<longleftrightarrow> usecs_of a < usecs_of b"
  by (auto simp: normal_time_def os_reltime_before_def usecs_of_def)

lemma os_reltime_before_irrefl [simp]: "\<not> os_reltime_before a a"
  by (simp add: os_reltime_before_def)

lemma os_reltime_before_trans:
  "os_reltime_before a b \<Longrightarrow> os_reltime_before b c \<Longrightarrow> os_reltime_before a c"
  by (auto simp: os_reltime_before_def)

lemma os_reltime_not_before_trans:
  "\<not> os_reltime_before b a \<Longrightarrow> \<not> os_reltime_before c b \<Longrightarrow> \<not> os_reltime_before c a"
  by (auto simp: os_reltime_before_def)

lemma os_reltime_before_asym: "os_reltime_before a b \<Longrightarrow> \<not> os_reltime_before b a"
  by (auto simp: os_reltime_before_def)

lemma carry_usec_correct:
  assumes "0 \<le> t_usec t" "- 2147483648 \<le> t_sec t" "t_sec t + t_usec t div 1000000 \<le> 2147483647"
  shows "normal_time (carry_usec t) \<and> usecs_of (carry_usec t) = usecs_of t"
  using assms
proof (induction t rule: carry_usec.induct)
  case (1 t)
  show ?case
  proof (cases "t_usec t \<ge> 1000000")
    case True
    define u where "u = \<lparr>t_sec = to_int32 (t_sec t + 1), t_usec = t_usec t - 1000000\<rparr>"
    have d: "(t_usec t - 1000000) div 1000000 = t_usec t div 1000000 - 1"
      by simp
    have "0 \<le> (t_usec t - 1000000) div 1000000"
      using True by simp
    then have s: "to_int32 (t_sec t + 1) = t_sec t + 1"
      using "1.prems" d by (intro to_int32_id) linarith+
    have "normal_time (carry_usec u) \<and> usecs_of (carry_usec u) = usecs_of u"
      unfolding u_def by (rule "1.IH"[OF True]) (use "1.prems" True d s in simp_all)
    moreover have "carry_usec t = carry_usec u"
      using True by (simp add: u_def carry_usec.simps[of t])
    moreover have "usecs_of u = usecs_of t"
      using s by (simp add: u_def usecs_of_def)
    ultimately show ?thesis
      by simp
  qed (use "1.prems" in \<open>simp add: carry_usec.simps[of t] normal_time_def\<close>)
qed

lemma os_reltime_sub_correct:
  assumes "normal_time a" "normal_time b" "\<bar>t_sec a - t_sec b\<bar> < 2147483647"
  shows "normal_time (os_reltime_sub a b) \<and> usecs_of (os_reltime_sub a b) = usecs_of a - usecs_of b"
proof -
  have "to_int32 (t_sec a - t_sec b) = t_sec a - t_sec b" "to_int32 (t_usec a - t_usec b) = t_usec a - t_usec b"
    "to_int32 (t_sec a - t_sec b - 1) = t_sec a - t_sec b - 1"
    using assms by (simp_all add: to_int32_id normal_time_def)
  then show ?thesis
    using assms by (auto simp: os_reltime_sub_def normal_time_def usecs_of_def Let_def)
qed

section \<open>The list in order\<close>

definition timeouts_sorted :: "('h, 'd) eloop_timeout list \<Rightarrow> bool" where
  "timeouts_sorted = sorted_wrt (\<lambda>a b. \<not> os_reltime_before (to_time b) (to_time a))"

lemma timeouts_sorted_simps [simp]:
  "timeouts_sorted []"
  "timeouts_sorted (t # ts) \<longleftrightarrow> (\<forall>x \<in> set ts. \<not> os_reltime_before (to_time x) (to_time t)) \<and> timeouts_sorted ts"
  by (simp_all add: timeouts_sorted_def)

lemma insert_timeout_split:
  "insert_timeout t ts =
     takeWhile (\<lambda>x. \<not> os_reltime_before (to_time t) (to_time x)) ts @
     t # dropWhile (\<lambda>x. \<not> os_reltime_before (to_time t) (to_time x)) ts"
  by (induction ts) auto

lemma mset_insert_timeout [simp]: "mset (insert_timeout t ts) = add_mset t (mset ts)"
  by (induction ts) auto

lemma set_insert_timeout [simp]: "set (insert_timeout t ts) = insert t (set ts)"
  by (induction ts) auto

lemma insert_timeout_sorted: "timeouts_sorted ts \<Longrightarrow> timeouts_sorted (insert_timeout t ts)"
proof (induction ts)
  case (Cons x xs)
  show ?case
  proof (cases "os_reltime_before (to_time t) (to_time x)")
    case True
    then show ?thesis
      using Cons.prems by (auto dest: os_reltime_before_asym os_reltime_before_trans)
  qed (use Cons in auto)
qed simp

lemma filter_sorted: "timeouts_sorted ts \<Longrightarrow> timeouts_sorted (filter P ts)"
  unfolding timeouts_sorted_def by (rule sorted_wrt_filter)

section \<open>Registration and cancellation\<close>

lemma eloop_cancel_timeout_filter:
  "eloop_cancel_timeout h ed ud ts =
     (length (filter (timeout_match h ed ud) ts), filter (\<lambda>t. \<not> timeout_match h ed ud t) ts)"
  by (induction ts) auto

lemma eloop_is_timeout_registered_iff:
  "eloop_is_timeout_registered h ed ud ts \<longleftrightarrow> (\<exists>t \<in> set ts. timeout_match h (Ctx ed) (Ctx ud) t)"
  by (induction ts) auto

lemma find_timeout_find: "find_timeout h ed ud ts = find (timeout_match h (Ctx ed) (Ctx ud)) ts"
  by (induction ts) auto

text \<open>The arguments with which a registration adds an entry.\<close>

definition register_ok :: "bool \<Rightarrow> os_reltime option \<Rightarrow> u32 \<Rightarrow> bool" where
  "register_ok mem now secs \<longleftrightarrow>
     mem \<and> (case now of None \<Rightarrow> False | Some n \<Rightarrow> t_sec n \<le> to_int32 (t_sec n + uint secs))"

definition new_timeout :: "os_reltime \<Rightarrow> u32 \<Rightarrow> u32 \<Rightarrow> 'h \<Rightarrow> 'd \<Rightarrow> 'd \<Rightarrow> ('h, 'd) eloop_timeout" where
  "new_timeout n secs usecs h ed ud =
     \<lparr>to_time = carry_usec \<lparr>t_sec = to_int32 (t_sec n + uint secs), t_usec = to_int32 (t_usec n + uint usecs)\<rparr>,
      to_eloop_data = ed, to_user_data = ud, to_handler = h\<rparr>"

lemma eloop_register_timeout_ok:
  "register_ok mem now secs \<Longrightarrow>
   eloop_register_timeout mem now secs usecs h ed ud ts = (0, insert_timeout (new_timeout (the now) secs usecs h ed ud) ts)"
  by (auto simp: register_ok_def eloop_register_timeout_def new_timeout_def Let_def split: option.splits)

lemma eloop_register_timeout_fails:
  "\<not> register_ok mem now secs \<Longrightarrow> snd (eloop_register_timeout mem now secs usecs h ed ud ts) = ts"
  by (auto simp: register_ok_def eloop_register_timeout_def Let_def split: option.splits)

lemma timeouts_sorted_register:
  "timeouts_sorted ts \<Longrightarrow> timeouts_sorted (snd (eloop_register_timeout mem now secs usecs h ed ud ts))"
  by (cases "register_ok mem now secs")
    (simp_all add: eloop_register_timeout_ok eloop_register_timeout_fails insert_timeout_sorted)

lemma timeouts_sorted_cancel: "timeouts_sorted ts \<Longrightarrow> timeouts_sorted (snd (eloop_cancel_timeout h ed ud ts))"
  by (simp add: eloop_cancel_timeout_filter filter_sorted)

lemma cancel_one_subset: "set (snd (snd (eloop_cancel_timeout_one now h ed ud ts))) \<subseteq> set ts"
  by (induction ts) (auto simp: split: prod.splits)

lemma timeouts_sorted_cancel_one:
  "timeouts_sorted ts \<Longrightarrow> timeouts_sorted (snd (snd (eloop_cancel_timeout_one now h ed ud ts)))"
proof (induction ts)
  case (Cons t ts)
  then show ?case
    using cancel_one_subset[of now h ed ud ts] by (auto split: prod.splits)
qed simp

lemma timeouts_sorted_retime: "timeouts_sorted ts \<Longrightarrow> timeouts_sorted (snd (retime f mem now now2 secs usecs h ed ud ts))"
  by (simp add: retime_def Let_def timeouts_sorted_register timeouts_sorted_cancel split: option.split)

lemmas timeouts_sorted_ops =
  timeouts_sorted_register timeouts_sorted_cancel timeouts_sorted_cancel_one timeouts_sorted_retime

section \<open>The time of a new timeout\<close>

text \<open>A request whose time is representable.\<close>

definition in_range :: "os_reltime \<Rightarrow> u32 \<Rightarrow> u32 \<Rightarrow> bool" where
  "in_range now secs usecs \<longleftrightarrow>
     normal_time now \<and> 0 \<le> t_sec now \<and> uint usecs \<le> 2146000000 \<and> t_sec now + uint secs \<le> 2147480000"

definition delay :: "u32 \<Rightarrow> u32 \<Rightarrow> int" where
  "delay secs usecs = uint secs * 1000000 + uint usecs"

lemma to_int32_add_uint:
  "0 \<le> a \<Longrightarrow> a + uint (w :: u32) \<le> 2147483647 \<Longrightarrow> to_int32 (a + uint w) = a + uint w"
  using uint_nonnegative[of w] by (intro to_int32_id) linarith+

lemma sint_small: "uint (w :: u32) \<le> 2147483647 \<Longrightarrow> sint w = uint w"
  using to_int32_add_uint[of 0 w] by (simp add: sint_uint to_int32_def)

lemma in_range_register_ok: "in_range now secs usecs \<Longrightarrow> register_ok True (Some now) secs"
  by (auto simp: in_range_def register_ok_def to_int32_add_uint)

lemma new_timeout_time:
  assumes "in_range now secs usecs"
  shows "normal_time (to_time (new_timeout now secs usecs h ed ud))"
    and "usecs_of (to_time (new_timeout now secs usecs h ed ud)) = usecs_of now + delay secs usecs"
proof -
  define t where "t = \<lparr>t_sec = to_int32 (t_sec now + uint secs), t_usec = to_int32 (t_usec now + uint usecs)\<rparr>"
  have r: "0 \<le> t_usec now" "t_usec now < 1000000" "0 \<le> t_sec now" "uint usecs \<le> 2146000000"
    "t_sec now + uint secs \<le> 2147480000" "0 \<le> uint secs" "0 \<le> uint usecs"
    using assms by (simp_all add: in_range_def normal_time_def)
  then have e: "t = \<lparr>t_sec = t_sec now + uint secs, t_usec = t_usec now + uint usecs\<rparr>"
    by (simp add: t_def to_int32_add_uint)
  have "t_sec t + t_usec t div 1000000 \<le> 2147483647"
    using r by (simp add: e)
  moreover have "- 2147483648 \<le> t_sec t" "0 \<le> t_usec t"
    using add_nonneg_nonneg[OF r(3,6)] add_nonneg_nonneg[OF r(1,7)] unfolding e by simp_all
  ultimately have "normal_time (carry_usec t) \<and> usecs_of (carry_usec t) = usecs_of t"
    by (intro carry_usec_correct)
  moreover have "usecs_of t = usecs_of now + delay secs usecs"
    by (simp add: e usecs_of_def delay_def)
  ultimately show "normal_time (to_time (new_timeout now secs usecs h ed ud))"
    "usecs_of (to_time (new_timeout now secs usecs h ed ud)) = usecs_of now + delay secs usecs"
    by (simp_all add: new_timeout_def t_def)
qed

lemma new_timeout_match [simp]: "timeout_match h (Ctx ed) (Ctx ud) (new_timeout n secs usecs h ed ud)"
  by (simp add: timeout_match_def ctx_match_def new_timeout_def)

lemma dropWhile_later:
  "timeouts_sorted ts \<Longrightarrow> x \<in> set (dropWhile (\<lambda>x. \<not> os_reltime_before t (to_time x)) ts) \<Longrightarrow>
   os_reltime_before t (to_time x)"
proof (induction ts)
  case (Cons y ys)
  show ?case
  proof (cases "os_reltime_before t (to_time y)")
    case True
    then show ?thesis
      using Cons.prems os_reltime_not_before_trans[of "to_time x" "to_time y" t] by auto
  qed (use Cons in auto)
qed simp

text \<open>
  A timeout is registered at exactly the requested distance from now, behind all entries that
  are due no later and before all that are due later; the other entries keep their order.
\<close>

theorem timeout_registered_in_order:
  assumes "timeouts_sorted ts" "in_range now secs usecs"
  shows "\<exists>before after t.
           ts = before @ after \<and>
           eloop_register_timeout True (Some now) secs usecs h ed ud ts = (0, before @ t # after) \<and>
           to_handler t = h \<and> to_eloop_data t = ed \<and> to_user_data t = ud \<and>
           usecs_of (to_time t) = usecs_of now + delay secs usecs \<and>
           (\<forall>x \<in> set before. \<not> os_reltime_before (to_time t) (to_time x)) \<and>
           (\<forall>x \<in> set after. os_reltime_before (to_time t) (to_time x))"
proof -
  define t where "t = new_timeout now secs usecs h ed ud"
  define P where "P = (\<lambda>x :: ('a, 'b) eloop_timeout. \<not> os_reltime_before (to_time t) (to_time x))"
  have "eloop_register_timeout True (Some now) secs usecs h ed ud ts = (0, takeWhile P ts @ t # dropWhile P ts)"
    using in_range_register_ok[OF assms(2)]
    by (simp add: eloop_register_timeout_ok insert_timeout_split t_def P_def)
  moreover have "usecs_of (to_time t) = usecs_of now + delay secs usecs"
    unfolding t_def by (rule new_timeout_time(2)[OF assms(2)])
  moreover have "\<forall>x \<in> set (dropWhile P ts). os_reltime_before (to_time t) (to_time x)"
    unfolding P_def by (intro ballI dropWhile_later[OF assms(1)])
  moreover have "\<forall>x \<in> set (takeWhile P ts). \<not> os_reltime_before (to_time t) (to_time x)"
    by (auto simp: P_def dest: set_takeWhileD)
  moreover have "to_handler t = h \<and> to_eloop_data t = ed \<and> to_user_data t = ud"
    by (simp add: t_def new_timeout_def)
  ultimately show ?thesis
    by (intro exI[of _ "takeWhile P ts"] exI[of _ "dropWhile P ts"] exI[of _ t] conjI)
      (simp_all only: takeWhile_dropWhile_id)
qed

definition wit_timeouts :: "(nat, nat) eloop_timeout list" where
  "wit_timeouts =
     [\<lparr>to_time = \<lparr>t_sec = 5, t_usec = 10\<rparr>, to_eloop_data = 0, to_user_data = 1, to_handler = 7\<rparr>,
      \<lparr>to_time = \<lparr>t_sec = 9, t_usec = 0\<rparr>, to_eloop_data = 0, to_user_data = 2, to_handler = 7\<rparr>]"

lemma wit_timeouts_sorted: "timeouts_sorted wit_timeouts"
  by (simp add: wit_timeouts_def os_reltime_before_def)

theorem timeout_registered_in_order_witness:
  "\<exists>before after t.
     wit_timeouts = before @ after \<and>
     eloop_register_timeout True (Some \<lparr>t_sec = 3, t_usec = 999999\<rparr>) 1 11 8 0 3 wit_timeouts = (0, before @ t # after) \<and>
     to_handler t = 8 \<and> to_eloop_data t = 0 \<and> to_user_data t = 3 \<and>
     usecs_of (to_time t) = usecs_of \<lparr>t_sec = 3, t_usec = 999999\<rparr> + delay 1 11 \<and>
     (\<forall>x \<in> set before. \<not> os_reltime_before (to_time t) (to_time x)) \<and>
     (\<forall>x \<in> set after. os_reltime_before (to_time t) (to_time x))"
  using timeout_registered_in_order[OF wit_timeouts_sorted, of "\<lparr>t_sec = 3, t_usec = 999999\<rparr>" 1 11 8 0 3]
  by (simp add: in_range_def normal_time_def)

section \<open>Moving a timeout\<close>

lemma filter_insert_timeout_other: "\<not> P t \<Longrightarrow> filter P (insert_timeout t ts) = filter P ts"
  by (induction ts) auto

lemma filter_insert_timeout_only: "filter P ts = [] \<Longrightarrow> P t \<Longrightarrow> filter P (insert_timeout t ts) = [t]"
  by (induction ts) (auto split: if_splits)

lemma find_single: "filter P ts = [t] \<Longrightarrow> find P ts = Some t"
  by (induction ts) (auto split: if_splits)

lemma requested_before_iff:
  assumes "in_range now secs usecs" "uint usecs < 1000000" "uint secs \<le> 2147483647"
    and "normal_time rem"
  shows "os_reltime_before \<lparr>t_sec = sint secs, t_usec = sint usecs\<rparr> rem \<longleftrightarrow> delay secs usecs < usecs_of rem"
    and "os_reltime_before rem \<lparr>t_sec = sint secs, t_usec = sint usecs\<rparr> \<longleftrightarrow> usecs_of rem < delay secs usecs"
proof -
  have "sint secs = uint secs" "sint usecs = uint usecs"
    using assms(2,3) by (simp_all add: sint_small)
  then have "normal_time \<lparr>t_sec = sint secs, t_usec = sint usecs\<rparr>"
    "usecs_of \<lparr>t_sec = sint secs, t_usec = sint usecs\<rparr> = delay secs usecs"
    using assms(2) by (simp_all add: normal_time_def usecs_of_def delay_def)
  then show "os_reltime_before \<lparr>t_sec = sint secs, t_usec = sint usecs\<rparr> rem \<longleftrightarrow> delay secs usecs < usecs_of rem"
    "os_reltime_before rem \<lparr>t_sec = sint secs, t_usec = sint usecs\<rparr> \<longleftrightarrow> usecs_of rem < delay secs usecs"
    using assms(4) by (simp_all add: os_reltime_before_iff)
qed

lemma retime_single:
  assumes "filter (timeout_match h (Ctx ed) (Ctx ud)) ts = [t]" "in_range now secs usecs"
    and "needed \<lparr>t_sec = sint secs, t_usec = sint usecs\<rparr> (os_reltime_sub (to_time t) now)"
  shows "\<exists>ts'. retime needed True now (Some now) secs usecs h ed ud ts = (1, ts') \<and>
           filter (timeout_match h (Ctx ed) (Ctx ud)) ts' = [new_timeout now secs usecs h ed ud] \<and>
           filter (\<lambda>x. \<not> timeout_match h (Ctx ed) (Ctx ud) x) ts' = filter (\<lambda>x. \<not> timeout_match h (Ctx ed) (Ctx ud) x) ts"
proof -
  let ?m = "timeout_match h (Ctx ed) (Ctx ud)"
  define n where "n = new_timeout now secs usecs h ed ud"
  define ts' where "ts' = insert_timeout n (filter (\<lambda>x. \<not> ?m x) ts)"
  have m: "?m n"
    by (simp add: n_def)
  have "retime needed True now (Some now) secs usecs h ed ud ts = (1, ts')"
    using assms(3) in_range_register_ok[OF assms(2)]
    by (simp add: retime_def find_timeout_find find_single[OF assms(1)] Let_def eloop_register_timeout_ok
        eloop_cancel_timeout_filter ts'_def n_def)
  moreover have "filter ?m ts' = [n]"
    unfolding ts'_def by (rule filter_insert_timeout_only) (simp_all add: m)
  moreover have "filter (\<lambda>x. \<not> ?m x) ts' = filter (\<lambda>x. \<not> ?m x) ts"
    unfolding ts'_def by (simp add: filter_insert_timeout_other m)
  ultimately show ?thesis
    by (auto simp: n_def)
qed

lemma retime_not_needed:
  assumes "filter (timeout_match h (Ctx ed) (Ctx ud)) ts = [t]"
    and "\<not> needed \<lparr>t_sec = sint secs, t_usec = sint usecs\<rparr> (os_reltime_sub (to_time t) now)"
  shows "retime needed True now (Some now) secs usecs h ed ud ts = (0, ts)"
  using assms(2) by (simp add: retime_def find_timeout_find find_single[OF assms(1)])

text \<open>A request and a pending timeout for which no difference wraps around.\<close>

definition movable :: "os_reltime \<Rightarrow> u32 \<Rightarrow> u32 \<Rightarrow> os_reltime \<Rightarrow> bool" where
  "movable now secs usecs t \<longleftrightarrow>
     in_range now secs usecs \<and> uint usecs < 1000000 \<and> uint secs \<le> 2147483647 \<and>
     normal_time t \<and> \<bar>t_sec t - t_sec now\<bar> < 2147483647"

text \<open>
  Moving the only timeout of a handler and its contexts: with \<open>eloop_deplete_timeout\<close> it is
  due after the shorter of the requested and the remaining time, with
  \<open>eloop_replenish_timeout\<close> after the longer; all other timeouts stay as they are, in their order.
\<close>

theorem retimed_to_min_and_max:
  assumes "filter (timeout_match h (Ctx ed) (Ctx ud)) ts = [t]" "movable now secs usecs (to_time t)"
  shows "\<exists>r r' ts1 ts2 t1 t2.
           eloop_deplete_timeout True now (Some now) secs usecs h ed ud ts = (r, ts1) \<and>
           filter (timeout_match h (Ctx ed) (Ctx ud)) ts1 = [t1] \<and>
           usecs_of (to_time t1) = min (usecs_of now + delay secs usecs) (usecs_of (to_time t)) \<and>
           filter (\<lambda>x. \<not> timeout_match h (Ctx ed) (Ctx ud) x) ts1 = filter (\<lambda>x. \<not> timeout_match h (Ctx ed) (Ctx ud) x) ts \<and>
           eloop_replenish_timeout True now (Some now) secs usecs h ed ud ts = (r', ts2) \<and>
           filter (timeout_match h (Ctx ed) (Ctx ud)) ts2 = [t2] \<and>
           usecs_of (to_time t2) = max (usecs_of now + delay secs usecs) (usecs_of (to_time t)) \<and>
           filter (\<lambda>x. \<not> timeout_match h (Ctx ed) (Ctx ud) x) ts2 = filter (\<lambda>x. \<not> timeout_match h (Ctx ed) (Ctx ud) x) ts"
proof -
  let ?m = "timeout_match h (Ctx ed) (Ctx ud)"
  let ?req = "\<lparr>t_sec = sint secs, t_usec = sint usecs\<rparr>"
  let ?rem = "os_reltime_sub (to_time t) now"
  have r: "in_range now secs usecs" "uint usecs < 1000000" "uint secs \<le> 2147483647" "normal_time (to_time t)"
    "normal_time now" "\<bar>t_sec (to_time t) - t_sec now\<bar> < 2147483647"
    using assms(2) by (simp_all add: movable_def in_range_def)
  have rem: "normal_time ?rem" "usecs_of ?rem = usecs_of (to_time t) - usecs_of now"
    using os_reltime_sub_correct[OF r(4,5,6)] by simp_all
  have before: "os_reltime_before ?req ?rem \<longleftrightarrow> usecs_of now + delay secs usecs < usecs_of (to_time t)"
    "os_reltime_before ?rem ?req \<longleftrightarrow> usecs_of (to_time t) < usecs_of now + delay secs usecs"
    using requested_before_iff[OF r(1-3) rem(1)] rem(2) by auto
  have moved: "\<exists>i ts' t'. retime needed True now (Some now) secs usecs h ed ud ts = (i, ts') \<and> filter ?m ts' = [t'] \<and>
      usecs_of (to_time t') = (if needed ?req ?rem then usecs_of now + delay secs usecs else usecs_of (to_time t)) \<and>
      filter (\<lambda>x. \<not> ?m x) ts' = filter (\<lambda>x. \<not> ?m x) ts" for needed
  proof (cases "needed ?req ?rem")
    case True
    show ?thesis
      using retime_single[OF assms(1) r(1), of needed] True new_timeout_time(2)[OF r(1), of h ed ud] by auto
  next
    case False
    then show ?thesis
      using retime_not_needed[OF assms(1), of needed] assms(1) by auto
  qed
  show ?thesis
    using moved[of "\<lambda>q m. os_reltime_before q m"] moved[of "\<lambda>q m. os_reltime_before m q"]
    unfolding eloop_deplete_timeout_def eloop_replenish_timeout_def before
    by (elim exE conjE) (intro exI conjI, assumption, assumption, simp, assumption, assumption, assumption, simp, assumption)
qed

lemma wit_timeouts_single:
  "filter (timeout_match 7 (Ctx 0) (Ctx 2)) wit_timeouts =
     [\<lparr>to_time = \<lparr>t_sec = 9, t_usec = 0\<rparr>, to_eloop_data = 0, to_user_data = 2, to_handler = 7\<rparr>]"
  by (simp add: wit_timeouts_def timeout_match_def ctx_match_def)

theorem retimed_to_min_and_max_witness:
  "\<exists>r r' ts1 ts2 t1 t2.
     eloop_deplete_timeout True \<lparr>t_sec = 3, t_usec = 0\<rparr> (Some \<lparr>t_sec = 3, t_usec = 0\<rparr>) 4 0 7 0 2 wit_timeouts = (r, ts1) \<and>
     filter (timeout_match 7 (Ctx 0) (Ctx 2)) ts1 = [t1] \<and> usecs_of (to_time t1) = 7000000 \<and>
     eloop_replenish_timeout True \<lparr>t_sec = 3, t_usec = 0\<rparr> (Some \<lparr>t_sec = 3, t_usec = 0\<rparr>) 4 0 7 0 2 wit_timeouts = (r', ts2) \<and>
     filter (timeout_match 7 (Ctx 0) (Ctx 2)) ts2 = [t2] \<and> usecs_of (to_time t2) = 9000000"
proof -
  have m: "movable \<lparr>t_sec = 3, t_usec = 0\<rparr> 4 0
     (to_time \<lparr>to_time = \<lparr>t_sec = 9, t_usec = 0\<rparr>, to_eloop_data = 0 :: nat, to_user_data = 2 :: nat, to_handler = 7 :: nat\<rparr>)"
    by (simp add: movable_def in_range_def normal_time_def)
  show ?thesis
    using retimed_to_min_and_max[OF wit_timeouts_single m]
    by (elim exE conjE) (intro exI conjI, assumption, assumption, simp add: usecs_of_def delay_def,
      assumption, assumption, simp add: usecs_of_def delay_def)
qed

section \<open>The contract of the timers\<close>

text \<open>
  What the users of the timers rely on: with \<open>armed t k\<close> pending timeouts of the key \<open>k\<close>, a
  registration adds one for its key and a cancellation removes all of its key.
\<close>

locale timer_store =
  fixes reg :: "'k \<Rightarrow> 'a \<Rightarrow> 't \<Rightarrow> 't"
    and cancel :: "'k \<Rightarrow> 't \<Rightarrow> 't"
    and armed :: "'t \<Rightarrow> 'k \<Rightarrow> nat"
    and ok :: "'a \<Rightarrow> bool"
  assumes armed_reg: "ok a \<Longrightarrow> armed (reg k a t) j = armed t j + (if j = k then 1 else 0)"
    and armed_cancel: "armed (cancel k t) j = (if j = k then 0 else armed t j)"
begin

lemma armed_rearm: "ok a \<Longrightarrow> armed (reg k a (cancel k t)) j = (if j = k then 1 else armed t j)"
  by (simp add: armed_reg armed_cancel)

lemma armed_cancel_all: "armed (fold cancel ks t) j = (if j \<in> set ks then 0 else armed t j)"
  by (induction ks arbitrary: t) (auto simp: armed_cancel)

end

datatype ('k, 'a, 'b) timer_op = Arm 'k 'a 'b | Disarm 'k

fun timer_step :: "('k \<Rightarrow> 'x \<Rightarrow> 't \<Rightarrow> 't) \<Rightarrow> ('k \<Rightarrow> 't \<Rightarrow> 't) \<Rightarrow> ('a \<Rightarrow> 'b \<Rightarrow> 'x) \<Rightarrow> ('k, 'a, 'b) timer_op \<Rightarrow> 't \<Rightarrow> 't" where
  "timer_step reg cancel arg (Arm k a b) t = reg k (arg a b) t"
| "timer_step reg cancel arg (Disarm k) t = cancel k t"

fun op_ok :: "('b \<Rightarrow> bool) \<Rightarrow> ('k, 'a, 'b) timer_op \<Rightarrow> bool" where
  "op_ok ok (Arm k a b) = ok b"
| "op_ok ok (Disarm k) = True"

text \<open>Two stores that keep the contract stay in step under the same operations.\<close>

locale timer_refinement =
  a: timer_store areg acancel aarmed "\<lambda>_. True" + c: timer_store creg ccancel carmed cok
  for areg :: "'k \<Rightarrow> 'a \<Rightarrow> 's \<Rightarrow> 's" and acancel :: "'k \<Rightarrow> 's \<Rightarrow> 's" and aarmed :: "'s \<Rightarrow> 'k \<Rightarrow> nat"
    and creg :: "'k \<Rightarrow> 'b \<Rightarrow> 't \<Rightarrow> 't" and ccancel :: "'k \<Rightarrow> 't \<Rightarrow> 't" and carmed :: "'t \<Rightarrow> 'k \<Rightarrow> nat"
    and cok :: "'b \<Rightarrow> bool"
begin

lemma steps_agree:
  "\<forall>k. aarmed s k = carmed t k \<Longrightarrow> \<forall>p \<in> set ops. op_ok cok p \<Longrightarrow>
   aarmed (fold (timer_step areg acancel (\<lambda>x y. x)) ops s) k = carmed (fold (timer_step creg ccancel (\<lambda>x y. y)) ops t) k"
proof (induction ops arbitrary: s t)
  case (Cons p ops)
  have "\<forall>k. aarmed (timer_step areg acancel (\<lambda>x y. x) p s) k = carmed (timer_step creg ccancel (\<lambda>x y. y) p t) k"
    using Cons.prems by (cases p) (simp_all add: a.armed_reg a.armed_cancel c.armed_reg c.armed_cancel)
  then show ?case
    using Cons by simp
qed simp

end

lemma match_other:
  "timeout_match k (Ctx ed) (Ctx ud) t \<Longrightarrow> timeout_match k' (Ctx ed') (Ctx ud') t \<longleftrightarrow> k' = k \<and> ed' = ed \<and> ud' = ud"
  by (auto simp: timeout_match_def ctx_match_def)

lemma length_filter_insert_timeout:
  "length (filter P (insert_timeout t ts)) = length (filter P ts) + (if P t then 1 else 0)"
  by (induction ts) auto

text \<open>The list of the event loop, for timeouts of whole seconds with the context \<open>d\<close>.\<close>

definition loop_arm :: "'d \<Rightarrow> 'h \<times> 'd \<Rightarrow> os_reltime \<times> u32 \<Rightarrow> ('h, 'd) eloop_timeout list \<Rightarrow> ('h, 'd) eloop_timeout list" where
  "loop_arm d k a ts = snd (eloop_register_timeout True (Some (fst a)) (snd a) 0 (fst k) d (snd k) ts)"

definition loop_disarm :: "'d \<Rightarrow> 'h \<times> 'd \<Rightarrow> ('h, 'd) eloop_timeout list \<Rightarrow> ('h, 'd) eloop_timeout list" where
  "loop_disarm d k ts = snd (eloop_cancel_timeout (fst k) (Ctx d) (Ctx (snd k)) ts)"

definition loop_armed :: "'d \<Rightarrow> ('h, 'd) eloop_timeout list \<Rightarrow> 'h \<times> 'd \<Rightarrow> nat" where
  "loop_armed d ts k = length (filter (timeout_match (fst k) (Ctx d) (Ctx (snd k))) ts)"

definition loop_ok :: "os_reltime \<times> u32 \<Rightarrow> bool" where
  "loop_ok a \<longleftrightarrow> register_ok True (Some (fst a)) (snd a)"

interpretation el: timer_store "loop_arm d" "loop_disarm d" "loop_armed d" loop_ok for d
proof
  fix a and k j :: "'b \<times> 'a" and ts
  assume ok: "loop_ok a"
  obtain h m h' m' where k: "k = (h, m)" "j = (h', m')"
    by (metis surj_pair)
  show "loop_armed d (loop_arm d k a ts) j = loop_armed d ts j + (if j = k then 1 else 0)"
    using ok match_other[OF new_timeout_match[of h d m "fst a" "snd a" 0], of h' d m']
    by (auto simp: k loop_armed_def loop_arm_def loop_ok_def eloop_register_timeout_ok length_filter_insert_timeout)
next
  fix k j :: "'b \<times> 'a" and ts
  obtain h m h' m' where k: "k = (h, m)" "j = (h', m')"
    by (metis surj_pair)
  have "length (filter (timeout_match h' (Ctx d) (Ctx m')) (filter (\<lambda>t. \<not> timeout_match h (Ctx d) (Ctx m) t) ts)) =
      (if h' = h \<and> m' = m then 0 else length (filter (timeout_match h' (Ctx d) (Ctx m')) ts))"
    by (auto simp: filter_empty_conv match_other intro!: arg_cong[of _ _ length] filter_cong)
  then show "loop_armed d (loop_disarm d k ts) j = (if j = k then 0 else loop_armed d ts j)"
    by (auto simp: k loop_armed_def loop_disarm_def eloop_cancel_timeout_filter)
qed

end
