(* ===== verification/EloopRun.thy ===== *)
theory EloopRun
  imports EloopTimers
begin

text \<open>
  The loop itself: its invariant and that every operation keeps it, the contract
  \<open>loop_handlers\<close> of the handlers under which the loop never fails, and that the timeouts that
  are due are called in the order of their times, none early and none forgotten.
\<close>

section \<open>The invariant\<close>

lemma get_set_table [simp]:
  "get_table ty (set_table ty t e) = t" "ty \<noteq> ty' \<Longrightarrow> get_table ty (set_table ty' t e) = get_table ty e"
  by (cases ty; cases ty'; simp add: get_table_def set_table_def)+

lemma set_table_simps [simp]:
  "timeouts (set_table ty t e) = timeouts e" "signals (set_table ty t e) = signals e"
  "signaled (set_table ty t e) = signaled e" "terminate (set_table ty t e) = terminate e"
  "max_sock (set_table ty t e) = max_sock e" "el_count (set_table ty t e) = el_count e"
  "pending_terminate (set_table ty t e) = pending_terminate e"
  by (cases ty; simp add: set_table_def)+

lemma get_table_update [simp]:
  "get_table ty (e\<lparr>timeouts := ts\<rparr>) = get_table ty e" "get_table ty (e\<lparr>signals := gs\<rparr>) = get_table ty e"
  "get_table ty (e\<lparr>signaled := n\<rparr>) = get_table ty e" "get_table ty (e\<lparr>terminate := b\<rparr>) = get_table ty e"
  "get_table ty (e\<lparr>pending_terminate := b\<rparr>) = get_table ty e" "get_table ty (e\<lparr>max_sock := n\<rparr>) = get_table ty e"
  "get_table ty (e\<lparr>el_count := n\<rparr>) = get_table ty e"
  by (cases ty; simp add: get_table_def)+

definition socks :: "eloop_event_type \<Rightarrow> ('h, 'd) eloop_data \<Rightarrow> ('h, 'd) eloop_sock list" where
  "socks ty e = sk_table (get_table ty e)"

definition eloop_inv :: "('h, 'd) eloop_data \<Rightarrow> bool" where
  "eloop_inv e \<longleftrightarrow> timeouts_sorted (timeouts e) \<and>
     el_count e = int (length (socks EVENT_TYPE_READ e) + length (socks EVENT_TYPE_WRITE e) + length (socks EVENT_TYPE_EXCEPTION e)) \<and>
     (\<forall>ty. \<forall>k \<in> set (socks ty e). 0 \<le> sk_sock k \<and> sk_sock k \<le> max_sock e \<and> sk_sock k < FD_SETSIZE)"

lemma eloop_inv_cong:
  "timeouts e' = timeouts e \<Longrightarrow> el_count e' = el_count e \<Longrightarrow> max_sock e' = max_sock e \<Longrightarrow>
   (\<And>ty. socks ty e' = socks ty e) \<Longrightarrow> eloop_inv e' = eloop_inv e"
  by (simp add: eloop_inv_def)

lemma socks_update [simp]:
  "socks ty (e\<lparr>timeouts := ts\<rparr>) = socks ty e" "socks ty (e\<lparr>signals := gs\<rparr>) = socks ty e"
  "socks ty (e\<lparr>signaled := n\<rparr>) = socks ty e" "socks ty (e\<lparr>terminate := b\<rparr>) = socks ty e"
  "socks ty (e\<lparr>pending_terminate := b\<rparr>) = socks ty e" "socks ty (e\<lparr>max_sock := n\<rparr>) = socks ty e"
  "socks ty (e\<lparr>el_count := n\<rparr>) = socks ty e"
  by (simp_all add: socks_def)

lemma socks_set_table: "socks ty (set_table ty' t e) = (if ty = ty' then sk_table t else socks ty e)"
  by (simp add: socks_def)

lemma eloop_inv_init: "eloop_inv eloop_init"
  by (simp add: eloop_inv_def eloop_init_def socks_def get_table_def split: eloop_event_type.split)

lemma eloop_inv_timeouts: "eloop_inv e \<Longrightarrow> timeouts_sorted ts \<Longrightarrow> eloop_inv (e\<lparr>timeouts := ts\<rparr>)"
  by (simp add: eloop_inv_def)

lemma eloop_inv_register_sock:
  assumes "eloop_inv e" "0 \<le> sock" "sock < FD_SETSIZE" "eloop_register_sock mem sock ty h ed ud e = Inr (r, e')"
  shows "eloop_inv e'"
proof (cases mem)
  case True
  let ?k = "\<lparr>sk_sock = sock, sk_eloop_data = ed, sk_user_data = ud, sk_handler = h\<rparr>"
  have e': "e' = (set_table ty \<lparr>sk_table = socks ty e @ [?k], sk_changed = True\<rparr> e)
      \<lparr>max_sock := max sock (max_sock e), el_count := el_count e + 1\<rparr>"
    using assms(2,4) True by (simp add: eloop_register_sock_def eloop_sock_table_add_sock_def socks_def)
  have "\<forall>k \<in> set (socks ty' e'). 0 \<le> sk_sock k \<and> sk_sock k \<le> max sock (max_sock e) \<and> sk_sock k < FD_SETSIZE" for ty'
    using assms(1-3) unfolding e' by (fastforce simp: eloop_inv_def socks_set_table split: if_splits)
  moreover have "el_count e' = int (length (socks EVENT_TYPE_READ e') + length (socks EVENT_TYPE_WRITE e') +
      length (socks EVENT_TYPE_EXCEPTION e'))"
    using assms(1) unfolding e' by (cases ty) (simp_all add: eloop_inv_def socks_set_table)
  ultimately show ?thesis
    using assms(1) unfolding eloop_inv_def by (simp add: e')
qed (use assms in \<open>simp add: eloop_register_sock_def eloop_sock_table_add_sock_def\<close>)

lemma remove_sock_Some:
  "remove_sock sock ks = Some r \<Longrightarrow> length ks = Suc (length r) \<and> set r \<subseteq> set ks"
  by (induction ks arbitrary: r) (auto split: if_splits option.splits)

lemma eloop_inv_unregister_sock: "eloop_inv e \<Longrightarrow> eloop_inv (eloop_unregister_sock sock ty e)"
proof (cases "remove_sock sock (socks ty e)")
  case (Some r)
  assume inv: "eloop_inv e"
  have r: "length (socks ty e) = Suc (length r)" "set r \<subseteq> set (socks ty e)"
    using remove_sock_Some[OF Some] by simp_all
  have e': "eloop_unregister_sock sock ty e = (set_table ty \<lparr>sk_table = r, sk_changed = True\<rparr> e)\<lparr>el_count := el_count e - 1\<rparr>"
    using Some by (simp add: eloop_unregister_sock_def socks_def)
  have "\<forall>k \<in> set (socks ty' (eloop_unregister_sock sock ty e)). 0 \<le> sk_sock k \<and> sk_sock k \<le> max_sock e \<and> sk_sock k < FD_SETSIZE" for ty'
    using inv r(2) unfolding e' by (auto simp: eloop_inv_def socks_set_table split: if_splits)
  then show ?thesis
    using inv r(1) unfolding e' eloop_inv_def by (cases ty) (simp_all add: socks_set_table)
qed (simp add: eloop_unregister_sock_def socks_def)

lemma eloop_inv_handle_signal: "eloop_inv (eloop_handle_signal sig e) = eloop_inv e"
  by (rule eloop_inv_cong) (simp_all add: eloop_handle_signal_def)

lemma length_mark_signal [simp]: "length (mark_signal sig gs) = length gs"
  by (induction gs) auto

lemma handle_signals_simps [simp]:
  "eloop_inv (fold eloop_handle_signal sigs e) = eloop_inv e" "socks ty (fold eloop_handle_signal sigs e) = socks ty e"
  "timeouts (fold eloop_handle_signal sigs e) = timeouts e" "terminate (fold eloop_handle_signal sigs e) = terminate e"
  "length (signals (fold eloop_handle_signal sigs e)) = length (signals e)"
  "el_count (fold eloop_handle_signal sigs e) = el_count e" "max_sock (fold eloop_handle_signal sigs e) = max_sock e"
  by (induction sigs arbitrary: e) (simp_all add: eloop_inv_handle_signal, simp_all add: eloop_handle_signal_def)

lemma set_fds_ok:
  "\<forall>k \<in> set ks. 0 \<le> sk_sock k \<and> sk_sock k < FD_SETSIZE \<Longrightarrow> set_fds ks = Inr (map sk_sock ks)"
  by (induction ks) auto

lemma fd_sets_ok: "eloop_inv e \<Longrightarrow> fd_sets e = Inr (\<lambda>ty. map sk_sock (socks ty e))"
proof -
  assume "eloop_inv e"
  then have "set_fds (socks ty e) = Inr (map sk_sock (socks ty e))" for ty
    by (intro set_fds_ok) (auto simp: eloop_inv_def)
  from this[of EVENT_TYPE_READ] this[of EVENT_TYPE_WRITE] this[of EVENT_TYPE_EXCEPTION] show ?thesis
    by (auto simp: fd_sets_def eloop_sock_table_set_fds_def socks_def get_table_def fun_eq_iff split: eloop_event_type.split)
qed

section \<open>The contract of the handlers\<close>

text \<open>A handler that adds or removes a socket leaves the mark on the table.\<close>

definition marks_changes :: "('h, 'd) eloop_data \<Rightarrow> ('h, 'd) eloop_data \<Rightarrow> bool" where
  "marks_changes e e' \<longleftrightarrow> (\<forall>ty. sk_changed (get_table ty e') \<or> get_table ty e' = get_table ty e)"

definition same_setup :: "('h, 'd) eloop_data \<Rightarrow> ('h, 'd) eloop_data \<Rightarrow> bool" where
  "same_setup e e' \<longleftrightarrow> timeouts e' = timeouts e \<and> (\<forall>ty. socks ty e' = socks ty e) \<and>
     el_count e' = el_count e \<and> max_sock e' = max_sock e \<and> terminate e' = terminate e"

lemma same_setup_inv: "same_setup e e' \<Longrightarrow> eloop_inv e' = eloop_inv e"
  by (simp add: same_setup_def eloop_inv_def)

text \<open>
  What the loop relies on: called with an entry of the loop, a handler returns, keeps the invariant
  of the loop and the condition \<open>good\<close> that the handlers share, registers no signal and marks the
  tables it changes. \<open>good\<close> is about timeouts and sockets, not about the loop's own marks.
\<close>

locale loop_handlers =
  fixes run :: "('h, 'd, 's) handlers"
    and good :: "('h, 'd) eloop_data \<Rightarrow> 's \<Rightarrow> bool"
  assumes good_cong: "same_setup e e' \<Longrightarrow> good e s \<Longrightarrow> good e' s"
    and timeout_ok: "eloop_inv e \<Longrightarrow> good e s \<Longrightarrow> timeouts e = t # ts \<Longrightarrow>
      \<exists>e' s'. run (TimeoutCall (to_handler t) (to_eloop_data t) (to_user_data t)) (e\<lparr>timeouts := ts\<rparr>, s) = Inr (e', s') \<and>
        eloop_inv e' \<and> good e' s' \<and> length (signals e') = length (signals e)"
    and sock_ok: "eloop_inv e \<Longrightarrow> good e s \<Longrightarrow> k \<in> set (socks ty e) \<Longrightarrow>
      \<exists>e' s'. run (SockCall (sk_handler k) (sk_sock k) (sk_eloop_data k) (sk_user_data k)) (e, s) = Inr (e', s') \<and>
        eloop_inv e' \<and> good e' s' \<and> length (signals e') = length (signals e) \<and> marks_changes e e'"
    and signal_ok: "eloop_inv e \<Longrightarrow> good e s \<Longrightarrow> i < length (signals e) \<Longrightarrow>
      \<exists>e' s'. run (SignalCall (sg_handler (signals e ! i)) (sg_sig (signals e ! i)) (sg_user_data (signals e ! i))) (e, s) = Inr (e', s') \<and>
        eloop_inv e' \<and> good e' s' \<and> length (signals e') = length (signals e)"
begin

definition fine :: "('h, 'd, 's) process \<Rightarrow> bool" where
  "fine p \<longleftrightarrow> eloop_inv (fst p) \<and> good (fst p) (snd p)"

lemma fine_setup: "same_setup e e' \<Longrightarrow> fine (e, s) \<Longrightarrow> fine (e', s)"
  using good_cong[of e e' s] same_setup_inv[of e e'] by (simp add: fine_def)

lemma run_signals_fine:
  "fine (e, s) \<Longrightarrow> length (signals e) \<le> n + i \<Longrightarrow> \<exists>p'. run_signals run n i (e, s) = Inr p' \<and> fine p'"
proof (induction n arbitrary: i e s)
  case 0
  then show ?case
    by (subst run_signals.simps) simp
next
  case (Suc n)
  show ?case
  proof (cases "i < length (signals e) \<and> sg_signaled (signals e ! i) \<noteq> 0")
    case True
    let ?g = "signals e ! i"
    let ?e = "e\<lparr>signals := (signals e)[i := ?g\<lparr>sg_signaled := 0\<rparr>]\<rparr>"
    have f: "fine (?e, s)"
      by (rule fine_setup[OF _ Suc.prems(1)]) (simp add: same_setup_def)
    then obtain e' s' where r: "run (SignalCall (sg_handler ?g) (sg_sig ?g) (sg_user_data ?g)) (?e, s) = Inr (e', s')"
      "eloop_inv e'" "good e' s'" "length (signals e') = length (signals ?e)"
      using signal_ok[of ?e s i] True by (auto simp: fine_def)
    have "\<exists>p'. run_signals run n (i + 1) (e', s') = Inr p' \<and> fine p'"
      using Suc.IH[of e' s' "i + 1"] r Suc.prems(2) by (simp add: fine_def)
    then show ?thesis
      using True r(1) by (subst run_signals.simps) (simp add: Let_def)
  next
    case False
    then show ?thesis
      using Suc by (subst run_signals.simps) (auto simp: Let_def)
  qed
qed

lemma dispatch_from_fine:
  "fine (e, s) \<Longrightarrow> \<not> sk_changed (get_table ty e) \<Longrightarrow> length (socks ty e) \<le> n + i \<Longrightarrow>
   \<exists>p'. dispatch_from run ty ready n i (e, s) = Inr p' \<and> fine p'"
proof (induction n arbitrary: i e s)
  case 0
  then show ?case
    by (subst dispatch_from.simps) (simp add: socks_def Let_def)
next
  case (Suc n)
  show ?case
  proof (cases "i < length (socks ty e) \<and> ready (sk_sock (socks ty e ! i))")
    case True
    let ?k = "socks ty e ! i"
    obtain e' s' where r: "run (SockCall (sk_handler ?k) (sk_sock ?k) (sk_eloop_data ?k) (sk_user_data ?k)) (e, s) = Inr (e', s')"
      "fine (e', s')" "marks_changes e e'"
      using sock_ok[of e s ?k ty] Suc.prems(1) True by (auto simp: fine_def)
    have "\<exists>p'. (if sk_changed (get_table ty e') then Inr (e', s') else dispatch_from run ty ready n (i + 1) (e', s')) = Inr p' \<and> fine p'"
    proof (cases "sk_changed (get_table ty e')")
      case False
      then have "get_table ty e' = get_table ty e"
        using r(3) by (auto simp: marks_changes_def)
      then show ?thesis
        using Suc.IH[of e' s' "i + 1"] r(2) Suc.prems(2,3) False by (simp add: socks_def)
    qed (use r(2) in simp)
    then show ?thesis
      using True r(1) by (subst dispatch_from.simps) (simp add: Let_def socks_def)
  next
    case False
    then show ?thesis
      using Suc by (subst dispatch_from.simps) (auto simp: Let_def socks_def)
  qed
qed

lemma dispatch_fine:
  assumes "fine p"
  shows "\<exists>p'. eloop_sock_table_dispatch run ty ready p = Inr p' \<and> fine p'"
proof -
  let ?e = "set_table ty ((get_table ty (fst p))\<lparr>sk_changed := False\<rparr>) (fst p)"
  have "same_setup (fst p) ?e"
    by (auto simp: same_setup_def socks_set_table) (simp_all add: socks_def)
  then have "fine (?e, snd p)"
    using fine_setup[of "fst p" ?e "snd p"] assms by simp
  then show ?thesis
    unfolding eloop_sock_table_dispatch_def by (rule dispatch_from_fine) (simp_all add: socks_set_table)
qed

lemma dispatch_all_fine: "fine p \<Longrightarrow> \<exists>p'. dispatch_all run ready p = Inr p' \<and> fine p'"
  unfolding dispatch_all_def bind_res_def by (metis (no_types, lifting) dispatch_fine sum.case(2))

lemma fire_fine: "fine p \<Longrightarrow> \<exists>p'. eloop_fire run now p = Inr p' \<and> fine p'"
  using timeout_ok[of "fst p" "snd p"] by (cases p) (auto simp: eloop_fire_def fine_def split: list.split)

lemma signals_fine:
  assumes "fine p"
  shows "\<exists>p'. eloop_process_pending_signals run p = Inr p' \<and> fine p'"
proof (cases "signaled (fst p) = 0")
  case False
  have "fine ((fst p)\<lparr>signaled := 0, pending_terminate := False\<rparr>, snd p)"
    using fine_setup[of "fst p" "(fst p)\<lparr>signaled := 0, pending_terminate := False\<rparr>" "snd p"] assms
    by (simp add: same_setup_def)
  then show ?thesis
    using False run_signals_fine[of _ _ "length (signals (fst p))" 0] by (simp add: eloop_process_pending_signals_def)
qed (use assms in \<open>simp add: eloop_process_pending_signals_def\<close>)

lemma round_fine:
  assumes "fine p"
  shows "\<exists>go p'. eloop_round run re p = Inr (go, p') \<and> fine p'"
proof -
  let ?p = "(fold eloop_handle_signal (re_signals re) (fst p), snd p)"
  have "same_setup (fst p) (fst ?p)"
    by (simp add: same_setup_def)
  then have p: "fine ?p"
    using fine_setup[of "fst p" "fst ?p" "snd p"] assms by simp
  obtain p1 p2 where s: "eloop_process_pending_signals run ?p = Inr p1" "eloop_fire run (re_now re) p1 = Inr p2" "fine p2"
    using signals_fine[OF p] fire_fine by blast
  obtain p3 where d: "dispatch_all run (isset re (\<lambda>ty. map sk_sock (socks ty (fst p)))) p2 = Inr p3" "fine p3"
    using dispatch_all_fine[OF s(3)] by blast
  have "fd_sets (fst p) = Inr (\<lambda>ty. map sk_sock (socks ty (fst p)))"
    using assms by (intro fd_sets_ok) (simp add: fine_def)
  then show ?thesis
    using p s d by (cases p2; cases p3) (auto simp: eloop_round_def Let_def)
qed

end

text \<open>The loop clears \<^verbatim>\<open>terminate\<close> when it ends.\<close>

locale loop_handlers_stop = loop_handlers +
  assumes good_stop: "good e s \<Longrightarrow> good (e\<lparr>terminate := False\<rparr>) s"
begin

lemma run_fine: "fine p \<Longrightarrow> \<exists>p'. eloop_run run rs p = Inr p' \<and> fine p'"
proof (induction rs arbitrary: p)
  case (Cons r rs)
  have "fine ((fst p)\<lparr>terminate := False\<rparr>, snd p)"
    using good_stop Cons.prems eloop_inv_cong[of "(fst p)\<lparr>terminate := False\<rparr>" "fst p"] by (simp add: fine_def)
  moreover obtain go p' where r: "eloop_round run r p = Inr (go, p')" "fine p'"
    using round_fine[OF Cons.prems] by blast
  moreover have "\<exists>q. eloop_run run rs p' = Inr q \<and> fine q"
    by (rule Cons.IH[OF r(2)])
  ultimately show ?case
    by (cases "eloop_running (fst p)"; cases go) simp_all
qed simp

end

section \<open>Timeouts that are due\<close>

definition due :: "os_reltime \<Rightarrow> ('h, 'd) eloop_timeout \<Rightarrow> bool" where
  "due now t \<longleftrightarrow> \<not> os_reltime_before now (to_time t)"

definition call_of :: "('h, 'd) eloop_timeout \<Rightarrow> ('h, 'd) call" where
  "call_of t = TimeoutCall (to_handler t) (to_eloop_data t) (to_user_data t)"

lemma filter_due: "timeouts_sorted ts \<Longrightarrow> filter (due now) ts = takeWhile (due now) ts"
proof (induction ts)
  case (Cons t ts)
  show ?case
  proof (cases "due now t")
    case False
    then have "\<forall>x \<in> set ts. \<not> due now x"
      using Cons.prems os_reltime_not_before_trans[of _ "to_time t" now] by (auto simp: due_def)
    then show ?thesis
      using False by simp
  qed (use Cons in simp)
qed simp

text \<open>A round in which \<^verbatim>\<open>select\<close> times out and no signal arrives.\<close>

definition quiet :: "os_reltime \<Rightarrow> round_env" where
  "quiet now = \<lparr>re_signals = [], re_res = 0, re_fatal = False, re_ready = (\<lambda>_ _. False), re_now = now\<rparr>"

text \<open>
  Handlers that log their calls and whose changes of the loop leave alone what is due by \<open>now\<close>:
  they may register and cancel later timeouts and change the sockets.
\<close>

definition leaves_due :: "os_reltime \<Rightarrow> ('h, 'd, ('h, 'd) call list) handlers \<Rightarrow> bool" where
  "leaves_due now run \<longleftrightarrow> (\<forall>c e s. eloop_inv e \<longrightarrow>
     (\<exists>e'. run c (e, s) = Inr (e', s @ [c]) \<and> eloop_inv e' \<and> signaled e' = signaled e \<and> terminate e' = terminate e \<and>
        filter (due now) (timeouts e') = filter (due now) (timeouts e)))"

lemma quiet_round:
  assumes "eloop_inv e" "signaled e = 0"
  shows "eloop_round run (quiet now) (e, s) = bind_res (eloop_fire run now (e, s)) (\<lambda>p. Inr (True, p))"
  using assms by (simp add: eloop_round_def quiet_def fd_sets_ok eloop_process_pending_signals_def Let_def)

text \<open>
  C20: The loop calls the handler of every timeout that is due, each once and in the order of their
  times, and no other: with the clock at \<open>now\<close>, as many rounds as there are due timeouts are
  enough, and more rounds call no further handler.
\<close>

theorem due_timeouts_fire_in_order:
  assumes "eloop_inv e" "signaled e = 0" "\<not> terminate e" "leaves_due now run"
    and "length (filter (due now) (timeouts e)) \<le> n"
  shows "\<exists>e'. eloop_run run (replicate n (quiet now)) (e, s) =
           Inr (e', s @ map call_of (filter (due now) (timeouts e))) \<and> filter (due now) (timeouts e') = []"
  using assms(1-3,5)
proof (induction n arbitrary: e s)
  case (Suc n)
  have sorted: "timeouts_sorted (timeouts e)"
    using Suc.prems(1) by (simp add: eloop_inv_def)
  show ?case
  proof (cases "\<exists>t ts. timeouts e = t # ts \<and> due now t")
    case True
    then obtain t ts where t: "timeouts e = t # ts" "due now t"
      by blast
    have inv: "eloop_inv (e\<lparr>timeouts := ts\<rparr>)"
      using Suc.prems(1) sorted t(1) by (intro eloop_inv_timeouts) simp_all
    obtain e1 where e1: "run (call_of t) (e\<lparr>timeouts := ts\<rparr>, s) = Inr (e1, s @ [call_of t])" "eloop_inv e1"
      "signaled e1 = 0" "\<not> terminate e1" "filter (due now) (timeouts e1) = filter (due now) ts"
      using assms(4)[unfolded leaves_due_def, rule_format, OF inv, of "call_of t" s] Suc.prems(2,3) by auto
    have fire: "eloop_round run (quiet now) (e, s) = Inr (True, (e1, s @ [call_of t]))"
      using e1(1) t by (simp add: quiet_round[OF Suc.prems(1,2)] eloop_fire_def due_def call_of_def)
    have "eloop_running e"
      using Suc.prems(3) t(1) by (simp add: eloop_running_def)
    moreover obtain e' where "eloop_run run (replicate n (quiet now)) (e1, s @ [call_of t]) =
        Inr (e', (s @ [call_of t]) @ map call_of (filter (due now) ts))" "filter (due now) (timeouts e') = []"
      using Suc.IH[of e1 "s @ [call_of t]"] e1 Suc.prems(4) t by auto
    ultimately show ?thesis
      using fire t by simp
  next
    case False
    then have none: "filter (due now) (timeouts e) = []"
      using filter_due[OF sorted, of now] by (cases "timeouts e") auto
    have "eloop_round run (quiet now) (e, s) = Inr (True, (e, s))"
      using False by (auto simp: quiet_round[OF Suc.prems(1,2)] eloop_fire_def due_def split: list.split)
    then show ?thesis
      using Suc.IH[of e s] Suc.prems none by auto
  qed
qed simp

text \<open>A handler that registers itself again, one second later.\<close>

definition wit_now :: os_reltime where
  "wit_now = \<lparr>t_sec = 10, t_usec = 0\<rparr>"

fun wit_run :: "(nat, nat, (nat, nat) call list) handlers" where
  "wit_run c (e, s) =
     Inr (e\<lparr>timeouts := snd (eloop_register_timeout True (Some wit_now) 1 0 7 0 1 (timeouts e))\<rparr>, s @ [c])"

definition wit_loop :: "(nat, nat) eloop_data" where
  "wit_loop = eloop_init\<lparr>timeouts := wit_timeouts\<rparr>"

lemma wit_run_leaves_due: "leaves_due wit_now wit_run"
proof -
  have ok: "register_ok True (Some wit_now) 1"
    by (simp add: register_ok_def wit_now_def to_int32_id)
  have "in_range wit_now 1 0"
    by (simp add: in_range_def normal_time_def wit_now_def)
  then have "\<not> due wit_now (new_timeout wit_now 1 0 h ed ud)" for h ed ud :: nat
    using new_timeout_time[of wit_now 1 0 h ed ud]
    by (subst due_def) (simp add: os_reltime_before_iff normal_time_def wit_now_def usecs_of_def delay_def)
  then have f: "filter (due wit_now) (insert_timeout (new_timeout wit_now 1 0 h ed ud) ts) = filter (due wit_now) ts"
    for h ed ud :: nat and ts
    by (rule filter_insert_timeout_other)
  show ?thesis
    unfolding leaves_due_def
    by (simp add: eloop_register_timeout_ok[OF ok] f)
      (simp add: eloop_inv_timeouts insert_timeout_sorted eloop_inv_def)
qed

theorem due_timeouts_fire_in_order_witness:
  "\<exists>e'. eloop_run wit_run (replicate 5 (quiet wit_now)) (wit_loop, []) =
     Inr (e', [] @ map call_of (filter (due wit_now) (timeouts wit_loop))) \<and>
     map call_of (filter (due wit_now) (timeouts wit_loop)) = [TimeoutCall 7 0 1, TimeoutCall 7 0 2]"
proof -
  have l: "filter (due wit_now) (timeouts wit_loop) = wit_timeouts"
    by (simp add: due_def wit_loop_def wit_timeouts_def wit_now_def os_reltime_before_def)
  have "eloop_inv wit_loop" "signaled wit_loop = 0" "\<not> terminate wit_loop"
    unfolding wit_loop_def
    by (rule eloop_inv_timeouts[OF eloop_inv_init wit_timeouts_sorted]) (simp_all add: eloop_init_def)
  from due_timeouts_fire_in_order[OF this wit_run_leaves_due, of 5 "[]"] show ?thesis
    unfolding l by (auto simp: wit_timeouts_def call_of_def)
qed

end
