(* ===== verification/StamLoop.thy ===== *)
theory StamLoop
  imports EloopRun StaNotify
begin

text \<open>
  The handlers of \<^verbatim>\<open>hostapd/main.c\<close> on the event loop: the signals that end hostapd, and the
  connection to the station manager, which is attempted every second, watched by a read handler
  and attempted again when it breaks. The station table and the other parts of hostapd run on the
  same loop; their handlers are the argument \<open>other\<close>.
\<close>

section \<open>Handlers\<close>

datatype 'o hostapd_handler =
    HandleTerm
  | HandleDumpState
  | EloopConnectStamgd
  | StamgClientRead
  | Other 'o

text \<open>
  What a call of a handler meets: the clock, memory for a timeout, \<^verbatim>\<open>socket\<close> as a function of
  the descriptors that are in use, the results of the calls in \<^verbatim>\<open>eloop_connect_stamgd\<close>, the
  result of \<^verbatim>\<open>recv\<close> and the unset bytes of a packet. Contexts are numbers; NULL is 0.
\<close>

record handler_env =
  he_now :: "os_reltime option"
  he_mem :: bool
  he_socket :: "int list \<Rightarrow> int"
  he_calls :: stam_env
  he_recv :: int
  he_junk :: sta_updown

record stam_proc =
  sp_master :: fnii_client_master
  sp_ticks :: nat

type_synonym 'o hostapd_loop = "('o hostapd_handler, nat) eloop_data"
type_synonym 'o hostapd_calls = "('o hostapd_handler, nat, stam_proc) handlers"

definition sp_tick :: "stam_proc \<Rightarrow> stam_proc" where
  "sp_tick s = s\<lparr>sp_ticks := sp_ticks s + 1\<rparr>"

text \<open>\<^verbatim>\<open>eloop_register_timeout(1, 0, eloop_connect_stamgd, NULL, NULL)\<close>.\<close>

definition retry_connect :: "handler_env \<Rightarrow> 'o hostapd_loop \<Rightarrow> int \<times> 'o hostapd_loop" where
  "retry_connect he e =
     (let (r, ts) = eloop_register_timeout (he_mem he) (he_now he) 1 0 EloopConnectStamgd 0 0 (timeouts e)
      in (r, e\<lparr>timeouts := ts\<rparr>))"

definition used_socks :: "'o hostapd_loop \<Rightarrow> int list" where
  "used_socks e = map sk_sock (sk_table (readers e) @ sk_table (writers e) @ sk_table (exceptions e))"

definition connect_handler :: "handler_env \<Rightarrow> 'o hostapd_loop \<Rightarrow> stam_proc \<Rightarrow> ('o hostapd_loop \<times> stam_proc) res" where
  "connect_handler he e s =
     bind_res (eloop_connect_stamgd ((he_calls he)\<lparr>se_sock := he_socket he (used_socks e)\<rparr>) (he_junk he) (sp_master s))
       (\<lambda>(c, retry).
          if retry then Inr (snd (retry_connect he e), s\<lparr>sp_master := c\<rparr>)
          else bind_res (eloop_register_read_sock True (cm_sock c) StamgClientRead 0 0 e)
                 (\<lambda>(_, e'). Inr (e', s\<lparr>sp_master := c\<rparr>)))"

definition read_handler ::
  "handler_env \<Rightarrow> int \<Rightarrow> 'o hostapd_loop \<Rightarrow> stam_proc \<Rightarrow> ('o hostapd_loop \<times> stam_proc) res" where
  "read_handler he sock e s =
     (let e1 = eloop_unregister_read_sock sock e;
          (r, e2) = retry_connect he e1
      in case stamg_client_read (he_recv he) (r = 0) of
           None \<Rightarrow> Inl (ExitProcess 0)
         | Some retry \<Rightarrow> Inr (if retry then e2 else e1, s))"

fun hostapd_run :: "'o hostapd_calls \<Rightarrow> (nat \<Rightarrow> handler_env) \<Rightarrow> 'o hostapd_calls" where
  "hostapd_run other env (TimeoutCall EloopConnectStamgd a b) (e, s) = connect_handler (env (sp_ticks s)) e (sp_tick s)"
| "hostapd_run other env (SockCall StamgClientRead sock a b) (e, s) = read_handler (env (sp_ticks s)) sock e (sp_tick s)"
| "hostapd_run other env (SignalCall HandleTerm sig a) (e, s) = Inr (eloop_terminate e, s)"
| "hostapd_run other env (SignalCall HandleDumpState sig a) (e, s) = Inr (e, s)"
| "hostapd_run other env c (e, s) = other c (e, s)"

text \<open>The signals of \<^verbatim>\<open>hostapd_global_init\<close>; \<open>reload\<close> is the handler of SIGHUP.\<close>

definition SIGUSR1 :: int where
  "SIGUSR1 = 16"

definition hostapd_signals :: "'o \<Rightarrow> nat \<Rightarrow> 'o hostapd_loop" where
  "hostapd_signals reload interfaces =
     (let e1 = snd (eloop_register_signal True SIGHUP (Other reload) interfaces eloop_init);
          e2 = snd (eloop_register_signal True SIGUSR1 HandleDumpState interfaces e1)
      in snd (eloop_register_signal_terminate True HandleTerm interfaces e2))"

section \<open>The connection is looked after\<close>

definition connect_timers :: "'o hostapd_loop \<Rightarrow> nat" where
  "connect_timers e = length (filter (\<lambda>t. to_handler t = EloopConnectStamgd) (timeouts e))"

definition watchers :: "eloop_event_type \<Rightarrow> 'o hostapd_loop \<Rightarrow> ('o hostapd_handler, nat) eloop_sock list" where
  "watchers ty e = filter (\<lambda>k. sk_handler k = StamgClientRead) (socks ty e)"

definition watcher :: "fnii_client_master \<Rightarrow> ('o hostapd_handler, nat) eloop_sock" where
  "watcher c = \<lparr>sk_sock = cm_sock c, sk_eloop_data = 0, sk_user_data = 0, sk_handler = StamgClientRead\<rparr>"

text \<open>
  Either the next attempt to connect is pending and nothing is watched, or the connection is up and
  its socket, and no other entry with this number, is watched.
\<close>

definition retrying :: "'o hostapd_loop \<Rightarrow> bool" where
  "retrying e \<longleftrightarrow> connect_timers e = 1 \<and> watchers EVENT_TYPE_READ e = []"

definition watching :: "'o hostapd_loop \<Rightarrow> fnii_client_master \<Rightarrow> bool" where
  "watching e c \<longleftrightarrow> connect_timers e = 0 \<and> cm_ss c \<and> watchers EVENT_TYPE_READ e = [watcher c] \<and>
     filter (\<lambda>k. sk_sock k = cm_sock c) (socks EVENT_TYPE_READ e) = [watcher c]"

definition supervised :: "'o hostapd_loop \<Rightarrow> stam_proc \<Rightarrow> bool" where
  "supervised e s \<longleftrightarrow> watchers EVENT_TYPE_WRITE e = [] \<and> watchers EVENT_TYPE_EXCEPTION e = [] \<and>
     (retrying e \<or> watching e (sp_master s))"

text \<open>
  The environment: memory is not exhausted, the clock does not wrap, \<^verbatim>\<open>socket\<close> returns a
  descriptor below 1024 that is not in use (or fails), the greeting is sent or refused, and the
  station manager sends nothing before it closes the connection.
\<close>

definition env_ok :: "handler_env \<Rightarrow> bool" where
  "env_ok he \<longleftrightarrow> he_mem he \<and> (\<exists>now. he_now he = Some now \<and> in_range now 1 0) \<and>
     (\<forall>used. he_socket he used < FD_SETSIZE \<and> he_socket he used \<notin> {x \<in> set used. 0 \<le> x}) \<and>
     is_ok (send_hostapd_name2stamgd True (se_sends (he_calls he))) \<and> he_recv he \<le> 0"

text \<open>The other handlers keep off the entries of this connection and the registered signals.\<close>

definition keeps_off :: "'o hostapd_loop \<Rightarrow> stam_proc \<Rightarrow> 'o hostapd_loop \<Rightarrow> stam_proc \<Rightarrow> bool" where
  "keeps_off e s e' s' \<longleftrightarrow> eloop_inv e' \<and> signals e' = signals e \<and> marks_changes e e' \<and> (terminate e \<longrightarrow> terminate e') \<and>
     connect_timers e' = connect_timers e \<and> (\<forall>ty. watchers ty e' = watchers ty e) \<and>
     cm_sock (sp_master s') = cm_sock (sp_master s) \<and> cm_ss (sp_master s') = cm_ss (sp_master s) \<and>
     filter (\<lambda>k. sk_sock k = cm_sock (sp_master s)) (socks EVENT_TYPE_READ e') =
     filter (\<lambda>k. sk_sock k = cm_sock (sp_master s)) (socks EVENT_TYPE_READ e)"

definition others_ok :: "'o hostapd_calls \<Rightarrow> bool" where
  "others_ok other \<longleftrightarrow> (\<forall>c e s. eloop_inv e \<longrightarrow> (\<exists>e' s'. other c (e, s) = Inr (e', s') \<and> keeps_off e s e' s'))"

definition managed :: "'o hostapd_calls \<Rightarrow> (nat \<Rightarrow> handler_env) \<Rightarrow> 'o hostapd_loop \<Rightarrow> stam_proc \<Rightarrow> bool" where
  "managed other env e s \<longleftrightarrow> others_ok other \<and> (\<forall>n. env_ok (env n)) \<and> supervised e s"

lemma foldl_keeps: "(\<And>d x. f (g d x) = f d) \<Longrightarrow> f (foldl g c xs) = f c"
  by (induction xs arbitrary: c) simp_all

lemma connect2stamg_success_simps [simp]:
  "cm_sock (connect2stamg_success junk c) = cm_sock c" "cm_ss (connect2stamg_success junk c) = cm_ss c"
  unfolding connect2stamg_success_def
  by (rule foldl_keeps, simp add: case_prod_beta log_ev_def)+

lemma eloop_connect_stamgd_result:
  assumes "is_ok (send_hostapd_name2stamgd True (se_sends ev))"
  shows "\<exists>c' retry. eloop_connect_stamgd ev junk c = Inr (c', retry) \<and>
           (\<not> retry \<longrightarrow> 0 \<le> se_sock ev \<and> cm_sock c' = se_sock ev \<and> cm_ss c')"
proof -
  obtain r b where "send_hostapd_name2stamgd True (se_sends ev) = Inr (r, b)"
    using assms by (cases "send_hostapd_name2stamgd True (se_sends ev)") auto
  then show ?thesis
    by (cases "se_sock ev < 0 \<or> \<not> se_fcntl_ok ev \<or> \<not> se_connect_ok ev"; cases "r \<le> 0 \<or> \<not> se_register_ok ev")
      (simp_all add: eloop_connect_stamgd_def Let_def, blast+)
qed

lemma retry_connect_ok:
  assumes "env_ok he"
  obtains t where "retry_connect he e = (0, e\<lparr>timeouts := insert_timeout t (timeouts e)\<rparr>)" "to_handler t = EloopConnectStamgd"
proof -
  obtain now where n: "he_now he = Some now" "in_range now 1 0" "he_mem he"
    using assms by (auto simp: env_ok_def)
  have "retry_connect he e = (0, e\<lparr>timeouts := insert_timeout (new_timeout now 1 0 EloopConnectStamgd 0 0) (timeouts e)\<rparr>)"
    using in_range_register_ok[OF n(2)] by (simp add: retry_connect_def n eloop_register_timeout_ok)
  then show ?thesis
    by (rule that) (simp add: new_timeout_def)
qed

lemma connect_timers_insert [simp]:
  "connect_timers (e\<lparr>timeouts := insert_timeout t ts\<rparr>) =
     connect_timers (e\<lparr>timeouts := ts\<rparr>) + (if to_handler t = EloopConnectStamgd then 1 else 0)"
  by (simp add: connect_timers_def length_filter_insert_timeout)

lemma watchers_timeouts [simp]: "watchers ty (e\<lparr>timeouts := ts\<rparr>) = watchers ty e"
  by (simp add: watchers_def)

lemma connect_timers_same [simp]: "connect_timers (e\<lparr>timeouts := timeouts e\<rparr>) = connect_timers e"
  by (simp add: connect_timers_def)

lemma used_socks_set: "set (used_socks e) = sk_sock ` (set (socks EVENT_TYPE_READ e) \<union> set (socks EVENT_TYPE_WRITE e) \<union> set (socks EVENT_TYPE_EXCEPTION e))"
  by (auto simp: used_socks_def socks_def get_table_def)

lemma marks_changes_timeouts: "marks_changes e (e\<lparr>timeouts := ts\<rparr>)"
  by (simp add: marks_changes_def)

text \<open>An attempt to connect leaves either the next attempt or the watched connection.\<close>

lemma connect_handler_ok:
  assumes "eloop_inv e" "env_ok he" "connect_timers e = 0" "\<forall>ty. watchers ty e = []"
  shows "\<exists>e' s'. connect_handler he e s = Inr (e', s') \<and> eloop_inv e' \<and> supervised e' s' \<and> signals e' = signals e \<and> terminate e' = terminate e"
proof -
  let ?ev = "(he_calls he)\<lparr>se_sock := he_socket he (used_socks e)\<rparr>"
  obtain c retry where c: "eloop_connect_stamgd ?ev (he_junk he) (sp_master s) = Inr (c, retry)"
    "\<not> retry \<longrightarrow> 0 \<le> se_sock ?ev \<and> cm_sock c = se_sock ?ev \<and> cm_ss c"
    using eloop_connect_stamgd_result[of ?ev "he_junk he" "sp_master s"] assms(2) by (auto simp: env_ok_def)
  show ?thesis
  proof (cases retry)
    case True
    obtain t where t: "retry_connect he e = (0, e\<lparr>timeouts := insert_timeout t (timeouts e)\<rparr>)" "to_handler t = EloopConnectStamgd"
      by (rule retry_connect_ok[OF assms(2)])
    have "eloop_inv (e\<lparr>timeouts := insert_timeout t (timeouts e)\<rparr>)"
      using assms(1) by (intro eloop_inv_timeouts) (simp_all add: eloop_inv_def insert_timeout_sorted)
    then show ?thesis
      using c(1) True t assms(3,4) by (simp add: connect_handler_def supervised_def retrying_def)
  next
    case False
    then have sock: "0 \<le> cm_sock c" "cm_sock c < FD_SETSIZE" "cm_sock c \<notin> set (used_socks e)" "cm_ss c"
      using c(2) assms(2) by (auto simp: env_ok_def)
    obtain r e' where r: "eloop_register_sock True (cm_sock c) EVENT_TYPE_READ StamgClientRead 0 0 e = Inr (r, e')"
      using sock(1) by (simp add: eloop_register_sock_def eloop_sock_table_add_sock_def)
    have s': "socks EVENT_TYPE_READ e' = socks EVENT_TYPE_READ e @ [watcher c]" "timeouts e' = timeouts e"
      "signals e' = signals e" "terminate e' = terminate e" "socks EVENT_TYPE_WRITE e' = socks EVENT_TYPE_WRITE e"
      "socks EVENT_TYPE_EXCEPTION e' = socks EVENT_TYPE_EXCEPTION e"
      using r sock(1) by (auto simp: eloop_register_sock_def eloop_sock_table_add_sock_def socks_def watcher_def)
    have "sk_sock k \<noteq> cm_sock c" if "k \<in> set (socks EVENT_TYPE_READ e)" for k
      using sock(3) imageI[OF that, of sk_sock] by (auto simp: used_socks_set image_Un)
    then have "filter (\<lambda>k. sk_sock k = cm_sock c) (socks EVENT_TYPE_READ e) = []"
      by (intro filter_False ballI)
    then have "watching e' c"
      using s' assms(3,4) sock(4) by (simp add: watching_def connect_timers_def watchers_def) (simp add: watcher_def)
    moreover have "eloop_inv e'"
      by (rule eloop_inv_register_sock[OF assms(1) sock(1,2) r])
    ultimately show ?thesis
      using c(1) False r s' assms(4) by (simp add: connect_handler_def eloop_register_read_sock_def supervised_def watchers_def)
  qed
qed

lemma remove_sock_filter:
  "filter (\<lambda>k. sk_sock k = sock) ks = [w] \<Longrightarrow> remove_sock sock ks = Some (filter (\<lambda>k. sk_sock k \<noteq> sock) ks)"
  by (induction ks) (auto split: if_splits simp: filter_empty_conv intro!: filter_True[symmetric])

text \<open>When the connection breaks, the watcher gives way to the next attempt.\<close>

lemma unregister_watcher:
  assumes "supervised e s" "watching e (sp_master s)"
  shows "connect_timers (eloop_unregister_sock (cm_sock (sp_master s)) EVENT_TYPE_READ e) = 0"
    and "watchers ty (eloop_unregister_sock (cm_sock (sp_master s)) EVENT_TYPE_READ e) = []"
    and "signals (eloop_unregister_sock (cm_sock (sp_master s)) EVENT_TYPE_READ e) = signals e"
    and "terminate (eloop_unregister_sock (cm_sock (sp_master s)) EVENT_TYPE_READ e) = terminate e"
    and "marks_changes e (eloop_unregister_sock (cm_sock (sp_master s)) EVENT_TYPE_READ e)"
proof -
  let ?m = "sp_master s" and ?e = "eloop_unregister_sock (cm_sock (sp_master s)) EVENT_TYPE_READ e"
  let ?ks = "filter (\<lambda>k. sk_sock k \<noteq> cm_sock ?m) (socks EVENT_TYPE_READ e)"
  have w: "filter (\<lambda>k. sk_sock k = cm_sock ?m) (socks EVENT_TYPE_READ e) = [watcher ?m]" "connect_timers e = 0"
    "watchers EVENT_TYPE_READ e = [watcher ?m]"
    using assms(2) by (simp_all add: watching_def)
  have e: "?e = (set_table EVENT_TYPE_READ \<lparr>sk_table = ?ks, sk_changed = True\<rparr> e)\<lparr>el_count := el_count e - 1\<rparr>"
    using remove_sock_filter[OF w(1)] by (simp add: eloop_unregister_sock_def socks_def)
  have m: "sk_sock k = cm_sock ?m" if "k \<in> set (socks EVENT_TYPE_READ e)" "sk_handler k = StamgClientRead" for k
  proof -
    have "k \<in> set (watchers EVENT_TYPE_READ e)"
      using that by (simp add: watchers_def)
    then show ?thesis
      by (simp add: w(3) watcher_def)
  qed
  have "filter (\<lambda>k. sk_handler k = StamgClientRead) ?ks = []"
    using m by (auto simp: filter_empty_conv)
  then show "watchers ty ?e = []"
    using assms(1) unfolding watchers_def e supervised_def by (cases ty) (simp_all add: socks_set_table)
  show "connect_timers ?e = 0" "signals ?e = signals e" "terminate ?e = terminate e"
    using w(2) unfolding connect_timers_def e by simp_all
  have "sk_changed (get_table ty ?e) \<or> get_table ty ?e = get_table ty e" for ty
    unfolding e by (cases "ty = EVENT_TYPE_READ") simp_all
  then show "marks_changes e ?e"
    by (simp add: marks_changes_def)
qed

lemma read_handler_ok:
  assumes "eloop_inv e" "env_ok he" "supervised e s" "watching e (sp_master s)"
  shows "\<exists>e' s'. read_handler he (cm_sock (sp_master s)) e s = Inr (e', s') \<and> eloop_inv e' \<and> supervised e' s' \<and>
           signals e' = signals e \<and> terminate e' = terminate e \<and> marks_changes e e'"
proof -
  let ?e = "eloop_unregister_sock (cm_sock (sp_master s)) EVENT_TYPE_READ e"
  note u = unregister_watcher[OF assms(3,4)]
  obtain t where t: "retry_connect he ?e = (0, ?e\<lparr>timeouts := insert_timeout t (timeouts ?e)\<rparr>)" "to_handler t = EloopConnectStamgd"
    by (rule retry_connect_ok[OF assms(2)])
  define e' where "e' = ?e\<lparr>timeouts := insert_timeout t (timeouts ?e)\<rparr>"
  have "he_recv he \<le> 0"
    using assms(2) by (simp add: env_ok_def)
  then have "read_handler he (cm_sock (sp_master s)) e s = Inr (e', s)"
    unfolding read_handler_def eloop_unregister_read_sock_def Let_def t(1) stamg_client_read_def e'_def by simp
  moreover have "eloop_inv e'"
    using eloop_inv_unregister_sock[OF assms(1), of "cm_sock (sp_master s)" EVENT_TYPE_READ]
    unfolding e'_def by (intro eloop_inv_timeouts) (simp_all add: eloop_inv_def insert_timeout_sorted)
  moreover have "supervised e' s"
    using u(1,2) t(2) by (simp add: e'_def supervised_def retrying_def)
  moreover have "marks_changes e e'"
    using u(5) by (simp add: e'_def marks_changes_def)
  ultimately show ?thesis
    using u(3,4) by (simp add: e'_def)
qed

section \<open>The handlers keep the contract of the loop\<close>

lemma supervised_cong:
  "same_setup e e' \<Longrightarrow> supervised e s \<Longrightarrow> supervised e' s"
  by (simp add: same_setup_def supervised_def retrying_def watching_def connect_timers_def watchers_def)

lemma keeps_off_supervised: "keeps_off e s e' s' \<Longrightarrow> supervised e s \<Longrightarrow> supervised e' s'"
  by (auto simp: keeps_off_def supervised_def retrying_def watching_def watcher_def)

lemma hostapd_run_other:
  assumes "others_ok other" "eloop_inv e" "supervised e s" "hostapd_run other env c (e, s) = other c (e, s)"
  shows "\<exists>e' s'. hostapd_run other env c (e, s) = Inr (e', s') \<and> keeps_off e s e' s' \<and> supervised e' s'"
proof -
  obtain e' s' where "other c (e, s) = Inr (e', s')" "keeps_off e s e' s'"
    using assms(1,2) unfolding others_ok_def by blast
  then show ?thesis
    using keeps_off_supervised[of e s e' s'] assms(3,4) by simp
qed

lemma managed_timeout:
  assumes "eloop_inv e" "managed other env e s" "timeouts e = t # ts"
  shows "\<exists>e' s'. hostapd_run other env (TimeoutCall (to_handler t) (to_eloop_data t) (to_user_data t)) (e\<lparr>timeouts := ts\<rparr>, s) =
     Inr (e', s') \<and> eloop_inv e' \<and> managed other env e' s' \<and> signals e' = signals e \<and> (terminate e \<longrightarrow> terminate e')"
proof -
  let ?e = "e\<lparr>timeouts := ts\<rparr>"
  have m: "others_ok other" "\<And>n. env_ok (env n)" "supervised e s"
    using assms(2) by (simp_all add: managed_def)
  have inv: "eloop_inv ?e"
    using assms(1,3) by (intro eloop_inv_timeouts) (simp_all add: eloop_inv_def)
  have ct: "connect_timers e = (if to_handler t = EloopConnectStamgd then 1 else 0) + connect_timers ?e"
    by (simp add: connect_timers_def assms(3))
  show ?thesis
  proof (cases "to_handler t = EloopConnectStamgd")
    case True
    then have r: "retrying e" "connect_timers ?e = 0"
      using m(3) ct by (auto simp: supervised_def retrying_def watching_def)
    have "\<forall>ty. watchers ty ?e = []"
      using m(3) r(1) by (auto simp: supervised_def retrying_def intro: eloop_event_type.exhaust)
        (metis eloop_event_type.exhaust)
    from connect_handler_ok[OF inv m(2) r(2) this, of "sp_ticks s" "sp_tick s"] show ?thesis
      using True m(1,2) by (auto simp: managed_def)
  next
    case False
    have "supervised ?e s"
      using m(3) ct False by (simp add: supervised_def retrying_def watching_def)
    moreover have "hostapd_run other env (TimeoutCall (to_handler t) (to_eloop_data t) (to_user_data t)) (?e, s) =
        other (TimeoutCall (to_handler t) (to_eloop_data t) (to_user_data t)) (?e, s)"
      using False by (cases "to_handler t") simp_all
    ultimately obtain e' s' where "hostapd_run other env (TimeoutCall (to_handler t) (to_eloop_data t) (to_user_data t)) (?e, s) = Inr (e', s')"
      "keeps_off ?e s e' s'" "supervised e' s'"
      using hostapd_run_other[OF m(1) inv, of s env] by blast
    then show ?thesis
      using m(1,2) by (auto simp: managed_def keeps_off_def)
  qed
qed

lemma managed_sock:
  assumes "eloop_inv e" "managed other env e s" "k \<in> set (socks ty e)"
  shows "\<exists>e' s'. hostapd_run other env (SockCall (sk_handler k) (sk_sock k) (sk_eloop_data k) (sk_user_data k)) (e, s) =
     Inr (e', s') \<and> eloop_inv e' \<and> managed other env e' s' \<and> signals e' = signals e \<and> (terminate e \<longrightarrow> terminate e') \<and> marks_changes e e'"
proof -
  have m: "others_ok other" "\<And>n. env_ok (env n)" "supervised e s"
    using assms(2) by (simp_all add: managed_def)
  show ?thesis
  proof (cases "sk_handler k = StamgClientRead")
    case True
    then have w: "k \<in> set (watchers ty e)"
      using assms(3) by (simp add: watchers_def)
    then have ty: "ty = EVENT_TYPE_READ"
      using m(3) by (cases ty) (simp_all add: supervised_def)
    then have wt: "watching e (sp_master s)" "k = watcher (sp_master s)"
      using w m(3) by (auto simp: supervised_def retrying_def watching_def)
    have "supervised e (sp_tick s)" "watching e (sp_master (sp_tick s))"
      using m(3) wt(1) by (simp_all add: supervised_def sp_tick_def)
    from read_handler_ok[OF assms(1) m(2) this, of "sp_ticks s"] show ?thesis
      using True m(1,2) wt(2) by (auto simp: managed_def watcher_def sp_tick_def)
  next
    case False
    have "hostapd_run other env (SockCall (sk_handler k) (sk_sock k) (sk_eloop_data k) (sk_user_data k)) (e, s) =
        other (SockCall (sk_handler k) (sk_sock k) (sk_eloop_data k) (sk_user_data k)) (e, s)"
      using False by (cases "sk_handler k") simp_all
    then obtain e' s' where "hostapd_run other env (SockCall (sk_handler k) (sk_sock k) (sk_eloop_data k) (sk_user_data k)) (e, s) = Inr (e', s')"
      "keeps_off e s e' s'" "supervised e' s'"
      using hostapd_run_other[OF m(1) assms(1) m(3), of env] by blast
    then show ?thesis
      using m(1,2) by (auto simp: managed_def keeps_off_def)
  qed
qed

lemma managed_signal:
  assumes "eloop_inv e" "managed other env e s"
  shows "\<exists>e' s'. hostapd_run other env (SignalCall h sig d) (e, s) = Inr (e', s') \<and> eloop_inv e' \<and>
     managed other env e' s' \<and> signals e' = signals e \<and> (terminate e \<or> h = HandleTerm \<longrightarrow> terminate e')"
proof -
  have m: "others_ok other" "\<And>n. env_ok (env n)" "supervised e s"
    using assms(2) by (simp_all add: managed_def)
  have "supervised (eloop_terminate e) s" "eloop_inv (eloop_terminate e) = eloop_inv e"
    using m(3) eloop_inv_cong[of "eloop_terminate e" e]
    by (simp_all add: supervised_def retrying_def watching_def connect_timers_def watchers_def eloop_terminate_def)
  then have tm: "eloop_inv (eloop_terminate e)" "managed other env (eloop_terminate e) s"
    using assms m by (simp_all add: managed_def)
  show ?thesis
  proof (cases "h = HandleTerm \<or> h = HandleDumpState")
    case True
    then show ?thesis
      using tm assms by (auto simp: eloop_terminate_def)
  next
    case False
    then have "hostapd_run other env (SignalCall h sig d) (e, s) = other (SignalCall h sig d) (e, s)"
      by (cases h) simp_all
    then obtain e' s' where "hostapd_run other env (SignalCall h sig d) (e, s) = Inr (e', s')" "keeps_off e s e' s'" "supervised e' s'"
      using hostapd_run_other[OF m(1) assms(1) m(3), of env] by blast
    then show ?thesis
      using m(1,2) False by (auto simp: managed_def keeps_off_def)
  qed
qed

lemmas managed_calls = managed_timeout managed_sock managed_signal

lemma managed_setup: "same_setup e e' \<Longrightarrow> managed other env e s \<Longrightarrow> managed other env e' s"
  using supervised_cong[of e e' s] by (simp add: managed_def)

interpretation hl: loop_handlers_stop "hostapd_run other env" "managed other env" for other env
proof
  fix e e' :: "'a hostapd_loop" and s
  show "same_setup e e' \<Longrightarrow> managed other env e s \<Longrightarrow> managed other env e' s"
    by (rule managed_setup)
  show "managed other env e s \<Longrightarrow> managed other env (e\<lparr>terminate := False\<rparr>) s"
    by (simp add: managed_def supervised_def retrying_def watching_def connect_timers_def watchers_def)
qed (metis managed_timeout, metis managed_sock, metis managed_signal)

interpretation tm: loop_handlers "hostapd_run other env" "\<lambda>e s. managed other env e s \<and> terminate e" for other env
proof
  fix e e' :: "'a hostapd_loop" and s
  assume "same_setup e e'" "managed other env e s \<and> terminate e"
  then show "managed other env e' s \<and> terminate e'"
    using managed_setup[of e e' other env s] by (simp add: same_setup_def)
qed (metis managed_timeout, metis managed_sock, metis managed_signal)


section \<open>Signals that end hostapd\<close>

lemma run_signals_terminate:
  assumes "hl.fine other env (e, s)" "length (signals e) \<le> n + i"
    and "terminate e \<or> (\<exists>j \<ge> i. j < length (signals e) \<and> sg_signaled (signals e ! j) \<noteq> 0 \<and> sg_handler (signals e ! j) = HandleTerm)"
  shows "\<exists>e' s'. run_signals (hostapd_run other env) n i (e, s) = Inr (e', s') \<and> hl.fine other env (e', s') \<and> terminate e'"
  using assms
proof (induction n arbitrary: i e s)
  case 0
  then show ?case
    by (subst run_signals.simps) auto
next
  case (Suc n)
  show ?case
  proof (cases "i < length (signals e) \<and> sg_signaled (signals e ! i) \<noteq> 0")
    case True
    let ?g = "signals e ! i"
    let ?e = "e\<lparr>signals := (signals e)[i := ?g\<lparr>sg_signaled := 0\<rparr>]\<rparr>"
    have "hl.fine other env (?e, s)"
      by (rule hl.fine_setup[OF _ Suc.prems(1)]) (simp add: same_setup_def)
    then obtain e' s' where r: "hostapd_run other env (SignalCall (sg_handler ?g) (sg_sig ?g) (sg_user_data ?g)) (?e, s) = Inr (e', s')"
      "hl.fine other env (e', s')" "signals e' = signals ?e" "terminate ?e \<or> sg_handler ?g = HandleTerm \<longrightarrow> terminate e'"
      using managed_signal[of ?e other env s "sg_handler ?g" "sg_sig ?g" "sg_user_data ?g"] by (auto simp: hl.fine_def)
    have "terminate e' \<or> (\<exists>j \<ge> i + 1. j < length (signals e') \<and> sg_signaled (signals e' ! j) \<noteq> 0 \<and> sg_handler (signals e' ! j) = HandleTerm)"
    proof (cases "terminate e \<or> sg_handler ?g = HandleTerm")
      case False
      then obtain j where j: "j \<ge> i" "j < length (signals e)" "sg_signaled (signals e ! j) \<noteq> 0" "sg_handler (signals e ! j) = HandleTerm"
        using Suc.prems(3) by blast
      then have "j \<noteq> i"
        using False by auto
      then have "j \<ge> i + 1" "signals e' ! j = signals e ! j" "j < length (signals e')"
        using j(1,2) r(3) by simp_all
      then show ?thesis
        using j(3,4) by (intro disjI2 exI[of _ j]) simp
    qed (use r(4) in simp)
    then have "\<exists>p q. run_signals (hostapd_run other env) n (i + 1) (e', s') = Inr (p, q) \<and> hl.fine other env (p, q) \<and> terminate p"
      using Suc.IH[of e' s' "i + 1"] r(2,3) Suc.prems(2) by simp
    then show ?thesis
      using True r(1) by (subst run_signals.simps) (simp add: Let_def)
  next
    case False
    show ?thesis
    proof (cases "i < length (signals e)")
      case True
      have "terminate e \<or> (\<exists>j \<ge> i + 1. j < length (signals e) \<and> sg_signaled (signals e ! j) \<noteq> 0 \<and> sg_handler (signals e ! j) = HandleTerm)"
      proof (cases "terminate e")
        case nt: False
        then obtain j where j: "j \<ge> i" "j < length (signals e)" "sg_signaled (signals e ! j) \<noteq> 0" "sg_handler (signals e ! j) = HandleTerm"
          using Suc.prems(3) by blast
        then have "j \<noteq> i"
          using False by blast
        then show ?thesis
          using j by (intro disjI2 exI[of _ j]) simp
      qed simp
      then show ?thesis
        using Suc.IH[of e s "i + 1"] Suc.prems(1,2) False True by (subst run_signals.simps) (simp add: Let_def)
    next
      case False
      then show ?thesis
        using Suc.prems by (subst run_signals.simps) auto
    qed
  qed
qed

text \<open>The handlers as \<^verbatim>\<open>hostapd_global_init\<close> registers them.\<close>

definition term_registered :: "'o hostapd_loop \<Rightarrow> bool" where
  "term_registered e \<longleftrightarrow> (\<forall>g \<in> set (signals e). (sg_sig g = SIGINT \<or> sg_sig g = SIGTERM) \<longleftrightarrow> sg_handler g = HandleTerm) \<and>
     (\<forall>g \<in> set (signals e). 0 \<le> sg_signaled g) \<and> SIGINT \<in> sg_sig ` set (signals e) \<and> SIGTERM \<in> sg_sig ` set (signals e) \<and>
     0 \<le> signaled e"

lemma hostapd_signals_registered: "term_registered (hostapd_signals reload interfaces)"
  by (simp add: term_registered_def hostapd_signals_def eloop_register_signal_terminate_def eloop_register_signal_def
      eloop_init_def SIGINT_def SIGTERM_def SIGHUP_def SIGUSR1_def Let_def)

definition term_marked :: "'o hostapd_loop \<Rightarrow> bool" where
  "term_marked e \<longleftrightarrow> 0 < signaled e \<and> (\<exists>g \<in> set (signals e). sg_handler g = HandleTerm \<and> 0 < sg_signaled g)"

lemma mark_signal_member:
  "g \<in> set (mark_signal sig gs) \<Longrightarrow> \<exists>g' \<in> set gs. sg_sig g = sg_sig g' \<and> sg_handler g = sg_handler g' \<and> sg_signaled g' \<le> sg_signaled g"
  by (induction gs) (auto split: if_splits)

lemma mark_signal_keeps:
  "g \<in> set gs \<Longrightarrow> \<exists>g' \<in> set (mark_signal sig gs). sg_sig g' = sg_sig g \<and> sg_handler g' = sg_handler g \<and> sg_signaled g \<le> sg_signaled g'"
  by (induction gs) (auto split: if_splits)

lemma mark_signal_marks:
  "sig \<in> sg_sig ` set gs \<Longrightarrow> \<forall>g \<in> set gs. 0 \<le> sg_signaled g \<Longrightarrow>
   \<exists>g \<in> set (mark_signal sig gs). sg_sig g = sig \<and> 0 < sg_signaled g"
  by (induction gs) (auto split: if_splits)

lemma term_registered_signal:
  assumes "term_registered e"
  shows "term_registered (eloop_handle_signal sig e)"
proof -
  have e': "signals (eloop_handle_signal sig e) = mark_signal sig (signals e)" "signaled (eloop_handle_signal sig e) = signaled e + 1"
    by (simp_all add: eloop_handle_signal_def)
  have "(sg_sig g = SIGINT \<or> sg_sig g = SIGTERM) \<longleftrightarrow> sg_handler g = HandleTerm" "0 \<le> sg_signaled g"
    if "g \<in> set (mark_signal sig (signals e))" for g
    using mark_signal_member[OF that] assms by (auto simp: term_registered_def)
  moreover have "x \<in> sg_sig ` set (mark_signal sig (signals e))" if x: "x \<in> sg_sig ` set (signals e)" for x
  proof -
    obtain g where "g \<in> set (signals e)" "sg_sig g = x"
      using x by auto
    then show ?thesis
      using mark_signal_keeps[of g "signals e" sig] by (metis image_eqI)
  qed
  ultimately show ?thesis
    using assms by (auto simp: term_registered_def e')
qed

lemma term_marked_signal:
  assumes "term_registered e"
  shows "sig = SIGINT \<or> sig = SIGTERM \<Longrightarrow> term_marked (eloop_handle_signal sig e)"
    and "term_marked e \<Longrightarrow> term_marked (eloop_handle_signal sig e)"
proof -
  have e': "signals (eloop_handle_signal sig e) = mark_signal sig (signals e)" "0 < signaled (eloop_handle_signal sig e)"
    using assms by (simp_all add: eloop_handle_signal_def term_registered_def)
  show "term_marked (eloop_handle_signal sig e)" if sig: "sig = SIGINT \<or> sig = SIGTERM"
  proof -
    have "sig \<in> sg_sig ` set (signals e)" "\<forall>g \<in> set (signals e). 0 \<le> sg_signaled g"
      using sig assms by (auto simp: term_registered_def)
    then obtain g where g: "g \<in> set (mark_signal sig (signals e))" "sg_sig g = sig" "0 < sg_signaled g"
      using mark_signal_marks by blast
    then obtain g' where "g' \<in> set (signals e)" "sg_sig g = sg_sig g'" "sg_handler g = sg_handler g'"
      using mark_signal_member by blast
    then have "sg_handler g = HandleTerm"
      using assms sig g(2) by (auto simp: term_registered_def)
    then show ?thesis
      using g(1,3) e' by (auto simp: term_marked_def)
  qed
  show "term_marked (eloop_handle_signal sig e)" if "term_marked e"
    using that mark_signal_keeps[of _ "signals e" sig] e' by (fastforce simp: term_marked_def)
qed

lemma term_marked_signals:
  "term_registered e \<Longrightarrow> term_marked e \<or> SIGINT \<in> set sigs \<or> SIGTERM \<in> set sigs \<Longrightarrow>
   term_marked (fold eloop_handle_signal sigs e)"
proof (induction sigs arbitrary: e)
  case (Cons sig sigs)
  have "term_marked (eloop_handle_signal sig e) \<or> SIGINT \<in> set sigs \<or> SIGTERM \<in> set sigs"
    using Cons.prems term_marked_signal[OF Cons.prems(1), of sig] by auto
  then show ?case
    using Cons.IH[OF term_registered_signal[OF Cons.prems(1)]] by simp
qed simp

lemma pending_signals_terminate:
  assumes "hl.fine other env (e, s)" "term_marked e"
  shows "\<exists>e' s'. eloop_process_pending_signals (hostapd_run other env) (e, s) = Inr (e', s') \<and>
           hl.fine other env (e', s') \<and> terminate e'"
proof -
  let ?e = "e\<lparr>signaled := 0, pending_terminate := False\<rparr>"
  obtain j where "j < length (signals e)" "sg_handler (signals e ! j) = HandleTerm" "sg_signaled (signals e ! j) \<noteq> 0"
    using assms(2) by (auto simp: term_marked_def in_set_conv_nth)
  then have "\<exists>j \<ge> 0. j < length (signals ?e) \<and> sg_signaled (signals ?e ! j) \<noteq> 0 \<and> sg_handler (signals ?e ! j) = HandleTerm"
    by auto
  moreover have "hl.fine other env (?e, s)"
    by (rule hl.fine_setup[OF _ assms(1)]) (simp add: same_setup_def)
  ultimately have "\<exists>e' s'. run_signals (hostapd_run other env) (length (signals e)) 0 (?e, s) = Inr (e', s') \<and>
      hl.fine other env (e', s') \<and> terminate e'"
    by (intro run_signals_terminate) simp_all
  then show ?thesis
    using assms(2) by (simp add: eloop_process_pending_signals_def term_marked_def)
qed


section \<open>A connection that is given up\<close>

text \<open>Neither an attempt to connect is pending nor is any socket watched.\<close>

definition abandoned :: "'o hostapd_loop \<Rightarrow> bool" where
  "abandoned e \<longleftrightarrow> connect_timers e = 0 \<and> (\<forall>ty. watchers ty e = [])"

definition given_up :: "'o hostapd_calls \<Rightarrow> int \<Rightarrow> 'o hostapd_loop \<Rightarrow> stam_proc \<Rightarrow> bool" where
  "given_up other sock e s \<longleftrightarrow> others_ok other \<and> abandoned e \<and> cm_sock (sp_master s) = sock \<and> cm_ss (sp_master s)"

lemma given_up_other:
  assumes "eloop_inv e" "given_up other sock e s" "hostapd_run other env c (e, s) = other c (e, s)"
  shows "\<exists>e' s'. hostapd_run other env c (e, s) = Inr (e', s') \<and> eloop_inv e' \<and> given_up other sock e' s' \<and>
           length (signals e') = length (signals e) \<and> marks_changes e e'"
proof -
  obtain e' s' where "other c (e, s) = Inr (e', s')" "keeps_off e s e' s'"
    using assms(1,2) unfolding given_up_def others_ok_def by blast
  then show ?thesis
    using assms(2,3) by (auto simp: given_up_def abandoned_def keeps_off_def)
qed

interpretation ab: loop_handlers_stop "hostapd_run other env" "given_up other sock" for other env sock
proof
  fix e e' :: "'a hostapd_loop" and s
  show "same_setup e e' \<Longrightarrow> given_up other sock e s \<Longrightarrow> given_up other sock e' s"
    by (simp add: same_setup_def given_up_def abandoned_def connect_timers_def watchers_def)
  show "given_up other sock e s \<Longrightarrow> given_up other sock (e\<lparr>terminate := False\<rparr>) s"
    by (simp add: given_up_def abandoned_def connect_timers_def watchers_def)
next
  fix e :: "'a hostapd_loop" and s t ts
  assume a: "eloop_inv e" "given_up other sock e s" "timeouts e = t # ts"
  have "eloop_inv (e\<lparr>timeouts := ts\<rparr>)" "given_up other sock (e\<lparr>timeouts := ts\<rparr>) s" "to_handler t \<noteq> EloopConnectStamgd"
    using a by (simp_all add: eloop_inv_timeouts eloop_inv_def given_up_def abandoned_def connect_timers_def split: if_splits)
  moreover from this(3) have "hostapd_run other env (TimeoutCall (to_handler t) (to_eloop_data t) (to_user_data t)) p =
      other (TimeoutCall (to_handler t) (to_eloop_data t) (to_user_data t)) p" for p
    by (cases "to_handler t"; cases p) simp_all
  ultimately show "\<exists>e' s'. hostapd_run other env (TimeoutCall (to_handler t) (to_eloop_data t) (to_user_data t)) (e\<lparr>timeouts := ts\<rparr>, s) =
      Inr (e', s') \<and> eloop_inv e' \<and> given_up other sock e' s' \<and> length (signals e') = length (signals e)"
    using given_up_other[of "e\<lparr>timeouts := ts\<rparr>" other sock s env] by fastforce
next
  fix e :: "'a hostapd_loop" and s k ty
  assume a: "eloop_inv e" "given_up other sock e s" "k \<in> set (socks ty e)"
  have "sk_handler k \<noteq> StamgClientRead"
    using a(2,3) by (auto simp: given_up_def abandoned_def watchers_def filter_empty_conv)
  then have "hostapd_run other env (SockCall (sk_handler k) (sk_sock k) (sk_eloop_data k) (sk_user_data k)) (e, s) =
      other (SockCall (sk_handler k) (sk_sock k) (sk_eloop_data k) (sk_user_data k)) (e, s)"
    by (cases "sk_handler k") simp_all
  then show "\<exists>e' s'. hostapd_run other env (SockCall (sk_handler k) (sk_sock k) (sk_eloop_data k) (sk_user_data k)) (e, s) =
      Inr (e', s') \<and> eloop_inv e' \<and> given_up other sock e' s' \<and> length (signals e') = length (signals e) \<and> marks_changes e e'"
    by (rule given_up_other[OF a(1,2)])
next
  fix e :: "'a hostapd_loop" and s i
  assume a: "eloop_inv e" "given_up other sock e s"
  let ?c = "SignalCall (sg_handler (signals e ! i)) (sg_sig (signals e ! i)) (sg_user_data (signals e ! i))"
  have t: "eloop_inv (eloop_terminate e)" "given_up other sock (eloop_terminate e) s" "signals (eloop_terminate e) = signals e"
    using a eloop_inv_cong[of "eloop_terminate e" e]
    by (simp_all add: given_up_def abandoned_def connect_timers_def watchers_def eloop_terminate_def)
  show "\<exists>e' s'. hostapd_run other env ?c (e, s) = Inr (e', s') \<and> eloop_inv e' \<and> given_up other sock e' s' \<and>
      length (signals e') = length (signals e)"
    using given_up_other[OF a, of env ?c] a t by (cases "sg_handler (signals e ! i)") auto
qed

text \<open>
  C37: One byte from the station manager is enough to lose it for good. The read handler removes
  itself whatever it reads; after data neither an attempt to connect is pending nor is the socket
  watched, and over any further rounds of the loop this stays so: the connection counts as up with
  its old socket, and when the manager goes away hostapd does not notice and never connects again.
\<close>

theorem manager_data_ends_supervision:
  assumes "others_ok other" "eloop_inv e" "supervised e s" "watching e (sp_master s)"
    and "0 < he_recv (env (sp_ticks s))"
  shows "\<exists>e1 s1. hostapd_run other env (SockCall StamgClientRead (cm_sock (sp_master s)) 0 0) (e, s) = Inr (e1, s1) \<and>
           (\<forall>rs. \<exists>e' s'. eloop_run (hostapd_run other env) rs (e1, s1) = Inr (e', s') \<and> abandoned e' \<and>
              cm_ss (sp_master s') \<and> cm_sock (sp_master s') = cm_sock (sp_master s))"
proof -
  let ?m = "sp_master s" and ?e = "eloop_unregister_sock (cm_sock (sp_master s)) EVENT_TYPE_READ e"
  have "hostapd_run other env (SockCall StamgClientRead (cm_sock ?m) 0 0) (e, s) = Inr (?e, sp_tick s)"
    using assms(5) by (simp add: read_handler_def eloop_unregister_read_sock_def Let_def case_prod_beta stamg_client_read_def)
  moreover have "given_up other (cm_sock ?m) ?e (sp_tick s)"
    using assms(1,4) unregister_watcher[OF assms(3,4)] by (simp add: given_up_def abandoned_def watching_def sp_tick_def)
  then have "ab.fine other (cm_sock ?m) (?e, sp_tick s)"
    using eloop_inv_unregister_sock[OF assms(2)] by (simp add: ab.fine_def)
  then have "\<exists>e' s'. eloop_run (hostapd_run other env) rs (?e, sp_tick s) = Inr (e', s') \<and> abandoned e' \<and>
      cm_ss (sp_master s') \<and> cm_sock (sp_master s') = cm_sock ?m" for rs
    using ab.run_fine[of other "cm_sock ?m" _ env rs] by (fastforce simp: ab.fine_def given_up_def)
  ultimately show ?thesis
    by blast
qed

section \<open>Witnesses\<close>

definition wit_other :: "nat hostapd_calls" where
  "wit_other = (\<lambda>c p. Inr p)"

definition wit_handler_env :: handler_env where
  "wit_handler_env = \<lparr>he_now = Some wit_now, he_mem = True, he_socket = (\<lambda>used. if 7 \<in> set used then - 1 else 7),
     he_calls = \<lparr>se_sock = 7, se_fcntl_ok = True, se_connect_ok = True, se_sends = [12], se_register_ok = True\<rparr>,
     he_recv = 0, he_junk = \<lparr>ud_mac = [], ud_ssid = [], ud_iface = [], ud_event = HOSTAPD_EVENT_STA_UP, ud_channel = 1\<rparr>\<rparr>"

definition wit_hostapd :: "nat hostapd_loop" where
  "wit_hostapd = snd (retry_connect wit_handler_env (hostapd_signals 0 0))"

definition wit_proc :: stam_proc where
  "wit_proc = \<lparr>sp_master = fnii_connect_to_stamgd, sp_ticks = 0\<rparr>"

lemma wit_other_ok: "others_ok wit_other"
  by (simp add: others_ok_def wit_other_def keeps_off_def marks_changes_def)

lemma wit_env_ok: "env_ok wit_handler_env"
proof -
  have "is_ok (semd_msg2stamg True [12] (''hostapd'' @ [nul]) 0)"
    by (subst semd_msg2stamg_complete) simp_all
  then have "is_ok (send_hostapd_name2stamgd True [12])"
    unfolding send_hostapd_name2stamgd_def .
  then show ?thesis
    by (simp add: env_ok_def wit_handler_env_def wit_now_def in_range_def normal_time_def FD_SETSIZE_def)
qed

lemma hostapd_signals_inv:
  "eloop_inv (hostapd_signals reload interfaces)" "timeouts (hostapd_signals reload interfaces) = []"
  "socks ty (hostapd_signals reload interfaces) = []" "signals (hostapd_signals reload interfaces) \<noteq> []"
  "terminate (hostapd_signals reload interfaces) = False"
proof -
  have s: "\<exists>gs. hostapd_signals reload interfaces = eloop_init\<lparr>signals := gs\<rparr> \<and> gs \<noteq> []"
    by (auto simp: hostapd_signals_def eloop_register_signal_terminate_def eloop_register_signal_def Let_def)
  then show "timeouts (hostapd_signals reload interfaces) = []" "socks ty (hostapd_signals reload interfaces) = []"
    "signals (hostapd_signals reload interfaces) \<noteq> []" "terminate (hostapd_signals reload interfaces) = False"
    by (auto simp: eloop_init_def socks_def get_table_def split: eloop_event_type.split)
  show "eloop_inv (hostapd_signals reload interfaces)"
    using s eloop_inv_cong[of "eloop_init\<lparr>signals := _\<rparr>" eloop_init] eloop_inv_init by fastforce
qed

lemma wit_hostapd: "eloop_inv wit_hostapd" "supervised wit_hostapd wit_proc" "term_registered wit_hostapd" "eloop_running wit_hostapd"
proof -
  obtain t where r: "retry_connect wit_handler_env (hostapd_signals 0 0 :: nat hostapd_loop) =
      (0, (hostapd_signals 0 0)\<lparr>timeouts := insert_timeout t (timeouts (hostapd_signals 0 0))\<rparr>)" "to_handler t = EloopConnectStamgd"
    by (rule retry_connect_ok[OF wit_env_ok])
  have t: "wit_hostapd = (hostapd_signals 0 0)\<lparr>timeouts := [t]\<rparr>" "to_handler t = EloopConnectStamgd"
    unfolding wit_hostapd_def r(1) hostapd_signals_inv(2) using r(2) by simp_all
  show "eloop_inv wit_hostapd"
    unfolding t(1) by (rule eloop_inv_timeouts) (simp_all add: hostapd_signals_inv)
  show "supervised wit_hostapd wit_proc"
    unfolding t(1) using t(2) by (simp add: supervised_def retrying_def connect_timers_def watchers_def hostapd_signals_inv)
  show "eloop_running wit_hostapd"
    unfolding t(1) by (simp add: eloop_running_def hostapd_signals_inv)
  show "term_registered wit_hostapd"
    unfolding t(1) using hostapd_signals_registered[of 0 0] by (simp add: term_registered_def)
qed



definition wit_watched :: "nat hostapd_loop" where
  "wit_watched = snd (eloop_sock_table_add_sock True EVENT_TYPE_READ 7 StamgClientRead 0 0 eloop_init)"

definition wit_connected :: stam_proc where
  "wit_connected = \<lparr>sp_master = fnii_connect_to_stamgd\<lparr>cm_sock := 7, cm_ss := True\<rparr>, sp_ticks = 0\<rparr>"

lemma wit_watched: "eloop_inv wit_watched" "watching wit_watched (sp_master wit_connected)" "supervised wit_watched wit_connected"
proof -
  have "eloop_register_sock True 7 EVENT_TYPE_READ StamgClientRead 0 0 eloop_init = Inr (0, wit_watched)"
    by (simp add: eloop_register_sock_def wit_watched_def eloop_sock_table_add_sock_def)
  then show "eloop_inv wit_watched"
    by (rule eloop_inv_register_sock[OF eloop_inv_init, rotated 2]) (simp_all add: FD_SETSIZE_def)
  show w: "watching wit_watched (sp_master wit_connected)"
    by (simp add: watching_def connect_timers_def watchers_def watcher_def wit_connected_def wit_watched_def
        eloop_sock_table_add_sock_def socks_def fnii_connect_to_stamgd_def) (simp add: eloop_init_def get_table_def)
  show "supervised wit_watched wit_connected"
    using w by (simp add: supervised_def) (simp add: watchers_def wit_watched_def eloop_sock_table_add_sock_def socks_def,
        simp add: eloop_init_def get_table_def)
qed

theorem manager_data_ends_supervision_witness:
  "\<exists>e1 s1. hostapd_run wit_other (\<lambda>_. wit_handler_env\<lparr>he_recv := 1\<rparr>) (SockCall StamgClientRead 7 0 0) (wit_watched, wit_connected) =
     Inr (e1, s1) \<and>
     (\<forall>rs. \<exists>e' s'. eloop_run (hostapd_run wit_other (\<lambda>_. wit_handler_env\<lparr>he_recv := 1\<rparr>)) rs (e1, s1) = Inr (e', s') \<and> abandoned e')"
proof -
  have "cm_sock (sp_master wit_connected) = 7"
    by (simp add: wit_connected_def)
  then show ?thesis
    using manager_data_ends_supervision[OF wit_other_ok wit_watched(1,3,2), of "\<lambda>_. wit_handler_env\<lparr>he_recv := 1\<rparr>"]
    by simp metis
qed

end
