(* ===== verification/Elems.thy ===== *)
theory Elems
  imports Prelude
begin

unbundle bit_operations_syntax

text \<open>
  The information elements of 802.11 management frames and the common parts of their headers
  (\<^verbatim>\<open>hostapd/src/common/ieee802_11_common.c\<close>). The record of pointers into the frame is a function
  from the names of its fields to the bytes they point to; the number of bytes is the length field.
\<close>

section \<open>Elements\<close>

datatype elem_field =
    F_ssid | F_supp_rates | F_ds_params | F_challenge | F_erp_info | F_ext_supp_rates | F_wpa_ie | F_rsn_ie
  | F_wmm | F_wmm_tspec | F_wps_ie | F_supp_channels | F_mdie | F_ftie | F_timeout_int | F_ht_capabilities
  | F_ht_operation | F_mesh_config | F_mesh_id | F_peer_mgmt | F_vht_capabilities | F_vht_operation
  | F_vht_opmode_notif | F_vendor_ht_cap | F_vendor_vht | F_p2p | F_wfd | F_link_id | F_interworking
  | F_qos_map_set | F_hs20 | F_ext_capab | F_bss_max_idle_period | F_ssid_list | F_osen | F_ampe | F_mic

type_synonym ieee802_11_elems = "elem_field \<Rightarrow> u8 list option"

datatype ParseRes = ParseOK | ParseUnknown | ParseFailed

definition OUI_MICROSOFT :: nat where
  "OUI_MICROSOFT = 0x0050f2"

definition OUI_WFA :: nat where
  "OUI_WFA = 0x506f9a"

definition OUI_BROADCOM :: nat where
  "OUI_BROADCOM = 0x00904c"

definition be24 :: "u8 list \<Rightarrow> nat" where
  "be24 b = unat (b ! 0) * 65536 + unat (b ! 1) * 256 + unat (b ! 2)"

text \<open>The field that a vendor specific element fills; None is the return value -1.\<close>

definition ieee802_11_parse_vendor_specific :: "u8 list \<Rightarrow> elem_field option" where
  "ieee802_11_parse_vendor_specific b =
     (if length b < 4 then None
      else let oui = be24 b; ty = unat (b ! 3)
           in if oui = OUI_MICROSOFT
              then if ty = 1 then Some F_wpa_ie
                   else if ty = 2
                   then if length b < 5 then None
                        else if unat (b ! 4) = 0 \<or> unat (b ! 4) = 1 then Some F_wmm
                        else if unat (b ! 4) = 2 then Some F_wmm_tspec
                        else None
                   else if ty = 4 then Some F_wps_ie
                   else None
              else if oui = OUI_WFA
              then if ty = 9 then Some F_p2p
                   else if ty = 10 then Some F_wfd
                   else if ty = 16 then Some F_hs20
                   else if ty = 18 then Some F_osen
                   else None
              else if oui = OUI_BROADCOM
              then if ty = 0x33 then Some F_vendor_ht_cap
                   else if ty = 4 \<and> length b > 4 \<and> (unat (b ! 4) = 8 \<or> unat (b ! 4) = 0) then Some F_vendor_vht
                   else None
              else None)"

text \<open>The fields of the other elements, by their number.\<close>

definition eid_fields :: "(nat \<times> elem_field) list" where
  "eid_fields =
     [(0, F_ssid), (1, F_supp_rates), (3, F_ds_params), (16, F_challenge), (42, F_erp_info), (50, F_ext_supp_rates),
      (48, F_rsn_ie), (36, F_supp_channels), (54, F_mdie), (55, F_ftie), (56, F_timeout_int), (45, F_ht_capabilities),
      (61, F_ht_operation), (113, F_mesh_config), (114, F_mesh_id), (117, F_peer_mgmt), (191, F_vht_capabilities),
      (192, F_vht_operation), (199, F_vht_opmode_notif), (101, F_link_id), (107, F_interworking),
      (110, F_qos_map_set), (127, F_ext_capab), (90, F_bss_max_idle_period), (84, F_ssid_list), (139, F_ampe), (140, F_mic)]"

text \<open>Elements that are too short or too long for their field are skipped.\<close>

definition fits_field :: "elem_field \<Rightarrow> nat \<Rightarrow> bool" where
  "fits_field f n \<longleftrightarrow>
     (if f = F_vht_opmode_notif then n = 1
      else if f = F_link_id then n \<ge> 18
      else if f = F_qos_map_set then n \<ge> 16
      else if f = F_bss_max_idle_period then n \<ge> 3
      else True)"

datatype elem_use = Fills elem_field | Ignored | Unknown

text \<open>The switch: what is done with an element; 4, 5 and 33 are known and ignored, 221 is vendor specific.\<close>

definition elem_case :: "nat \<Rightarrow> u8 list \<Rightarrow> elem_use" where
  "elem_case i b =
     (if i = 4 \<or> i = 5 \<or> i = 33 then Ignored
      else if i = 221
      then (case ieee802_11_parse_vendor_specific b of Some f \<Rightarrow> Fills f | None \<Rightarrow> Unknown)
      else case map_of eid_fields i of
             Some f \<Rightarrow> if fits_field f (length b) then Fills f else Ignored
           | None \<Rightarrow> Unknown)"

definition fill :: "nat \<Rightarrow> u8 list \<Rightarrow> ieee802_11_elems \<Rightarrow> ieee802_11_elems" where
  "fill i b es = (case elem_case i b of Fills f \<Rightarrow> es(f := Some b) | _ \<Rightarrow> es)"

text \<open>The loop: after a MIC element (140) everything is encrypted and the rest is not looked at.\<close>

function (sequential) parse_loop :: "u8 list \<Rightarrow> ieee802_11_elems \<Rightarrow> nat \<Rightarrow> ParseRes \<times> ieee802_11_elems" where
  "parse_loop (i # n # rest) es unknown =
     (if unat n > length rest then (ParseFailed, es)
      else let b = take (unat n) rest;
               es1 = fill (unat i) b es;
               u1 = (if elem_case (unat i) b = Unknown then unknown + 1 else unknown)
           in if i = 140 then (if u1 = 0 then ParseOK else ParseUnknown, es1)
              else parse_loop (drop (unat n) rest) es1 u1)"
| "parse_loop [] es unknown = (if unknown = 0 then ParseOK else ParseUnknown, es)"
| "parse_loop [x] es unknown = (ParseFailed, es)"
  by pat_completeness auto
termination
  by (relation "measure (\<lambda>(ies, _, _). length ies)") auto

definition ieee802_11_parse_elems :: "u8 list \<Rightarrow> ParseRes \<times> ieee802_11_elems" where
  "ieee802_11_parse_elems ies = parse_loop ies (\<lambda>_. None) 0"

text \<open>Counting the elements; an element that is cut off ends the count.\<close>

function (sequential) ieee802_11_ie_count :: "u8 list \<Rightarrow> nat" where
  "ieee802_11_ie_count (i # n # rest) =
     (if unat n > length rest then 0 else Suc (ieee802_11_ie_count (drop (unat n) rest)))"
| "ieee802_11_ie_count _ = 0"
  by pat_completeness auto
termination
  by (relation "measure length") auto

text \<open>
  The data of all vendor elements of one type, after the four bytes of OUI and type. \<open>started\<close>: an
  element of the type was seen. Before that a cut-off element gives NULL, afterwards it ends the loop.
\<close>

definition vendor_type :: "u8 list \<Rightarrow> nat" where
  "vendor_type b = be24 b * 256 + unat (b ! 3)"

function (sequential) vendor_concat :: "nat \<Rightarrow> bool \<Rightarrow> u8 list \<Rightarrow> u8 list option" where
  "vendor_concat ty started (i # n # rest) =
     (if unat n > length rest then (if started then Some [] else None)
      else let b = take (unat n) rest; r = drop (unat n) rest
           in if i = 221 \<and> unat n \<ge> 4 \<and> vendor_type b = ty
              then map_option ((@) (drop 4 b)) (vendor_concat ty True r)
              else vendor_concat ty started r)"
| "vendor_concat ty started _ = (if started then Some [] else None)"
  by pat_completeness auto
termination
  by (relation "measure (\<lambda>(_, _, ies). length ies)") auto

definition ieee802_11_vendor_ie_concat :: "u8 list \<Rightarrow> nat \<Rightarrow> u8 list option" where
  "ieee802_11_vendor_ie_concat ies ty = vendor_concat ty False ies"

section \<open>Headers\<close>

definition le16_at :: "u8 list \<Rightarrow> nat \<Rightarrow> u16" where
  "le16_at b i = ucast (b ! i) OR push_bit 8 (ucast (b ! (i + 1)))"

definition WLAN_FC_GET_TYPE :: "u16 \<Rightarrow> nat" where
  "WLAN_FC_GET_TYPE fc = unat (drop_bit 2 (fc AND 0x000c))"

definition WLAN_FC_GET_STYPE :: "u16 \<Rightarrow> nat" where
  "WLAN_FC_GET_STYPE fc = unat (drop_bit 4 (fc AND 0x00f0))"

definition addr1 :: "u8 list \<Rightarrow> mac" where
  "addr1 b = take 6 (drop 4 b)"

definition addr2 :: "u8 list \<Rightarrow> mac" where
  "addr2 b = take 6 (drop 10 b)"

definition addr3 :: "u8 list \<Rightarrow> mac" where
  "addr3 b = take 6 (drop 16 b)"

text \<open>
  The address of the BSS in a header. A management frame of 16 to 23 bytes passes the check of the
  length, and the third address is then read behind its end.
\<close>

definition get_hdr_bssid :: "u8 list \<Rightarrow> mac option res" where
  "get_hdr_bssid b =
     (if length b < 16 then Inr None
      else let fc = le16_at b 0; type = WLAN_FC_GET_TYPE fc
           in if type = 2
              then if length b < 24 then Inr None
                   else let ds = fc AND 0x0300
                        in if ds = 0x0300 \<or> ds = 0x0100 then Inr (Some (addr1 b))
                           else if ds = 0x0200 then Inr (Some (addr2 b))
                           else Inr None
              else if type = 1
              then Inr (if WLAN_FC_GET_STYPE fc \<noteq> 10 then None else Some (addr1 b))
              else if type = 0
              then (if length b < 22 then Inl OutOfBounds else Inr (Some (addr3 b)))
              else Inr None)"

section \<open>Announced rates\<close>

text \<open>
  The rates of the interface in units of 100 kbit/s with the mark of basic rates (None when there
  is no table), and whether stations must support HT or VHT, which is announced as a rate.
\<close>

record rate_conf =
  current_rates :: "(nat \<times> bool) list option"
  require_ht :: bool
  require_vht :: bool

definition rate_byte :: "nat \<times> bool \<Rightarrow> u8" where
  "rate_byte r = of_nat (fst r div 5) OR (if snd r then 0x80 else 0)"

definition num_announced :: "rate_conf \<Rightarrow> (nat \<times> bool) list \<Rightarrow> nat" where
  "num_announced rc rs = length rs + (if require_ht rc then 1 else 0) + (if require_vht rc then 1 else 0)"

definition hostapd_eid_supp_rates :: "rate_conf \<Rightarrow> u8 list" where
  "hostapd_eid_supp_rates rc =
     (case current_rates rc of
        None \<Rightarrow> []
      | Some rs \<Rightarrow>
          let num = min 8 (num_announced rc rs);
              b = map rate_byte (take num rs);
              b1 = (if require_ht rc \<and> length b < 8 then b @ [0xff] else b);
              b2 = (if require_vht rc \<and> length b1 < 8 then b1 @ [0xfe] else b1)
          in 1 # of_nat num # b2)"

definition hostapd_eid_ext_supp_rates :: "rate_conf \<Rightarrow> u8 list" where
  "hostapd_eid_ext_supp_rates rc =
     (case current_rates rc of
        None \<Rightarrow> []
      | Some rs \<Rightarrow>
          if num_announced rc rs \<le> 8 then []
          else let num = num_announced rc rs - 8;
                   b = map rate_byte (drop 8 (take (num + 8) rs));
                   count = min (num + 8) (length rs);
                   count1 = (if require_ht rc then count + 1 else count);
                   b1 = (if require_ht rc \<and> count1 > 8 then b @ [0xff] else b);
                   b2 = (if require_vht rc \<and> count1 + 1 > 8 then b1 @ [0xfe] else b1)
               in 50 # of_nat num # b2)"

end
