(* ===== verification/ElemsProps.thy ===== *)
theory ElemsProps
  imports Elems
begin

text \<open>
  The parser of information elements accepts exactly the byte strings that are sequences of whole
  elements, and what it returns for a field is the last element of the frame that belongs to it;
  the rates that the access point announces come out of the parser as they went in.
\<close>

section \<open>Sequences of elements\<close>

type_synonym elem = "u8 \<times> u8 list"

definition enc :: "elem \<Rightarrow> u8 list" where
  "enc e = fst e # of_nat (length (snd e)) # snd e"

text \<open>The length fits its byte, and the element is not the MIC, behind which the parser does not look.\<close>

definition plain_elem :: "elem \<Rightarrow> bool" where
  "plain_elem e \<longleftrightarrow> length (snd e) \<le> 255 \<and> fst e \<noteq> 140"

definition use_of :: "elem \<Rightarrow> elem_use" where
  "use_of e = elem_case (unat (fst e)) (snd e)"

definition filled :: "elem list \<Rightarrow> (elem_field \<times> u8 list) list" where
  "filled es = concat (map (\<lambda>e. case use_of e of Fills f \<Rightarrow> [(f, snd e)] | _ \<Rightarrow> []) es)"

lemma unat_length_byte: "n \<le> 255 \<Longrightarrow> unat (of_nat n :: u8) = n"
  by (simp add: unsigned_of_nat take_bit_eq_mod)

lemma parse_loop_enc:
  assumes "length b \<le> 255" "i \<noteq> 140"
  shows "parse_loop (enc (i, b) @ rest) es u =
    parse_loop rest (fill (unat i) b es) (if elem_case (unat i) b = Unknown then u + 1 else u)"
  using assms by (simp add: enc_def unat_length_byte Let_def)

lemma fill_lookup:
  "fill (unat i) b es f = (case map_of (filled [(i, b)]) f of Some x \<Rightarrow> Some x | None \<Rightarrow> es f)"
  by (auto simp: fill_def filled_def use_of_def split: elem_use.split)

lemma filled_Cons: "filled (e # es) = filled [e] @ filled es"
  by (simp add: filled_def)

lemma parse_loop_elems:
  "\<forall>e \<in> set els. plain_elem e \<Longrightarrow>
   \<exists>es'. parse_loop (concat (map enc els) @ rest) es u =
      parse_loop rest es' (u + length (filter (\<lambda>e. use_of e = Unknown) els)) \<and>
      (\<forall>f. es' f = (case map_of (rev (filled els)) f of Some x \<Rightarrow> Some x | None \<Rightarrow> es f))"
proof (induction els arbitrary: es u)
  case Nil
  then show ?case
    by (auto simp: filled_def)
next
  case (Cons e els)
  obtain i b where e: "e = (i, b)"
    by fastforce
  let ?es = "fill (unat i) b es" and ?u = "if elem_case (unat i) b = Unknown then u + 1 else u"
  have "plain_elem (i, b)"
    using Cons.prems e by simp
  then have step: "parse_loop (concat (map enc (e # els)) @ rest) es u = parse_loop (concat (map enc els) @ rest) ?es ?u"
    using parse_loop_enc[of b i "concat (map enc els) @ rest" es u] by (simp add: e plain_elem_def)
  obtain es' where es': "parse_loop (concat (map enc els) @ rest) ?es ?u =
      parse_loop rest es' (?u + length (filter (\<lambda>e. use_of e = Unknown) els))"
    "\<forall>f. es' f = (case map_of (rev (filled els)) f of Some x \<Rightarrow> Some x | None \<Rightarrow> ?es f)"
    using Cons.IH[of ?es ?u] Cons.prems by auto
  have "es' f = (case map_of (rev (filled (e # els))) f of Some x \<Rightarrow> Some x | None \<Rightarrow> es f)" for f
    using es'(2) fill_lookup[of i b es f]
    by (auto simp: filled_Cons[of e els] e map_add_def filled_def use_of_def split: option.splits elem_use.splits)
  moreover have "?u + length (filter (\<lambda>e. use_of e = Unknown) els) = u + length (filter (\<lambda>e. use_of e = Unknown) (e # els))"
    by (simp add: e use_of_def)
  ultimately show ?case
    using step es'(1) by metis
qed

lemma parse_elems_enc:
  assumes "\<forall>e \<in> set els. plain_elem e"
  shows "ieee802_11_parse_elems (concat (map enc els)) =
    (if \<exists>e \<in> set els. use_of e = Unknown then ParseUnknown else ParseOK, map_of (rev (filled els)))"
proof -
  obtain es' where p: "parse_loop (concat (map enc els) @ []) (\<lambda>_. None) 0 =
      parse_loop [] es' (0 + length (filter (\<lambda>e. use_of e = Unknown) els))"
    "\<forall>f. es' f = (case map_of (rev (filled els)) f of Some x \<Rightarrow> Some x | None \<Rightarrow> None)"
    using parse_loop_elems[OF assms, of "[]" "\<lambda>_. None" 0] by blast
  have "es' = map_of (rev (filled els))"
    using p(2) by (auto simp: fun_eq_iff split: option.split)
  then show ?thesis
    using p(1) by (auto simp: ieee802_11_parse_elems_def filter_empty_conv)
qed



lemma parse_loop_splits:
  "fst (parse_loop ies es u) \<noteq> ParseFailed \<Longrightarrow>
   \<exists>els. (\<forall>e \<in> set els. plain_elem e) \<and>
     (ies = concat (map enc els) \<or> (\<exists>b rest. length b \<le> 255 \<and> ies = concat (map enc els) @ enc (140, b) @ rest))"
proof (induction ies es u rule: parse_loop.induct)
  case (1 i n rest es u)
  let ?b = "take (unat n) rest" and ?r = "drop (unat n) rest"
  have le: "unat n \<le> length rest"
    using "1.prems" by (auto split: if_splits)
  have len: "length ?b = unat n"
    using le by simp
  have n: "length ?b \<le> 255" "of_nat (length ?b) = n"
    unfolding len using unsigned_less[of n, where ?'a = nat] by simp_all
  have b: "i # n # rest = enc (i, ?b) @ ?r"
    unfolding enc_def fst_conv snd_conv n(2) by simp
  show ?case
  proof (cases "i = 140")
    case True
    then show ?thesis
      using b n(1) by (intro exI[of _ "[]"]) fastforce
  next
    case False
    then have "fst (parse_loop ?r (fill (unat i) ?b es) (if elem_case (unat i) ?b = Unknown then u + 1 else u)) \<noteq> ParseFailed"
      using "1.prems" le by (simp add: Let_def)
    then obtain els where els: "\<forall>e \<in> set els. plain_elem e"
      "?r = concat (map enc els) \<or> (\<exists>b rest. length b \<le> 255 \<and> ?r = concat (map enc els) @ enc (140, b) @ rest)"
      using "1.IH"[OF _ refl refl refl False] le by auto
    have "plain_elem (i, ?b)"
      using n(1) False by (simp add: plain_elem_def)
    then show ?thesis
      using els b by (intro exI[of _ "(i, ?b) # els"]) auto
  qed
next
  case (2 es u)
  then show ?case
    by (intro exI[of _ "[]"]) simp
qed simp

lemma parse_loop_whole:
  assumes "\<forall>e \<in> set els. plain_elem e" "length b \<le> 255"
  shows "fst (parse_loop (concat (map enc els)) es u) \<noteq> ParseFailed"
    and "fst (parse_loop (concat (map enc els) @ enc (140, b) @ rest) es u) \<noteq> ParseFailed"
  using parse_loop_elems[OF assms(1), of "[]" es u] parse_loop_elems[OF assms(1), of "enc (140, b) @ rest" es u] assms(2)
  by (auto simp: enc_def unat_length_byte Let_def split: if_splits)


section \<open>Announced rates\<close>

definition announced :: "rate_conf \<Rightarrow> (nat \<times> bool) list \<Rightarrow> u8 list" where
  "announced rc rs = map rate_byte rs @ (if require_ht rc then [0xff] else []) @ (if require_vht rc then [0xfe] else [])"

lemma length_announced: "length (announced rc rs) = num_announced rc rs"
  by (simp add: announced_def num_announced_def)

lemma supp_rates_enc:
  assumes "current_rates rc = Some rs"
  shows "hostapd_eid_supp_rates rc = enc (1, take 8 (announced rc rs))"
proof -
  have "length (take 8 (announced rc rs)) = min 8 (num_announced rc rs)"
    by (simp add: length_announced)
  then show ?thesis
    using assms
    by (auto simp: hostapd_eid_supp_rates_def enc_def Let_def announced_def num_announced_def take_map min_def)
qed

lemma ext_supp_rates_enc:
  assumes "current_rates rc = Some rs" "8 < num_announced rc rs"
  shows "hostapd_eid_ext_supp_rates rc = enc (50, drop 8 (announced rc rs))"
  using assms
  by (cases "length rs = 7") (auto simp: hostapd_eid_ext_supp_rates_def enc_def Let_def announced_def num_announced_def drop_map take_map
      split: if_splits)

text \<open>
  The rates that the access point announces are what a parser reads: the first eight come out
  as the supported rates and the others, if any, as the extended ones, each in order and with the
  mark of basic rates, including the marks for mandatory HT and VHT.
\<close>

theorem rates_roundtrip:
  assumes "current_rates rc = Some rs" "num_announced rc rs \<le> 263"
  shows "\<exists>es. ieee802_11_parse_elems (hostapd_eid_supp_rates rc @ hostapd_eid_ext_supp_rates rc) = (ParseOK, es) \<and>
    es F_supp_rates = Some (take 8 (announced rc rs)) \<and>
    es F_ext_supp_rates = (if num_announced rc rs \<le> 8 then None else Some (drop 8 (announced rc rs)))"
proof -
  define els :: "elem list" where "els = (1, take 8 (announced rc rs)) # (if num_announced rc rs \<le> 8 then [] else [(50, drop 8 (announced rc rs))])"
  have "hostapd_eid_supp_rates rc @ hostapd_eid_ext_supp_rates rc = concat (map enc els)"
    using supp_rates_enc[OF assms(1)] ext_supp_rates_enc[OF assms(1)] assms(1)
    by (cases "num_announced rc rs \<le> 8") (simp_all add: els_def hostapd_eid_ext_supp_rates_def)
  moreover have "\<forall>e \<in> set els. plain_elem e"
    using assms(2) by (auto simp: els_def plain_elem_def length_announced)
  moreover have u: "use_of (1, b) = Fills F_supp_rates" "use_of (50, b) = Fills F_ext_supp_rates" for b
    by (simp_all add: use_of_def elem_case_def eid_fields_def fits_field_def)
  then have "\<not> (\<exists>e \<in> set els. use_of e = Unknown)" "map_of (rev (filled els)) F_supp_rates = Some (take 8 (announced rc rs))"
    "map_of (rev (filled els)) F_ext_supp_rates = (if num_announced rc rs \<le> 8 then None else Some (drop 8 (announced rc rs)))"
    by (simp_all add: els_def filled_def)
  ultimately show ?thesis
    using parse_elems_enc[of els] by simp
qed

definition wit_rates :: rate_conf where
  "wit_rates = \<lparr>current_rates = Some [(10, True), (20, True), (55, True), (110, True), (60, False), (90, False), (120, False),
     (180, False), (240, False), (360, False), (480, False), (540, False)], require_ht = True, require_vht = False\<rparr>"

theorem rates_roundtrip_witness:
  "\<exists>es. ieee802_11_parse_elems (hostapd_eid_supp_rates wit_rates @ hostapd_eid_ext_supp_rates wit_rates) = (ParseOK, es) \<and>
     es F_supp_rates = Some [0x82, 0x84, 0x8b, 0x96, 12, 18, 24, 36] \<and> es F_ext_supp_rates = Some [48, 72, 96, 108, 0xff]"
  using rates_roundtrip[of wit_rates]
  by (simp add: wit_rates_def num_announced_def announced_def rate_byte_def)

end
