(* ===== verification/Mgmt.thy ===== *)
theory Mgmt
  imports Elems Beacon
begin

unbundle bit_operations_syntax

text \<open>
  Authentication and association (\<^verbatim>\<open>hostapd/src/ap/ieee802_11.c\<close>) and how a received frame finds
  its BSS (\<^verbatim>\<open>hostapd/src/ap/drv_callbacks.c\<close>). Frames are byte lists. The frames that are sent, and
  the calls into the WPA, 802.1X, WMM and MLME layers and the driver, go to \<open>hevents\<close>. Modelled is
  the build with 802.11w and without 802.11n/ac/r, SAE, WPS, P2P, HS 2.0 and mesh, as in
  \<^verbatim>\<open>defconfig\<close>; the fields of a station that belong to VLANs, PSKs and RADIUS are left out.
\<close>

section \<open>Configuration and surroundings\<close>

datatype secpolicy = SECURITY_PLAINTEXT | SECURITY_STATIC_WEP | SECURITY_IEEE_802_1X | SECURITY_WPA_PSK | SECURITY_WPA | SECURITY_OSEN

record mgmt_conf =
  auth_algs :: u32
  wmm_enabled :: bool
  max_listen_interval :: u16
  conf_wpa :: u32
  ieee802_1x :: bool
  osen :: bool
  wds_sta :: bool
  short_preamble_conf :: bool
  wep_keys_set :: bool
  wep_key_lens :: bool
  security_policy :: secpolicy
  wep_default_len :: nat
  mode_11a :: bool
  spectrum_mgmt_required :: bool
  radio_measurements :: bool
  rates :: rate_conf

text \<open>
  What the surroundings answer: \<open>acl\<close> is the result of \<^verbatim>\<open>hostapd_allowed_address\<close>, \<open>vlan_refused\<close> says
  that RADIUS gave a VLAN that is not configured, \<open>new_challenge\<close> is the pseudo-random challenge (None:
  no memory), \<open>wpa_check\<close> gives the verdict of the WPA state machine and of the SA Query procedure on
  the WPA or RSN element, with whether management frame protection is used, and \<open>resp_tail\<close> the
  elements of the association response behind the rates.
\<close>

datatype acl_result = HOSTAPD_ACL_REJECT | HOSTAPD_ACL_PENDING | HOSTAPD_ACL_ACCEPT | HOSTAPD_ACL_ACCEPT_TIMEOUT int

record mgmt_env =
  tkip_countermeasures :: bool
  dfs_required :: int
  acl :: acl_result
  vlan_refused :: bool
  ubus_refuses :: bool
  sta_alloc :: bool
  driver_times :: bool
  new_challenge :: "u8 list option"
  wpa_check :: "bool \<Rightarrow> sta_info \<Rightarrow> u8 list \<Rightarrow> u16 \<times> bool"
  resp_tail :: "sta_info \<Rightarrow> u8 list"
  driver_adds :: bool
  vlan_bound :: bool
  public_cb :: bool
  vendor_cb :: bool

definition WLAN_AUTH_OPEN :: u16 where
  "WLAN_AUTH_OPEN = 0"

definition WLAN_AUTH_SHARED_KEY :: u16 where
  "WLAN_AUTH_SHARED_KEY = 1"

definition WLAN_AUTH_FT :: u16 where
  "WLAN_AUTH_FT = 2"

definition WLAN_AUTH_SAE :: u16 where
  "WLAN_AUTH_SAE = 3"

definition WLAN_FC_RETRY :: u16 where
  "WLAN_FC_RETRY = 0x0800"

definition WLAN_FC_ISWEP :: u16 where
  "WLAN_FC_ISWEP = 0x4000"

definition WLAN_INVALID_MGMT_SEQ :: u16 where
  "WLAN_INVALID_MGMT_SEQ = 0xFFFF"

definition WLAN_AUTH_CHALLENGE_LEN :: nat where
  "WLAN_AUTH_CHALLENGE_LEN = 128"

definition WLAN_FC_STYPE_ASSOC_REQ :: nat where
  "WLAN_FC_STYPE_ASSOC_REQ = 0"

definition WLAN_FC_STYPE_ASSOC_RESP :: nat where
  "WLAN_FC_STYPE_ASSOC_RESP = 1"

definition WLAN_FC_STYPE_REASSOC_REQ :: nat where
  "WLAN_FC_STYPE_REASSOC_REQ = 2"

definition WLAN_FC_STYPE_REASSOC_RESP :: nat where
  "WLAN_FC_STYPE_REASSOC_RESP = 3"

definition WLAN_FC_STYPE_PROBE_REQ :: nat where
  "WLAN_FC_STYPE_PROBE_REQ = 4"

definition WLAN_FC_STYPE_BEACON :: nat where
  "WLAN_FC_STYPE_BEACON = 8"

definition WLAN_FC_STYPE_DISASSOC :: nat where
  "WLAN_FC_STYPE_DISASSOC = 10"

definition WLAN_FC_STYPE_AUTH :: nat where
  "WLAN_FC_STYPE_AUTH = 11"

definition WLAN_FC_STYPE_DEAUTH :: nat where
  "WLAN_FC_STYPE_DEAUTH = 12"

definition WLAN_FC_STYPE_ACTION :: nat where
  "WLAN_FC_STYPE_ACTION = 13"

definition WLAN_STATUS_SUCCESS :: u16 where
  "WLAN_STATUS_SUCCESS = 0"

definition WLAN_STATUS_UNSPECIFIED_FAILURE :: u16 where
  "WLAN_STATUS_UNSPECIFIED_FAILURE = 1"

definition WLAN_STATUS_NOT_SUPPORTED_AUTH_ALG :: u16 where
  "WLAN_STATUS_NOT_SUPPORTED_AUTH_ALG = 13"

definition WLAN_STATUS_UNKNOWN_AUTH_TRANSACTION :: u16 where
  "WLAN_STATUS_UNKNOWN_AUTH_TRANSACTION = 14"

definition WLAN_STATUS_CHALLENGE_FAIL :: u16 where
  "WLAN_STATUS_CHALLENGE_FAIL = 15"

definition WLAN_STATUS_AP_UNABLE_TO_HANDLE_NEW_STA :: u16 where
  "WLAN_STATUS_AP_UNABLE_TO_HANDLE_NEW_STA = 17"

definition WLAN_STATUS_INVALID_IE :: u16 where
  "WLAN_STATUS_INVALID_IE = 40"

definition WLAN_STATUS_ASSOC_DENIED_LISTEN_INT_TOO_LARGE :: u16 where
  "WLAN_STATUS_ASSOC_DENIED_LISTEN_INT_TOO_LARGE = 51"

definition WLAN_REASON_CLASS2_FRAME_FROM_NONAUTH_STA :: u16 where
  "WLAN_REASON_CLASS2_FRAME_FROM_NONAUTH_STA = 6"

definition WLAN_REASON_CLASS3_FRAME_FROM_NONASSOC_STA :: u16 where
  "WLAN_REASON_CLASS3_FRAME_FROM_NONASSOC_STA = 7"

definition WLAN_REASON_MICHAEL_MIC_FAILURE :: u16 where
  "WLAN_REASON_MICHAEL_MIC_FAILURE = 14"

text \<open>An operation on one BSS of the interface.\<close>

definition on_bss :: "nat \<Rightarrow> hostapd_iface \<Rightarrow> (hostapd_data \<Rightarrow> hostapd_data) \<Rightarrow> hostapd_iface" where
  "on_bss i st f = set_bss i (f (bsses st ! i)) st"

section \<open>Frames\<close>

definition le16 :: "u16 \<Rightarrow> u8 list" where
  "le16 w = [ucast w, ucast (drop_bit 8 w)]"

definition mgmt_header :: "nat \<Rightarrow> mac \<Rightarrow> mac \<Rightarrow> mac \<Rightarrow> u8 list" where
  "mgmt_header stype da sa bss = le16 (push_bit 4 (of_nat stype)) @ [0, 0] @ da @ sa @ bss @ [0, 0]"

definition send_auth_reply :: "mac \<Rightarrow> mac \<Rightarrow> u16 \<Rightarrow> u16 \<Rightarrow> u16 \<Rightarrow> u8 list \<Rightarrow> hostapd_data \<Rightarrow> hostapd_data" where
  "send_auth_reply dst bss alg tr resp ies h =
     emit (SendMlme (mgmt_header WLAN_FC_STYPE_AUTH dst (own_addr h) bss @
                     le16 alg @ le16 tr @ le16 resp @ ies)) h"

definition send_deauth :: "mac \<Rightarrow> u16 \<Rightarrow> hostapd_data \<Rightarrow> hostapd_data" where
  "send_deauth addr reason h =
     emit (SendMlme (mgmt_header WLAN_FC_STYPE_DEAUTH addr (own_addr h) (own_addr h) @ le16 reason)) h"

text \<open>The capabilities; \<open>sta\<close> says that they are for a known station, whose policy is that of the BSS.\<close>

definition hostapd_own_capab_info :: "mgmt_env \<Rightarrow> mgmt_conf \<Rightarrow> iface_counters \<Rightarrow> bool \<Rightarrow> u16" where
  "hostapd_own_capab_info e cf c sta =
     (let dfs = (if dfs_required e < 0 then 0 else dfs_required e);
          privacy0 = (wep_keys_set cf \<or> ieee802_1x cf \<and> wep_key_lens cf \<or> conf_wpa cf \<noteq> 0);
          privacy = (if sta then security_policy cf \<noteq> SECURITY_PLAINTEXT \<and>
                                 \<not> (security_policy cf = SECURITY_IEEE_802_1X \<and> wep_default_len cf = 0)
                     else privacy0)
      in 0x0001
         OR (if num_sta_no_short_preamble c = 0 \<and> short_preamble_conf cf then 0x0020 else 0)
         OR (if privacy then 0x0010 else 0)
         OR (if mode_11g c \<and> num_sta_no_short_slot_time c = 0 then 0x0400 else 0)
         OR (if mode_11a cf \<and> (spectrum_mgmt_required cf \<or> dfs \<noteq> 0) then 0x0100 else 0)
         OR (if radio_measurements cf then 0x1000 else 0))"

definition assoc_resp_frame :: "mgmt_env \<Rightarrow> mgmt_conf \<Rightarrow> iface_counters \<Rightarrow> mac \<Rightarrow> sta_info \<Rightarrow> u16 \<Rightarrow> bool \<Rightarrow> u8 list" where
  "assoc_resp_frame e cf c own s status reassoc =
     mgmt_header (if reassoc then WLAN_FC_STYPE_REASSOC_RESP else WLAN_FC_STYPE_ASSOC_RESP) (sta_addr s) own own @
     le16 (hostapd_own_capab_info e cf c True) @ le16 status @ le16 (of_nat (aid s) OR 0xC000) @
     hostapd_eid_supp_rates (rates cf) @ hostapd_eid_ext_supp_rates (rates cf) @ resp_tail e s"

definition send_assoc_resp ::
  "mgmt_env \<Rightarrow> mgmt_conf \<Rightarrow> iface_counters \<Rightarrow> sta_info \<Rightarrow> u16 \<Rightarrow> bool \<Rightarrow> hostapd_data \<Rightarrow> hostapd_data" where
  "send_assoc_resp e cf c s status reassoc h =
     emit (SendMlme (assoc_resp_frame e cf c (own_addr h) s status reassoc)) h"

section \<open>Authentication\<close>

definition auth_shared_key ::
  "mgmt_env \<Rightarrow> u16 \<Rightarrow> u8 list option \<Rightarrow> bool \<Rightarrow> hostapd_data \<Rightarrow> sta_info \<Rightarrow> u16 \<times> hostapd_data \<times> sta_info" where
  "auth_shared_key e tr ch iswep h s =
     (if tr = 1
      then case challenge s of
             Some _ \<Rightarrow> (0, h, s)
           | None \<Rightarrow> (case new_challenge e of
                        None \<Rightarrow> (WLAN_STATUS_UNSPECIFIED_FAILURE, h, s)
                      | Some c \<Rightarrow> (0, h, s\<lparr>challenge := Some c\<rparr>))
      else if tr \<noteq> 3 then (WLAN_STATUS_UNSPECIFIED_FAILURE, h, s)
      else if \<not> iswep \<or> challenge s = None \<or> ch = None \<or> challenge s \<noteq> ch
      then (WLAN_STATUS_CHALLENGE_FAIL, h, s)
      else (0, emit (WpaAuth (sta_addr s)) h, (set_flag WLAN_STA_AUTH s)\<lparr>challenge := None\<rparr>))"

definition auth_challenge :: "u8 list \<Rightarrow> u8 list option" where
  "auth_challenge b =
     (if length b \<ge> 30 + 2 + WLAN_AUTH_CHALLENGE_LEN \<and> b ! 30 = 16 \<and> unat (b ! 31) = WLAN_AUTH_CHALLENGE_LEN
      then Some (take WLAN_AUTH_CHALLENGE_LEN (drop 32 b)) else None)"

text \<open>The checks before a station is looked up, with the status of the refusal.\<close>

definition auth_refusal :: "mgmt_env \<Rightarrow> mgmt_conf \<Rightarrow> hostapd_data \<Rightarrow> u16 \<Rightarrow> u16 \<Rightarrow> mac \<Rightarrow> u16 option" where
  "auth_refusal e cf h alg tr sa =
     (if tkip_countermeasures e then Some WLAN_REASON_MICHAEL_MIC_FAILURE
      else if \<not> (auth_algs cf AND 1 \<noteq> 0 \<and> alg = WLAN_AUTH_OPEN \<or> auth_algs cf AND 2 \<noteq> 0 \<and> alg = WLAN_AUTH_SHARED_KEY)
      then Some WLAN_STATUS_NOT_SUPPORTED_AUTH_ALG
      else if \<not> (tr = 1 \<or> alg = WLAN_AUTH_SAE \<or> alg = WLAN_AUTH_SHARED_KEY \<and> tr = 3)
      then Some WLAN_STATUS_UNKNOWN_AUTH_TRANSACTION
      else if sa = own_addr h \<or> acl e = HOSTAPD_ACL_REJECT \<or> ubus_refuses e
      then Some WLAN_STATUS_UNSPECIFIED_FAILURE
      else None)"

text \<open>A retransmission of the frame that was handled last.\<close>

definition repeated :: "u8 list \<Rightarrow> nat \<Rightarrow> sta_info \<Rightarrow> bool" where
  "repeated b stype s \<longleftrightarrow>
     le16_at b 0 AND WLAN_FC_RETRY \<noteq> 0 \<and> last_seq_ctrl s \<noteq> WLAN_INVALID_MGMT_SEQ \<and>
     last_seq_ctrl s = le16_at b 22 \<and> last_subtype s = stype"

definition auth_session :: "mgmt_env \<Rightarrow> mac \<Rightarrow> hostapd_data \<Rightarrow> hostapd_data" where
  "auth_session e m h =
     (case acl e of
        HOSTAPD_ACL_ACCEPT_TIMEOUT t \<Rightarrow> ap_sta_session_timeout h m t
      | _ \<Rightarrow> ap_sta_no_session_timeout h m)"

text \<open>The part of \<^verbatim>\<open>handle_auth\<close> that has the station, up to the answer.\<close>

definition auth_station :: "mgmt_env \<Rightarrow> u8 list \<Rightarrow> hostapd_data \<Rightarrow> sta_info \<Rightarrow> hostapd_data" where
  "auth_station e b h s =
     (let m = sta_addr s; alg = le16_at b 24; tr = le16_at b 26;
          reply = (\<lambda>resp ies. send_auth_reply (addr2 b) (addr3 b) alg (tr + 1) resp ies);
          s1 = s\<lparr>last_seq_ctrl := le16_at b 22, last_subtype := WLAN_FC_STYPE_AUTH\<rparr>
      in if vlan_refused e then reply WLAN_STATUS_UNSPECIFIED_FAILURE [] (put_sta s1 h)
         else let s2 = clear_flag WLAN_STA_PREAUTH s1;
                  h2 = auth_session e m (emit (NotifyPreAuth m) h)
              in if alg = WLAN_AUTH_OPEN
                 then let s3 = (set_flag WLAN_STA_AUTH s2)\<lparr>auth_alg := WLAN_AUTH_OPEN\<rparr>
                      in reply WLAN_STATUS_SUCCESS [] (emit (MlmeAuth m) (put_sta s3 (emit (WpaAuth m) h2)))
                 else if alg = WLAN_AUTH_SHARED_KEY
                 then let (resp, h3, s3) = auth_shared_key e tr (auth_challenge b)
                                             (le16_at b 0 AND WLAN_FC_ISWEP \<noteq> 0) h2 s2;
                          s4 = s3\<lparr>auth_alg := WLAN_AUTH_SHARED_KEY\<rparr>;
                          ies = (case challenge s4 of
                                   Some c \<Rightarrow> if tr = 1 then 16 # of_nat WLAN_AUTH_CHALLENGE_LEN # c else []
                                 | None \<Rightarrow> [])
                      in reply resp ies (emit (MlmeAuth m) (put_sta s4 h3))
                 else reply WLAN_STATUS_SUCCESS [] (put_sta s2 h2))"

definition handle_auth :: "mgmt_env \<Rightarrow> mgmt_conf \<Rightarrow> u8 list \<Rightarrow> nat \<Rightarrow> hostapd_iface \<Rightarrow> hostapd_iface res" where
  "handle_auth e cf b i st =
     (if length b < 30 then Inr st
      else let h = bsses st ! i; alg = le16_at b 24; tr = le16_at b 26; sa = addr2 b;
               fail = (\<lambda>resp st'. on_bss i st' (send_auth_reply sa (addr3 b) alg (tr + 1) resp []))
           in case auth_refusal e cf h alg tr sa of
                Some r \<Rightarrow> Inr (fail r st)
              | None \<Rightarrow>
                  if acl e = HOSTAPD_ACL_PENDING then Inr st
                  else case ap_get_sta h sa of
                         Some p \<Rightarrow> with_sta h p (\<lambda>s.
                           Inr (if repeated b WLAN_FC_STYPE_AUTH s then st else on_bss i st (\<lambda>h. auth_station e b h s)))
                       | None \<Rightarrow>
                           bind_res (ap_sta_add_bss (sta_alloc e) (driver_times e) (counters st) (bsses st) i sa) (\<lambda>(r, bs).
                             let st1 = st\<lparr>bsses := bs\<rparr>
                             in case r of
                                  None \<Rightarrow> Inr (fail WLAN_STATUS_AP_UNABLE_TO_HANDLE_NEW_STA st1)
                                | Some p \<Rightarrow> with_sta (bs ! i) p (\<lambda>s. Inr (on_bss i st1 (\<lambda>h. auth_station e b h s)))))"

section \<open>Association\<close>

text \<open>
  The association identifiers: \<open>free_bit\<close> is the inner and \<open>find_free\<close> the outer loop of
  \<^verbatim>\<open>hostapd_get_aid\<close>; None means that all bits are set.
\<close>

fun free_bit :: "u32 \<Rightarrow> nat \<Rightarrow> nat \<Rightarrow> nat" where
  "free_bit w j 0 = j"
| "free_bit w j (Suc n) = (if w AND push_bit j 1 = 0 then j else free_bit w (Suc j) n)"

fun find_free :: "nat \<Rightarrow> u32 list \<Rightarrow> (nat \<times> nat) option" where
  "find_free i [] = None"
| "find_free i (w # ws) =
     (if w = - 1 then find_free (Suc i) ws
      else let j = free_bit w 0 32 in if j < 32 then Some (i, j) else find_free (Suc i) ws)"

definition new_aid :: "u32 list \<Rightarrow> (nat \<times> u32 list) option" where
  "new_aid ws =
     (case find_free 0 ws of
        None \<Rightarrow> None
      | Some (i, j) \<Rightarrow> if i * 32 + j + 1 > 2007 then None
                        else Some (i * 32 + j + 1, ws[i := ws ! i OR push_bit j 1]))"

definition hostapd_get_aid :: "hostapd_data \<Rightarrow> sta_info \<Rightarrow> (hostapd_data \<times> sta_info) option" where
  "hostapd_get_aid h s =
     (if aid s > 0 then Some (h, s)
      else map_option (\<lambda>(a, ws). (h\<lparr>sta_aid := ws\<rparr>, s\<lparr>aid := a\<rparr>)) (new_aid (sta_aid h)))"

definition ssid_bytes :: "string \<Rightarrow> u8 list" where
  "ssid_bytes s = map of_char s"

definition check_ssid :: "hostapd_data \<Rightarrow> u8 list option \<Rightarrow> u16" where
  "check_ssid h ssid_ie =
     (case ssid_ie of
        None \<Rightarrow> WLAN_STATUS_UNSPECIFIED_FAILURE
      | Some ssid \<Rightarrow> if length ssid \<noteq> length (conf_ssid h) \<or> ssid \<noteq> ssid_bytes (conf_ssid h)
                      then WLAN_STATUS_UNSPECIFIED_FAILURE else WLAN_STATUS_SUCCESS)"

definition hostapd_eid_wmm_valid :: "u8 list \<Rightarrow> bool" where
  "hostapd_eid_wmm_valid eid \<longleftrightarrow> \<not> length eid < 7 \<and> \<not> (eid ! 4 \<noteq> 0 \<or> eid ! 5 \<noteq> 1)"

definition check_wmm :: "mgmt_conf \<Rightarrow> u8 list option \<Rightarrow> sta_info \<Rightarrow> u16 \<times> sta_info" where
  "check_wmm cf wmm_ie s =
     (let s1 = (clear_flag WLAN_STA_WMM s)\<lparr>qosinfo := 0\<rparr>
      in case wmm_ie of
           None \<Rightarrow> (WLAN_STATUS_SUCCESS, s1)
         | Some ie \<Rightarrow>
             if \<not> wmm_enabled cf then (WLAN_STATUS_SUCCESS, s1)
             else if \<not> hostapd_eid_wmm_valid ie then (WLAN_STATUS_UNSPECIFIED_FAILURE, s1)
             else (WLAN_STATUS_SUCCESS, (set_flag WLAN_STA_WMM s1)\<lparr>qosinfo := ie ! 6\<rparr>))"

text \<open>\<^verbatim>\<open>merge_byte_arrays\<close> of \<^verbatim>\<open>hostapd/src/utils/common.c\<close>: the bytes of the result up to its length.\<close>

definition merge_byte_arrays :: "nat \<Rightarrow> u8 list option \<Rightarrow> u8 list option \<Rightarrow> u8 list" where
  "merge_byte_arrays res_len src1 src2 =
     (case src1 of
        Some a \<Rightarrow> if length a \<ge> res_len then take res_len a
                   else (case src2 of
                           None \<Rightarrow> a
                         | Some b \<Rightarrow> if length a + length b \<ge> res_len then a @ take (res_len - length a) b else a @ b)
      | None \<Rightarrow> (case src2 of
                   None \<Rightarrow> []
                 | Some b \<Rightarrow> if length b \<ge> res_len then take res_len b else b))"

definition ie_len :: "u8 list option \<Rightarrow> nat" where
  "ie_len ie = (case ie of None \<Rightarrow> 0 | Some b \<Rightarrow> length b)"

definition copy_supp_rates :: "ieee802_11_elems \<Rightarrow> sta_info \<Rightarrow> u16 \<times> sta_info" where
  "copy_supp_rates elems s =
     (if elems F_supp_rates = None then (WLAN_STATUS_UNSPECIFIED_FAILURE, s)
      else if ie_len (elems F_supp_rates) + ie_len (elems F_ext_supp_rates) > 32
      then (WLAN_STATUS_UNSPECIFIED_FAILURE, s)
      else (WLAN_STATUS_SUCCESS,
            s\<lparr>supported_rates := merge_byte_arrays 32 (elems F_supp_rates) (elems F_ext_supp_rates)\<rparr>))"

text \<open>The WPA part: which element counts, and what follows from the verdict on it.\<close>

definition assoc_wpa_ie :: "mgmt_conf \<Rightarrow> ieee802_11_elems \<Rightarrow> u8 list option" where
  "assoc_wpa_ie cf elems =
     (if conf_wpa cf AND 2 \<noteq> 0 \<and> elems F_rsn_ie \<noteq> None then elems F_rsn_ie
      else if conf_wpa cf AND 1 \<noteq> 0 \<and> elems F_wpa_ie \<noteq> None then elems F_wpa_ie
      else None)"

definition check_wpa ::
  "mgmt_env \<Rightarrow> mgmt_conf \<Rightarrow> bool \<Rightarrow> ieee802_11_elems \<Rightarrow> hostapd_data \<Rightarrow> sta_info \<Rightarrow> u16 \<times> hostapd_data \<times> sta_info" where
  "check_wpa e cf reassoc elems h s =
     (if conf_wpa cf = 0 then (WLAN_STATUS_SUCCESS, emit (NoWpa (sta_addr s)) h, s)
      else case assoc_wpa_ie cf elems of
             None \<Rightarrow> (WLAN_STATUS_INVALID_IE, h, s)
           | Some ie \<Rightarrow>
               let (resp, mfp) = wpa_check e reassoc s ie
               in if resp \<noteq> WLAN_STATUS_SUCCESS then (resp, h, s)
                  else (WLAN_STATUS_SUCCESS, h, if mfp then set_flag WLAN_STA_MFP s else clear_flag WLAN_STA_MFP s))"

definition check_assoc_ies ::
  "mgmt_env \<Rightarrow> mgmt_conf \<Rightarrow> bool \<Rightarrow> u8 list \<Rightarrow> hostapd_data \<Rightarrow> sta_info \<Rightarrow> u16 \<times> hostapd_data \<times> sta_info" where
  "check_assoc_ies e cf reassoc ies h s =
     (let (pres, elems) = ieee802_11_parse_elems ies
      in if pres = ParseFailed then (WLAN_STATUS_UNSPECIFIED_FAILURE, h, s)
         else let r1 = check_ssid h (elems F_ssid)
              in if r1 \<noteq> WLAN_STATUS_SUCCESS then (r1, h, s)
                 else let (r2, s2) = check_wmm cf (elems F_wmm) s
                      in if r2 \<noteq> WLAN_STATUS_SUCCESS then (r2, h, s2)
                         else let (r3, s3) = copy_supp_rates elems s2
                              in if r3 \<noteq> WLAN_STATUS_SUCCESS then (r3, h, s3)
                                 else check_wpa e cf reassoc elems h s3)"

text \<open>
  What an accepted association changes in the station and in the counters of the interface, and
  whether the beacons have to be rebuilt.
\<close>

definition count_nonerp :: "iface_counters \<times> hostapd_data \<times> sta_info \<Rightarrow> iface_counters \<times> hostapd_data \<times> sta_info" where
  "count_nonerp r =
     (case r of (c, h, s) \<Rightarrow>
        if has_flag s WLAN_STA_NONERP \<and> \<not> nonerp_set s
        then let n = num_sta_non_erp c + 1
             in (c\<lparr>num_sta_non_erp := n\<rparr>, emit_if (n = 1) SetBeacons h, s\<lparr>nonerp_set := True\<rparr>)
        else r)"

definition count_slot_time :: "iface_counters \<times> hostapd_data \<times> sta_info \<Rightarrow> iface_counters \<times> hostapd_data \<times> sta_info" where
  "count_slot_time r =
     (case r of (c, h, s) \<Rightarrow>
        if capability s AND 0x0400 = 0 \<and> \<not> no_short_slot_time_set s
        then let n = num_sta_no_short_slot_time c + 1
             in (c\<lparr>num_sta_no_short_slot_time := n\<rparr>, emit_if (mode_11g c \<and> n = 1) SetBeacons h,
                 s\<lparr>no_short_slot_time_set := True\<rparr>)
        else r)"

definition count_preamble :: "iface_counters \<times> hostapd_data \<times> sta_info \<Rightarrow> iface_counters \<times> hostapd_data \<times> sta_info" where
  "count_preamble r =
     (case r of (c, h, s0) \<Rightarrow>
        let s = (if capability s0 AND 0x0020 \<noteq> 0 then set_flag WLAN_STA_SHORT_PREAMBLE s0
                 else clear_flag WLAN_STA_SHORT_PREAMBLE s0)
        in if capability s AND 0x0020 = 0 \<and> \<not> no_short_preamble_set s
           then let n = num_sta_no_short_preamble c + 1
                in (c\<lparr>num_sta_no_short_preamble := n\<rparr>, emit_if (mode_11g c \<and> n = 1) SetBeacons h,
                    s\<lparr>no_short_preamble_set := True\<rparr>)
           else (c, h, s))"

definition set_nonerp :: "iface_counters \<Rightarrow> sta_info \<Rightarrow> sta_info" where
  "set_nonerp c s =
     (let s1 = (if mode_11g c then set_flag WLAN_STA_NONERP s else s)
      in if list_ex (\<lambda>r. r AND 0x7f > 22) (supported_rates s1) then clear_flag WLAN_STA_NONERP s1 else s1)"

definition assoc_accept ::
  "iface_counters \<Rightarrow> u16 \<Rightarrow> u16 \<Rightarrow> hostapd_data \<Rightarrow> sta_info \<Rightarrow> iface_counters \<times> hostapd_data \<times> sta_info" where
  "assoc_accept c capab interval h s =
     (let (c1, h1, s1) =
            count_preamble (count_slot_time (count_nonerp
              (c, h, set_nonerp c (s\<lparr>capability := capab, listen_interval := interval\<rparr>))))
      in (c1, h1, (set_flag WLAN_STA_ASSOC_REQ_OK s1)\<lparr>timeout_next := STA_NULLFUNC\<rparr>))"

text \<open>The verdict on an association request of an authenticated station.\<close>

definition assoc_result ::
  "mgmt_env \<Rightarrow> mgmt_conf \<Rightarrow> bool \<Rightarrow> u8 list \<Rightarrow> iface_counters \<Rightarrow> hostapd_data \<Rightarrow> sta_info \<Rightarrow>
   u16 \<times> iface_counters \<times> hostapd_data \<times> sta_info" where
  "assoc_result e cf reassoc b c h s =
     (let interval = le16_at b 26
      in if tkip_countermeasures e then (WLAN_REASON_MICHAEL_MIC_FAILURE, c, h, s)
         else if interval > max_listen_interval cf then (WLAN_STATUS_ASSOC_DENIED_LISTEN_INT_TOO_LARGE, c, h, s)
         else let (resp, h1, s1) = check_assoc_ies e cf reassoc (drop (if reassoc then 34 else 28) b) h s
              in if resp \<noteq> WLAN_STATUS_SUCCESS then (resp, c, h1, s1)
                 else case hostapd_get_aid h1 s1 of
                        None \<Rightarrow> (WLAN_STATUS_AP_UNABLE_TO_HANDLE_NEW_STA, c, h1, s1)
                      | Some (h2, s2) \<Rightarrow>
                          if ubus_refuses e then (WLAN_STATUS_UNSPECIFIED_FAILURE, c, h2, s2)
                          else (WLAN_STATUS_SUCCESS, assoc_accept c (le16_at b 24) interval h2 s2))"

text \<open>
  The conditional of the check for repeated frames binds weaker than the conjunction, so the
  subtype is compared with the flag \<open>reassoc\<close>, 0 or 1, itself; the value of the chosen branch is the
  number of the request, 2 for a reassociation and 0 for an association.
\<close>

definition assoc_repeated :: "u8 list \<Rightarrow> bool \<Rightarrow> sta_info \<Rightarrow> bool" where
  "assoc_repeated b reassoc s \<longleftrightarrow>
     (if repeated b (if reassoc then 1 else 0) s then WLAN_FC_STYPE_REASSOC_REQ else WLAN_FC_STYPE_ASSOC_REQ) \<noteq> 0"

definition handle_assoc ::
  "mgmt_env \<Rightarrow> mgmt_conf \<Rightarrow> bool \<Rightarrow> u8 list \<Rightarrow> nat \<Rightarrow> hostapd_iface \<Rightarrow> hostapd_iface res" where
  "handle_assoc e cf reassoc b i st =
     (if length b < (if reassoc then 34 else 28) then Inr st
      else let h = bsses st ! i; sa = addr2 b;
               deauth = on_bss i st (send_deauth sa WLAN_REASON_CLASS2_FRAME_FROM_NONAUTH_STA)
           in case ap_get_sta h sa of
                None \<Rightarrow> Inr deauth
              | Some p \<Rightarrow> with_sta h p (\<lambda>s.
                  if \<not> has_flag s WLAN_STA_AUTH then Inr deauth
                  else if assoc_repeated b reassoc s then Inr st
                  else let s1 = s\<lparr>last_seq_ctrl := le16_at b 22,
                                  last_subtype := (if reassoc then WLAN_FC_STYPE_REASSOC_REQ else WLAN_FC_STYPE_ASSOC_REQ)\<rparr>;
                           (resp, c2, h2, s2) = assoc_result e cf reassoc b (counters st) h s1
                       in Inr (set_bss i (send_assoc_resp e cf c2 s2 resp reassoc (put_sta s2 h2)) (st\<lparr>counters := c2\<rparr>))))"

section \<open>Leaving and other frames\<close>

definition disassoc_station :: "u16 \<Rightarrow> hostapd_data \<Rightarrow> sta_info \<Rightarrow> hostapd_data" where
  "disassoc_station reason h s =
     (let m = sta_addr s;
          (h1, s1) = ap_sta_set_authorized h s False;
          s2 = (clear_flag (WLAN_STA_ASSOC OR WLAN_STA_ASSOC_REQ_OK) (s1\<lparr>last_seq_ctrl := WLAN_INVALID_MGMT_SEQ\<rparr>))
                 \<lparr>acct_terminate_cause := 1\<rparr>;
          h2 = emit (Free8021x m) (emit (AccountingStop m) (emit (PortEnabled m False) (emit (WpaDisassoc m) h1)));
          h3 = emit (DrvStaRemove m) (emit_if (ipaddr s2 \<noteq> 0) (DeleteIpNeigh m) h2);
          (h4, s4) = (if timeout_next s2 = STA_NULLFUNC \<or> timeout_next s2 = STA_DISASSOC
                      then (eloop_register_timeout 1 HandleTimer m (eloop_cancel_timeout HandleTimer m h3),
                            s2\<lparr>timeout_next := STA_DEAUTH\<rparr>)
                      else (h3, s2))
      in emit (MlmeDisassoc m reason) (put_sta s4 h4))"

definition handle_disassoc :: "u8 list \<Rightarrow> nat \<Rightarrow> hostapd_iface \<Rightarrow> hostapd_iface res" where
  "handle_disassoc b i st =
     (if length b < 26 then Inr st
      else let h = bsses st ! i
           in case ap_get_sta h (addr2 b) of
                None \<Rightarrow> Inr st
              | Some p \<Rightarrow> with_sta h p (\<lambda>s. Inr (on_bss i st (\<lambda>h. disassoc_station (le16_at b 24) h s))))"

definition handle_deauth :: "u8 list \<Rightarrow> nat \<Rightarrow> hostapd_iface \<Rightarrow> hostapd_iface res" where
  "handle_deauth b i st =
     (if length b < 26 then Inr st
      else let h = bsses st ! i
           in case ap_get_sta h (addr2 b) of
                None \<Rightarrow> Inr st
              | Some p \<Rightarrow> with_sta h p (\<lambda>s.
                  let (h1, s1) = ap_sta_set_authorized h s False;
                      s2 = (clear_flag (WLAN_STA_AUTH OR WLAN_STA_ASSOC OR WLAN_STA_ASSOC_REQ_OK)
                              (s1\<lparr>last_seq_ctrl := WLAN_INVALID_MGMT_SEQ\<rparr>))\<lparr>acct_terminate_cause := 1\<rparr>;
                      h2 = emit (PortEnabled p False) (emit (MlmeDeauth p (le16_at b 24)) (emit (WpaDeauth p) h1))
                  in bind_res (ap_free_sta (counters st) (put_sta s2 h2) p) (\<lambda>(c', h').
                       Inr (set_bss i h' (st\<lparr>counters := c'\<rparr>)))))"

definition handle_beacon :: "u8 list \<Rightarrow> nat \<Rightarrow> hostapd_iface \<Rightarrow> hostapd_iface" where
  "handle_beacon b i st = (if length b < 36 then st else on_bss i st (emit (ApListBeacon (addr2 b))))"

definition robust_action_frame :: "u8 \<Rightarrow> bool" where
  "robust_action_frame category \<longleftrightarrow> category \<noteq> 4 \<and> category \<noteq> 7"

text \<open>An action frame that nobody handles goes back to its sender with the top bit of the category set.\<close>

definition returned_action :: "mac \<Rightarrow> u8 list \<Rightarrow> u8 list" where
  "returned_action own b = take 4 b @ addr2 b @ own @ own @ take 2 (drop 22 b) @ (b ! 24 OR 0x80) # drop 25 b"

definition action_dispatch :: "mgmt_env \<Rightarrow> u8 list \<Rightarrow> hostapd_data \<Rightarrow> nat \<times> hostapd_data" where
  "action_dispatch e b h =
     (let cat = b ! 24; sa = addr2 b;
          unknown = (\<lambda>h. (1, emit_if (addr1 b ! 0 AND 1 = 0 \<and> cat AND 0x80 = 0 \<and> sa ! 0 AND 1 = 0)
                               (SendMlme (returned_action (own_addr h) b)) h))
      in if cat = 17 then (1, emit (WmmAction sa) h)
         else if cat = 8 then (if length b < 28 then (0, h) else (1, emit (SaQueryAction sa) h))
         else if cat = 4 \<or> cat = 9 then (if public_cb e then (1, emit (PublicAction sa) h) else unknown h)
         else if cat = 127 then (if vendor_cb e then (1, emit (VendorAction sa) h) else unknown h)
         else unknown h)"

definition handle_action :: "mgmt_env \<Rightarrow> u8 list \<Rightarrow> nat \<Rightarrow> hostapd_iface \<Rightarrow> (nat \<times> hostapd_iface) res" where
  "handle_action e b i st =
     (let h = bsses st ! i; dispatch = (\<lambda>h. let (r, h') = action_dispatch e b h in Inr (r, set_bss i h' st))
      in if length b < 25 then Inr (0, st)
         else case ap_get_sta h (addr2 b) of
                None \<Rightarrow> if b ! 24 \<noteq> 4 then Inr (0, st) else dispatch h
              | Some p \<Rightarrow> with_sta h p (\<lambda>s.
                  if b ! 24 \<noteq> 4 \<and> \<not> has_flag s WLAN_STA_ASSOC then Inr (0, st)
                  else if has_flag s WLAN_STA_MFP \<and> le16_at b 0 AND WLAN_FC_ISWEP = 0 \<and> robust_action_frame (b ! 24)
                  then Inr (0, st)
                  else if repeated b WLAN_FC_STYPE_ACTION s then Inr (1, st)
                  else dispatch (put_sta (s\<lparr>last_seq_ctrl := le16_at b 22, last_subtype := WLAN_FC_STYPE_ACTION\<rparr>) h)))"

text \<open>
  A probe request as \<open>Beacon\<close> takes it: the elements that count, and behind the SSID list what
  follows it in the frame.
\<close>

function (sequential) behind_ssid_list :: "u8 list \<Rightarrow> u8 list \<Rightarrow> u8 list" where
  "behind_ssid_list (i # n # rest) acc =
     (if unat n > length rest then acc
      else behind_ssid_list (drop (unat n) rest) (if i = 84 then drop (unat n) rest else acc))"
| "behind_ssid_list _ acc = acc"
  by pat_completeness auto
termination
  by (relation "measure (\<lambda>(ies, _). length ies)") auto

definition text_of :: "u8 list \<Rightarrow> string" where
  "text_of b = map (\<lambda>w. char_of (unat w)) b"

definition probe_of :: "u8 list \<Rightarrow> probe_req" where
  "probe_of b =
     (let ies = drop 24 b; (pres, elems) = ieee802_11_parse_elems ies
      in \<lparr>pr_da = addr1 b, pr_sa = addr2 b, pr_bssid = addr3 b, pr_len = length b,
          pr_elems = (if pres = ParseFailed then None
                      else Some \<lparr>pe_ssid = map_option text_of (elems F_ssid),
                                 pe_rates = (elems F_supp_rates \<noteq> None),
                                 pe_ds_params = map_option text_of (elems F_ds_params),
                                 pe_ssid_list = map_option (\<lambda>l. (text_of l, text_of (behind_ssid_list ies [])))
                                                  (elems F_ssid_list)\<rparr>)\<rparr>)"

section \<open>Reception\<close>

text \<open>
  The arguments of the handlers: the surroundings, the configuration of each BSS, and for
  probe requests the table of the controller with the state of the connection.
\<close>

record mgmt_ctx =
  env :: mgmt_env
  conf :: "nat \<Rightarrow> mgmt_conf"
  probe_ctx :: probe_env
  controller :: bool
  assigned :: dense_station_hash

definition ieee802_11_mgmt :: "mgmt_ctx \<Rightarrow> u8 list \<Rightarrow> nat \<Rightarrow> hostapd_iface \<Rightarrow> (nat \<times> hostapd_iface) res" where
  "ieee802_11_mgmt x b i st =
     (if length b < 24 then Inr (0, st)
      else let h = bsses st ! i; stype = WLAN_FC_GET_STYPE (le16_at b 0);
               done = (\<lambda>r. bind_res r (\<lambda>st'. Inr (1, st')))
           in if stype = WLAN_FC_STYPE_BEACON then Inr (1, handle_beacon b i st)
              else if addr3 b \<noteq> bcast \<and> addr3 b \<noteq> own_addr h then Inr (0, st)
              else if stype = WLAN_FC_STYPE_PROBE_REQ
              then done (bind_res (handle_probe_req (probe_ctx x) (controller x) (assigned x) h (probe_of b))
                           (\<lambda>h'. Inr (set_bss i h' st)))
              else if addr1 b \<noteq> own_addr h then Inr (0, st)
              else if stype = WLAN_FC_STYPE_AUTH then done (handle_auth (env x) (conf x i) b i st)
              else if stype = WLAN_FC_STYPE_ASSOC_REQ then done (handle_assoc (env x) (conf x i) False b i st)
              else if stype = WLAN_FC_STYPE_REASSOC_REQ then done (handle_assoc (env x) (conf x i) True b i st)
              else if stype = WLAN_FC_STYPE_DISASSOC then done (handle_disassoc b i st)
              else if stype = WLAN_FC_STYPE_DEAUTH then done (handle_deauth b i st)
              else if stype = WLAN_FC_STYPE_ACTION then handle_action (env x) b i st
              else Inr (0, st))"

datatype bss_choice = NoBss | HAPD_BROADCAST | OneBss nat

definition get_hapd_bssid :: "hostapd_iface \<Rightarrow> mac option \<Rightarrow> bss_choice" where
  "get_hapd_bssid st bs =
     (case bs of
        None \<Rightarrow> NoBss
      | Some m \<Rightarrow> if m = bcast then HAPD_BROADCAST
                   else (case find_bss 0 m (bsses st) of None \<Rightarrow> NoBss | Some i \<Rightarrow> OneBss i))"

definition get_hapd_bssid_dense :: "hostapd_iface \<Rightarrow> mac option \<Rightarrow> mac \<Rightarrow> bss_choice" where
  "get_hapd_bssid_dense st bs sa =
     (case bs of
        None \<Rightarrow> NoBss
      | Some m \<Rightarrow> if m = bcast then HAPD_BROADCAST
                   else (case find_bss 0 m (bsses st) of
                           None \<Rightarrow> NoBss
                         | Some i \<Rightarrow> if sa = own_sta (bsses st ! i) \<or> flag_priv (bsses st ! i) = VAP_UNLOCK
                                      then OneBss i else NoBss))"

text \<open>
  A frame to the broadcast address goes to every BSS, or to the one whose driver data \<open>drv\<close> it
  carries; the loop's result is 1 when a BSS handled it.
\<close>

fun mgmt_rx_all :: "mgmt_ctx \<Rightarrow> u8 list \<Rightarrow> nat option \<Rightarrow> nat list \<Rightarrow> nat \<Rightarrow> hostapd_iface \<Rightarrow> (nat \<times> hostapd_iface) res" where
  "mgmt_rx_all x b drv [] ret st = Inr (ret, st)"
| "mgmt_rx_all x b drv (i # is) ret st =
     (if drv \<noteq> None \<and> drv \<noteq> Some i then mgmt_rx_all x b drv is ret st
      else bind_res (ieee802_11_mgmt x b i st) (\<lambda>(r, st'). mgmt_rx_all x b drv is (if r > 0 then 1 else ret) st'))"

definition hostapd_mgmt_rx :: "mgmt_ctx \<Rightarrow> u8 list \<Rightarrow> nat option \<Rightarrow> hostapd_iface \<Rightarrow> (nat \<times> hostapd_iface) res" where
  "hostapd_mgmt_rx x b drv st =
     bind_res (get_hdr_bssid b) (\<lambda>bs.
       if bs = None then Inr (0, st)
       else case get_hapd_bssid st bs of
              NoBss \<Rightarrow>
                if WLAN_FC_GET_TYPE (le16_at b 0) = 0 \<and> WLAN_FC_GET_STYPE (le16_at b 0) = WLAN_FC_STYPE_BEACON
                then ieee802_11_mgmt x b 0 st else Inr (0, st)
            | HAPD_BROADCAST \<Rightarrow> mgmt_rx_all x b drv [0..<length (bsses st)] 0 st
            | OneBss i \<Rightarrow> ieee802_11_mgmt x b i st)"

section \<open>Transmission status\<close>

definition handle_auth_cb :: "u8 list \<Rightarrow> bool \<Rightarrow> hostapd_data \<Rightarrow> hostapd_data res" where
  "handle_auth_cb b ok h =
     (if \<not> ok \<or> length b < 30 then Inr h
      else let alg = le16_at b 24; tr = le16_at b 26; status = le16_at b 28
           in case ap_get_sta h (addr1 b) of
                None \<Rightarrow> Inr h
              | Some p \<Rightarrow> with_sta h p (\<lambda>s.
                  if status = WLAN_STATUS_SUCCESS \<and>
                     (alg = WLAN_AUTH_OPEN \<and> tr = 2 \<or> alg = WLAN_AUTH_SHARED_KEY \<and> tr = 4)
                  then Inr (put_sta (set_flag WLAN_STA_AUTH s) h) else Inr h))"

text \<open>The confirmed association: the station is marked, told to the MLME and given to the driver.\<close>

definition confirm_station :: "mgmt_conf \<Rightarrow> bool \<Rightarrow> hostapd_data \<Rightarrow> sta_info \<Rightarrow> hostapd_data \<times> sta_info" where
  "confirm_station cf reassoc h s =
     (let m = sta_addr s;
          s1 = clear_flag WLAN_STA_WNM_SLEEP_MODE (set_flag WLAN_STA_ASSOC s);
          (h2, s2) = (if \<not> ieee802_1x cf \<and> conf_wpa cf = 0 \<and> \<not> osen cf \<or> auth_alg s1 = WLAN_AUTH_FT
                      then ap_sta_set_authorized (emit (AccountingStop m) h) s1 True
                      else (emit (AccountingStop m) h, s1))
      in (emit (DrvStaAdd m (aid s2)) (emit (DrvStaRemove m)
            (emit (if reassoc then MlmeReassoc m else MlmeAssoc m) (put_sta s2 h2))), s2))"

definition handle_assoc_cb ::
  "mgmt_env \<Rightarrow> mgmt_conf \<Rightarrow> iface_counters \<Rightarrow> bool \<Rightarrow> u8 list \<Rightarrow> bool \<Rightarrow> hostapd_data \<Rightarrow> hostapd_data res" where
  "handle_assoc_cb e cf c reassoc b ok h =
     (if length b < 30 then Inr h
      else case ap_get_sta h (addr1 b) of
             None \<Rightarrow> Inr h
           | Some p \<Rightarrow> with_sta h p (\<lambda>s.
               if \<not> ok then Inr (put_sta (clear_flag WLAN_STA_ASSOC_REQ_OK s) h)
               else if le16_at b 26 \<noteq> WLAN_STATUS_SUCCESS then Inr h
               else let (h1, s1) = confirm_station cf reassoc h s
                    in if \<not> driver_adds e then ap_sta_disconnect c h1 p WLAN_REASON_DISASSOC_AP_BUSY
                       else let h2 = emit_if (has_flag s1 WLAN_STA_WDS) (SetWdsSta p) h1
                            in if \<not> vlan_bound e then Inr h2
                               else Inr (emit (PortEnabled p True) (emit (NewAssocSta p (has_flag s WLAN_STA_ASSOC))
                                      (emit (WpaAssoc p) (emit (SetStaFlags p) h2))))))"

definition handle_leave_cb :: "(hostapd_data \<Rightarrow> mac \<Rightarrow> hostapd_data res) \<Rightarrow> u8 list \<Rightarrow> hostapd_data \<Rightarrow> hostapd_data res" where
  "handle_leave_cb cb b h =
     (if addr1 b ! 0 AND 1 \<noteq> 0 then Inr h
      else case ap_get_sta h (addr1 b) of None \<Rightarrow> Inr h | Some p \<Rightarrow> cb h p)"

definition handle_deauth_cb :: "u8 list \<Rightarrow> hostapd_data \<Rightarrow> hostapd_data res" where
  "handle_deauth_cb = handle_leave_cb ap_sta_deauth_cb"

definition handle_disassoc_cb :: "u8 list \<Rightarrow> hostapd_data \<Rightarrow> hostapd_data res" where
  "handle_disassoc_cb = handle_leave_cb ap_sta_disassoc_cb"

definition ieee802_11_mgmt_cb ::
  "mgmt_env \<Rightarrow> mgmt_conf \<Rightarrow> iface_counters \<Rightarrow> u8 list \<Rightarrow> nat \<Rightarrow> bool \<Rightarrow> hostapd_data \<Rightarrow> hostapd_data res" where
  "ieee802_11_mgmt_cb e cf c b stype ok h =
     (if stype = WLAN_FC_STYPE_AUTH then handle_auth_cb b ok h
      else if stype = WLAN_FC_STYPE_ASSOC_RESP then handle_assoc_cb e cf c False b ok h
      else if stype = WLAN_FC_STYPE_REASSOC_RESP then handle_assoc_cb e cf c True b ok h
      else if stype = WLAN_FC_STYPE_DEAUTH then handle_deauth_cb b h
      else if stype = WLAN_FC_STYPE_DISASSOC then handle_disassoc_cb b h
      else Inr h)"

definition hostapd_mgmt_tx_cb :: "mgmt_ctx \<Rightarrow> u8 list \<Rightarrow> nat \<Rightarrow> bool \<Rightarrow> hostapd_iface \<Rightarrow> hostapd_iface res" where
  "hostapd_mgmt_tx_cb x b stype ok st =
     bind_res (get_hdr_bssid b) (\<lambda>bs.
       case get_hapd_bssid st bs of
         OneBss i \<Rightarrow> bind_res (ieee802_11_mgmt_cb (env x) (conf x i) (counters st) b stype ok (bsses st ! i))
                       (\<lambda>h'. Inr (set_bss i h' st))
       | _ \<Rightarrow> Inr st)"

text \<open>
  The BSS of a station for a status report: the one of the report if it has the station, else the
  first of the interface that has it.
\<close>

fun first_with :: "nat \<Rightarrow> mac \<Rightarrow> hostapd_data list \<Rightarrow> (nat \<times> mac) option" where
  "first_with j m [] = None"
| "first_with j m (b # bs) = (case ap_get_sta b m of Some p \<Rightarrow> Some (j, p) | None \<Rightarrow> first_with (Suc j) m bs)"

definition status_sta :: "hostapd_iface \<Rightarrow> nat \<Rightarrow> mac \<Rightarrow> (nat \<times> mac) option" where
  "status_sta st i m =
     (case ap_get_sta (bsses st ! i) m of
        Some p \<Rightarrow> Some (i, p)
      | None \<Rightarrow> if length (bsses st) > 1 then first_with 0 m (bsses st) else None)"

definition hostapd_tx_status :: "nat \<Rightarrow> mac \<Rightarrow> bool \<Rightarrow> hostapd_iface \<Rightarrow> hostapd_iface res" where
  "hostapd_tx_status i m ack st =
     (case status_sta st i m of
        None \<Rightarrow> Inr st
      | Some (j, p) \<Rightarrow> with_sta (bsses st ! j) p (\<lambda>s.
          if \<not> has_flag s WLAN_STA_ASSOC then Inr st
          else let s1 = (if has_flag s WLAN_STA_PENDING_POLL \<and> ack then clear_flag WLAN_STA_PENDING_POLL s else s)
               in Inr (on_bss j st (\<lambda>h. emit (TxStatus8021x p ack) (put_sta s1 h)))))"

definition hostapd_client_poll_ok :: "nat \<Rightarrow> mac \<Rightarrow> hostapd_iface \<Rightarrow> hostapd_iface res" where
  "hostapd_client_poll_ok i m st =
     (case status_sta st i m of
        None \<Rightarrow> Inr st
      | Some (j, p) \<Rightarrow> with_sta (bsses st ! j) p (\<lambda>s.
          if \<not> has_flag s WLAN_STA_PENDING_POLL then Inr st
          else Inr (on_bss j st (put_sta (clear_flag WLAN_STA_PENDING_POLL s)))))"

definition ieee802_11_rx_from_unknown :: "mgmt_conf \<Rightarrow> mac \<Rightarrow> bool \<Rightarrow> hostapd_data \<Rightarrow> hostapd_data res" where
  "ieee802_11_rx_from_unknown cf src wds h =
     (let refuse = (\<lambda>e. Inr (if src ! 0 AND 1 \<noteq> 0 then h else emit e h));
          deauth = DrvStaDeauth src WLAN_REASON_CLASS3_FRAME_FROM_NONASSOC_STA
      in case ap_get_sta h src of
           None \<Rightarrow> refuse deauth
         | Some p \<Rightarrow> with_sta h p (\<lambda>s.
             if has_flag s WLAN_STA_ASSOC
             then Inr (if wds_sta cf \<and> wds \<and> \<not> has_flag s WLAN_STA_WDS
                       then emit (SetWdsSta p) (put_sta (set_flag WLAN_STA_WDS s) h) else h)
             else if src ! 0 AND 1 = 0 \<and> has_flag s WLAN_STA_ASSOC_REQ_OK then Inr h
             else refuse (if has_flag s WLAN_STA_AUTH
                          then DrvStaDisassoc (own_addr h) src WLAN_REASON_CLASS3_FRAME_FROM_NONASSOC_STA
                          else deauth)))"

definition hostapd_rx_from_unknown_sta :: "mgmt_ctx \<Rightarrow> mac option \<Rightarrow> mac \<Rightarrow> bool \<Rightarrow> hostapd_iface \<Rightarrow> hostapd_iface res" where
  "hostapd_rx_from_unknown_sta x bs addr wds st =
     (case get_hapd_bssid st bs of
        OneBss i \<Rightarrow> bind_res (ieee802_11_rx_from_unknown (conf x i) addr wds (bsses st ! i)) (\<lambda>h'. Inr (set_bss i h' st))
      | _ \<Rightarrow> Inr st)"

end
