(* ===== verification/SaQuery.thy ===== *)
theory SaQuery
  imports Mgmt Eloop
begin

unbundle bit_operations_syntax

text \<open>
  The SA Query procedure for stations with management frame protection
  (\<^verbatim>\<open>hostapd/src/ap/sta_info.c\<close>, \<^verbatim>\<open>hostapd/src/ap/ieee802_11_shared.c\<close>, and the gate in
  \<^verbatim>\<open>check_assoc_ies\<close> of \<^verbatim>\<open>hostapd/src/ap/ieee802_11.c\<close>): before an association request replaces a
  protected association, the station is asked over the old one whether it still has it. The record
  holds the fields of one station that take part, with its pending timers and the frames sent to
  it. The count of pending requests is far below the width of an int: each takes two bytes of memory.
\<close>

section \<open>State\<close>

record sa_query =
  sq_addr :: mac
  sq_own :: mac
  sq_flags :: u32
  sq_auth_alg :: u16
  sa_query_count :: int
  sa_query_timed_out :: bool
  sa_query_trans_id :: "u8 list option"
  sa_query_start :: os_reltime
  sq_timers :: "(u32 \<times> u32) list"
  sq_sent :: "u8 list list"

record sa_conf =
  assoc_sa_query_max_timeout :: u32
  assoc_sa_query_retry_timeout :: int

definition sq_mfp :: "sa_query \<Rightarrow> bool" where
  "sq_mfp q \<longleftrightarrow> sq_flags q AND WLAN_STA_MFP \<noteq> 0"

section \<open>Operations\<close>

text \<open>The time since the first request in units of 1024 microseconds, in the arithmetic of a 32-bit \<^verbatim>\<open>time_t\<close>.\<close>

definition sa_query_tu :: "os_reltime \<Rightarrow> sa_query \<Rightarrow> u32" where
  "sa_query_tu now q =
     (let passed = os_reltime_sub now (sa_query_start q)
      in word_of_int (c_div (to_int32 (to_int32 (t_sec passed * 1000000) + t_usec passed)) 1024))"

definition ap_check_sa_query_timeout :: "sa_conf \<Rightarrow> os_reltime \<Rightarrow> sa_query \<Rightarrow> bool \<times> sa_query" where
  "ap_check_sa_query_timeout cf now q =
     (if assoc_sa_query_max_timeout cf < sa_query_tu now q
      then (True, q\<lparr>sa_query_timed_out := True, sa_query_trans_id := None, sa_query_count := 0, sq_timers := []\<rparr>)
      else (False, q))"

definition ieee802_11_send_sa_query_req :: "u8 list \<Rightarrow> sa_query \<Rightarrow> sa_query" where
  "ieee802_11_send_sa_query_req trans_id q =
     q\<lparr>sq_sent := sq_sent q @ [mgmt_header WLAN_FC_STYPE_ACTION (sq_addr q) (sq_own q) (sq_own q) @ [8, 0] @ trans_id]\<rparr>"

text \<open>
  The timer handler: \<open>alloc\<close> says whether there is memory, \<open>rnd\<close> is the random transaction identifier
  (None when there is no randomness).
\<close>

definition ap_sa_query_timer :: "sa_conf \<Rightarrow> os_reltime \<Rightarrow> bool \<Rightarrow> u8 list option \<Rightarrow> sa_query \<Rightarrow> sa_query" where
  "ap_sa_query_timer cf now alloc rnd q =
     (let (out, q0) = (if sa_query_count q > 0 then ap_check_sa_query_timeout cf now q else (False, q))
      in if out then q0
         else if \<not> alloc then q0
         else let trans_id = (case rnd of Some t \<Rightarrow> t | None \<Rightarrow> [0x12, 0x34]);
                  timeout = (word_of_int (assoc_sa_query_retry_timeout cf) :: u32);
                  sec = timeout div 1000 * 1024 div 1000;
                  usec = timeout mod 1000 * 1024
              in ieee802_11_send_sa_query_req trans_id
                   (q0\<lparr>sa_query_start := (if sa_query_count q0 = 0 then now else sa_query_start q0),
                       sa_query_trans_id := Some ((case sa_query_trans_id q0 of None \<Rightarrow> [] | Some b \<Rightarrow> b) @ trans_id),
                       sa_query_count := sa_query_count q0 + 1,
                       sq_timers := sq_timers q0 @ [(sec, usec)]\<rparr>))"

definition ap_sta_start_sa_query :: "sa_conf \<Rightarrow> os_reltime \<Rightarrow> bool \<Rightarrow> u8 list option \<Rightarrow> sa_query \<Rightarrow> sa_query" where
  "ap_sta_start_sa_query = ap_sa_query_timer"

definition ap_sta_stop_sa_query :: "sa_query \<Rightarrow> sa_query" where
  "ap_sta_stop_sa_query q = q\<lparr>sq_timers := [], sa_query_trans_id := None, sa_query_count := 0\<rparr>"

definition ieee802_11_send_sa_query_resp :: "u8 list \<Rightarrow> sa_query \<Rightarrow> sa_query" where
  "ieee802_11_send_sa_query_resp trans_id q =
     (if sq_flags q AND WLAN_STA_ASSOC = 0 then q
      else q\<lparr>sq_sent := sq_sent q @ [mgmt_header WLAN_FC_STYPE_ACTION (sq_addr q) (sq_own q) (sq_own q) @ [8, 1] @ trans_id]\<rparr>)"

text \<open>The loop over the pending identifiers from the \<open>i\<close>-th on; a comparison behind the buffer is an error.\<close>

fun find_trans :: "nat \<Rightarrow> nat \<Rightarrow> u8 list \<Rightarrow> u8 list \<Rightarrow> nat res" where
  "find_trans i 0 buf t = Inr i"
| "find_trans i (Suc n) buf t =
     (if length buf < i * 2 + 2 then Inl OutOfBounds
      else if take 2 (drop (i * 2) buf) = t then Inr i
      else find_trans (Suc i) n buf t)"

definition ieee802_11_sa_query_action :: "u8 \<Rightarrow> u8 list \<Rightarrow> sa_query \<Rightarrow> sa_query res" where
  "ieee802_11_sa_query_action action_type trans_id q =
     (if action_type = 0 then Inr (ieee802_11_send_sa_query_resp trans_id q)
      else if action_type \<noteq> 1 then Inr q
      else case sa_query_trans_id q of
             None \<Rightarrow> Inr q
           | Some buf \<Rightarrow>
               bind_res (find_trans 0 (nat (sa_query_count q)) buf trans_id) (\<lambda>i.
                 Inr (if int i \<ge> sa_query_count q then q else ap_sta_stop_sa_query q)))"

definition hostapd_sa_query_action :: "u8 list \<Rightarrow> sa_query \<Rightarrow> (nat \<times> sa_query) res" where
  "hostapd_sa_query_action b q =
     (if length b < 28 then Inr (0, q)
      else bind_res (ieee802_11_sa_query_action (b ! 25) (take 2 (drop 26 b)) q) (\<lambda>q'. Inr (1, q')))"

definition hostapd_eid_assoc_comeback_time :: "sa_conf \<Rightarrow> os_reltime \<Rightarrow> sa_query \<Rightarrow> u8 list" where
  "hostapd_eid_assoc_comeback_time cf now q =
     (let tu = sa_query_tu now q; m = assoc_sa_query_max_timeout cf;
          timeout = (if m > tu then m - tu else 0);
          timeout' = (if timeout < m then timeout + 1 else timeout)
      in [56, 5, 3, ucast timeout', ucast (drop_bit 8 timeout'), ucast (drop_bit 16 timeout'), ucast (drop_bit 24 timeout')])"

definition WLAN_STATUS_ASSOC_REJECTED_TEMPORARILY :: u16 where
  "WLAN_STATUS_ASSOC_REJECTED_TEMPORARILY = 30"

text \<open>The part of \<^verbatim>\<open>check_assoc_ies\<close> behind an acceptable RSN element; \<open>uses_mfp\<close> says what that asks for.\<close>

definition sa_query_gate ::
  "sa_conf \<Rightarrow> os_reltime \<Rightarrow> bool \<Rightarrow> u8 list option \<Rightarrow> bool \<Rightarrow> bool \<Rightarrow> sa_query \<Rightarrow> u16 \<times> sa_query" where
  "sa_query_gate cf now alloc rnd reassoc uses_mfp q =
     (let q1 = (if sq_mfp q \<and> \<not> sa_query_timed_out q \<and> sa_query_count q > 0
                then snd (ap_check_sa_query_timeout cf now q) else q)
      in if sq_mfp q1 \<and> \<not> sa_query_timed_out q1 \<and> (\<not> reassoc \<or> sq_auth_alg q1 \<noteq> WLAN_AUTH_FT)
         then (WLAN_STATUS_ASSOC_REJECTED_TEMPORARILY,
               if sa_query_count q1 = 0 then ap_sta_start_sa_query cf now alloc rnd q1 else q1)
         else (WLAN_STATUS_SUCCESS,
               q1\<lparr>sq_flags := (if uses_mfp then sq_flags q1 OR WLAN_STA_MFP else sq_flags q1 AND NOT WLAN_STA_MFP)\<rparr>))"

text \<open>The part of \<^verbatim>\<open>handle_assoc_cb\<close> that ends the procedure.\<close>

definition sa_query_confirm :: "sa_query \<Rightarrow> sa_query" where
  "sa_query_confirm q = q\<lparr>sq_flags := sq_flags q OR WLAN_STA_ASSOC, sa_query_timed_out := False\<rparr>"

section \<open>Steps\<close>

text \<open>
  Requests, expiries of a pending timer (the loop takes it out before it calls the handler), SA
  Query frames, and acknowledged association responses.
\<close>

datatype sa_event =
    AssocRequest os_reltime bool "u8 list option" bool bool
  | QueryExpires os_reltime bool "u8 list option"
  | QueryFrame "u8 list"
  | AssocConfirmed

fun sa_step :: "sa_conf \<Rightarrow> sa_event \<Rightarrow> sa_query \<Rightarrow> sa_query res" where
  "sa_step cf (AssocRequest now alloc rnd re mfp) q = Inr (snd (sa_query_gate cf now alloc rnd re mfp q))"
| "sa_step cf (QueryExpires now alloc rnd) q = Inr (ap_sa_query_timer cf now alloc rnd (q\<lparr>sq_timers := tl (sq_timers q)\<rparr>))"
| "sa_step cf (QueryFrame b) q = bind_res (hostapd_sa_query_action b q) (\<lambda>(n, q'). Inr q')"
| "sa_step cf AssocConfirmed q = Inr (sa_query_confirm q)"

definition rnd_ok :: "u8 list option \<Rightarrow> bool" where
  "rnd_ok r \<longleftrightarrow> (case r of None \<Rightarrow> True | Some t \<Rightarrow> length t = 2)"

fun sa_can :: "sa_event \<Rightarrow> sa_query \<Rightarrow> bool" where
  "sa_can (AssocRequest now alloc rnd re mfp) q = rnd_ok rnd"
| "sa_can (QueryExpires now alloc rnd) q = (rnd_ok rnd \<and> sq_timers q \<noteq> [])"
| "sa_can (QueryFrame b) q = True"
| "sa_can AssocConfirmed q = True"

inductive sa_run :: "sa_conf \<Rightarrow> sa_query \<Rightarrow> sa_query \<Rightarrow> bool" for cf where
  sa_start: "sa_run cf q q"
| sa_next: "sa_run cf q q1 \<Longrightarrow> sa_can e q1 \<Longrightarrow> sa_step cf e q1 = Inr q2 \<Longrightarrow> sa_run cf q q2"

end
