(* ===== verification/StaTimers.thy ===== *)
theory StaTimers
  imports EloopTimers StaLife
begin

text \<open>
  The timers of the stations over the whole life of a BSS. Every station has exactly one
  inactivity timer, no timer is set twice, and none outlives its station, whatever the order in
  which stations join, leave, are disconnected and timers expire; so no handler of a timer
  touches a freed station. The last section shows that the list \<open>timers\<close> of the station table
  and the list of the event loop stay in step.
\<close>

section \<open>Pending timers\<close>

definition pending :: "hostapd_data \<Rightarrow> (timer_kind \<times> mac) list" where
  "pending h = map (\<lambda>(k, m, _). (k, m)) (timers h)"

definition rearm :: "timer_kind \<Rightarrow> mac \<Rightarrow> (timer_kind \<times> mac) list \<Rightarrow> (timer_kind \<times> mac) list" where
  "rearm k m ps = filter (\<lambda>p. p \<noteq> (k, m)) ps @ [(k, m)]"

lemma pending_register [simp]: "pending (StaTable.eloop_register_timeout n k m h) = pending h @ [(k, m)]"
  by (simp add: pending_def)

lemma pending_cancel [simp]: "pending (StaTable.eloop_cancel_timeout k m h) = filter (\<lambda>p. p \<noteq> (k, m)) (pending h)"
  by (auto simp: pending_def StaTable.eloop_cancel_timeout_def filter_map o_def case_prod_beta intro!: arg_cong[of _ _ "map _"] filter_cong)

lemma pending_simps [simp]:
  "pending (emit e h) = pending h" "pending (emit_if b e h) = pending h" "pending (put_sta s h) = pending h"
  "pending (fst (ap_sta_set_authorized h s a)) = pending h"
  by (simp_all add: pending_def)

definition timers_ok :: "mac set \<Rightarrow> (timer_kind \<times> mac) list \<Rightarrow> bool" where
  "timers_ok K ps \<longleftrightarrow> distinct ps \<and> snd ` set ps \<subseteq> K \<and> (\<forall>m \<in> K. (HandleTimer, m) \<in> set ps)"

text \<open>The same while the handler of the inactivity timer of \<open>m\<close> runs: its entry is out of the list.\<close>

definition timers_ok_but :: "mac \<Rightarrow> mac set \<Rightarrow> (timer_kind \<times> mac) list \<Rightarrow> bool" where
  "timers_ok_but m K ps \<longleftrightarrow> distinct ps \<and> snd ` set ps \<subseteq> K \<and> (\<forall>n \<in> K - {m}. (HandleTimer, n) \<in> set ps) \<and>
     (HandleTimer, m) \<notin> set ps"

lemma timers_ok_rearm: "timers_ok K ps \<Longrightarrow> m \<in> K \<Longrightarrow> timers_ok K (rearm k m ps)"
  by (auto simp: timers_ok_def rearm_def)

lemma timers_ok_cancel: "timers_ok K ps \<Longrightarrow> k \<noteq> HandleTimer \<Longrightarrow> timers_ok K (filter (\<lambda>p. p \<noteq> (k, m)) ps)"
  by (auto simp: timers_ok_def)

lemma timers_ok_join: "timers_ok K ps \<Longrightarrow> m \<notin> K \<Longrightarrow> timers_ok (insert m K) (ps @ [(HandleTimer, m)])"
  by (force simp: timers_ok_def)

lemma timers_ok_but_register: "timers_ok_but m K ps \<Longrightarrow> m \<in> K \<Longrightarrow> timers_ok K (ps @ [(HandleTimer, m)])"
  by (auto simp: timers_ok_def timers_ok_but_def)

lemma timers_ok_free:
  "timers_ok K ps \<or> timers_ok_but m K ps \<Longrightarrow> timers_ok (K - {m}) (filter (\<lambda>(k, n). n \<noteq> m) ps)"
  by (auto simp: timers_ok_def timers_ok_but_def)

lemma pending_filter:
  "timers h' = filter (\<lambda>(k, n, _). n \<noteq> m) (timers h) \<Longrightarrow> pending h' = filter (\<lambda>(k, n). n \<noteq> m) (pending h)"
  unfolding pending_def filter_map by (auto intro!: arg_cong[of _ _ "map _"] filter_cong)

definition timer_inv :: "hostapd_data \<Rightarrow> bool" where
  "timer_inv h \<longleftrightarrow> sta_inv h \<and> timers_ok (sta_keys h) (pending h) \<and> length (conf_ssid h) < 32"

section \<open>The operations\<close>

lemma timer_inv_free:
  assumes "sta_inv h" "m \<in> sta_keys h" "length (conf_ssid h) < 32"
    and "timers_ok (sta_keys h) (pending h) \<or> timers_ok_but m (sta_keys h) (pending h)"
  shows "\<exists>c' h'. ap_free_sta c h m = Inr (c', h') \<and> timer_inv h'"
proof -
  obtain c' h' where f: "ap_free_sta c h m = Inr (c', h')" "sta_inv h'" "sta_keys h' = sta_keys h - {m}"
    "timers h' = filter (\<lambda>(k, n, _). n \<noteq> m) (timers h)" "conf_ssid h' = conf_ssid h"
    by (rule ap_free_sta_ok[OF assms(1-3), of c]) blast
  have "timers_ok (sta_keys h') (pending h')"
    using timers_ok_free[OF assms(4)] by (simp add: f(3) pending_filter[OF f(4)])
  then show ?thesis
    using f assms(3) by (simp add: timer_inv_def)
qed

lemma timer_inv_put: "timer_inv h \<Longrightarrow> sta_addr s \<in> sta_keys h \<Longrightarrow> timer_inv (put_sta s h)"
  by (simp add: timer_inv_def sta_inv_put)

lemma timer_inv_rearm:
  "timer_inv h \<Longrightarrow> m \<in> sta_keys h \<Longrightarrow>
   timer_inv (StaTable.eloop_register_timeout n k m (StaTable.eloop_cancel_timeout k m h))"
  using timers_ok_rearm[of "sta_keys h" "pending h" m k] by (simp add: timer_inv_def rearm_def)

lemma timer_inv_cancel:
  "timer_inv h \<Longrightarrow> k \<noteq> HandleTimer \<Longrightarrow> timer_inv (StaTable.eloop_cancel_timeout k m h)"
  by (simp add: timer_inv_def timers_ok_cancel)

lemma timer_inv_simps [simp]:
  "timer_inv (emit e h) = timer_inv h" "timer_inv (emit_if b e h) = timer_inv h"
  "timer_inv (fst (ap_sta_set_authorized h s a)) = timer_inv h"
  by (simp_all add: timer_inv_def)

lemma timer_inv_station: "timer_inv h \<Longrightarrow> m \<in> sta_keys h \<Longrightarrow> \<exists>s. stas h m = Some s \<and> sta_addr s = m"
  using sta_lookup[of h m] by (simp add: timer_inv_def)

lemmas timer_inv_rules = timer_inv_put timer_inv_rearm timer_inv_cancel

lemma timer_inv_disassociate:
  assumes "timer_inv h" "m \<in> sta_keys h"
  shows "\<exists>h'. ap_sta_disassociate c h m r = Inr h' \<and> timer_inv h'"
  using timer_inv_station[OF assms] assms
  by (auto simp: ap_sta_disassociate_def with_sta_def Let_def case_prod_beta intro!: timer_inv_rules)

lemma timer_inv_deauthenticate:
  assumes "timer_inv h" "m \<in> sta_keys h"
  shows "\<exists>h'. ap_sta_deauthenticate c h m r = Inr h' \<and> timer_inv h'"
  using timer_inv_station[OF assms] assms
  by (auto simp: ap_sta_deauthenticate_def with_sta_def Let_def case_prod_beta intro!: timer_inv_rules)

lemma timer_inv_disconnect:
  assumes "timer_inv h"
  shows "\<exists>h'. ap_sta_disconnect c h m r = Inr h' \<and> timer_inv h'"
proof (cases "m \<in> sta_keys h")
  case True
  have "sta_inv h"
    using assms by (simp add: timer_inv_def)
  then show ?thesis
    using timer_inv_station[OF assms True] assms True
    by (auto simp: ap_sta_disconnect_def disconnect_sta_def with_sta_def Let_def case_prod_beta ap_get_sta_eq
        intro!: timer_inv_rules)
next
  case False
  then show ?thesis
    using assms by (simp add: ap_sta_disconnect_def ap_get_sta_eq timer_inv_def)
qed

lemma timer_inv_callbacks:
  assumes "timer_inv h" "m \<in> sta_keys h"
  shows "\<exists>h'. ap_sta_deauth_cb_timeout h m = Inr h' \<and> timer_inv h'"
    and "\<exists>h'. ap_sta_disassoc_cb_timeout h m = Inr h' \<and> timer_inv h'"
  using timer_inv_station[OF assms] assms(1)
  by (auto simp: ap_sta_deauth_cb_timeout_def ap_sta_disassoc_cb_timeout_def with_sta_def ap_sta_remove_def)

lemma timer_inv_confirmations:
  assumes "timer_inv h" "m \<in> sta_keys h"
  shows "\<exists>h'. ap_sta_deauth_cb h m = Inr h' \<and> timer_inv h'"
    and "\<exists>h'. ap_sta_disassoc_cb h m = Inr h' \<and> timer_inv h'"
proof -
  obtain s where s: "stas h m = Some s" "sta_addr s = m"
    using timer_inv_station[OF assms] by blast
  have "timer_inv (StaTable.eloop_cancel_timeout k m (put_sta (clear_flag f s) h))"
    "m \<in> sta_keys (StaTable.eloop_cancel_timeout k m (put_sta (clear_flag f s) h))" if "k \<noteq> HandleTimer" for k f
    using assms s that by (auto intro!: timer_inv_rules)
  then show "\<exists>h'. ap_sta_deauth_cb h m = Inr h' \<and> timer_inv h'" "\<exists>h'. ap_sta_disassoc_cb h m = Inr h' \<and> timer_inv h'"
    using timer_inv_callbacks[of "StaTable.eloop_cancel_timeout DeauthCb m (put_sta (clear_flag WLAN_STA_PENDING_DEAUTH_CB s) h)" m]
      timer_inv_callbacks[of "StaTable.eloop_cancel_timeout DisassocCb m (put_sta (clear_flag WLAN_STA_PENDING_DISASSOC_CB s) h)" m]
      s(1) assms(1) by (auto simp: ap_sta_deauth_cb_def ap_sta_disassoc_cb_def with_sta_def)
qed

lemma timer_inv_add:
  assumes "timer_inv h"
  shows "timer_inv (snd (ap_sta_add alloc False h m))"
proof -
  have i: "sta_inv h"
    using assms by (simp add: timer_inv_def)
  show ?thesis
  proof (cases "ap_sta_add alloc False h m = (None, h) \<or> m \<in> sta_keys h")
    case True
    then show ?thesis
      using assms ap_get_sta_eq[OF i, of m] by (auto simp: ap_sta_add_def)
  next
    case False
    then have k: "m \<notin> sta_keys h"
      by simp
    obtain r h' where a: "ap_sta_add alloc False h m = (r, h')"
      by fastforce
    then have h': "pending h' = pending h @ [(HandleTimer, m)]" "conf_ssid h' = conf_ssid h"
      "sta_keys h' = insert m (sta_keys h)"
      using False k ap_get_sta_eq[OF i, of m] i sh.push(2)[of "sta_hash h" m]
      by (auto simp: ap_sta_add_def Let_def ap_sta_hash_add_def pending_def put_sta_def sta_keys_def sta_inv_def split: if_splits)
    then show ?thesis
      using a ap_sta_add_inv(1)[OF i a] assms k timers_ok_join[of "sta_keys h" "pending h" m] by (simp add: timer_inv_def)
  qed
qed

section \<open>Expiry\<close>

text \<open>The state in which the handler of the inactivity timer of \<open>m\<close> runs.\<close>

definition timer_running :: "mac \<Rightarrow> hostapd_data \<Rightarrow> bool" where
  "timer_running m h \<longleftrightarrow> sta_inv h \<and> m \<in> sta_keys h \<and> length (conf_ssid h) < 32 \<and>
     timers_ok_but m (sta_keys h) (pending h)"

lemma timer_running_simps [simp]:
  "timer_running m (emit e h) = timer_running m h"
  "timer_running m (fst (ap_sta_set_authorized h s a)) = timer_running m h"
  by (simp_all add: timer_running_def)

lemma timer_running_put: "timer_running m h \<Longrightarrow> sta_addr s = m \<Longrightarrow> timer_running m (put_sta s h)"
  by (simp add: timer_running_def sta_inv_put)

lemma timer_running_register:
  "timer_running m h \<Longrightarrow> timer_inv (StaTable.eloop_register_timeout n HandleTimer m h)"
  by (simp add: timer_running_def timer_inv_def timers_ok_but_register)

lemma timer_running_free: "timer_running m h \<Longrightarrow> \<exists>c' h'. ap_free_sta c h m = Inr (c', h') \<and> timer_inv h'"
  by (rule timer_inv_free) (simp_all add: timer_running_def)

lemma check_addr [simp]:
  "sta_addr (fst (timer_check_inactivity i f h s)) = sta_addr s" "sta_addr (fst (timer_check_poll h r)) = sta_addr (fst r)"
  by (simp_all add: timer_check_inactivity_def timer_check_poll_def case_prod_beta Let_def)

lemma notify_simps [simp]:
  "timer_running m (fst (timer_notify h s)) = timer_running m h" "sta_addr (snd (timer_notify h s)) = sta_addr s"
  by (simp_all add: timer_notify_def Let_def)

lemma idle_cause_addr [simp]: "sta_addr (set_idle_cause s) = sta_addr s"
  by (simp add: set_idle_cause_def)

lemma timer_inv_advance:
  assumes "timer_running m h" "sta_addr s = m"
  shows "\<exists>c' h'. timer_advance c h s = Inr (c', h') \<and> timer_inv h'"
proof (cases "timeout_next s = STA_DEAUTH \<or> timeout_next s = STA_REMOVE")
  case True
  have "timer_running m (put_sta (set_idle_cause s) (emit (MlmeDeauth m 2) h))"
    using assms by (simp add: timer_running_put)
  from timer_running_free[OF this, of c] show ?thesis
    using True assms(2) by (auto simp: timer_advance_def)
next
  case False
  then show ?thesis
    using assms
    by (cases "timeout_next s")
      (auto simp: timer_advance_def Let_def case_prod_beta intro!: timer_running_register timer_running_put)
qed

lemma timer_inv_handle_timer:
  assumes "timer_running m h"
  shows "\<exists>c' h'. ap_handle_timer inact fuzz c h m = Inr (c', h') \<and> timer_inv h'"
proof -
  obtain s where s: "stas h m = Some s" "sta_addr s = m"
    using sta_lookup[of h m] assms by (auto simp: timer_running_def)
  define r where "r = timer_check_poll h (timer_check_inactivity inact fuzz h s)"
  have r: "sta_addr (fst r) = m"
    by (simp add: r_def s)
  show ?thesis
  proof (cases "timeout_next s = STA_REMOVE \<or> snd r \<noteq> 0")
    case True
    then show ?thesis
      using s(1) timer_running_free[OF assms, of c] timer_running_register[OF timer_running_put[OF assms r], of "snd r"]
      by (auto simp: ap_handle_timer_def with_sta_def case_prod_beta simp flip: r_def)
  next
    case False
    have "\<exists>c' h'. timer_advance c (fst (timer_notify h (fst r))) (snd (timer_notify h (fst r))) = Inr (c', h') \<and> timer_inv h'"
      using assms r by (intro timer_inv_advance) simp_all
    then show ?thesis
      using s(1) False by (simp add: ap_handle_timer_def with_sta_def case_prod_beta flip: r_def)
  qed
qed

lemma timer_inv_session_timer:
  assumes "timer_inv h" "m \<in> sta_keys h"
  shows "\<exists>c' h'. ap_handle_session_timer c h m = Inr (c', h') \<and> timer_inv h'"
proof -
  obtain s where s: "stas h m = Some s" "sta_addr s = m"
    using timer_inv_station[OF assms] by blast
  let ?h = "put_sta (s\<lparr>acct_terminate_cause := 5\<rparr>) (emit (MlmeDeauth m 2) (emit (DrvStaDeauth m 2) h))"
  have free: "\<exists>c' h'. ap_free_sta c g m = Inr (c', h') \<and> timer_inv h'" if "timer_inv g" "m \<in> sta_keys g" for g
    using that by (intro timer_inv_free) (simp_all add: timer_inv_def)
  have "timer_inv ?h" "m \<in> sta_keys ?h"
    using assms s by (auto intro!: timer_inv_put)
  then show ?thesis
    using free[of h] free[of ?h] s assms by (auto simp: ap_handle_session_timer_def with_sta_def)
qed

section \<open>A BSS over time\<close>

text \<open>
  \<^verbatim>\<open>eloop_run\<close> takes an expired timeout out of its list and calls the handler. The handler
  of the session warning has an empty body without \<^verbatim>\<open>CONFIG_WNM\<close>, as in \<^verbatim>\<open>defconfig\<close>.
\<close>

definition take_timer :: "timer_kind \<Rightarrow> mac \<Rightarrow> hostapd_data \<Rightarrow> hostapd_data" where
  "take_timer k m h = h\<lparr>timers := remove_first (\<lambda>(k', m', _). k' = k \<and> m' = m) (timers h)\<rparr>"

definition no_counters :: "iface_counters \<Rightarrow> hostapd_data res \<Rightarrow> (iface_counters \<times> hostapd_data) res" where
  "no_counters c r = bind_res r (\<lambda>h. Inr (c, h))"

fun expire ::
  "int \<Rightarrow> int \<Rightarrow> timer_kind \<Rightarrow> mac \<Rightarrow> iface_counters \<Rightarrow> hostapd_data \<Rightarrow> (iface_counters \<times> hostapd_data) res" where
  "expire inact fuzz HandleTimer m c h = ap_handle_timer inact fuzz c (take_timer HandleTimer m h) m"
| "expire inact fuzz SessionTimer m c h = ap_handle_session_timer c (take_timer SessionTimer m h) m"
| "expire inact fuzz SessionWarningTimer m c h = Inr (c, take_timer SessionWarningTimer m h)"
| "expire inact fuzz DeauthCb m c h = no_counters c (ap_sta_deauth_cb_timeout (take_timer DeauthCb m h) m)"
| "expire inact fuzz DisassocCb m c h = no_counters c (ap_sta_disassoc_cb_timeout (take_timer DisassocCb m h) m)"

datatype sta_event =
    Join bool mac
  | Leave mac
  | Disassociate mac u16
  | Deauthenticate mac u16
  | Disconnect mac u16
  | DeauthDone mac
  | DisassocDone mac
  | SessionTimeout mac int
  | NoSessionTimeout mac
  | SessionWarning mac int
  | FreeAll
  | Expire timer_kind mac int int

fun sta_event_step :: "sta_event \<Rightarrow> iface_counters \<Rightarrow> hostapd_data \<Rightarrow> (iface_counters \<times> hostapd_data) res" where
  "sta_event_step (Join alloc m) c h = Inr (c, snd (ap_sta_add alloc False h m))"
| "sta_event_step (Leave m) c h = ap_free_sta c h m"
| "sta_event_step (Disassociate m r) c h = no_counters c (ap_sta_disassociate c h m r)"
| "sta_event_step (Deauthenticate m r) c h = no_counters c (ap_sta_deauthenticate c h m r)"
| "sta_event_step (Disconnect m r) c h = no_counters c (ap_sta_disconnect c h m r)"
| "sta_event_step (DeauthDone m) c h = no_counters c (ap_sta_deauth_cb h m)"
| "sta_event_step (DisassocDone m) c h = no_counters c (ap_sta_disassoc_cb h m)"
| "sta_event_step (SessionTimeout m t) c h = Inr (c, ap_sta_session_timeout h m t)"
| "sta_event_step (NoSessionTimeout m) c h = Inr (c, ap_sta_no_session_timeout h m)"
| "sta_event_step (SessionWarning m t) c h = Inr (c, ap_sta_session_warning_timeout h m t)"
| "sta_event_step FreeAll c h = hostapd_free_stas c h"
| "sta_event_step (Expire k m inact fuzz) c h = expire inact fuzz k m c h"

text \<open>
  When an event can happen: an operation on a station is called with a station of the table, and
  a timer expires only while it is pending.
\<close>

fun possible :: "sta_event \<Rightarrow> hostapd_data \<Rightarrow> bool" where
  "possible (Join alloc m) h = True"
| "possible (Disconnect m r) h = True"
| "possible FreeAll h = True"
| "possible (Expire k m inact fuzz) h = ((k, m) \<in> set (pending h))"
| "possible (Leave m) h = (ap_get_sta h m = Some m)"
| "possible (Disassociate m r) h = (ap_get_sta h m = Some m)"
| "possible (Deauthenticate m r) h = (ap_get_sta h m = Some m)"
| "possible (DeauthDone m) h = (ap_get_sta h m = Some m)"
| "possible (DisassocDone m) h = (ap_get_sta h m = Some m)"
| "possible (SessionTimeout m t) h = (ap_get_sta h m = Some m)"
| "possible (NoSessionTimeout m) h = (ap_get_sta h m = Some m)"
| "possible (SessionWarning m t) h = (ap_get_sta h m = Some m)"

inductive bss_run :: "iface_counters \<Rightarrow> hostapd_data \<Rightarrow> (iface_counters \<times> hostapd_data) res \<Rightarrow> bool" where
  bss_start: "bss_run c h (Inr (c, h))"
| bss_step: "bss_run c h (Inr (c1, h1)) \<Longrightarrow> possible e h1 \<Longrightarrow> bss_run c h (sta_event_step e c1 h1)"

inductive_cases bss_runE: "bss_run c h r"

lemma take_timer_simps [simp]:
  "sta_inv (take_timer k m h) = sta_inv h" "sta_keys (take_timer k m h) = sta_keys h"
  "conf_ssid (take_timer k m h) = conf_ssid h"
  by (simp_all add: take_timer_def sta_keys_def sta_inv_def)

lemma remove_first_distinct: "distinct xs \<Longrightarrow> remove_first (\<lambda>x. x = a) xs = filter (\<lambda>x. x \<noteq> a) xs"
  by (induction xs) (auto intro!: filter_True[symmetric])

lemma pending_take_timer:
  assumes "distinct (pending h)"
  shows "pending (take_timer k m h) = filter (\<lambda>p. p \<noteq> (k, m)) (pending h)"
proof -
  have "map (\<lambda>(k, m, _). (k, m)) (remove_first (\<lambda>(k', m', _). k' = k \<and> m' = m) ts) =
      remove_first (\<lambda>p. p = (k, m)) (map (\<lambda>(k, m, _). (k, m)) ts)" for ts :: "(timer_kind \<times> mac \<times> int) list"
    by (induction ts) auto
  then show ?thesis
    using assms by (simp add: pending_def take_timer_def remove_first_distinct)
qed

lemma take_timer_inv:
  assumes "timer_inv h" "(k, m) \<in> set (pending h)"
  shows "m \<in> sta_keys h" "k \<noteq> HandleTimer \<Longrightarrow> timer_inv (take_timer k m h)"
    "k = HandleTimer \<Longrightarrow> timer_running m (take_timer k m h)"
proof -
  have p: "pending (take_timer k m h) = filter (\<lambda>p. p \<noteq> (k, m)) (pending h)"
    using assms(1) by (intro pending_take_timer) (simp add: timer_inv_def timers_ok_def)
  show m: "m \<in> sta_keys h"
    using assms by (force simp: timer_inv_def timers_ok_def)
  show "timer_inv (take_timer k m h)" if "k \<noteq> HandleTimer"
    using assms(1) that by (simp add: timer_inv_def p timers_ok_cancel)
  show "timer_running m (take_timer k m h)" if "k = HandleTimer"
    unfolding timer_running_def p using assms(1) that m by (auto simp: timer_inv_def timers_ok_def timers_ok_but_def)
qed

lemma no_counters_ok: "\<exists>h'. r = Inr h' \<and> P h' \<Longrightarrow> \<exists>c' h'. no_counters c r = Inr (c', h') \<and> P h'"
  by (auto simp: no_counters_def)

lemma timer_inv_expire:
  assumes "timer_inv h" "(k, m) \<in> set (pending h)"
  shows "\<exists>c' h'. expire inact fuzz k m c h = Inr (c', h') \<and> timer_inv h'"
proof (cases k)
  case HandleTimer
  then show ?thesis
    using timer_inv_handle_timer[OF take_timer_inv(3)[OF assms]] by simp
qed (use take_timer_inv[OF assms] in
  \<open>simp_all add: timer_inv_session_timer no_counters_ok[OF timer_inv_callbacks(1)] no_counters_ok[OF timer_inv_callbacks(2)]\<close>)

lemma timer_inv_free_all:
  assumes "timer_inv h"
  shows "\<exists>c' h'. hostapd_free_stas c h = Inr (c', h') \<and> timer_inv h'"
proof -
  have i: "sta_inv h" "set (sta_list h) = sta_keys h" "distinct (sta_list h)" "length (conf_ssid h) < 32"
    using assms by (simp_all add: timer_inv_def sta_inv_def)
  then obtain c' h' where f: "hostapd_free_stas_loop c h (sta_list h) = Inr (c', h')" "sta_inv h'"
    "sta_keys h' = sta_keys h - set (sta_list h)" "timers h' = filter (\<lambda>(k, n, _). n \<notin> set (sta_list h)) (timers h)"
    "conf_ssid h' = conf_ssid h"
    using free_stas_loop_ok[of h "sta_list h" c] by auto
  have "timers h' = []"
    using assms f(4) i(2) by (auto simp: timer_inv_def timers_ok_def pending_def filter_empty_conv image_subset_iff)
  then show ?thesis
    using f i by (simp add: hostapd_free_stas_def timer_inv_def timers_ok_def pending_def)
qed

lemma timer_inv_step:
  assumes "timer_inv h" "possible e h"
  shows "\<exists>c' h'. sta_event_step e c h = Inr (c', h') \<and> timer_inv h'"
proof -
  have i: "sta_inv h" "length (conf_ssid h) < 32" "timers_ok (sta_keys h) (pending h)"
    using assms(1) by (simp_all add: timer_inv_def)
  have k: "m \<in> sta_keys h" if "ap_get_sta h m = Some m" for m
    using that by (simp add: ap_get_sta_eq[OF i(1)] split: if_splits)
  show ?thesis
  proof (cases e)
    case (Leave m)
    then show ?thesis
      using timer_inv_free[OF i(1) k i(2)] i(3) assms(2) by simp
  next
    case (Expire k m inact fuzz)
    then show ?thesis
      using timer_inv_expire[OF assms(1)] assms(2) by simp
  next
    case FreeAll
    then show ?thesis
      using timer_inv_free_all[OF assms(1)] by simp
  qed (use assms k timer_inv_add[OF assms(1)] in
    \<open>simp_all add: no_counters_ok timer_inv_disassociate timer_inv_deauthenticate timer_inv_disconnect
      timer_inv_confirmations ap_sta_session_timeout_def ap_sta_no_session_timeout_def
      ap_sta_session_warning_timeout_def timer_inv_rearm timer_inv_cancel\<close>)
qed


lemma wit_bss0_timers: "timer_inv wit_bss0"
  using wit_bss0_inv sh.keys_empty
  by (simp add: timer_inv_def timers_ok_def pending_def sta_keys_def) (simp add: wit_bss0_def)

definition wit_joined :: hostapd_data where
  "wit_joined = snd (ap_sta_add True False wit_bss0 wit_mac)"

lemma wit_joined_pending: "(HandleTimer, wit_mac) \<in> set (pending wit_joined)"
proof -
  have "ap_get_sta wit_bss0 wit_mac = None"
    using wit_bss0_inv by (simp add: ap_get_sta_eq sta_keys_def) (simp add: wit_bss0_def sh.keys_empty)
  then show ?thesis
    by (simp add: wit_joined_def ap_sta_add_def Let_def wit_bss0_def pending_def ap_sta_hash_add_def put_sta_def)
qed


section \<open>In step with the event loop\<close>

definition sta_arm :: "timer_kind \<times> mac \<Rightarrow> int \<Rightarrow> hostapd_data \<Rightarrow> hostapd_data" where
  "sta_arm k n h = StaTable.eloop_register_timeout n (fst k) (snd k) h"

definition sta_disarm :: "timer_kind \<times> mac \<Rightarrow> hostapd_data \<Rightarrow> hostapd_data" where
  "sta_disarm k h = StaTable.eloop_cancel_timeout (fst k) (snd k) h"

definition sta_armed :: "hostapd_data \<Rightarrow> timer_kind \<times> mac \<Rightarrow> nat" where
  "sta_armed h k = count_list (pending h) k"

lemma count_list_append_single: "count_list (xs @ [x]) y = count_list xs y + (if y = x then 1 else 0)"
  by (induction xs) auto

lemma count_list_filter_neq: "count_list (filter (\<lambda>p. p \<noteq> x) xs) y = (if y = x then 0 else count_list xs y)"
  by (induction xs) auto

interpretation st: timer_store sta_arm sta_disarm sta_armed "\<lambda>_. True"
  by unfold_locales
    (simp_all add: sta_arm_def sta_disarm_def sta_armed_def count_list_append_single count_list_filter_neq)

interpretation el_st: timer_refinement sta_arm sta_disarm sta_armed "loop_arm d" "loop_disarm d" "loop_armed d" loop_ok for d
  by unfold_locales

text \<open>
  C29: The timers of the station table are refined by the event loop: under the same registrations
  and cancellations, at whatever times they happen, the list of the loop holds as many timeouts of
  each kind for each station as the table says, provided no time wraps around.
\<close>

theorem station_timers_refined:
  assumes "\<forall>k. sta_armed h k = loop_armed d ts k" "\<forall>p \<in> set ops. op_ok loop_ok p"
  shows "sta_armed (fold (timer_step sta_arm sta_disarm (\<lambda>n a. n)) ops h) k =
         loop_armed d (fold (timer_step (loop_arm d) (loop_disarm d) (\<lambda>n a. a)) ops ts) k"
  using assms by (rule el_st.steps_agree)

definition wit_ops :: "(timer_kind \<times> mac, int, os_reltime \<times> u32) timer_op list" where
  "wit_ops = [Arm (HandleTimer, wit_mac) 300 (\<lparr>t_sec = 10, t_usec = 5\<rparr>, 300), Disarm (HandleTimer, wit_mac),
     Arm (HandleTimer, wit_mac) 5 (\<lparr>t_sec = 11, t_usec = 0\<rparr>, 5)]"

theorem station_timers_refined_witness:
  "sta_armed (fold (timer_step sta_arm sta_disarm (\<lambda>n a. n)) wit_ops wit_bss0) (HandleTimer, wit_mac) =
   loop_armed [0] (fold (timer_step (loop_arm [0]) (loop_disarm [0]) (\<lambda>n a. a)) wit_ops []) (HandleTimer, wit_mac)"
proof (rule station_timers_refined)
  show "\<forall>k. sta_armed wit_bss0 k = loop_armed [0] [] k"
    by (simp add: sta_armed_def loop_armed_def pending_def wit_bss0_def)
  show "\<forall>p \<in> set wit_ops. op_ok loop_ok p"
    by (simp add: wit_ops_def loop_ok_def register_ok_def to_int32_id)
qed

end
