(* ===== verification/MgmtAid.thy ===== *)
theory MgmtAid
  imports Mgmt StaTimers
begin

unbundle bit_operations_syntax

text \<open>
  Association identifiers: an abstract pool of numbers with allocation and release, the proof that
  the bit map of \<^verbatim>\<open>struct hostapd_data\<close> with \<^verbatim>\<open>hostapd_get_aid\<close> and the release in \<^verbatim>\<open>ap_free_sta\<close> is
  one, and what follows for the owners of the numbers.
\<close>

section \<open>Pools of identifiers\<close>

locale id_pool =
  fixes wf :: "'p \<Rightarrow> bool" and ids :: "'p \<Rightarrow> nat set" and get :: "'p \<Rightarrow> (nat \<times> 'p) option"
    and release :: "nat \<Rightarrow> 'p \<Rightarrow> 'p" and limit :: nat
  assumes get_Some: "wf p \<Longrightarrow> get p = Some (a, p') \<Longrightarrow>
      wf p' \<and> a \<notin> ids p \<and> 0 < a \<and> a \<le> limit \<and> {1..<a} \<subseteq> ids p \<and> ids p' = insert a (ids p)"
    and get_None: "wf p \<Longrightarrow> get p = None \<Longrightarrow> {1..limit} \<subseteq> ids p"
    and release_id: "wf p \<Longrightarrow> 0 < a \<Longrightarrow> a \<le> limit \<Longrightarrow> wf (release a p) \<and> ids (release a p) = ids p - {a}"
begin

text \<open>
  A map of owners to their number, 0 for none, is consistent with the pool when the numbers in use
  are exactly those of the owners and no number has two owners.
\<close>

definition consistent :: "'p \<Rightarrow> ('k \<rightharpoonup> nat) \<Rightarrow> bool" where
  "consistent p g \<longleftrightarrow> wf p \<and> ids p = ran g - {0} \<and> ids p \<subseteq> {1..limit} \<and>
     (\<forall>m n a. g m = Some a \<and> g n = Some a \<and> 0 < a \<longrightarrow> m = n)"

lemma consistent_join: "consistent p g \<Longrightarrow> g m = None \<Longrightarrow> consistent p (g(m \<mapsto> 0))"
  by (auto simp: consistent_def)

lemma consistent_get:
  assumes "consistent p g" "g m = Some 0" "get p = Some (a, p')"
  shows "consistent p' (g(m \<mapsto> a))"
proof -
  have a: "wf p'" "a \<notin> ids p" "0 < a" "a \<le> limit" "ids p' = insert a (ids p)"
    using get_Some[of p a p'] assms by (auto simp: consistent_def)
  have "ran (g(m \<mapsto> a)) - {0} = insert a (ran g - {0})"
  proof (intro set_eqI iffI)
    show "x \<in> ran (g(m \<mapsto> a)) - {0}" if "x \<in> insert a (ran g - {0})" for x
      using that a(3) assms(2) ranI[of "g(m \<mapsto> a)"] by (auto simp: ran_def split: if_splits) (metis option.inject nat_less_le)+
  qed (use a(3) in \<open>auto simp: ran_def split: if_splits\<close>)
  moreover have "g n \<noteq> Some a" for n
    using a(2,3) assms(1) ranI[of g n a] by (auto simp: consistent_def)
  ultimately show ?thesis
    using assms(1) a by (auto simp: consistent_def)
qed

lemma consistent_leave:
  assumes "consistent p g" "g m = Some a"
  shows "consistent (if 0 < a then release a p else p) (g(m := None))"
proof -
  have u: "n = m" if "g n = Some a" "0 < a" for n
    using that assms unfolding consistent_def by blast
  have "x \<in> ran (g(m := None)) \<longleftrightarrow> (\<exists>n. n \<noteq> m \<and> g n = Some x)" for x
    by (auto simp: ran_def)
  moreover have "(\<exists>n. n \<noteq> m \<and> g n = Some x) \<longleftrightarrow> x \<in> ran g \<and> x \<noteq> a" if "0 < x" for x
    using u assms(2) that unfolding ran_def mem_Collect_eq by (metis option.inject)
  ultimately have r: "ran (g(m := None)) - {0} = ran g - {0} - {a}"
    by auto
  show ?thesis
  proof (cases "0 < a")
    case True
    then have "a \<le> limit"
      using assms ranI[of g m a] by (auto simp: consistent_def)
    then show ?thesis
      using assms(1) True release_id[OF _ True, of p] r by (auto simp: consistent_def)
  qed (use assms r in \<open>auto simp: consistent_def\<close>)
qed

lemma consistent_in_range: "consistent p g \<Longrightarrow> g m = Some a \<Longrightarrow> a \<le> limit"
  using ranI[of g m a] by (cases "a = 0") (auto simp: consistent_def)

lemma consistent_unique: "consistent p g \<Longrightarrow> g m = Some a \<Longrightarrow> g n = Some a \<Longrightarrow> 0 < a \<Longrightarrow> m = n"
  by (auto simp: consistent_def)

end

section \<open>The bit map\<close>

definition aid_set :: "u32 list \<Rightarrow> nat set" where
  "aid_set ws = {a. 0 < a \<and> (a - 1) div 32 < length ws \<and> bit (ws ! ((a - 1) div 32)) ((a - 1) mod 32)}"

definition aid_words :: "u32 list \<Rightarrow> bool" where
  "aid_words ws \<longleftrightarrow> length ws = AID_WORDS"

lemma and_push_zero: "(w :: u32) AND push_bit j 1 = 0 \<longleftrightarrow> j \<ge> 32 \<or> \<not> bit w j"
proof -
  have "w AND push_bit j 1 = (if bit w j \<and> j < 32 then push_bit j 1 else 0)"
    by (rule bit_word_eqI) (auto simp: bit_simps)
  moreover have "push_bit j (1 :: u32) \<noteq> 0" if "j < 32"
    using that bit_push_bit_iff[of j "1 :: u32" j] by (auto simp: bit_1_iff)
  ultimately show ?thesis
    by auto
qed

lemma free_bit_spec:
  "j + n = 32 \<Longrightarrow> \<forall>k < j. bit w k \<Longrightarrow>
   free_bit w j n \<le> 32 \<and> (\<forall>k < free_bit w j n. bit w k) \<and> (free_bit w j n < 32 \<longrightarrow> \<not> bit w (free_bit w j n))"
proof (induction w j n rule: free_bit.induct)
  case (2 w j n)
  then show ?case
    using and_push_zero[of w j] by (auto simp: less_Suc_eq)
qed simp

lemma free_bit_full: "w \<noteq> - 1 \<Longrightarrow> free_bit w 0 32 < 32"
proof (rule ccontr)
  assume w: "w \<noteq> - 1" and "\<not> free_bit w 0 32 < 32"
  then have "\<forall>k < 32. bit w k"
    using free_bit_spec[of 0 32 w] by simp
  then have "w = - 1"
    by (intro bit_word_eqI) (simp add: bit_simps)
  then show False
    using w by simp
qed

lemma find_free_Some:
  "find_free i ws = Some (k, j) \<Longrightarrow>
   i \<le> k \<and> k - i < length ws \<and> j < 32 \<and> \<not> bit (ws ! (k - i)) j \<and> (\<forall>l < j. bit (ws ! (k - i)) l) \<and>
   (\<forall>l < k - i. ws ! l = - 1)"
proof (induction i ws rule: find_free.induct)
  case (2 i w ws)
  show ?case
  proof (cases "w = - 1")
    case True
    then have "i < k \<and> k - Suc i < length ws \<and> j < 32 \<and> \<not> bit (ws ! (k - Suc i)) j \<and>
        (\<forall>l < j. bit (ws ! (k - Suc i)) l) \<and> (\<forall>l < k - Suc i. ws ! l = - 1)"
      using "2.IH" "2.prems" by auto
    moreover from this have "k - i = Suc (k - Suc i)"
      by linarith
    ultimately show ?thesis
      using True by (auto simp: less_Suc_eq_0_disj)
  next
    case False
    then have "k = i" "j = free_bit w 0 32"
      using "2.prems" free_bit_full[of w] by (auto simp: Let_def)
    then show ?thesis
      using free_bit_spec[of 0 32 w] free_bit_full[OF False] by simp
  qed
qed simp

lemma find_free_None: "find_free i ws = None \<Longrightarrow> \<forall>w \<in> set ws. w = - 1"
proof (induction i ws rule: find_free.induct)
  case (2 i w ws)
  then show ?case
    using free_bit_full[of w] by (cases "w = - 1") (auto simp: Let_def)
qed simp

lemma aid_index: "0 < a \<Longrightarrow> j < 32 \<Longrightarrow> a = k * 32 + j + 1 \<longleftrightarrow> (a - 1) div 32 = k \<and> (a - 1) mod 32 = (j :: nat)"
  using div_mult_mod_eq[of "a - 1" 32] by auto

lemma aid_mem: "0 < a \<Longrightarrow> a \<in> aid_set ws \<longleftrightarrow> (a - 1) div 32 < length ws \<and> bit (ws ! ((a - 1) div 32)) ((a - 1) mod 32)"
  by (simp add: aid_set_def)

lemma aid_pos: "a \<in> aid_set ws \<Longrightarrow> 0 < a"
  by (simp add: aid_set_def)

lemma aid_below:
  assumes "0 < b" "b \<le> k * 32 + j" "j < 32"
  shows "(b - 1) div 32 < k \<or> (b - 1) div 32 = k \<and> (b - 1) mod 32 < (j :: nat)"
proof -
  obtain q r where qr: "(b - 1) div 32 = q" "(b - 1) mod 32 = r"
    by simp
  then have "b = q * 32 + r + 1" "r < 32"
    using assms(1) aid_index[of b r q] by auto
  then show ?thesis
    unfolding qr using assms(2,3) by linarith
qed

lemma aid_set_update:
  assumes "0 < a"
  shows "a \<in> aid_set (ws[k := v]) \<longleftrightarrow>
    (a - 1) div 32 < length ws \<and> bit (if (a - 1) div 32 = k then v else ws ! ((a - 1) div 32)) ((a - 1) mod 32)"
  unfolding aid_mem[OF assms] by (auto simp: nth_list_update)

lemma aid_set_insert:
  assumes "k < length ws" "j < 32"
  shows "aid_set (ws[k := ws ! k OR push_bit j 1]) = insert (k * 32 + j + 1) (aid_set ws)"
proof -
  define v where "v = ws ! k OR push_bit j 1"
  have v: "bit v l \<longleftrightarrow> bit (ws ! k) l \<or> l = j" if "l < 32" for l
    using that assms(2) by (auto simp: v_def bit_simps)
  have "a \<in> aid_set (ws[k := v]) \<longleftrightarrow> a \<in> insert (k * 32 + j + 1) (aid_set ws)" if a: "0 < a" for a
    unfolding insert_iff aid_index[OF a assms(2)] aid_set_update[OF a] unfolding aid_mem[OF a] using v[of "(a - 1) mod 32"] assms(1) by auto
  then show ?thesis
    unfolding v_def[symmetric] using aid_pos by auto
qed

lemma aid_set_clear:
  assumes "0 < a"
  shows "aid_set (clear_aid a ws) = aid_set ws - {a}"
proof -
  define k j where kj: "k = (a - 1) div 32" "j = (a - 1) mod 32"
  have a: "a = k * 32 + j + 1" "j < 32"
    using assms by (simp_all add: kj)
  define v where "v = ws ! k AND NOT (push_bit j 1)"
  have v: "bit v l \<longleftrightarrow> bit (ws ! k) l \<and> l \<noteq> j" if "l < 32" for l
    using that a(2) by (auto simp: v_def bit_simps)
  have c: "clear_aid a ws = ws[k := v]"
    by (simp add: clear_aid_def Let_def kj v_def)
  have "b \<in> aid_set (ws[k := v]) \<longleftrightarrow> b \<in> aid_set ws - {a}" if b: "0 < b" for b
    unfolding Diff_iff singleton_iff a(1) aid_index[OF b a(2)] aid_set_update[OF b] unfolding aid_mem[OF b]
    using v[of "(b - 1) mod 32"] by auto
  then show ?thesis
    unfolding c using aid_pos by blast
qed

interpretation aids: id_pool aid_words aid_set new_aid clear_aid 2007
proof
  fix p p' :: "u32 list" and a
  assume p: "aid_words p" "new_aid p = Some (a, p')"
  then obtain k j where kj: "find_free 0 p = Some (k, j)" "a = k * 32 + j + 1" "a \<le> 2007" "p' = p[k := p ! k OR push_bit j 1]"
    by (auto simp: new_aid_def split: option.splits if_splits)
  then have f: "k < length p" "j < 32" "\<not> bit (p ! k) j" "\<forall>l < j. bit (p ! k) l" "\<forall>l < k. p ! l = - 1"
    using find_free_Some[OF kj(1)] by simp_all
  have "b \<in> aid_set p" if "0 < b" "b < a" for b
  proof -
    have "(b - 1) div 32 < k \<or> (b - 1) div 32 = k \<and> (b - 1) mod 32 < j"
      using that kj(2) f(2) by (intro aid_below) simp_all
    then show ?thesis
      using that(1) f(1,4,5) by (auto simp: aid_set_def bit_simps)
  qed
  then have "{1..<a} \<subseteq> aid_set p"
    by auto
  moreover have "a \<notin> aid_set p"
    using f(1-3) by (simp add: kj(2) aid_set_def)
  ultimately show "aid_words p' \<and> a \<notin> aid_set p \<and> 0 < a \<and> a \<le> 2007 \<and> {1..<a} \<subseteq> aid_set p \<and> aid_set p' = insert a (aid_set p)"
    using p(1) kj(3) aid_set_insert[OF f(1,2)] unfolding kj(2,4) by (simp add: aid_words_def)
next
  fix p
  assume p: "aid_words p" "new_aid p = None"
  have "find_free 0 p = None \<or> (\<exists>k j. find_free 0 p = Some (k, j) \<and> 2007 \<le> k * 32 + j)"
    using p(2) by (cases "find_free 0 p") (auto simp: new_aid_def split: if_splits)
  then show "{1..2007} \<subseteq> aid_set p"
  proof
    assume "find_free 0 p = None"
    then have "p ! i = - 1" if "i < length p" for i
      using that find_free_None[of 0 p] nth_mem[of i p] by blast
    then show ?thesis
      using p(1) by (auto simp: aid_set_def aid_words_def AID_WORDS_def bit_simps)
  next
    assume "\<exists>k j. find_free 0 p = Some (k, j) \<and> 2007 \<le> k * 32 + j"
    then obtain k j where f: "2007 \<le> k * 32 + j" "k < length p" "j < 32" "\<forall>l < j. bit (p ! k) l" "\<forall>l < k. p ! l = - 1"
      using find_free_Some[of 0 p] by fastforce
    show ?thesis
    proof
      fix b :: nat
      assume b: "b \<in> {1..2007}"
      then have "(b - 1) div 32 < k \<or> (b - 1) div 32 = k \<and> (b - 1) mod 32 < j"
        using f(1,3) by (intro aid_below) simp_all
      then show "b \<in> aid_set p"
        using b f(2,4,5) by (auto simp: aid_set_def bit_simps)
    qed
  qed
next
  fix p :: "u32 list" and a
  assume "aid_words p" "0 < a" "a \<le> (2007 :: nat)"
  then show "aid_words (clear_aid a p) \<and> aid_set (clear_aid a p) = aid_set p - {a}"
    using aid_set_clear[of a p] by (simp add: aid_words_def clear_aid_def Let_def)
qed

end
