(* ===== verification/MgmtSteps.thy ===== *)
theory MgmtSteps
  imports MgmtAid
begin

unbundle bit_operations_syntax

text \<open>
  What the operations on stations do to the identifiers, to the marks that the counters of the
  interface count, and to the state of being associated. An operation either keeps them, or
  removes one station, or adds one, or accepts an association.
\<close>

section \<open>Views\<close>

definition marks :: "sta_info \<Rightarrow> nat \<times> bool \<times> bool \<times> bool" where
  "marks s = (aid s, nonerp_set s, no_short_slot_time_set s, no_short_preamble_set s)"

definition view :: "hostapd_data \<Rightarrow> mac \<rightharpoonup> nat \<times> bool \<times> bool \<times> bool" where
  "view h = (\<lambda>m. map_option marks (stas h m))"

definition associated :: "hostapd_data \<Rightarrow> mac set" where
  "associated h = {m. \<exists>s. stas h m = Some s \<and> has_flag s WLAN_STA_ASSOC}"

definition keeps :: "hostapd_data \<Rightarrow> hostapd_data \<Rightarrow> bool" where
  "keeps h h' \<longleftrightarrow> view h' = view h \<and> sta_aid h' = sta_aid h \<and> associated h' \<subseteq> associated h \<and>
     set (hevents h) \<subseteq> set (hevents h') \<and> own_addr h' = own_addr h \<and> conf_ssid h' = conf_ssid h"

lemma keeps_refl [simp]: "keeps h h"
  by (simp add: keeps_def)

lemma keeps_trans [trans]: "keeps h h' \<Longrightarrow> keeps h' h'' \<Longrightarrow> keeps h h''"
  by (auto simp: keeps_def)

lemma keeps_emit [simp]: "keeps h g \<Longrightarrow> keeps h (emit e g)" "keeps h g \<Longrightarrow> keeps h (emit_if b e g)"
  by (auto simp: keeps_def view_def associated_def)

lemma keeps_timers [simp]:
  "keeps h g \<Longrightarrow> keeps h (StaTable.eloop_cancel_timeout k m g)"
  "keeps h g \<Longrightarrow> keeps h (StaTable.eloop_register_timeout n k m g)"
  "keeps h g \<Longrightarrow> keeps h (take_timer k m g)"
  by (auto simp: keeps_def view_def associated_def StaTable.eloop_cancel_timeout_def StaTable.eloop_register_timeout_def take_timer_def)

lemma keeps_authorized [simp]: "keeps h g \<Longrightarrow> keeps h (fst (ap_sta_set_authorized g s a))"
  by (simp add: ap_sta_set_authorized_def)

text \<open>The changes of a station that keep its marks and do not associate it.\<close>

definition tame :: "sta_info \<Rightarrow> sta_info \<Rightarrow> bool" where
  "tame s s' \<longleftrightarrow> sta_addr s' = sta_addr s \<and> marks s' = marks s \<and> (has_flag s' WLAN_STA_ASSOC \<longrightarrow> has_flag s WLAN_STA_ASSOC)"

lemma tame_refl [simp]: "tame s s"
  by (simp add: tame_def)

lemma has_flag_set: "has_flag (set_flag f s) g \<longleftrightarrow> has_flag s g \<or> f AND g \<noteq> 0"
  unfolding has_flag_def set_flag_def by (simp add: bit_eq_iff bit_simps) blast

lemma has_flag_clear_sub: "has_flag (clear_flag f s) g \<Longrightarrow> has_flag s g"
  unfolding has_flag_def clear_flag_def by (auto simp: bit_eq_iff bit_simps)

lemma tame_set: "tame s s' \<Longrightarrow> f AND WLAN_STA_ASSOC = 0 \<Longrightarrow> tame s (set_flag f s')"
  by (auto simp: tame_def marks_def has_flag_set) (simp_all add: set_flag_def)

lemma tame_clear [simp]: "tame s s' \<Longrightarrow> tame s (clear_flag f s')"
  using has_flag_clear_sub[of f s' WLAN_STA_ASSOC] by (auto simp: tame_def marks_def clear_flag_def)

lemma tame_set_flags [simp]:
  assumes "tame s s'"
  shows "tame s (set_flag WLAN_STA_AUTH s')" "tame s (set_flag WLAN_STA_PENDING_POLL s')"
    "tame s (set_flag WLAN_STA_PENDING_DISASSOC_CB s')" "tame s (set_flag WLAN_STA_PENDING_DEAUTH_CB s')"
    "tame s (set_flag WLAN_STA_WDS s')" "tame s (set_flag WLAN_STA_AUTHORIZED s')" "tame s (set_flag WLAN_STA_WMM s')"
    "tame s (set_flag WLAN_STA_MFP s')"
  by (rule tame_set[OF assms], simp add: WLAN_STA_AUTH_def WLAN_STA_ASSOC_def WLAN_STA_PENDING_POLL_def
      WLAN_STA_PENDING_DISASSOC_CB_def WLAN_STA_PENDING_DEAUTH_CB_def WLAN_STA_WDS_def WLAN_STA_AUTHORIZED_def
      WLAN_STA_WMM_def WLAN_STA_MFP_def)+

lemma tame_fields [simp]:
  assumes "tame s s'"
  shows "tame s (s'\<lparr>last_seq_ctrl := a\<rparr>)" "tame s (s'\<lparr>timeout_next := b\<rparr>)" "tame s (s'\<lparr>deauth_reason := c\<rparr>)"
    "tame s (s'\<lparr>disassoc_reason := c\<rparr>)" "tame s (s'\<lparr>acct_terminate_cause := d\<rparr>)" "tame s (s'\<lparr>last_subtype := d\<rparr>)"
    "tame s (s'\<lparr>auth_alg := a\<rparr>)" "tame s (s'\<lparr>challenge := e\<rparr>)" "tame s (s'\<lparr>qosinfo := f\<rparr>)"
    "tame s (s'\<lparr>supported_rates := g\<rparr>)"
    "tame s (s'\<lparr>last_seq_ctrl := a, last_subtype := d\<rparr>)" "tame s (s'\<lparr>timeout_next := b, deauth_reason := c\<rparr>)"
  using assms by (simp_all add: tame_def marks_def has_flag_def)

lemma tame_authorized [simp]: "tame s s' \<Longrightarrow> tame s (snd (ap_sta_set_authorized h s' a))"
  by (simp add: ap_sta_set_authorized_def)

lemma tame_addr: "tame s s' \<Longrightarrow> sta_addr s' = sta_addr s"
  by (simp add: tame_def)

lemma keeps_put:
  assumes "keeps h g" "stas h m = Some s" "sta_addr s = m" "tame s s'"
  shows "keeps h (put_sta s' g)"
  using assms by (auto simp: keeps_def view_def tame_def associated_def put_sta_def fun_eq_iff split: if_splits)

section \<open>Operations that keep the view\<close>

lemma tame_idle [simp]: "tame s s' \<Longrightarrow> tame s (set_idle_cause s')"
  by (simp add: set_idle_cause_def)

lemma keeps_disassociate:
  assumes "sta_inv h" "ap_sta_disassociate c h m r = Inr h'"
  shows "keeps h h'"
  using assms by (auto simp: ap_sta_disassociate_def with_sta_def Let_def case_prod_beta sta_inv_def
      split: option.splits intro!: keeps_put[of _ _ m])

lemma keeps_disconnect:
  assumes "sta_inv h" "ap_sta_disconnect c h m r = Inr h'"
  shows "keeps h h'"
  using assms by (auto simp: ap_sta_disconnect_def disconnect_sta_def with_sta_def Let_def case_prod_beta sta_inv_def
      split: option.splits intro!: keeps_put)

lemma keeps_callbacks:
  "ap_sta_deauth_cb_timeout h m = Inr h' \<Longrightarrow> keeps h h'" "ap_sta_disassoc_cb_timeout h m = Inr h' \<Longrightarrow> keeps h h'"
  by (auto simp: ap_sta_deauth_cb_timeout_def ap_sta_disassoc_cb_timeout_def with_sta_def ap_sta_remove_def split: option.splits)

lemma keeps_confirmations:
  assumes "sta_inv h"
  shows "ap_sta_deauth_cb h m = Inr h' \<Longrightarrow> keeps h h'" "ap_sta_disassoc_cb h m = Inr h' \<Longrightarrow> keeps h h'"
proof -
  have put: "keeps h (StaTable.eloop_cancel_timeout k m (put_sta (clear_flag f s) h))" if "stas h m = Some s" for k f s
    using that assms by (auto simp: sta_inv_def intro!: keeps_timers keeps_put[of _ _ m])
  show "keeps h h'" if "ap_sta_deauth_cb h m = Inr h'"
    using that keeps_trans[OF put keeps_callbacks(1)]
    by (auto simp: ap_sta_deauth_cb_def with_sta_def split: option.splits if_splits)
  show "keeps h h'" if "ap_sta_disassoc_cb h m = Inr h'"
    using that keeps_trans[OF put keeps_callbacks(2)]
    by (auto simp: ap_sta_disassoc_cb_def with_sta_def split: option.splits if_splits)
qed

section \<open>Removal\<close>

definition drops :: "mac \<Rightarrow> iface_counters \<Rightarrow> hostapd_data \<Rightarrow> iface_counters \<Rightarrow> hostapd_data \<Rightarrow> bool" where
  "drops m c h c' h' \<longleftrightarrow> (\<exists>a n s p. view h m = Some (a, n, s, p) \<and> view h' = (view h)(m := None) \<and>
     sta_aid h' = (if 0 < a then clear_aid a (sta_aid h) else sta_aid h) \<and>
     num_sta_non_erp c' = drop_counter n (num_sta_non_erp c) \<and>
     num_sta_no_short_slot_time c' = drop_counter s (num_sta_no_short_slot_time c) \<and>
     num_sta_no_short_preamble c' = drop_counter p (num_sta_no_short_preamble c) \<and>
     associated h' \<subseteq> associated h \<and> set (hevents h) \<subseteq> set (hevents h'))"

lemma marks_authorized [simp]: "marks (snd (ap_sta_set_authorized h s a)) = marks s"
  using tame_authorized[OF tame_refl, of s h a] by (simp add: tame_def)

lemma leave_counters_marks:
  assumes "marks s = (a, n, t, p)" "leave_counters c s = (c', b)"
  shows "num_sta_non_erp c' = drop_counter n (num_sta_non_erp c)"
    "num_sta_no_short_slot_time c' = drop_counter t (num_sta_no_short_slot_time c)"
    "num_sta_no_short_preamble c' = drop_counter p (num_sta_no_short_preamble c)"
  using assms by (auto simp: leave_counters_def marks_def Let_def)

lemma cancel_all_fields [simp]: "sta_aid (cancel_all m h) = sta_aid h" "hevents (cancel_all m h) = hevents h"
  by (simp_all add: cancel_all_def StaTable.eloop_cancel_timeout_def)

lemma drops_free:
  assumes "ap_free_sta c h m = Inr (c', h')"
  shows "drops m c h c' h'"
proof -
  obtain s u where s: "stas h m = Some s" "make_update_station h m = Inr u"
    using assms by (auto simp: ap_free_sta_def with_sta_def bind_res_def split: option.splits sum.splits)
  define h1 where "h1 = emit (AccountingStop m) (emit (SendDelSta u) h)"
  obtain h2 s2 where a: "ap_sta_set_authorized h1 s False = (h2, s2)"
    by fastforce
  obtain c1 sb where c: "leave_counters c s2 = (c1, sb)"
    by fastforce
  have m2: "marks s2 = marks s"
    using marks_authorized[of h1 s False] a by simp
  have k2: "keeps h h2"
    using keeps_authorized[of h h1 s False] unfolding a by (simp add: h1_def)
  obtain aa n t p where m: "marks s = (aa, n, t, p)"
    by (cases "marks s")
  have aid2: "aid s2 = aa"
    using m m2 by (simp add: marks_def)
  define h6 where "h6 = ap_sta_list_del (ap_sta_hash_del (emit_if (\<not> driver_ap_teardown c \<and> \<not> has_flag s2 WLAN_STA_PREAUTH)
    (DrvStaRemove m) (emit_if (ipaddr s2 \<noteq> 0) (DeleteIpNeigh m) (emit_if (has_flag s2 WLAN_STA_WDS) (SetWdsSta m) h2))) m) m"
  have h6: "stas h6 = stas h2" "sta_aid h6 = sta_aid h2" "set (hevents h2) \<subseteq> set (hevents h6)"
    by (auto simp: h6_def ap_sta_list_del_def ap_sta_hash_del_eq)
  define h7 where "h7 = (if aid s2 > 0 then h6\<lparr>sta_aid := clear_aid (aid s2) (sta_aid h6)\<rparr> else h6)"
  define h10 where "h10 = emit (Free8021x m) (cancel_all m (emit_if sb SetBeacons (h7\<lparr>num_sta := num_sta h7 - 1\<rparr>)))"
  have "ap_free_sta c h m = Inr (c1, h10\<lparr>stas := (stas h10)(m := None)\<rparr>)"
    using s a c by (simp add: ap_free_sta_def with_sta_def Let_def h1_def h6_def h7_def h10_def)
  then have r: "c' = c1" "h' = h10\<lparr>stas := (stas h10)(m := None)\<rparr>"
    using assms by simp_all
  have h': "stas h' = (stas h2)(m := None)" "set (hevents h2) \<subseteq> set (hevents h')"
    "sta_aid h' = (if 0 < aa then clear_aid aa (sta_aid h2) else sta_aid h2)"
    using h6 by (auto simp: r(2) h10_def h7_def aid2)
  have "view h' = (view h2)(m := None)" "associated h' \<subseteq> associated h2"
    using h'(1) by (auto simp: view_def associated_def split: if_splits)
  moreover have "view h m = Some (aa, n, t, p)"
    using s(1) m by (simp add: view_def)
  ultimately show ?thesis
    unfolding drops_def r(1)
    using k2 h'(2,3) leave_counters_marks[of s2 aa n t p, OF _ c] m m2
    by (intro exI[of _ aa] exI[of _ n] exI[of _ t] exI[of _ p]) (auto simp: keeps_def)
qed

lemma drops_keeps: "keeps h g \<Longrightarrow> drops m c g c' h' \<Longrightarrow> drops m c h c' h'"
  by (fastforce simp: keeps_def drops_def)

text \<open>A step of a BSS that ends in the removal of a station or keeps all.\<close>

definition moves :: "iface_counters \<Rightarrow> hostapd_data \<Rightarrow> iface_counters \<Rightarrow> hostapd_data \<Rightarrow> bool" where
  "moves c h c' h' \<longleftrightarrow> c' = c \<and> keeps h h' \<or> (\<exists>m. drops m c h c' h')"

lemma moves_keeps: "keeps h h' \<Longrightarrow> moves c h c h'"
  by (simp add: moves_def)

lemma moves_free: "keeps h g \<Longrightarrow> ap_free_sta c g m = Inr (c', h') \<Longrightarrow> moves c h c' h'"
  unfolding moves_def using drops_keeps[OF _ drops_free] by blast

lemma keeps_moves: "keeps h g \<Longrightarrow> moves c g c' h' \<Longrightarrow> moves c h c' h'"
  unfolding moves_def using drops_keeps keeps_trans by blast

lemma tame_check [simp]: "tame s (fst (timer_check_inactivity inact fuzz h s))"
  "tame s (fst r) \<Longrightarrow> tame s (fst (timer_check_poll h r))"
  by (auto simp: timer_check_inactivity_def timer_check_poll_def case_prod_beta Let_def)

lemma tame_notify [simp]: "tame s s' \<Longrightarrow> tame s (snd (timer_notify h s'))"
  by (simp add: timer_notify_def Let_def)

lemma keeps_notify [simp]: "keeps h g \<Longrightarrow> keeps h (fst (timer_notify g s))"
  by (simp add: timer_notify_def Let_def)

lemma moves_advance:
  assumes "keeps h g" "stas h m = Some s" "sta_addr s = m" "tame s s'" "timer_advance c g s' = Inr (c', h')"
  shows "moves c h c' h'"
proof (cases "timeout_next s' = STA_DEAUTH \<or> timeout_next s' = STA_REMOVE")
  case True
  have m: "sta_addr s' = m"
    using assms(3,4) by (simp add: tame_def)
  have "keeps h (put_sta (set_idle_cause s') (emit (MlmeDeauth m 2) g))"
    using assms by (intro keeps_put[OF _ assms(2,3)]) simp_all
  from moves_free[OF this, of c m c' h'] show ?thesis
    using True assms(5) m by (auto simp: timer_advance_def)
next
  case False
  then show ?thesis
    using assms by (cases "timeout_next s'")
      (auto simp: timer_advance_def Let_def case_prod_beta intro!: moves_keeps keeps_emit keeps_timers keeps_put[OF _ assms(2,3)])
qed

lemma moves_handle_timer:
  assumes "sta_inv h" "keeps g h" "ap_handle_timer inact fuzz c h m = Inr (c', h')"
  shows "moves c g c' h'"
proof -
  obtain s where s: "stas h m = Some s" "sta_addr s = m"
    using assms(1,3) by (auto simp: ap_handle_timer_def with_sta_def sta_inv_def split: option.splits)
  have "moves c h c' h'"
    using assms(3) s moves_free[OF keeps_refl, of c h m c' h']
    by (auto simp: ap_handle_timer_def with_sta_def case_prod_beta Let_def split: if_splits
        intro!: moves_keeps keeps_timers keeps_put[of _ _ m s] elim!: moves_advance[of h _ m s, rotated 4])
  then show ?thesis
    by (rule keeps_moves[OF assms(2)])
qed

lemma moves_session_timer:
  assumes "sta_inv h" "keeps g h" "ap_handle_session_timer c h m = Inr (c', h')"
  shows "moves c g c' h'"
proof -
  obtain s where s: "stas h m = Some s" "sta_addr s = m"
    using assms(1,3) by (auto simp: ap_handle_session_timer_def with_sta_def sta_inv_def split: option.splits)
  have "keeps h (put_sta (s\<lparr>acct_terminate_cause := 5\<rparr>) (emit (MlmeDeauth m 2) (emit (DrvStaDeauth m 2) h)))"
    using s by (intro keeps_put[of _ _ m s]) simp_all
  from moves_free[OF this, of c m c' h'] have "moves c h c' h'"
    using assms(3) s moves_free[OF keeps_refl, of c h m c' h'] moves_keeps[of h h c]
    by (auto simp: ap_handle_session_timer_def with_sta_def split: if_splits)
  then show ?thesis
    by (rule keeps_moves[OF assms(2)])
qed

lemma moves_expire:
  assumes "sta_inv h" "expire inact fuzz k m c h = Inr (c', h')"
  shows "moves c h c' h'"
proof -
  have t: "sta_inv (take_timer k m h)" "keeps h (take_timer k m h)"
    using assms(1) by simp_all
  show ?thesis
    using assms(2) moves_handle_timer[OF t, of inact fuzz c m c' h'] moves_session_timer[OF t, of c m c' h']
      keeps_trans[OF t(2) keeps_callbacks(1), of m h'] keeps_trans[OF t(2) keeps_callbacks(2), of m h'] t(2)
    by (cases k) (auto simp: no_counters_def bind_res_def moves_keeps split: sum.splits)
qed

end
