(* ===== verification/MgmtInv.thy ===== *)
theory MgmtInv
  imports MgmtSteps
begin

unbundle bit_operations_syntax

text \<open>
  The invariant of an interface: each BSS has a sound station table with its timers, identifiers
  that agree with the bit map, and only stations marked as associated that were sent an accepting
  response; the counters of the interface count the marks of the stations of all BSSs.
\<close>

section \<open>The invariant\<close>

definition grants :: "u8 list \<Rightarrow> bool" where
  "grants f \<longleftrightarrow> 30 \<le> length f \<and> WLAN_FC_GET_STYPE (le16_at f 0) \<in> {WLAN_FC_STYPE_ASSOC_RESP, WLAN_FC_STYPE_REASSOC_RESP} \<and>
     le16_at f 26 = WLAN_STATUS_SUCCESS"

definition answered :: "hostapd_data \<Rightarrow> mac set" where
  "answered h = {m. \<exists>f. SendMlme f \<in> set (hevents h) \<and> grants f \<and> addr1 f = m}"

definition aid_of :: "hostapd_data \<Rightarrow> mac \<rightharpoonup> nat" where
  "aid_of h = (\<lambda>m. map_option fst (view h m))"

definition bss_ok :: "hostapd_data \<Rightarrow> bool" where
  "bss_ok h \<longleftrightarrow> timer_inv h \<and> aids.consistent (sta_aid h) (aid_of h) \<and> associated h \<subseteq> answered h"

definition marked :: "(bool \<times> bool \<times> bool \<Rightarrow> bool) \<Rightarrow> (mac \<rightharpoonup> nat \<times> bool \<times> bool \<times> bool) \<Rightarrow> int" where
  "marked P v = int (card {m. \<exists>a ms. v m = Some (a, ms) \<and> P ms})"

definition total :: "(bool \<times> bool \<times> bool \<Rightarrow> bool) \<Rightarrow> hostapd_data list \<Rightarrow> int" where
  "total P bs = sum_list (map (\<lambda>h. marked P (view h)) bs)"

definition counts_ok :: "iface_counters \<Rightarrow> hostapd_data list \<Rightarrow> bool" where
  "counts_ok c bs \<longleftrightarrow>
     num_sta_non_erp c = total (\<lambda>(n, t, p). n) bs \<and>
     num_sta_no_short_slot_time c = total (\<lambda>(n, t, p). t) bs \<and>
     num_sta_no_short_preamble c = total (\<lambda>(n, t, p). p) bs"

definition iface_ok :: "hostapd_iface \<Rightarrow> bool" where
  "iface_ok st \<longleftrightarrow> (\<forall>h \<in> set (bsses st). bss_ok h) \<and> counts_ok (counters st) (bsses st)"

section \<open>Counting\<close>

lemma total_update: "i < length bs \<Longrightarrow> total P (bs[i := h]) = total P bs + marked P (view h) - marked P (view (bs ! i))"
proof (induction bs arbitrary: i)
  case (Cons b bs)
  then show ?case
    by (cases i) (simp_all add: total_def)
qed simp

lemma marked_upd:
  assumes "finite (dom v)"
  shows "marked P (v(m := x)) = marked P (v(m := None)) + (case x of Some (a, ms) \<Rightarrow> of_bool (P ms) | None \<Rightarrow> 0)"
proof (cases x)
  case (Some y)
  obtain a ms where y: "y = (a, ms)"
    by (rule prod.exhaust)
  let ?S = "{n. \<exists>b l. (v(m := None)) n = Some (b, l) \<and> P l}"
  have fin: "finite ?S"
    by (rule finite_subset[OF _ assms]) (auto split: if_splits)
  have "{n. \<exists>b l. (v(m := x)) n = Some (b, l) \<and> P l} = (if P ms then insert m ?S else ?S)"
    by (cases ms) (auto simp: Some y split: if_splits)
  moreover have "m \<notin> ?S"
    by simp
  ultimately show ?thesis
    using fin by (simp add: marked_def Some y del: fun_upd_apply)
qed simp

lemma marked_eq:
  assumes "finite (dom v)" "v m = Some (a, ms)"
  shows "marked P v = marked P (v(m := None)) + of_bool (P ms)"
  using marked_upd[OF assms(1), of P m "Some (a, ms)"] assms(2) by (simp add: fun_upd_idem)

lemma view_finite: "sta_inv h \<Longrightarrow> finite (dom (view h))"
proof -
  assume "sta_inv h"
  then have "dom (view h) = set (sta_list h)"
    by (auto simp: view_def sta_inv_def dom_def)
  then show ?thesis
    by simp
qed

lemma bss_ok_inv: "bss_ok h \<Longrightarrow> timer_inv h" "bss_ok h \<Longrightarrow> sta_inv h" "bss_ok h \<Longrightarrow> finite (dom (view h))"
  by (simp_all add: bss_ok_def timer_inv_def view_finite)

section \<open>How the steps of a BSS keep the invariant of the interface\<close>

lemma answered_mono: "set (hevents h) \<subseteq> set (hevents h') \<Longrightarrow> answered h \<subseteq> answered h'"
  by (auto simp: answered_def)

lemma iface_ok_update:
  assumes "iface_ok st" "i < length (bsses st)" "bss_ok h'"
    and "\<And>P. marked P (view h') = marked P (view (bsses st ! i)) + d P"
    and "num_sta_non_erp c' = num_sta_non_erp (counters st) + d (\<lambda>(n, t, p). n)"
    and "num_sta_no_short_slot_time c' = num_sta_no_short_slot_time (counters st) + d (\<lambda>(n, t, p). t)"
    and "num_sta_no_short_preamble c' = num_sta_no_short_preamble (counters st) + d (\<lambda>(n, t, p). p)"
  shows "iface_ok (set_bss i h' (st\<lparr>counters := c'\<rparr>))"
  using assms set_update_subset_insert[of "bsses st" i h']
  by (auto simp: iface_ok_def counts_ok_def set_bss_def total_update)

lemma iface_ok_bss: "iface_ok st \<Longrightarrow> i < length (bsses st) \<Longrightarrow> bss_ok (bsses st ! i)"
  by (simp add: iface_ok_def)

text \<open>A step that keeps the view and may mark a station as associated that was answered.\<close>

definition confirms :: "hostapd_data \<Rightarrow> hostapd_data \<Rightarrow> bool" where
  "confirms h h' \<longleftrightarrow> view h' = view h \<and> sta_aid h' = sta_aid h \<and> associated h' \<subseteq> associated h \<union> answered h \<and>
     set (hevents h) \<subseteq> set (hevents h')"

lemma keeps_confirms: "keeps h h' \<Longrightarrow> confirms h h'"
  by (auto simp: keeps_def confirms_def)

lemma confirms_keeps: "confirms h g \<Longrightarrow> keeps g h' \<Longrightarrow> confirms h h'"
  by (auto simp: keeps_def confirms_def)

lemma bss_ok_confirms: "bss_ok h \<Longrightarrow> confirms h h' \<Longrightarrow> timer_inv h' \<Longrightarrow> bss_ok h'"
  using answered_mono[of h h'] by (auto simp: bss_ok_def confirms_def aid_of_def)

lemma set_counters [simp]: "st\<lparr>counters := counters st\<rparr> = (st :: hostapd_iface)"
  by simp

lemma iface_ok_confirms:
  assumes "iface_ok st" "i < length (bsses st)" "confirms (bsses st ! i) h'" "timer_inv h'"
  shows "iface_ok (set_bss i h' st)"
  using iface_ok_update[OF assms(1,2) bss_ok_confirms[OF iface_ok_bss[OF assms(1,2)] assms(3,4)], of "\<lambda>_. 0" "counters st"]
    assms(3) by (simp add: confirms_def)

lemmas iface_ok_keeps = iface_ok_confirms[OF _ _ keeps_confirms]

lemma iface_ok_drops:
  assumes "iface_ok st" "i < length (bsses st)" "drops m (counters st) (bsses st ! i) c' h'" "timer_inv h'"
  shows "iface_ok (set_bss i h' (st\<lparr>counters := c'\<rparr>))"
proof -
  let ?h = "bsses st ! i"
  have ok: "bss_ok ?h"
    by (rule iface_ok_bss[OF assms(1,2)])
  obtain a n t p where d: "view ?h m = Some (a, n, t, p)" "view h' = (view ?h)(m := None)"
    "sta_aid h' = (if 0 < a then clear_aid a (sta_aid ?h) else sta_aid ?h)"
    "num_sta_non_erp c' = drop_counter n (num_sta_non_erp (counters st))"
    "num_sta_no_short_slot_time c' = drop_counter t (num_sta_no_short_slot_time (counters st))"
    "num_sta_no_short_preamble c' = drop_counter p (num_sta_no_short_preamble (counters st))"
    "associated h' \<subseteq> associated ?h" "set (hevents ?h) \<subseteq> set (hevents h')"
    using assms(3) by (auto simp: drops_def)
  have "aid_of h' = (aid_of ?h)(m := None)" "aid_of ?h m = Some a"
    using d(1,2) by (auto simp: aid_of_def)
  then have "aids.consistent (sta_aid h') (aid_of h')"
    using aids.consistent_leave[of "sta_aid ?h" "aid_of ?h" m a] ok d(3) by (simp add: bss_ok_def)
  then have ok': "bss_ok h'"
    using ok d(7) answered_mono[OF d(8)] assms(4) by (auto simp: bss_ok_def)
  show ?thesis
    using marked_eq[OF bss_ok_inv(3)[OF ok] d(1)] d
    by (intro iface_ok_update[OF assms(1,2) ok', of "\<lambda>P. - of_bool (P (n, t, p))"]) (auto simp: drop_counter_def)
qed

lemma iface_ok_moves:
  assumes "iface_ok st" "i < length (bsses st)" "moves (counters st) (bsses st ! i) c' h'" "timer_inv h'"
  shows "iface_ok (set_bss i h' (st\<lparr>counters := c'\<rparr>))"
  using assms iface_ok_keeps[OF assms(1,2)] iface_ok_drops[OF assms(1,2)] by (auto simp: moves_def)

text \<open>A new station, and a station whose identifier and marks were revised.\<close>

definition joins :: "mac \<Rightarrow> hostapd_data \<Rightarrow> hostapd_data \<Rightarrow> bool" where
  "joins m h h' \<longleftrightarrow> view h m = None \<and> view h' = (view h)(m \<mapsto> (0, False, False, False)) \<and> sta_aid h' = sta_aid h \<and>
     associated h' \<subseteq> associated h \<and> set (hevents h) \<subseteq> set (hevents h')"

lemma iface_ok_joins:
  assumes "iface_ok st" "i < length (bsses st)" "joins m (bsses st ! i) h'" "timer_inv h'"
  shows "iface_ok (set_bss i h' st)"
proof -
  let ?h = "bsses st ! i"
  have ok: "bss_ok ?h"
    by (rule iface_ok_bss[OF assms(1,2)])
  have "aid_of h' = (aid_of ?h)(m \<mapsto> 0)" "aid_of ?h m = None"
    using assms(3) by (auto simp: aid_of_def joins_def)
  then have "aids.consistent (sta_aid h') (aid_of h')"
    using aids.consistent_join[of "sta_aid ?h" "aid_of ?h" m] ok assms(3) by (simp add: bss_ok_def joins_def)
  then have ok': "bss_ok h'"
    using ok assms(3,4) answered_mono[of ?h h'] by (auto simp: bss_ok_def joins_def)
  have "marked P (view h') = marked P (view ?h) + of_bool (P (False, False, False))" for P
    using marked_upd[OF bss_ok_inv(3)[OF ok], of P m "Some (0, False, False, False)"] assms(3)
    by (simp add: joins_def fun_upd_idem)
  from iface_ok_update[OF assms(1,2) ok' this, of "counters st"] show ?thesis
    by simp
qed

definition revises :: "mac \<Rightarrow> iface_counters \<Rightarrow> hostapd_data \<Rightarrow> iface_counters \<Rightarrow> hostapd_data \<Rightarrow> bool" where
  "revises m c h c' h' \<longleftrightarrow> (\<exists>a n t p a' n' t' p'.
     view h m = Some (a, n, t, p) \<and> view h' = (view h)(m \<mapsto> (a', n', t', p')) \<and>
     (a' = a \<and> sta_aid h' = sta_aid h \<or> a = 0 \<and> new_aid (sta_aid h) = Some (a', sta_aid h')) \<and>
     num_sta_non_erp c' = num_sta_non_erp c + (of_bool n' - of_bool n) \<and>
     num_sta_no_short_slot_time c' = num_sta_no_short_slot_time c + (of_bool t' - of_bool t) \<and>
     num_sta_no_short_preamble c' = num_sta_no_short_preamble c + (of_bool p' - of_bool p) \<and>
     associated h' \<subseteq> associated h \<and> set (hevents h) \<subseteq> set (hevents h'))"

lemma iface_ok_revises:
  assumes "iface_ok st" "i < length (bsses st)" "revises m (counters st) (bsses st ! i) c' h'" "timer_inv h'"
  shows "iface_ok (set_bss i h' (st\<lparr>counters := c'\<rparr>))"
proof -
  let ?h = "bsses st ! i"
  have ok: "bss_ok ?h"
    by (rule iface_ok_bss[OF assms(1,2)])
  obtain a n t p a' n' t' p' where d: "view ?h m = Some (a, n, t, p)" "view h' = (view ?h)(m \<mapsto> (a', n', t', p'))"
    "a' = a \<and> sta_aid h' = sta_aid ?h \<or> a = 0 \<and> new_aid (sta_aid ?h) = Some (a', sta_aid h')"
    "num_sta_non_erp c' = num_sta_non_erp (counters st) + (of_bool n' - of_bool n)"
    "num_sta_no_short_slot_time c' = num_sta_no_short_slot_time (counters st) + (of_bool t' - of_bool t)"
    "num_sta_no_short_preamble c' = num_sta_no_short_preamble (counters st) + (of_bool p' - of_bool p)"
    "associated h' \<subseteq> associated ?h" "set (hevents ?h) \<subseteq> set (hevents h')"
    using assms(3) unfolding revises_def by blast
  have g: "aid_of h' = (aid_of ?h)(m \<mapsto> a')" "aid_of ?h m = Some a"
    using d(1,2) by (auto simp: aid_of_def)
  have "aids.consistent (sta_aid h') (aid_of h')"
    using d(3) ok g aids.consistent_get[of "sta_aid ?h" "aid_of ?h" m a' "sta_aid h'"]
    by (auto simp: bss_ok_def fun_upd_idem)
  then have ok': "bss_ok h'"
    using ok d(7) answered_mono[OF d(8)] assms(4) by (auto simp: bss_ok_def)
  have fin: "finite (dom (view ?h))"
    by (rule bss_ok_inv(3)[OF ok])
  have "marked P (view h') = marked P (view ?h) + (of_bool (P (n', t', p')) - of_bool (P (n, t, p)))" for P
    unfolding d(2) using marked_upd[OF fin, of P m "Some (a', n', t', p')"] marked_eq[OF fin d(1), of P] by simp
  from iface_ok_update[OF assms(1,2) ok' this] show ?thesis
    using d(4-6) by simp
qed

end
