(* ===== verification/MgmtRun.thy ===== *)
theory MgmtRun
  imports MgmtInv
begin

unbundle bit_operations_syntax

text \<open>
  Every handler of management frames, of transmission reports and of timers keeps the invariant
  of the interface, and so does any sequence of them.
\<close>

section \<open>Steps of one BSS\<close>

definition mild :: "hostapd_data \<Rightarrow> hostapd_data \<Rightarrow> bool" where
  "mild h h' \<longleftrightarrow> keeps h h' \<and> (timer_inv h \<longrightarrow> timer_inv h') \<and> sta_keys h' = sta_keys h"

lemma mild_refl [simp]: "mild h h"
  by (simp add: mild_def)

lemma mild_emit [simp]: "mild h g \<Longrightarrow> mild h (emit e g)" "mild h g \<Longrightarrow> mild h (emit_if b e g)"
  by (simp_all add: mild_def)

lemma mild_authorized [simp]: "mild h g \<Longrightarrow> mild h (fst (ap_sta_set_authorized g s a))"
  by (simp add: mild_def)

lemma mild_put:
  assumes "mild h g" "stas h m = Some s" "sta_addr s = m" "tame s s'" "sta_inv h"
  shows "mild h (put_sta s' g)"
  using assms keeps_put[of h g m s s'] timer_inv_put[of g s'] tame_addr[of s s']
  by (auto simp: mild_def sta_inv_def)

lemma mild_timers:
  assumes "mild h g"
  shows "m \<in> sta_keys h \<Longrightarrow> mild h (StaTable.eloop_register_timeout n k m (StaTable.eloop_cancel_timeout k m g))"
    "k \<noteq> HandleTimer \<Longrightarrow> mild h (StaTable.eloop_cancel_timeout k m g)"
  using assms by (auto simp: mild_def intro!: timer_inv_rearm timer_inv_cancel)

lemma station_of:
  assumes "sta_inv h" "stas h m = Some s"
  shows "sta_addr s = m" "m \<in> sta_keys h"
  using assms by (auto simp: sta_inv_def)

lemma auth_shared_key_mild:
  assumes "auth_shared_key e tr ch w g s' = (r, g', s'')" "mild h g" "tame s s'"
  shows "mild h g' \<and> tame s s''"
  using assms by (auto simp: auth_shared_key_def split: if_splits option.splits)

lemma auth_session_mild: "mild h g \<Longrightarrow> m \<in> sta_keys h \<Longrightarrow> mild h (auth_session e m g)"
  by (auto simp: auth_session_def ap_sta_session_timeout_def ap_sta_no_session_timeout_def mild_timers split: acl_result.splits)

lemma auth_station_mild:
  assumes "sta_inv h" "stas h m = Some s"
  shows "mild h (auth_station e b h s)"
proof -
  note s = station_of[OF assms]
  define s2 where "s2 = clear_flag WLAN_STA_PREAUTH (s\<lparr>last_seq_ctrl := le16_at b 22, last_subtype := WLAN_FC_STYPE_AUTH\<rparr>)"
  define h2 where "h2 = auth_session e m (emit (NotifyPreAuth m) h)"
  obtain r h3 s3 where k: "auth_shared_key e (le16_at b 26) (auth_challenge b) (le16_at b 0 AND WLAN_FC_ISWEP \<noteq> 0) h2 s2 = (r, h3, s3)"
    by (rule prod_cases3)
  have h2: "mild h h2" "tame s s2"
    using auth_session_mild[of h "emit (NotifyPreAuth m) h" m e] s(2) by (simp_all add: h2_def s2_def)
  note h3 = auth_shared_key_mild[OF k h2]
  note put = mild_put[OF _ assms(2) s(1) _ assms(1)]
  have "mild h (put_sta (s\<lparr>last_seq_ctrl := le16_at b 22, last_subtype := WLAN_FC_STYPE_AUTH\<rparr>) h)"
    "mild h (put_sta ((set_flag WLAN_STA_AUTH s2)\<lparr>auth_alg := WLAN_AUTH_OPEN\<rparr>) (emit (WpaAuth m) h2))"
    "mild h (put_sta (s3\<lparr>auth_alg := WLAN_AUTH_SHARED_KEY\<rparr>) h3)" "mild h (put_sta s2 h2)"
    using h2 h3 by (simp_all add: put)
  then show ?thesis
    unfolding auth_station_def Let_def s(1) h2_def[symmetric] s2_def[symmetric] k by (simp add: send_auth_reply_def)
qed

lemma disassoc_station_mild:
  assumes "sta_inv h" "stas h m = Some s"
  shows "mild h (disassoc_station r h s)"
proof -
  note s = station_of[OF assms]
  note put = mild_put[OF _ assms(2) s(1) _ assms(1)]
  show ?thesis
    unfolding disassoc_station_def Let_def s(1) case_prod_beta using s(2)
    by (auto intro!: put mild_emit mild_timers(1))
qed

lemma action_dispatch_mild: "mild h g \<Longrightarrow> mild h (snd (action_dispatch e b g))"
  by (simp add: action_dispatch_def Let_def)

lemma probe_req_mild: "handle_probe_req pe socket t h r = Inr h' \<Longrightarrow> mild h h'"
  by (auto simp: handle_probe_req_def Let_def bind_res_def split: if_splits option.splits sum.splits)

lemma leave_cb_mild:
  assumes "timer_inv h"
  shows "\<exists>h'. handle_deauth_cb b h = Inr h' \<and> keeps h h' \<and> timer_inv h'"
    and "\<exists>h'. handle_disassoc_cb b h = Inr h' \<and> keeps h h' \<and> timer_inv h'"
proof -
  have i: "sta_inv h"
    using assms by (simp add: timer_inv_def)
  have "\<exists>h'. handle_leave_cb f b h = Inr h' \<and> keeps h h' \<and> timer_inv h'"
    if "\<And>m. m \<in> sta_keys h \<Longrightarrow> \<exists>h'. f h m = Inr h' \<and> timer_inv h'" "\<And>m h'. f h m = Inr h' \<Longrightarrow> keeps h h'" for f
    using that assms i by (fastforce simp: handle_leave_cb_def ap_get_sta_eq)
  then show "\<exists>h'. handle_deauth_cb b h = Inr h' \<and> keeps h h' \<and> timer_inv h'"
    "\<exists>h'. handle_disassoc_cb b h = Inr h' \<and> keeps h h' \<and> timer_inv h'"
    unfolding handle_deauth_cb_def handle_disassoc_cb_def
    using timer_inv_confirmations[OF assms] keeps_confirmations[OF i] by blast+
qed

lemma auth_cb_mild:
  assumes "timer_inv h"
  shows "\<exists>h'. handle_auth_cb b ok h = Inr h' \<and> mild h h'"
proof -
  have i: "sta_inv h"
    using assms by (simp add: timer_inv_def)
  have "mild h (put_sta (set_flag WLAN_STA_AUTH s) h)" if "stas h m = Some s" for m s
    using that station_of[OF i that] by (intro mild_put[of _ _ m s]) (simp_all add: i)
  then show ?thesis
    using sta_lookup[OF i, of "addr1 b"]
    by (auto simp: handle_auth_cb_def ap_get_sta_eq[OF i] with_sta_def Let_def)
qed

lemma confirm_station_ok:
  assumes "timer_inv h" "stas h m = Some s" "m \<in> answered h" "confirm_station cf re h s = (h', s')"
  shows "confirms h h' \<and> timer_inv h' \<and> stas h' m = Some s' \<and> sta_inv h'"
proof -
  have i: "sta_inv h"
    using assms(1) by (simp add: timer_inv_def)
  note s = station_of[OF i assms(2)]
  let ?s1 = "clear_flag WLAN_STA_WNM_SLEEP_MODE (set_flag WLAN_STA_ASSOC s)"
  let ?g = "emit (AccountingStop m) h"
  define r where "r = (if \<not> ieee802_1x cf \<and> conf_wpa cf = 0 \<and> \<not> osen cf \<or> auth_alg ?s1 = WLAN_AUTH_FT
    then ap_sta_set_authorized ?g ?s1 True else (?g, ?s1))"
  have k: "keeps h (fst r)" "timer_inv (fst r)" "sta_keys (fst r) = sta_keys h" "sta_addr (snd r) = m"
    using s assms(1) by (simp_all add: r_def)
  have "marks ?s1 = marks s"
    by (simp add: marks_def clear_flag_def set_flag_def)
  then have "marks (snd r) = marks s"
    by (simp add: r_def)
  then have c: "confirms h (put_sta (snd r) (fst r))"
    using k(1,4) assms(2,3) unfolding keeps_def confirms_def
    by (auto simp: view_def associated_def put_sta_def fun_eq_iff split: if_splits)
  have h': "h' = emit (DrvStaAdd m (aid (snd r))) (emit (DrvStaRemove m)
      (emit (if re then MlmeReassoc m else MlmeAssoc m) (put_sta (snd r) (fst r))))" "s' = snd r"
    using assms(4) by (auto simp: confirm_station_def Let_def s(1) case_prod_beta simp flip: r_def)
  have "timer_inv h'"
    unfolding h' using timer_inv_put[OF k(2), of "snd r"] k(3,4) s(2) by simp
  moreover have "confirms h h'"
    unfolding h' using confirms_keeps[OF c] by simp
  ultimately show ?thesis
    using k(4) by (simp add: h' timer_inv_def)
qed

lemma assoc_cb_ok:
  assumes "timer_inv h" "grants b \<Longrightarrow> addr1 b \<in> answered h"
    and "WLAN_FC_GET_STYPE (le16_at b 0) \<in> {WLAN_FC_STYPE_ASSOC_RESP, WLAN_FC_STYPE_REASSOC_RESP}"
  shows "\<exists>h'. handle_assoc_cb e cf c re b ok h = Inr h' \<and> confirms h h' \<and> timer_inv h'"
proof (cases "length b < 30 \<or> addr1 b \<notin> sta_keys h")
  case False
  define m where "m = addr1 b"
  have i: "sta_inv h"
    using assms(1) by (simp add: timer_inv_def)
  obtain s where s: "stas h m = Some s" "sta_addr s = m"
    using sta_lookup[OF i, of m] False by (auto simp: m_def)
  have get: "ap_get_sta h (addr1 b) = Some m" "\<not> length b < 30"
    using False by (simp_all add: ap_get_sta_eq[OF i] m_def)
  show ?thesis
  proof (cases "ok \<and> le16_at b 26 = WLAN_STATUS_SUCCESS")
    case True
    then have "m \<in> answered h"
      using assms(2,3) get(2) by (auto simp: grants_def m_def)
    moreover obtain h1 s1 where c: "confirm_station cf re h s = (h1, s1)"
      by fastforce
    ultimately have k: "confirms h h1" "timer_inv h1" "sta_inv h1"
      using confirm_station_ok[OF assms(1) s(1)] by auto
    obtain h2 where d: "ap_sta_disconnect c h1 m WLAN_REASON_DISASSOC_AP_BUSY = Inr h2" "timer_inv h2"
      using timer_inv_disconnect[OF k(2)] by blast
    have "confirms h h2"
      using confirms_keeps[OF k(1) keeps_disconnect[OF k(3) d(1)]] .
    then show ?thesis
      using True get s(1) c d k confirms_keeps[OF k(1)] by (auto simp: handle_assoc_cb_def with_sta_def Let_def)
  next
    case ok: False
    have "mild h (put_sta (clear_flag WLAN_STA_ASSOC_REQ_OK s) h)"
      using s i by (intro mild_put[of _ _ m s]) simp_all
    then show ?thesis
      using ok get s(1) assms(1) keeps_confirms[of h] by (auto simp: handle_assoc_cb_def with_sta_def mild_def)
  qed
qed (use assms(1) keeps_confirms[OF keeps_refl] in \<open>auto simp: handle_assoc_cb_def ap_get_sta_eq timer_inv_def\<close>)

section \<open>Association\<close>

text \<open>The part of an association that counts marks.\<close>

definition counted ::
  "iface_counters \<times> hostapd_data \<times> sta_info \<Rightarrow> iface_counters \<times> hostapd_data \<times> sta_info \<Rightarrow> bool" where
  "counted r r' \<longleftrightarrow> (case (r, r') of ((c, h, s), (c', h', s')) \<Rightarrow>
     (\<exists>es. h' = h\<lparr>hevents := hevents h @ es\<rparr>) \<and> sta_addr s' = sta_addr s \<and> aid s' = aid s \<and>
     (has_flag s' WLAN_STA_ASSOC \<longrightarrow> has_flag s WLAN_STA_ASSOC) \<and>
     num_sta_non_erp c' = num_sta_non_erp c + (of_bool (nonerp_set s') - of_bool (nonerp_set s)) \<and>
     num_sta_no_short_slot_time c' = num_sta_no_short_slot_time c +
       (of_bool (no_short_slot_time_set s') - of_bool (no_short_slot_time_set s)) \<and>
     num_sta_no_short_preamble c' = num_sta_no_short_preamble c +
       (of_bool (no_short_preamble_set s') - of_bool (no_short_preamble_set s)))"

lemma counted_trans [trans]: "counted r r' \<Longrightarrow> counted r' r'' \<Longrightarrow> counted r r''"
  by (auto simp: counted_def split: prod.splits)

lemma counted_station: "tame s s' \<Longrightarrow> counted (c, h, s) (c, h, s')"
  by (auto simp: counted_def tame_def marks_def intro!: exI[of _ "[]"])

lemma emit_if_log: "emit_if b e h = h\<lparr>hevents := hevents h @ (if b then [e] else [])\<rparr>"
  by (simp add: emit_if_def emit_def)

lemma counted_nonerp: "counted r (count_nonerp r)"
  by (cases r) (auto simp: counted_def count_nonerp_def Let_def emit_if_log has_flag_def intro: exI[of _ "[]"])

lemma counted_slot_time: "counted r (count_slot_time r)"
  by (cases r) (auto simp: counted_def count_slot_time_def Let_def emit_if_log has_flag_def intro: exI[of _ "[]"])

lemma tame_assoc_flags [simp]:
  assumes "tame s s'"
  shows "tame s (set_flag WLAN_STA_SHORT_PREAMBLE s')" "tame s (set_flag WLAN_STA_NONERP s')"
    "tame s (set_flag WLAN_STA_ASSOC_REQ_OK s')"
  by (rule tame_set[OF assms], simp add: WLAN_STA_ASSOC_def WLAN_STA_SHORT_PREAMBLE_def WLAN_STA_NONERP_def
      WLAN_STA_ASSOC_REQ_OK_def)+

lemma tame_capability [simp]: "tame s s' \<Longrightarrow> tame s (s'\<lparr>capability := a, listen_interval := b\<rparr>)"
  by (simp add: tame_def marks_def has_flag_def)

lemma counted_preamble: "counted r (count_preamble r)"
proof -
  obtain c h s where r: "r = (c, h, s)"
    by (rule prod_cases3)
  define s1 where "s1 = (if capability s AND 0x0020 \<noteq> 0 then set_flag WLAN_STA_SHORT_PREAMBLE s
    else clear_flag WLAN_STA_SHORT_PREAMBLE s)"
  have "counted (c, h, s) (c, h, s1)"
    by (rule counted_station) (simp add: s1_def)
  moreover have "counted (c, h, s1) (count_preamble r)"
    unfolding r count_preamble_def prod.case Let_def s1_def[symmetric]
    by (auto simp: counted_def emit_if_log has_flag_def intro: exI[of _ "[]"])
  ultimately show ?thesis
    unfolding r by (rule counted_trans)
qed

lemma counted_accept: "counted (c, h, s) (assoc_accept c a b h s)"
proof -
  let ?s = "set_nonerp c (s\<lparr>capability := a, listen_interval := b\<rparr>)"
  obtain c1 h1 s1 where r: "count_preamble (count_slot_time (count_nonerp (c, h, ?s))) = (c1, h1, s1)"
    by (rule prod_cases3)
  have "counted (c, h, s) (c, h, ?s)"
    by (rule counted_station) (simp add: set_nonerp_def Let_def)
  also have "counted (c, h, ?s) (c1, h1, s1)"
    using counted_trans[OF counted_trans[OF counted_nonerp counted_slot_time] counted_preamble] r by metis
  also have "counted (c1, h1, s1) (c1, h1, (set_flag WLAN_STA_ASSOC_REQ_OK s1)\<lparr>timeout_next := STA_NULLFUNC\<rparr>)"
    by (rule counted_station) simp
  finally show ?thesis
    by (simp add: assoc_accept_def r)
qed

lemma check_assoc_ies_tame:
  assumes "check_assoc_ies e cf re ies h s = (r, h', s')"
  shows "tame s s' \<and> (\<exists>es. h' = h\<lparr>hevents := hevents h @ es\<rparr>)"
proof -
  have w: "tame s s2" if "check_wmm cf ie s = (r, s2)" for ie r s2
    using that by (auto simp: check_wmm_def Let_def split: option.splits if_splits)
  have c: "tame s s2" if "copy_supp_rates el s1 = (r, s2)" "tame s s1" for el r s1 s2
    using that by (auto simp: copy_supp_rates_def split: if_splits)
  have p: "tame s s2 \<and> (\<exists>es. h2 = h\<lparr>hevents := hevents h @ es\<rparr>)" if "check_wpa e cf re el h s1 = (r, h2, s2)" "tame s s1" for el r h2 s1 s2
    using that by (auto simp: check_wpa_def emit_def case_prod_beta intro: exI[of _ "[]"] split: if_splits option.splits)
  have h: "\<exists>es. h = h\<lparr>hevents := hevents h @ es\<rparr>"
    by (rule exI[of _ "[]"]) simp
  show ?thesis
    using assms h unfolding check_assoc_ies_def Let_def case_prod_beta
    by (auto split: if_splits dest!: p simp: w[OF prod.collapse[symmetric]] c[OF prod.collapse[symmetric]])
qed

text \<open>What the verdict on an association request changes.\<close>

lemma assoc_result_changes:
  assumes "assoc_result e cf re b c h s = (r, c', h', s')"
  obtains ws es where "h' = h\<lparr>sta_aid := ws, hevents := hevents h @ es\<rparr>" "sta_addr s' = sta_addr s"
    "has_flag s' WLAN_STA_ASSOC \<longrightarrow> has_flag s WLAN_STA_ASSOC"
    "aid s' = aid s \<and> ws = sta_aid h \<or> aid s = 0 \<and> new_aid (sta_aid h) = Some (aid s', ws)"
    "num_sta_non_erp c' = num_sta_non_erp c + (of_bool (nonerp_set s') - of_bool (nonerp_set s))"
    "num_sta_no_short_slot_time c' = num_sta_no_short_slot_time c +
       (of_bool (no_short_slot_time_set s') - of_bool (no_short_slot_time_set s))"
    "num_sta_no_short_preamble c' = num_sta_no_short_preamble c +
       (of_bool (no_short_preamble_set s') - of_bool (no_short_preamble_set s))"
proof -
  obtain r1 h1 s1 where k: "check_assoc_ies e cf re (drop (if re then 34 else 28) b) h s = (r1, h1, s1)"
    by (rule prod_cases3)
  obtain es1 where h1: "tame s s1" "h1 = h\<lparr>hevents := hevents h @ es1\<rparr>"
    using check_assoc_ies_tame[OF k] by blast
  show ?thesis
  proof (cases "tkip_countermeasures e \<or> le16_at b 26 > max_listen_interval cf \<or> r1 \<noteq> WLAN_STATUS_SUCCESS \<or> hostapd_get_aid h1 s1 = None")
    case True
    then have c: "c' = c" "h' = h \<and> s' = s \<or> h' = h1 \<and> s' = s1"
      using assms k by (auto simp: assoc_result_def Let_def split: if_splits)
    have "\<exists>es. h' = h\<lparr>hevents := hevents h @ es\<rparr>"
      using c(2) h1(2) by (auto intro: exI[of _ "[]"])
    then obtain es where es: "h' = h\<lparr>sta_aid := sta_aid h, hevents := hevents h @ es\<rparr>"
      by auto
    have t: "tame s s'"
      using c(2) h1(1) by auto
    show ?thesis
      by (rule that[OF es]) (use t c(1) in \<open>simp_all add: tame_def marks_def\<close>)
  next
    case False
    then obtain h2 s2 where g: "hostapd_get_aid h1 s1 = Some (h2, s2)"
      by auto
    then obtain ws where ws: "h2 = h1\<lparr>sta_aid := ws\<rparr>" "s2 = s1\<lparr>aid := aid s2\<rparr>"
      "aid s2 = aid s1 \<and> ws = sta_aid h1 \<or> aid s1 = 0 \<and> new_aid (sta_aid h1) = Some (aid s2, ws)"
      by (auto simp: hostapd_get_aid_def split: if_splits)
    have "c' = c \<and> h' = h2 \<and> s' = s2 \<or> (c', h', s') = assoc_accept c (le16_at b 24) (le16_at b 26) h2 s2"
      using assms False k g by (auto simp: assoc_result_def Let_def split: if_splits)
    then have n: "counted (c, h2, s2) (c', h', s')"
      using counted_accept[of c h2 s2] counted_station[OF tame_refl] by metis
    then obtain es2 where es2: "h' = h2\<lparr>hevents := hevents h2 @ es2\<rparr>"
      by (auto simp: counted_def)
    have f: "nonerp_set s2 = nonerp_set s1" "no_short_slot_time_set s2 = no_short_slot_time_set s1"
      "no_short_preamble_set s2 = no_short_preamble_set s1" "sta_addr s2 = sta_addr s1" "sta_flags s2 = sta_flags s1"
      by (subst ws(2), simp)+
    have m: "nonerp_set s2 = nonerp_set s" "no_short_slot_time_set s2 = no_short_slot_time_set s"
      "no_short_preamble_set s2 = no_short_preamble_set s" "aid s1 = aid s" "sta_addr s2 = sta_addr s"
      "has_flag s2 WLAN_STA_ASSOC \<longrightarrow> has_flag s WLAN_STA_ASSOC"
      using f h1(1) by (simp_all add: tame_def marks_def has_flag_def)
    have h': "h' = h\<lparr>sta_aid := ws, hevents := hevents h @ (es1 @ es2)\<rparr>"
      by (simp add: es2 ws(1) h1(2))
    have w: "aid s2 = aid s \<and> ws = sta_aid h \<or> aid s = 0 \<and> new_aid (sta_aid h) = Some (aid s2, ws)"
      using ws(3) m(4) h1(2) by simp
    show ?thesis
      by (rule that[OF h']) (use n m w in \<open>auto simp: counted_def\<close>)
  qed
qed

section \<open>Handlers of frames\<close>

definition good :: "hostapd_iface \<Rightarrow> hostapd_iface \<Rightarrow> bool" where
  "good st st' \<longleftrightarrow> iface_ok st' \<and> length (bsses st') = length (bsses st)"

text \<open>How a BSS is named to stations and to the controller.\<close>

definition bss_name :: "hostapd_data \<Rightarrow> mac \<times> string" where
  "bss_name h = (own_addr h, conf_ssid h)"

lemma good_refl: "iface_ok st \<Longrightarrow> good st st"
  by (simp add: good_def)

lemma good_set:
  "iface_ok (set_bss i h' st) \<Longrightarrow> good st (set_bss i h' st)"
  "iface_ok (set_bss i h' (st\<lparr>counters := c'\<rparr>)) \<Longrightarrow> good st (set_bss i h' (st\<lparr>counters := c'\<rparr>))"
  by (simp_all add: good_def set_bss_def)

lemma good_mild:
  assumes "iface_ok st" "i < length (bsses st)" "mild (bsses st ! i) h'"
  shows "good st (set_bss i h' st)"
  using assms iface_ok_keeps[OF assms(1,2)] iface_ok_bss[OF assms(1,2)] good_set(1)
  by (simp add: mild_def bss_ok_inv)

lemma good_on_bss:
  assumes "iface_ok st" "i < length (bsses st)" "mild (bsses st ! i) (f (bsses st ! i))"
  shows "good st (on_bss i st f)"
  using good_mild[OF assms] by (simp add: on_bss_def)

lemma handle_assoc_ok:
  assumes "iface_ok st" "i < length (bsses st)"
  shows "\<exists>st'. handle_assoc e cf re b i st = Inr st' \<and> good st st'"
proof -
  let ?h = "bsses st ! i" and ?m = "addr2 b"
  have i: "sta_inv ?h" "timer_inv ?h"
    using iface_ok_bss[OF assms] bss_ok_inv by blast+
  have d: "good st (on_bss i st (send_deauth ?m WLAN_REASON_CLASS2_FRAME_FROM_NONAUTH_STA))"
    by (rule good_on_bss[OF assms]) (simp add: send_deauth_def)
  show ?thesis
  proof (cases "?m \<in> sta_keys ?h")
    case True
    then obtain s where s: "stas ?h ?m = Some s" "sta_addr s = ?m"
      using sta_lookup[OF i(1)] by blast
    let ?s = "s\<lparr>last_seq_ctrl := le16_at b 22, last_subtype := (if re then WLAN_FC_STYPE_REASSOC_REQ else WLAN_FC_STYPE_ASSOC_REQ)\<rparr>"
    obtain r c2 h2 s2 where a: "assoc_result e cf re b (counters st) ?h ?s = (r, c2, h2, s2)"
      by (rule prod_cases4)
    let ?h' = "send_assoc_resp e cf c2 s2 r re (put_sta s2 h2)"
    from assoc_result_changes[OF a] obtain ws es where
      c: "h2 = ?h\<lparr>sta_aid := ws, hevents := hevents ?h @ es\<rparr>" "sta_addr s2 = sta_addr ?s"
      "has_flag s2 WLAN_STA_ASSOC \<longrightarrow> has_flag ?s WLAN_STA_ASSOC"
      "aid s2 = aid ?s \<and> ws = sta_aid ?h \<or> aid ?s = 0 \<and> new_aid (sta_aid ?h) = Some (aid s2, ws)"
      and n: "num_sta_non_erp c2 = num_sta_non_erp (counters st) + (of_bool (nonerp_set s2) - of_bool (nonerp_set ?s))"
      "num_sta_no_short_slot_time c2 = num_sta_no_short_slot_time (counters st) +
         (of_bool (no_short_slot_time_set s2) - of_bool (no_short_slot_time_set ?s))"
      "num_sta_no_short_preamble c2 = num_sta_no_short_preamble (counters st) +
         (of_bool (no_short_preamble_set s2) - of_bool (no_short_preamble_set ?s))"
      by metis
    have t: "timer_inv h2" "sta_keys h2 = sta_keys ?h"
      using i(2) by (simp_all add: c(1) timer_inv_def sta_inv_def sta_keys_def pending_def)
    have "timer_inv ?h'"
      using timer_inv_put[OF t(1), of s2] t(2) c(2) s(2) True by (simp add: send_assoc_resp_def)
    moreover have "revises ?m (counters st) ?h c2 ?h'"
      unfolding revises_def
    proof (intro exI conjI)
      show "view ?h ?m = Some (aid s, nonerp_set s, no_short_slot_time_set s, no_short_preamble_set s)"
        using s(1) by (simp add: view_def marks_def)
      show "view ?h' = (view ?h)(?m \<mapsto> (aid s2, nonerp_set s2, no_short_slot_time_set s2, no_short_preamble_set s2))"
        using c(1,2) s(2) by (auto simp: view_def marks_def send_assoc_resp_def put_sta_def emit_def)
      show "associated ?h' \<subseteq> associated ?h"
        using c(1-3) s by (auto simp: associated_def send_assoc_resp_def put_sta_def emit_def has_flag_def split: if_splits)
      show "set (hevents ?h) \<subseteq> set (hevents ?h')"
        by (auto simp: c(1) send_assoc_resp_def put_sta_def emit_def)
      show "aid s2 = aid s \<and> sta_aid ?h' = sta_aid ?h \<or> aid s = 0 \<and> new_aid (sta_aid ?h) = Some (aid s2, sta_aid ?h')"
        using c(1,4) by (simp add: send_assoc_resp_def put_sta_def emit_def)
    qed (use n in simp_all)
    ultimately have "good st (set_bss i ?h' (st\<lparr>counters := c2\<rparr>))"
      using iface_ok_revises[OF assms] good_set(2) by blast
    then show ?thesis
      using True s(1) d good_refl[OF assms(1)] a
      by (cases re) (simp_all add: handle_assoc_def ap_get_sta_eq[OF i(1)] with_sta_def Let_def)
  qed (use d good_refl[OF assms(1)] in \<open>simp add: handle_assoc_def ap_get_sta_eq[OF i(1)] Let_def\<close>)
qed

lemma handle_disassoc_ok:
  assumes "iface_ok st" "i < length (bsses st)"
  shows "\<exists>st'. handle_disassoc b i st = Inr st' \<and> good st st'"
proof -
  have i: "sta_inv (bsses st ! i)"
    using iface_ok_bss[OF assms] bss_ok_inv by blast
  have "good st (on_bss i st (\<lambda>h. disassoc_station r h s))" if "stas (bsses st ! i) m = Some s" for r m s
    by (rule good_on_bss[OF assms]) (rule disassoc_station_mild[OF i that])
  then show ?thesis
    using sta_lookup[OF i, of "addr2 b"] good_refl[OF assms(1)]
    by (auto simp: handle_disassoc_def ap_get_sta_eq[OF i] with_sta_def Let_def)
qed

lemma handle_deauth_ok:
  assumes "iface_ok st" "i < length (bsses st)"
  shows "\<exists>st'. handle_deauth b i st = Inr st' \<and> good st st'"
proof -
  let ?h = "bsses st ! i" and ?m = "addr2 b"
  have i: "sta_inv ?h" "timer_inv ?h"
    using iface_ok_bss[OF assms] bss_ok_inv by blast+
  show ?thesis
  proof (cases "?m \<in> sta_keys ?h \<and> 26 \<le> length b")
    case True
    then obtain s where s: "stas ?h ?m = Some s" "sta_addr s = ?m"
      using sta_lookup[OF i(1)] by blast
    obtain h1 s1 where a: "ap_sta_set_authorized ?h s False = (h1, s1)"
      by fastforce
    define g where "g = put_sta ((clear_flag (WLAN_STA_AUTH OR WLAN_STA_ASSOC OR WLAN_STA_ASSOC_REQ_OK)
      (s1\<lparr>last_seq_ctrl := WLAN_INVALID_MGMT_SEQ\<rparr>))\<lparr>acct_terminate_cause := 1\<rparr>)
      (emit (PortEnabled ?m False) (emit (MlmeDeauth ?m (le16_at b 24)) (emit (WpaDeauth ?m) h1)))"
    have "mild ?h g"
      unfolding g_def using mild_authorized[OF mild_refl, of ?h s False] tame_authorized[OF tame_refl, of s ?h False]
      by (intro mild_put[OF _ s _ i(1)]) (simp_all add: a)
    then have m: "keeps ?h g" "timer_inv g" "sta_keys g = sta_keys ?h"
      using i(2) by (simp_all add: mild_def)
    obtain c' h' where f: "ap_free_sta (counters st) g ?m = Inr (c', h')" "timer_inv h'"
      using timer_inv_free[of g ?m "counters st"] m True by (auto simp: timer_inv_def)
    have "good st (set_bss i h' (st\<lparr>counters := c'\<rparr>))"
      by (intro good_set(2) iface_ok_moves[OF assms moves_free[OF m(1) f(1)] f(2)])
    then show ?thesis
      using True s(1) a f(1) by (simp add: handle_deauth_def ap_get_sta_eq[OF i(1)] with_sta_def g_def)
  qed (use good_refl[OF assms(1)] in \<open>auto simp: handle_deauth_def ap_get_sta_eq[OF i(1)] Let_def\<close>)
qed

lemma handle_action_ok:
  assumes "iface_ok st" "i < length (bsses st)"
  shows "\<exists>n st'. handle_action e b i st = Inr (n, st') \<and> good st st'"
proof -
  let ?h = "bsses st ! i"
  have i: "sta_inv ?h"
    using iface_ok_bss[OF assms] bss_ok_inv by blast
  have d: "good st (set_bss i (snd (action_dispatch e b g)) st)" if "mild ?h g" for g
    by (rule good_mild[OF assms action_dispatch_mild[OF that]])
  have "mild ?h (put_sta (s\<lparr>last_seq_ctrl := le16_at b 22, last_subtype := WLAN_FC_STYPE_ACTION\<rparr>) ?h)"
    if "stas ?h m = Some s" for m s
    using station_of[OF i that] by (intro mild_put[OF _ that _ _ i]) simp_all
  then show ?thesis
    using d sta_lookup[OF i, of "addr2 b"] good_refl[OF assms(1)]
    by (auto simp: handle_action_def ap_get_sta_eq[OF i] with_sta_def Let_def case_prod_beta)
qed

lemma iface_ok_all:
  assumes "iface_ok st" "list_all2 (\<lambda>h h'. keeps h h' \<and> timer_inv h') (bsses st) bs"
  shows "iface_ok (st\<lparr>bsses := bs\<rparr>)"
proof -
  have "\<forall>h \<in> set bs. bss_ok h"
    using assms bss_ok_confirms[OF _ keeps_confirms]
    by (fastforce simp: iface_ok_def list_all2_conv_all_nth in_set_conv_nth)
  moreover have "map view bs = map view (bsses st)"
    using assms(2) by (auto simp: list_all2_conv_all_nth keeps_def intro!: nth_equalityI)
  then have "map (\<lambda>h. marked P (view h)) bs = map (\<lambda>h. marked P (view h)) (bsses st)" for P
    by (metis (no_types, lifting) comp_apply list.map_comp map_eq_conv)
  then have "total P bs = total P (bsses st)" for P
    by (simp add: total_def)
  ultimately show ?thesis
    using assms(1) by (simp add: iface_ok_def counts_ok_def)
qed

lemma remove_others_ok:
  "\<forall>h \<in> set bs. timer_inv h \<Longrightarrow>
   \<exists>bs'. remove_in_other_bss c i m j bs = Inr bs' \<and> list_all2 (\<lambda>h h'. keeps h h' \<and> timer_inv h') bs bs' \<and>
     (\<forall>k < length bs. j + k = i \<longrightarrow> bs' ! k = bs ! k)"
proof (induction bs arbitrary: j)
  case (Cons b bs)
  obtain bs' where bs': "remove_in_other_bss c i m (Suc j) bs = Inr bs'"
    "list_all2 (\<lambda>h h'. keeps h h' \<and> timer_inv h') bs bs'" "\<forall>k < length bs. Suc j + k = i \<longrightarrow> bs' ! k = bs ! k"
    using Cons.IH[of "Suc j"] Cons.prems by auto
  have b: "timer_inv b" "sta_inv b"
    using Cons.prems by (simp_all add: timer_inv_def)
  obtain b' where "(if j = i \<or> ap_get_sta b m = None then Inr b else ap_sta_disconnect c b m 2) = Inr b'"
    "keeps b b'" "timer_inv b'" "j = i \<Longrightarrow> b' = b"
    using timer_inv_disconnect[OF b(1), of c m 2] keeps_disconnect[OF b(2), of c m 2] b(1) that[of b] by (cases "j = i \<or> ap_get_sta b m = None") auto
  then show ?case
    using bs' by (intro exI[of _ "b' # bs'"]) (auto simp: less_Suc_eq_0_disj)
qed simp

lemma add_joins:
  assumes "sta_inv h" "m \<notin> sta_keys h" "ap_sta_add alloc nt h m = (Some p, h')"
  shows "p = m" "joins m h h'" "stas h' m = Some (new_sta m)"
proof -
  have n: "stas h m = None"
    using assms(1,2) by (auto simp: sta_inv_def)
  have h': "p = m" "stas h' = (stas h)(m \<mapsto> new_sta m)" "sta_aid h' = sta_aid h" "hevents h' = hevents h"
    using assms(2,3) unfolding ap_sta_add_def ap_get_sta_eq[OF assms(1)]
    by (auto simp: Let_def put_sta_def ap_sta_hash_add_def new_sta_def StaTable.eloop_register_timeout_def split: if_splits)
  have f: "marks (new_sta m) = (0, False, False, False)" "\<not> has_flag (new_sta m) WLAN_STA_ASSOC"
    by (simp_all add: new_sta_def marks_def has_flag_def)
  show "p = m" "stas h' m = Some (new_sta m)"
    using h' by simp_all
  show "joins m h h'"
    unfolding joins_def using h'(2-4) n f by (auto simp: view_def associated_def split: if_splits)
qed

lemma add_bss_ok:
  assumes "iface_ok st" "i < length (bsses st)" "m \<notin> sta_keys (bsses st ! i)"
  obtains "ap_sta_add_bss alloc False (counters st) (bsses st) i m = Inr (None, bsses st)"
  | bs s where "ap_sta_add_bss alloc False (counters st) (bsses st) i m = Inr (Some m, bs)"
      "good st (st\<lparr>bsses := bs\<rparr>)" "stas (bs ! i) m = Some s"
      "ap_sta_add alloc False (bsses st ! i) m = (Some m, bs ! i)" "map bss_name bs = map bss_name (bsses st)"
proof -
  let ?h = "bsses st ! i"
  have i: "sta_inv ?h" "timer_inv ?h" "ap_get_sta ?h m = None"
    using iface_ok_bss[OF assms(1,2)] bss_ok_inv assms(3) by (simp_all add: ap_get_sta_eq)
  obtain r h' where a: "ap_sta_add alloc False ?h m = (r, h')"
    by fastforce
  show thesis
  proof (cases r)
    case None
    then show thesis
      using that(1) a i(3) by (simp add: ap_sta_add_bss_def)
  next
    case (Some p)
    note j = add_joins[OF i(1) assms(3) a[unfolded Some]]
    have t: "timer_inv h'"
      using timer_inv_add[OF i(2), of alloc m] a by simp
    let ?st = "set_bss i h' st"
    have ok: "iface_ok ?st"
      by (rule iface_ok_joins[OF assms(1,2) j(2) t])
    then have "\<forall>h \<in> set (bsses ?st). timer_inv h"
      using bss_ok_inv(1) by (auto simp: iface_ok_def)
    from remove_others_ok[OF this, of "counters st" i m 0] obtain bs where
      bs: "remove_in_other_bss (counters st) i m 0 (bsses ?st) = Inr bs"
      "list_all2 (\<lambda>h h'. keeps h h' \<and> timer_inv h') (bsses ?st) bs" "\<forall>k < length (bsses ?st). k = i \<longrightarrow> bs ! k = bsses ?st ! k"
      by auto
    have len: "length (bsses ?st) = length (bsses st)" "bsses ?st ! i = h'"
      using assms(2) by (simp_all add: set_bss_def)
    have "good st (st\<lparr>bsses := bs\<rparr>)"
      using iface_ok_all[OF ok bs(2)] list_all2_lengthD[OF bs(2)] len(1) by (simp add: good_def set_bss_def)
    moreover have b: "bs ! i = h'"
      using bs(3) len assms(2) by metis
    moreover have "map bss_name bs = map bss_name (bsses st)"
    proof (rule nth_equalityI)
      fix k
      assume "k < length (map bss_name bs)"
      then have k: "k < length bs" "k < length (bsses st)" "bss_name (bs ! k) = bss_name (bsses ?st ! k)"
        using list_all2_lengthD[OF bs(2)] list_all2_nthD2[OF bs(2)] len(1) by (simp_all add: keeps_def bss_name_def)
      moreover have "bss_name h' = bss_name ?h"
        using a i(3) by (auto simp: bss_name_def ap_sta_add_def Let_def put_sta_def ap_sta_hash_add_def split: if_splits)
      ultimately show "map bss_name bs ! k = map bss_name (bsses st) ! k"
        using assms(2) by (cases "k = i") (simp_all add: set_bss_def)
    qed (use list_all2_lengthD[OF bs(2)] len(1) in simp)
    ultimately show thesis
      using that(2)[of bs "new_sta m"] a Some j(1,3) i(3) bs(1) by (simp add: ap_sta_add_bss_def set_bss_def)
  qed
qed

lemma good_trans: "good st st1 \<Longrightarrow> good st1 st2 \<Longrightarrow> good st st2"
  by (simp add: good_def)

lemma handle_auth_ok:
  assumes "iface_ok st" "i < length (bsses st)" "\<not> driver_times e"
  shows "\<exists>st'. handle_auth e cf b i st = Inr st' \<and> good st st'"
proof -
  let ?h = "bsses st ! i" and ?m = "addr2 b"
  have i: "sta_inv ?h"
    using iface_ok_bss[OF assms(1,2)] bss_ok_inv by blast
  have fail: "good st (on_bss i st (send_auth_reply a d alg tr r ies))" for a d alg tr r ies
    by (rule good_on_bss[OF assms(1,2)]) (simp add: send_auth_reply_def)
  have go: "good st' (on_bss i st' (\<lambda>h. auth_station e b h s))"
    if "iface_ok st'" "i < length (bsses st')" "stas (bsses st' ! i) m = Some s" for st' m s
    using iface_ok_bss[OF that(1,2)] bss_ok_inv
    by (intro good_on_bss[OF that(1,2)] auth_station_mild[OF _ that(3)]) blast
  show ?thesis
  proof (cases "?m \<in> sta_keys ?h")
    case True
    then obtain s where "stas ?h ?m = Some s"
      using sta_lookup[OF i] by blast
    then show ?thesis
      using True fail go[OF assms(1,2)] good_refl[OF assms(1)]
      by (auto simp: handle_auth_def ap_get_sta_eq[OF i] with_sta_def Let_def split: option.splits)
  next
    case False
    show ?thesis
    proof (rule add_bss_ok[OF assms(1,2) False, of "sta_alloc e"])
      assume "ap_sta_add_bss (sta_alloc e) False (counters st) (bsses st) i ?m = Inr (None, bsses st)"
      then show ?thesis
        using False fail good_refl[OF assms(1)] assms(3)
        by (auto simp: handle_auth_def ap_get_sta_eq[OF i] with_sta_def Let_def split: option.splits)
    next
      fix bs s
      assume a: "ap_sta_add_bss (sta_alloc e) False (counters st) (bsses st) i ?m = Inr (Some ?m, bs)"
        "good st (st\<lparr>bsses := bs\<rparr>)" "stas (bs ! i) ?m = Some s"
      have "good (st\<lparr>bsses := bs\<rparr>) (on_bss i (st\<lparr>bsses := bs\<rparr>) (\<lambda>h. auth_station e b h s))"
        using a(2,3) assms(2) by (intro go) (simp_all add: good_def)
      from good_trans[OF a(2) this] show ?thesis
        using False fail good_refl[OF assms(1)] assms(3) a(1,3)
        by (auto simp: handle_auth_def ap_get_sta_eq[OF i] with_sta_def Let_def split: option.splits)
    qed
  qed
qed

end
