(* ===== verification/MgmtSafe.thy ===== *)
theory MgmtSafe
  imports MgmtRun
begin

unbundle bit_operations_syntax

text \<open>
  The life of an interface: received frames, reports of sent frames, expiring timers, stations that
  the controller withdraws, and data frames, in any order, from the start of the interface.
\<close>

section \<open>Dispatch\<close>

definition is_probe :: "u8 list \<Rightarrow> bool" where
  "is_probe b \<longleftrightarrow> WLAN_FC_GET_STYPE (le16_at b 0) = WLAN_FC_STYPE_PROBE_REQ"

text \<open>Whatever a result is, the invariant holds in it; and there is a result unless a probe request is read.\<close>

definition safe :: "u8 list \<Rightarrow> hostapd_iface \<Rightarrow> (nat \<times> hostapd_iface) res \<Rightarrow> bool" where
  "safe b st r \<longleftrightarrow> (\<forall>n st'. r = Inr (n, st') \<longrightarrow> good st st') \<and> (\<not> is_probe b \<longrightarrow> (\<exists>n st'. r = Inr (n, st')))"

lemma safe_good: "good st st' \<Longrightarrow> safe b st (Inr (n, st'))"
  by (simp add: safe_def)

lemma safe_done: "\<exists>st'. r = Inr st' \<and> good st st' \<Longrightarrow> safe b st (bind_res r (\<lambda>st'. Inr (1, st')))"
  by (auto simp: safe_def)

lemma safe_if: "(P \<Longrightarrow> safe b st r) \<Longrightarrow> (\<not> P \<Longrightarrow> safe b st r') \<Longrightarrow> safe b st (if P then r else r')"
  by simp

lemma probe_step_ok:
  assumes "iface_ok st" "i < length (bsses st)" "handle_probe_req pe c t (bsses st ! i) p = Inr h'"
  shows "good st (set_bss i h' st)"
  using good_mild[OF assms(1,2) probe_req_mild[OF assms(3)]] .

lemma mgmt_ok:
  assumes "iface_ok st" "i < length (bsses st)" "\<not> driver_times (env x)"
  shows "safe b st (ieee802_11_mgmt x b i st)"
proof (cases "is_probe b")
  case True
  then have p: "WLAN_FC_GET_STYPE (le16_at b 0) = 4"
    by (simp add: is_probe_def WLAN_FC_STYPE_PROBE_REQ_def)
  have "good st st'" if "ieee802_11_mgmt x b i st = Inr (n, st')" for n st'
    using that p good_refl[OF assms(1)] probe_step_ok[OF assms(1,2)]
    by (auto simp: ieee802_11_mgmt_def Let_def WLAN_FC_STYPE_PROBE_REQ_def WLAN_FC_STYPE_BEACON_def bind_res_def
        split: if_splits sum.splits)
  then show ?thesis
    using True by (simp add: safe_def)
next
  case False
  have "safe b st (handle_action (env x) b i st)"
    using handle_action_ok[OF assms(1,2), of "env x" b] by (auto simp: safe_def)
  moreover have "good st (handle_beacon b i st)"
    using good_refl[OF assms(1)] good_on_bss[OF assms(1,2)] by (simp add: handle_beacon_def)
  ultimately show ?thesis
    unfolding ieee802_11_mgmt_def Let_def
    by (intro safe_if safe_good safe_done good_refl[OF assms(1)] handle_auth_ok[OF assms] handle_assoc_ok[OF assms(1,2)]
        handle_disassoc_ok[OF assms(1,2)] handle_deauth_ok[OF assms(1,2)]) (use False in \<open>simp_all add: is_probe_def\<close>)
qed

lemma mgmt_rx_all_ok:
  "iface_ok st \<Longrightarrow> \<forall>i \<in> set is. i < length (bsses st) \<Longrightarrow> \<not> driver_times (env x) \<Longrightarrow> safe b st (mgmt_rx_all x b drv is n st)"
proof (induction "is" arbitrary: n st)
  case (Cons i "is")
  have g: "safe b st (ieee802_11_mgmt x b i st)"
    using mgmt_ok[OF Cons.prems(1) _ Cons.prems(3)] Cons.prems(2) by simp
  have step: "safe b st (mgmt_rx_all x b drv is k st1)" if "good st st1" for k st1
    using Cons.IH[of st1 k] Cons.prems that good_trans[OF that] by (auto simp: good_def safe_def)
  show ?case
  proof (cases "ieee802_11_mgmt x b i st")
    case (Inl e)
    then show ?thesis
      using g Cons.IH[of st n] Cons.prems by (simp add: safe_def)
  next
    case (Inr r)
    then have "good st (snd r)"
      using g by (cases r) (simp add: safe_def)
    then show ?thesis
      using Inr Cons.IH[of st n] Cons.prems step by (simp add: case_prod_beta)
  qed
qed (simp add: safe_def good_refl)

lemma find_bss_less: "find_bss j m bs = Some i \<Longrightarrow> j \<le> i \<and> i < j + length bs"
  by (induction j m bs rule: find_bss.induct) (force split: if_splits)+

lemma get_hapd_less: "get_hapd_bssid st bs = OneBss i \<Longrightarrow> i < length (bsses st)"
  using find_bss_less[of 0 _ "bsses st" i] by (auto simp: get_hapd_bssid_def split: option.splits if_splits)

lemma hdr_bssid_total: "22 \<le> length b \<Longrightarrow> \<exists>bs. get_hdr_bssid b = Inr bs"
  by (auto simp: get_hdr_bssid_def Let_def)

lemma mgmt_rx_ok:
  assumes "iface_ok st" "bsses st \<noteq> []" "\<not> driver_times (env x)" "22 \<le> length b"
  shows "safe b st (hostapd_mgmt_rx x b drv st)"
proof -
  obtain bs where "get_hdr_bssid b = Inr bs"
    using hdr_bssid_total[OF assms(4)] by blast
  moreover have "0 < length (bsses st)"
    using assms(2) by simp
  ultimately show ?thesis
    using safe_good[OF good_refl[OF assms(1)]] mgmt_ok[OF assms(1) _ assms(3)] get_hapd_less
      mgmt_rx_all_ok[OF assms(1) _ assms(3), of "[0..<length (bsses st)]"]
    by (auto simp: hostapd_mgmt_rx_def split: bss_choice.splits)
qed

lemma mgmt_tx_cb_ok:
  assumes "iface_ok st" "22 \<le> length b"
    and "\<And>bs i. get_hdr_bssid b = Inr bs \<Longrightarrow> get_hapd_bssid st bs = OneBss i \<Longrightarrow>
      WLAN_FC_GET_STYPE (le16_at b 0) \<in> {WLAN_FC_STYPE_ASSOC_RESP, WLAN_FC_STYPE_REASSOC_RESP} \<Longrightarrow>
      SendMlme b \<in> set (hevents (bsses st ! i))"
  shows "\<exists>st'. hostapd_mgmt_tx_cb x b (WLAN_FC_GET_STYPE (le16_at b 0)) ok st = Inr st' \<and> good st st'"
proof -
  obtain bs where bs: "get_hdr_bssid b = Inr bs"
    using hdr_bssid_total[OF assms(2)] by blast
  show ?thesis
  proof (cases "get_hapd_bssid st bs")
    case (OneBss i)
    let ?h = "bsses st ! i" and ?stype = "WLAN_FC_GET_STYPE (le16_at b 0)"
    have i: "i < length (bsses st)" "timer_inv ?h"
      using get_hapd_less[OF OneBss] iface_ok_bss[OF assms(1)] bss_ok_inv by blast+
    have a: "grants b \<Longrightarrow> addr1 b \<in> answered ?h"
      using assms(3)[OF bs OneBss] by (auto simp: grants_def answered_def)
    note assoc = assoc_cb_ok[OF i(2) a]
    have "\<exists>h'. ieee802_11_mgmt_cb (env x) (conf x i) (counters st) b ?stype ok ?h = Inr h' \<and> confirms ?h h' \<and> timer_inv h'"
      using auth_cb_mild[OF i(2), of b ok] leave_cb_mild[OF i(2), of b] keeps_confirms[of ?h] i(2)
        assoc[of "env x" "conf x i" "counters st" False ok] assoc[of "env x" "conf x i" "counters st" True ok]
      unfolding ieee802_11_mgmt_cb_def mild_def by auto
    then obtain h' where "ieee802_11_mgmt_cb (env x) (conf x i) (counters st) b ?stype ok ?h = Inr h'"
      "confirms ?h h'" "timer_inv h'"
      by blast
    then show ?thesis
      using good_set(1)[OF iface_ok_confirms[OF assms(1) i(1)]] bs OneBss by (simp add: hostapd_mgmt_tx_cb_def)
  qed (use good_refl[OF assms(1)] bs in \<open>simp_all add: hostapd_mgmt_tx_cb_def\<close>)
qed

section \<open>Other reports\<close>

lemma first_with_less: "first_with j m bs = Some (k, p) \<Longrightarrow> j \<le> k \<and> k < j + length bs \<and> ap_get_sta (bs ! (k - j)) m = Some p"
proof (induction j m bs rule: first_with.induct)
  case (2 j m b bs)
  then show ?case
    by (cases "ap_get_sta b m") (auto simp: Suc_diff_le dest: Suc_leD split: option.splits)
qed simp

lemma status_sta_station:
  assumes "iface_ok st" "i < length (bsses st)" "status_sta st i m = Some (j, p)"
  obtains s where "j < length (bsses st)" "sta_inv (bsses st ! j)" "stas (bsses st ! j) p = Some s" "sta_addr s = p"
proof -
  have j: "j < length (bsses st)" "ap_get_sta (bsses st ! j) m = Some p"
    using assms(2,3) first_with_less[of 0 m "bsses st" j p] by (auto simp: status_sta_def split: option.splits if_splits)
  have inv: "sta_inv (bsses st ! j)"
    using iface_ok_bss[OF assms(1) j(1)] by (rule bss_ok_inv)
  then show thesis
    using that j sta_lookup[OF inv, of p] by (auto simp: ap_get_sta_eq split: if_splits)
qed

lemma tx_status_ok:
  assumes "iface_ok st" "i < length (bsses st)"
  shows "\<exists>st'. hostapd_tx_status i m ack st = Inr st' \<and> good st st'"
proof (cases "status_sta st i m")
  case (Some r)
  obtain j p where r: "r = (j, p)"
    by fastforce
  from status_sta_station[OF assms Some[unfolded r]] obtain s where
    s: "j < length (bsses st)" "sta_inv (bsses st ! j)" "stas (bsses st ! j) p = Some s" "sta_addr s = p" .
  have "good st (on_bss j st (\<lambda>h. emit e (put_sta s1 h)))" if "tame s s1" for e s1
    by (rule good_on_bss[OF assms(1) s(1)]) (simp add: mild_put[OF mild_refl s(3,4) that s(2)])
  then show ?thesis
    using Some r s good_refl[OF assms(1)] by (simp add: hostapd_tx_status_def with_sta_def Let_def)
qed (use good_refl[OF assms(1)] in \<open>simp add: hostapd_tx_status_def\<close>)

lemma client_poll_ok_ok:
  assumes "iface_ok st" "i < length (bsses st)"
  shows "\<exists>st'. hostapd_client_poll_ok i m st = Inr st' \<and> good st st'"
proof (cases "status_sta st i m")
  case (Some r)
  obtain j p where r: "r = (j, p)"
    by fastforce
  from status_sta_station[OF assms Some[unfolded r]] obtain s where
    s: "j < length (bsses st)" "sta_inv (bsses st ! j)" "stas (bsses st ! j) p = Some s" "sta_addr s = p" .
  have "good st (on_bss j st (put_sta (clear_flag WLAN_STA_PENDING_POLL s)))"
    by (rule good_on_bss[OF assms(1) s(1)]) (simp add: mild_put[OF mild_refl s(3,4) _ s(2)])
  then show ?thesis
    using Some r s good_refl[OF assms(1)] by (simp add: hostapd_client_poll_ok_def with_sta_def)
qed (use good_refl[OF assms(1)] in \<open>simp add: hostapd_client_poll_ok_def\<close>)

lemma rx_from_unknown_mild:
  assumes "sta_inv h"
  shows "\<exists>h'. ieee802_11_rx_from_unknown cf src wds h = Inr h' \<and> mild h h'"
proof (cases "src \<in> sta_keys h")
  case True
  then obtain s where s: "stas h src = Some s" "sta_addr s = src"
    using sta_lookup[OF assms] by blast
  have "mild h (put_sta (set_flag WLAN_STA_WDS s) h)"
    by (simp add: mild_put[OF mild_refl s _ assms])
  then show ?thesis
    using True s by (simp add: ieee802_11_rx_from_unknown_def ap_get_sta_eq[OF assms] with_sta_def Let_def)
qed (simp add: ieee802_11_rx_from_unknown_def ap_get_sta_eq[OF assms] Let_def)

lemma rx_from_unknown_ok:
  assumes "iface_ok st"
  shows "\<exists>st'. hostapd_rx_from_unknown_sta x bs m wds st = Inr st' \<and> good st st'"
proof (cases "get_hapd_bssid st bs")
  case (OneBss i)
  have i: "i < length (bsses st)" "sta_inv (bsses st ! i)"
    using get_hapd_less[OF OneBss] iface_ok_bss[OF assms] bss_ok_inv by blast+
  show ?thesis
    using OneBss rx_from_unknown_mild[OF i(2), of "conf x i" m wds] good_mild[OF assms i(1)]
    by (auto simp: hostapd_rx_from_unknown_sta_def)
qed (use good_refl[OF assms] in \<open>simp_all add: hostapd_rx_from_unknown_sta_def\<close>)

lemma withdraw_event_ok:
  assumes "iface_ok st"
  shows "\<exists>st'. ieee802_11_del_station st a = Inr st' \<and> good st st'"
proof (cases "find_bss 0 (snd a) (bsses st)")
  case (Some i)
  let ?h = "bsses st ! i"
  have i: "i < length (bsses st)" "sta_inv ?h" "timer_inv ?h"
    using find_bss_less[OF Some] iface_ok_bss[OF assms] bss_ok_inv by auto
  define g where "g = emit (DrvStaDisassoc (own_addr ?h) (fst a) WLAN_REASON_DISASSOC_AP_BUSY) ?h"
  have g: "timer_inv g" "sta_inv g" "keeps ?h g" "sta_keys g = sta_keys ?h"
    using i by (simp_all add: g_def)
  have "\<exists>h'. ieee802_11_del_station_of_vap (counters st) ?h (fst a) = Inr h' \<and> keeps ?h h' \<and> timer_inv h'"
    using timer_inv_disassociate[OF g(1), of "fst a" "counters st" WLAN_REASON_DISASSOC_AP_BUSY] g(4) i
      keeps_trans[OF g(3) keeps_disassociate[OF g(2)]]
    unfolding ieee802_11_del_station_of_vap_def ap_get_sta_eq[OF i(2)] g_def[symmetric] by auto
  then show ?thesis
    using Some good_set(1)[OF iface_ok_keeps[OF assms i(1)]] by (auto simp: ieee802_11_del_station_def)
qed (use good_refl[OF assms] in \<open>simp add: ieee802_11_del_station_def\<close>)

lemma expire_ok:
  assumes "iface_ok st" "i < length (bsses st)" "(k, m) \<in> set (pending (bsses st ! i))"
  shows "\<exists>c' h'. expire inact fuzz k m (counters st) (bsses st ! i) = Inr (c', h') \<and>
    good st (set_bss i h' (st\<lparr>counters := c'\<rparr>))"
proof -
  have i: "timer_inv (bsses st ! i)" "sta_inv (bsses st ! i)"
    using iface_ok_bss[OF assms(1,2)] bss_ok_inv by blast+
  show ?thesis
    using timer_inv_expire[OF i(1) assms(3), of inact fuzz "counters st"] moves_expire[OF i(2)]
      good_set(2)[OF iface_ok_moves[OF assms(1,2)]] by blast
qed

section \<open>The life of an interface\<close>

datatype iface_event =
    Receive mgmt_ctx "u8 list" "nat option"
  | Sent mgmt_ctx "u8 list" bool
  | TimerExpires nat timer_kind mac int int
  | Withdraw "mac \<times> mac"
  | DataSent nat mac bool
  | Polled nat mac
  | Stray mgmt_ctx "mac option" mac bool

fun iface_step :: "iface_event \<Rightarrow> hostapd_iface \<Rightarrow> hostapd_iface res" where
  "iface_step (Receive x b drv) st = bind_res (hostapd_mgmt_rx x b drv st) (\<lambda>(n, st'). Inr st')"
| "iface_step (Sent x b ok) st = hostapd_mgmt_tx_cb x b (WLAN_FC_GET_STYPE (le16_at b 0)) ok st"
| "iface_step (TimerExpires i k m inact fuzz) st =
     bind_res (expire inact fuzz k m (counters st) (bsses st ! i)) (\<lambda>(c, h). Inr (set_bss i h (st\<lparr>counters := c\<rparr>)))"
| "iface_step (Withdraw a) st = ieee802_11_del_station st a"
| "iface_step (DataSent i m ack) st = hostapd_tx_status i m ack st"
| "iface_step (Polled i m) st = hostapd_client_poll_ok i m st"
| "iface_step (Stray x bs m wds) st = hostapd_rx_from_unknown_sta x bs m wds st"

text \<open>
  What the driver and the event loop can report: frames with a whole header, association responses
  that the BSS has sent, timers that are pending. The driver leaves the inactivity timer to hostapd.
\<close>

definition was_sent :: "u8 list \<Rightarrow> hostapd_iface \<Rightarrow> bool" where
  "was_sent b st \<longleftrightarrow>
     (case get_hdr_bssid b of
        Inl _ \<Rightarrow> True
      | Inr bs \<Rightarrow> (case get_hapd_bssid st bs of OneBss i \<Rightarrow> SendMlme b \<in> set (hevents (bsses st ! i)) | _ \<Rightarrow> True))"

fun can_happen :: "iface_event \<Rightarrow> hostapd_iface \<Rightarrow> bool" where
  "can_happen (Receive x b drv) st = (24 \<le> length b \<and> \<not> driver_times (env x))"
| "can_happen (Sent x b ok) st = (24 \<le> length b \<and>
     (WLAN_FC_GET_STYPE (le16_at b 0) \<in> {WLAN_FC_STYPE_ASSOC_RESP, WLAN_FC_STYPE_REASSOC_RESP} \<longrightarrow> was_sent b st))"
| "can_happen (TimerExpires i k m inact fuzz) st = (i < length (bsses st) \<and> (k, m) \<in> set (pending (bsses st ! i)))"
| "can_happen (Withdraw a) st = True"
| "can_happen (DataSent i m ack) st = (i < length (bsses st))"
| "can_happen (Polled i m) st = (i < length (bsses st))"
| "can_happen (Stray x bs m wds) st = True"

fun reads_probe :: "iface_event \<Rightarrow> bool" where
  "reads_probe (Receive x b drv) = is_probe b"
| "reads_probe _ = False"

inductive iface_run :: "hostapd_iface \<Rightarrow> hostapd_iface \<Rightarrow> bool" where
  iface_start: "iface_run st st"
| iface_next: "iface_run st st1 \<Longrightarrow> can_happen e st1 \<Longrightarrow> iface_step e st1 = Inr st2 \<Longrightarrow> iface_run st st2"

lemma iface_step_ok:
  assumes "iface_ok st" "bsses st \<noteq> []" "can_happen e st"
  shows "(\<forall>st'. iface_step e st = Inr st' \<longrightarrow> good st st') \<and> (\<not> reads_probe e \<longrightarrow> (\<exists>st'. iface_step e st = Inr st'))"
proof (cases e)
  case (Receive x b drv)
  have "safe b st (hostapd_mgmt_rx x b drv st)"
    using assms Receive by (intro mgmt_rx_ok) simp_all
  then show ?thesis
    using Receive by (cases "hostapd_mgmt_rx x b drv st") (auto simp: safe_def)
next
  case (Sent x b ok)
  have "\<exists>st'. hostapd_mgmt_tx_cb x b (WLAN_FC_GET_STYPE (le16_at b 0)) ok st = Inr st' \<and> good st st'"
    using assms Sent by (intro mgmt_tx_cb_ok) (auto simp: was_sent_def)
  then show ?thesis
    using Sent by auto
next
  case (TimerExpires i k m inact fuzz)
  then show ?thesis
    using expire_ok[OF assms(1), of i k m inact fuzz] assms(3) by auto
next
  case (Withdraw a)
  then show ?thesis
    using withdraw_event_ok[OF assms(1), of a] by auto
next
  case (DataSent i m ack)
  then show ?thesis
    using tx_status_ok[OF assms(1), of i m ack] assms(3) by auto
next
  case (Polled i m)
  then show ?thesis
    using client_poll_ok_ok[OF assms(1), of i m] assms(3) by auto
next
  case (Stray x bs m wds)
  then show ?thesis
    using rx_from_unknown_ok[OF assms(1), of x bs m wds] by auto
qed

text \<open>An interface as it starts: no stations, no identifiers in use, no timers, no event yet, counters at zero.\<close>

definition fresh_bss :: "hostapd_data \<Rightarrow> bool" where
  "fresh_bss h \<longleftrightarrow> sta_hash h = replicate 256 [] \<and> sta_list h = [] \<and> num_sta h = 0 \<and> stas h = Map.empty \<and>
     sta_aid h = replicate AID_WORDS 0 \<and> timers h = [] \<and> hevents h = [] \<and> length (conf_ssid h) < 32"

definition fresh :: "hostapd_iface \<Rightarrow> bool" where
  "fresh st \<longleftrightarrow> bsses st \<noteq> [] \<and> list_all fresh_bss (bsses st) \<and> num_sta_non_erp (counters st) = 0 \<and>
     num_sta_no_short_slot_time (counters st) = 0 \<and> num_sta_no_short_preamble (counters st) = 0"

lemma aid_set_empty: "aid_set (replicate n 0) = {}"
  by (auto simp: aid_set_def)

lemma fresh_bss_ok:
  assumes "fresh_bss h"
  shows "bss_ok h" "view h = Map.empty"
proof -
  have k: "sta_keys h = {}" "sta_inv h"
    using assms sh.wf_empty sh.keys_empty by (simp_all add: fresh_bss_def sta_inv_def sta_keys_def)
  show v: "view h = Map.empty"
    using assms by (simp add: fresh_bss_def view_def)
  have "aids.consistent (sta_aid h) (aid_of h)"
    using assms v aid_set_empty[of AID_WORDS] by (simp add: fresh_bss_def aids.consistent_def aid_of_def aid_words_def)
  then show "bss_ok h"
    using assms k by (simp add: bss_ok_def timer_inv_def timers_ok_def pending_def associated_def fresh_bss_def)
qed

lemma fresh_ok:
  assumes "fresh st"
  shows "iface_ok st"
proof -
  have "map (\<lambda>h. marked P (view h)) (bsses st) = map (\<lambda>h. 0) (bsses st)" for P
    using assms fresh_bss_ok(2) by (auto simp: fresh_def list_all_iff marked_def)
  then have "total P (bsses st) = 0" for P
    unfolding total_def using sum_list_0[of "bsses st"] by metis
  then show ?thesis
    using assms fresh_bss_ok(1) by (auto simp: fresh_def iface_ok_def counts_ok_def list_all_iff)
qed

lemma iface_run_ok:
  assumes "iface_run st st'" "iface_ok st" "bsses st \<noteq> []"
  shows "iface_ok st'" "bsses st' \<noteq> []"
proof -
  have "iface_ok st' \<and> bsses st' \<noteq> []"
    using assms
  proof (induction rule: iface_run.induct)
    case (iface_next st st1 e st2)
    then have "good st1 st2"
      using iface_step_ok[of st1 e] by blast
    then show ?case
      using iface_next by (auto simp: good_def)
  qed simp
  then show "iface_ok st'" "bsses st' \<noteq> []"
    by simp_all
qed

lemma run_ok:
  assumes "fresh st" "iface_run st st'"
  shows "iface_ok st'" "bsses st' \<noteq> []"
  using iface_run_ok[OF assms(2) fresh_ok[OF assms(1)]] assms(1) by (simp_all add: fresh_def)

end
