(* ===== verification/MgmtFrames.thy ===== *)
theory MgmtFrames
  imports MgmtSafe
begin

unbundle bit_operations_syntax

text \<open>Reading the fields of the frames that the access point and its stations build.\<close>

lemma le16_at_le16: "le16_at (xs @ le16 w @ ys) (length xs) = w"
proof -
  have "le16_at (xs @ le16 w @ ys) (length xs) = ucast (ucast w :: u8) OR push_bit 8 (ucast (ucast (drop_bit 8 w) :: u8))"
    by (simp add: le16_at_def le16_def nth_append)
  also have "\<dots> = w"
    by (rule bit_word_eqI) (auto simp: bit_simps less_diff_conv2 not_less)
  finally show ?thesis .
qed

lemma le16_length [simp]: "length (le16 w) = 2"
  by (simp add: le16_def)

lemma le16_at_drop: "i + 1 < length b \<Longrightarrow> le16_at b i = le16_at (drop i b) 0"
  by (simp add: le16_at_def)

lemma le16_at_0: "le16_at (le16 w @ ys) 0 = w"
  using le16_at_le16[of "[]" w ys] by simp

definition mac_ok :: "mac \<Rightarrow> bool" where
  "mac_ok m \<longleftrightarrow> length m = 6"

lemma mgmt_header_fields:
  assumes "mac_ok da" "mac_ok sa" "mac_ok bs" "k < 16"
  shows "length (mgmt_header k da sa bs) = 24"
    and "le16_at (mgmt_header k da sa bs @ ys) 0 = push_bit 4 (of_nat k)"
    and "WLAN_FC_GET_STYPE (le16_at (mgmt_header k da sa bs @ ys) 0) = k"
    and "WLAN_FC_GET_TYPE (le16_at (mgmt_header k da sa bs @ ys) 0) = 0"
    and "addr1 (mgmt_header k da sa bs @ ys) = da" "addr2 (mgmt_header k da sa bs @ ys) = sa"
    and "addr3 (mgmt_header k da sa bs @ ys) = bs"
proof -
  note l = assms(1-3)[unfolded mac_ok_def]
  have k: "k \<in> {0, 1, 2, 3, 4, 5, 6, 7, 8, 9, 10, 11, 12, 13, 14, 15}"
    using assms(4) unfolding insert_iff empty_iff by presburger
  show "length (mgmt_header k da sa bs) = 24"
    using l by (simp add: mgmt_header_def)
  show fc: "le16_at (mgmt_header k da sa bs @ ys) 0 = push_bit 4 (of_nat k)"
    unfolding mgmt_header_def append_assoc by (rule le16_at_0)
  show "WLAN_FC_GET_TYPE (le16_at (mgmt_header k da sa bs @ ys) 0) = 0"
  proof -
    have "push_bit 4 (of_nat k :: u16) AND 0x000c = 0"
      using k by (elim insertE emptyE) (simp_all add: push_bit_eq_mult)
    then show ?thesis
      unfolding fc WLAN_FC_GET_TYPE_def by simp
  qed
  show "WLAN_FC_GET_STYPE (le16_at (mgmt_header k da sa bs @ ys) 0) = k"
  proof -
    have "drop_bit 4 (push_bit 4 (of_nat k :: u16) AND 0x00f0) = of_nat k"
      using k by (elim insertE emptyE) (simp_all add: push_bit_eq_mult)
    then show ?thesis
      unfolding fc WLAN_FC_GET_STYPE_def using assms(4) by (simp add: unat_of_nat)
  qed
  show "addr1 (mgmt_header k da sa bs @ ys) = da" "addr2 (mgmt_header k da sa bs @ ys) = sa"
    "addr3 (mgmt_header k da sa bs @ ys) = bs"
    using l by (simp_all add: mgmt_header_def addr1_def addr2_def addr3_def le16_def)
qed

lemma body_field:
  assumes "mac_ok da" "mac_ok sa" "mac_ok bs" "k < 16"
  shows "le16_at (mgmt_header k da sa bs @ xs @ le16 w @ ys) (24 + length xs) = w"
  using le16_at_le16[of "mgmt_header k da sa bs @ xs" w ys] mgmt_header_fields(1)[OF assms] by simp

lemma seq_field:
  assumes "mac_ok da" "mac_ok sa" "mac_ok bs" "k < 16"
  shows "le16_at (mgmt_header k da sa bs @ ys) 22 = 0"
  using assms(1-3) by (simp add: mgmt_header_def le16_at_def le16_def mac_ok_def nth_append)

lemma hdr_bssid_mgmt:
  assumes "mac_ok da" "mac_ok sa" "mac_ok bs" "k < 16"
  shows "get_hdr_bssid (mgmt_header k da sa bs @ ys) = Inr (Some bs)"
  using mgmt_header_fields[OF assms] by (simp add: get_hdr_bssid_def Let_def)

section \<open>The frames of a handshake\<close>

definition auth_request :: "mac \<Rightarrow> mac \<Rightarrow> u8 list" where
  "auth_request own m = mgmt_header WLAN_FC_STYPE_AUTH own m own @ le16 WLAN_AUTH_OPEN @ le16 1 @ le16 0"

definition assoc_request :: "mac \<Rightarrow> mac \<Rightarrow> u16 \<Rightarrow> u16 \<Rightarrow> u8 list \<Rightarrow> u8 list" where
  "assoc_request own m capab interval ies = mgmt_header WLAN_FC_STYPE_ASSOC_REQ own m own @ le16 capab @ le16 interval @ ies"

lemmas stype_defs = WLAN_FC_STYPE_AUTH_def WLAN_FC_STYPE_ASSOC_REQ_def WLAN_FC_STYPE_ASSOC_RESP_def
  WLAN_FC_STYPE_REASSOC_REQ_def WLAN_FC_STYPE_REASSOC_RESP_def WLAN_FC_STYPE_PROBE_REQ_def WLAN_FC_STYPE_BEACON_def
  WLAN_FC_STYPE_DISASSOC_def WLAN_FC_STYPE_DEAUTH_def WLAN_FC_STYPE_ACTION_def

lemma auth_request_fields:
  assumes "mac_ok own" "mac_ok m"
  shows "length (auth_request own m) = 30" "le16_at (auth_request own m) 24 = WLAN_AUTH_OPEN"
    "le16_at (auth_request own m) 26 = 1" "le16_at (auth_request own m) 0 AND WLAN_FC_RETRY = 0"
    "addr1 (auth_request own m) = own" "addr2 (auth_request own m) = m" "addr3 (auth_request own m) = own"
    "WLAN_FC_GET_STYPE (le16_at (auth_request own m) 0) = WLAN_FC_STYPE_AUTH"
    "get_hdr_bssid (auth_request own m) = Inr (Some own)"
proof -
  have k: "WLAN_FC_STYPE_AUTH < 16"
    by (simp add: stype_defs)
  note f = mgmt_header_fields[OF assms(1,2,1) k]
  show "length (auth_request own m) = 30" "addr1 (auth_request own m) = own" "addr2 (auth_request own m) = m"
    "addr3 (auth_request own m) = own" "WLAN_FC_GET_STYPE (le16_at (auth_request own m) 0) = WLAN_FC_STYPE_AUTH"
    "le16_at (auth_request own m) 0 AND WLAN_FC_RETRY = 0"
    using f by (simp_all add: auth_request_def) (simp add: stype_defs WLAN_FC_RETRY_def push_bit_eq_mult)
  show "le16_at (auth_request own m) 24 = WLAN_AUTH_OPEN"
    using body_field[OF assms(1,2,1) k, of "[]"] by (simp add: auth_request_def)
  show "le16_at (auth_request own m) 26 = 1"
    using body_field[OF assms(1,2,1) k, of "le16 WLAN_AUTH_OPEN"] by (simp add: auth_request_def)
  show "get_hdr_bssid (auth_request own m) = Inr (Some own)"
    unfolding auth_request_def by (rule hdr_bssid_mgmt[OF assms(1,2,1) k])
qed

lemma assoc_request_fields:
  assumes "mac_ok own" "mac_ok m"
  shows "28 \<le> length (assoc_request own m a b ies)" "le16_at (assoc_request own m a b ies) 24 = a"
    "le16_at (assoc_request own m a b ies) 26 = b" "le16_at (assoc_request own m a b ies) 0 AND WLAN_FC_RETRY = 0"
    "addr1 (assoc_request own m a b ies) = own" "addr2 (assoc_request own m a b ies) = m" "addr3 (assoc_request own m a b ies) = own"
    "WLAN_FC_GET_STYPE (le16_at (assoc_request own m a b ies) 0) = WLAN_FC_STYPE_ASSOC_REQ"
    "get_hdr_bssid (assoc_request own m a b ies) = Inr (Some own)" "drop 28 (assoc_request own m a b ies) = ies"
proof -
  have k: "WLAN_FC_STYPE_ASSOC_REQ < 16"
    by (simp add: stype_defs)
  note f = mgmt_header_fields[OF assms(1,2,1) k]
  show "28 \<le> length (assoc_request own m a b ies)" "addr1 (assoc_request own m a b ies) = own"
    "addr2 (assoc_request own m a b ies) = m" "addr3 (assoc_request own m a b ies) = own"
    "WLAN_FC_GET_STYPE (le16_at (assoc_request own m a b ies) 0) = WLAN_FC_STYPE_ASSOC_REQ"
    "drop 28 (assoc_request own m a b ies) = ies" "le16_at (assoc_request own m a b ies) 0 AND WLAN_FC_RETRY = 0"
    using f by (simp_all add: assoc_request_def) (simp add: stype_defs)
  show "le16_at (assoc_request own m a b ies) 24 = a"
    using body_field[OF assms(1,2,1) k, of "[]"] by (simp add: assoc_request_def)
  show "le16_at (assoc_request own m a b ies) 26 = b"
    using body_field[OF assms(1,2,1) k, of "le16 a"] by (simp add: assoc_request_def)
  show "get_hdr_bssid (assoc_request own m a b ies) = Inr (Some own)"
    unfolding assoc_request_def by (rule hdr_bssid_mgmt[OF assms(1,2,1) k])
qed

lemma assoc_resp_fields:
  assumes "mac_ok own" "mac_ok (sta_addr s)"
  shows "30 \<le> length (assoc_resp_frame e cf c own s status re)" "addr1 (assoc_resp_frame e cf c own s status re) = sta_addr s"
    "le16_at (assoc_resp_frame e cf c own s status re) 26 = status"
    "WLAN_FC_GET_STYPE (le16_at (assoc_resp_frame e cf c own s status re) 0) =
      (if re then WLAN_FC_STYPE_REASSOC_RESP else WLAN_FC_STYPE_ASSOC_RESP)"
    "get_hdr_bssid (assoc_resp_frame e cf c own s status re) = Inr (Some own)"
    "grants (assoc_resp_frame e cf c own s status re) \<longleftrightarrow> status = WLAN_STATUS_SUCCESS"
proof -
  let ?k = "if re then WLAN_FC_STYPE_REASSOC_RESP else WLAN_FC_STYPE_ASSOC_RESP"
  have k: "?k < 16"
    by (simp add: stype_defs)
  note f = mgmt_header_fields[OF assms(2,1,1) k]
  show l: "30 \<le> length (assoc_resp_frame e cf c own s status re)" and a: "addr1 (assoc_resp_frame e cf c own s status re) = sta_addr s"
    and t: "WLAN_FC_GET_STYPE (le16_at (assoc_resp_frame e cf c own s status re) 0) = ?k"
    using f(1,3,5) unfolding assoc_resp_frame_def by simp_all
  show b: "le16_at (assoc_resp_frame e cf c own s status re) 26 = status"
    using body_field[OF assms(2,1,1) k, of "le16 (hostapd_own_capab_info e cf c True)" status] by (simp add: assoc_resp_frame_def)
  show "get_hdr_bssid (assoc_resp_frame e cf c own s status re) = Inr (Some own)"
    unfolding assoc_resp_frame_def by (rule hdr_bssid_mgmt[OF assms(2,1,1) k])
  show "grants (assoc_resp_frame e cf c own s status re) \<longleftrightarrow> status = WLAN_STATUS_SUCCESS"
    unfolding grants_def t b using l by simp
qed

end
