(* ===== verification/SaQueryProps.thy ===== *)
theory SaQueryProps
  imports SaQuery MgmtFrames
begin

unbundle bit_operations_syntax

text \<open>
  The SA Query procedure: its data stay well formed, an answer to a pending request ends it, a station
  that answers in time keeps its association, and a silent one can be replaced after the timeout.
\<close>

section \<open>Invariant\<close>

text \<open>The buffer of the pending transaction identifiers, and the identifiers.\<close>

definition trans_buf :: "sa_query \<Rightarrow> u8 list" where
  "trans_buf q = (case sa_query_trans_id q of None \<Rightarrow> [] | Some b \<Rightarrow> b)"

definition trans_ids :: "sa_query \<Rightarrow> u8 list list" where
  "trans_ids q = map (\<lambda>i. take 2 (drop (2 * i) (trans_buf q))) [0..<length (trans_buf q) div 2]"

text \<open>
  The buffer is there when requests are pending and has two bytes for each; at most one timer is
  pending, and none without requests.
\<close>

definition sa_ok :: "sa_query \<Rightarrow> bool" where
  "sa_ok q \<longleftrightarrow> mac_ok (sq_addr q) \<and> mac_ok (sq_own q) \<and> 0 \<le> sa_query_count q \<and>
     (sa_query_trans_id q = None \<longleftrightarrow> sa_query_count q = 0) \<and> int (length (trans_buf q)) = 2 * sa_query_count q \<and>
     length (sq_timers q) \<le> 1 \<and> (sa_query_count q = 0 \<longrightarrow> sq_timers q = [])"

text \<open>A station whose procedure has never run.\<close>

definition sa_fresh :: "sa_query \<Rightarrow> bool" where
  "sa_fresh q \<longleftrightarrow> mac_ok (sq_addr q) \<and> mac_ok (sq_own q) \<and> sa_query_count q = 0 \<and> \<not> sa_query_timed_out q \<and>
     sa_query_trans_id q = None \<and> sq_timers q = [] \<and> sq_sent q = []"

lemma sa_ok_stop [simp]: "sa_ok q \<Longrightarrow> sa_ok (ap_sta_stop_sa_query q)" "trans_ids (ap_sta_stop_sa_query q) = []"
  by (simp_all add: sa_ok_def ap_sta_stop_sa_query_def trans_ids_def trans_buf_def)

lemma sa_ok_fields [simp]:
  "sa_ok (q\<lparr>sq_flags := f\<rparr>) = sa_ok q" "sa_ok (q\<lparr>sq_sent := fs\<rparr>) = sa_ok q" "sa_ok (q\<lparr>sa_query_timed_out := b\<rparr>) = sa_ok q"
  by (simp_all add: sa_ok_def trans_buf_def)

lemma sa_ok_check [simp]: "sa_ok q \<Longrightarrow> sa_ok (snd (ap_check_sa_query_timeout cf now q))"
  by (cases "assoc_sa_query_max_timeout cf < sa_query_tu now q") 
    (simp_all add: sa_ok_def ap_check_sa_query_timeout_def trans_buf_def)

lemma chunks_append:
  assumes "length t = 2" "even (length b)"
  shows "map (\<lambda>i. take 2 (drop (2 * i) (b @ t))) [0..<length (b @ t) div 2] =
    map (\<lambda>i. take 2 (drop (2 * i) b)) [0..<length b div 2] @ [t]"
proof -
  obtain n where n: "length b = 2 * n"
    using assms(2) by blast
  have "take 2 (drop (2 * i) (b @ t)) = take 2 (drop (2 * i) b)" if "i < n" for i
    using that n by simp
  then have "map (\<lambda>i. take 2 (drop (2 * i) (b @ t))) [0..<n] = map (\<lambda>i. take 2 (drop (2 * i) b)) [0..<n]"
    by simp
  then show ?thesis
    using assms(1) n by simp
qed

text \<open>A new attempt: the old procedure has not timed out, there is memory.\<close>

definition attempt :: "sa_conf \<Rightarrow> os_reltime \<Rightarrow> u8 list \<Rightarrow> sa_query \<Rightarrow> sa_query \<Rightarrow> bool" where
  "attempt cf now t q q' \<longleftrightarrow> trans_ids q' = trans_ids q @ [t] \<and> sa_query_count q' = sa_query_count q + 1 \<and>
     sa_query_start q' = (if sa_query_count q = 0 then now else sa_query_start q) \<and> length (sq_timers q') = 1 \<and>
     sq_sent q' = sq_sent q @ [mgmt_header WLAN_FC_STYPE_ACTION (sq_addr q) (sq_own q) (sq_own q) @ [8, 0] @ t] \<and>
     sa_query_timed_out q' = sa_query_timed_out q \<and> sq_flags q' = sq_flags q \<and> sq_auth_alg q' = sq_auth_alg q \<and>
     sq_addr q' = sq_addr q \<and> sq_own q' = sq_own q"

definition the_rnd :: "u8 list option \<Rightarrow> u8 list" where
  "the_rnd r = (case r of Some t \<Rightarrow> t | None \<Rightarrow> [0x12, 0x34])"

lemma the_rnd_length: "rnd_ok r \<Longrightarrow> length (the_rnd r) = 2"
  by (simp add: rnd_ok_def the_rnd_def split: option.splits)

lemma timer_attempt:
  assumes "sa_ok q" "sq_timers q = []" "rnd_ok rnd" "sa_query_count q = 0 \<or> \<not> assoc_sa_query_max_timeout cf < sa_query_tu now q"
  shows "sa_ok (ap_sa_query_timer cf now True rnd q)" "attempt cf now (the_rnd rnd) q (ap_sa_query_timer cf now True rnd q)"
proof -
  have c: "(if sa_query_count q > 0 then ap_check_sa_query_timeout cf now q else (False, q)) = (False, q)"
    using assms(4) by (auto simp: ap_check_sa_query_timeout_def)
  note t = the_rnd_length[OF assms(3)]
  have "length (trans_buf q) = 2 * nat (sa_query_count q)"
    using assms(1) unfolding sa_ok_def by arith
  then have "even (length (trans_buf q))"
    by simp
  note ch = chunks_append[OF t this]
  let ?q = "ap_sa_query_timer cf now True rnd q"
  have q: "sa_query_trans_id ?q = Some (trans_buf q @ the_rnd rnd)" "sa_query_count ?q = sa_query_count q + 1"
    "sa_query_start ?q = (if sa_query_count q = 0 then now else sa_query_start q)" "length (sq_timers ?q) = 1"
    "sq_sent ?q = sq_sent q @ [mgmt_header WLAN_FC_STYPE_ACTION (sq_addr q) (sq_own q) (sq_own q) @ [8, 0] @ the_rnd rnd]"
    "sa_query_timed_out ?q = sa_query_timed_out q" "sq_flags ?q = sq_flags q" "sq_auth_alg ?q = sq_auth_alg q"
    "sq_addr ?q = sq_addr q" "sq_own ?q = sq_own q"
    using assms(2) unfolding ap_sa_query_timer_def c
    by (simp_all add: ieee802_11_send_sa_query_req_def Let_def trans_buf_def the_rnd_def)
  have "trans_buf ?q = trans_buf q @ the_rnd rnd"
    by (simp add: trans_buf_def[of ?q] q(1))
  then show "sa_ok ?q" "attempt cf now (the_rnd rnd) q ?q"
    using assms(1) t ch q by (simp_all add: sa_ok_def attempt_def trans_ids_def)
qed

lemma timer_cases:
  assumes "sa_ok q" "sq_timers q = []" "rnd_ok rnd"
  obtains "ap_sa_query_timer cf now alloc rnd q = q"
  | "0 < sa_query_count q" "assoc_sa_query_max_timeout cf < sa_query_tu now q"
    "ap_sa_query_timer cf now alloc rnd q = snd (ap_check_sa_query_timeout cf now q)"
  | "attempt cf now (the_rnd rnd) q (ap_sa_query_timer cf now alloc rnd q)" "sa_ok (ap_sa_query_timer cf now alloc rnd q)"
    "sa_query_count q = 0 \<or> \<not> assoc_sa_query_max_timeout cf < sa_query_tu now q"
proof (cases "0 < sa_query_count q \<and> assoc_sa_query_max_timeout cf < sa_query_tu now q")
  case True
  then show thesis
    using that(2) by (simp add: ap_sa_query_timer_def ap_check_sa_query_timeout_def)
next
  case False
  then have c: "sa_query_count q = 0 \<or> \<not> assoc_sa_query_max_timeout cf < sa_query_tu now q"
    using assms(1) by (auto simp: sa_ok_def)
  show thesis
  proof (cases alloc)
    case True
    then show thesis
      using that(3) timer_attempt[OF assms c] c by simp
  next
    case no: False
    then show thesis
      using that(1) False by (auto simp: ap_sa_query_timer_def ap_check_sa_query_timeout_def)
  qed
qed

section \<open>Answers\<close>

lemma find_trans_spec:
  "(i + n) * 2 \<le> length b \<Longrightarrow>
   \<exists>k. find_trans i n b t = Inr k \<and> (k < i + n \<longleftrightarrow> (\<exists>j. i \<le> j \<and> j < i + n \<and> take 2 (drop (j * 2) b) = t))"
proof (induction i n b t rule: find_trans.induct)
  case (2 i n b t)
  show ?case
  proof (cases "take 2 (drop (i * 2) b) = t")
    case True
    then show ?thesis
      using "2.prems" by auto
  next
    case False
    then obtain k where k: "find_trans (Suc i) n b t = Inr k"
      "k < Suc i + n \<longleftrightarrow> (\<exists>j. Suc i \<le> j \<and> j < Suc i + n \<and> take 2 (drop (j * 2) b) = t)"
      using "2.IH" "2.prems" by auto
    have "i \<le> j \<and> j < i + Suc n \<longleftrightarrow> j = i \<or> Suc i \<le> j \<and> j < Suc i + n" for j
      by auto
    then have "(\<exists>j. i \<le> j \<and> j < i + Suc n \<and> take 2 (drop (j * 2) b) = t) \<longleftrightarrow> k < i + Suc n"
      using k(2) False by (metis add_Suc_shift)
    then show ?thesis
      using k(1) False "2.prems" by simp
  qed
qed simp

lemma action_response:
  assumes "sa_ok q"
  shows "ieee802_11_sa_query_action 1 t q = Inr (if t \<in> set (trans_ids q) then ap_sta_stop_sa_query q else q)"
proof (cases "sa_query_trans_id q")
  case None
  then show ?thesis
    by (simp add: ieee802_11_sa_query_action_def trans_ids_def trans_buf_def)
next
  case (Some b)
  define n where "n = nat (sa_query_count q)"
  have n: "sa_query_count q = int n" "length b = n * 2"
    using assms Some by (auto simp: sa_ok_def n_def trans_buf_def)
  obtain k where k: "find_trans 0 n b t = Inr k" "k < n \<longleftrightarrow> (\<exists>j < n. take 2 (drop (j * 2) b) = t)"
    using find_trans_spec[of 0 n b t] n(2) by auto
  have "t \<in> set (trans_ids q) \<longleftrightarrow> k < n"
    unfolding k(2) by (auto simp: trans_ids_def trans_buf_def Some n(2) mult.commute)
  then show ?thesis
    using k(1) by (auto simp: ieee802_11_sa_query_action_def Some n(1))
qed

lemma action_ok:
  assumes "sa_ok q"
  shows "\<exists>q'. ieee802_11_sa_query_action a t q = Inr q' \<and> sa_ok q'"
proof -
  have "sa_ok (ieee802_11_send_sa_query_resp t q)"
    using assms by (simp add: ieee802_11_send_sa_query_resp_def)
  then show ?thesis
    using action_response[OF assms, of t] assms
    by (cases "a = 1") (auto simp: ieee802_11_sa_query_action_def)
qed

section \<open>Every step keeps the invariant\<close>

lemma gate_ok:
  assumes "sa_ok q" "rnd_ok rnd"
  shows "sa_ok (snd (sa_query_gate cf now alloc rnd re mfp q))"
proof -
  define q1 where "q1 = (if sq_mfp q \<and> \<not> sa_query_timed_out q \<and> sa_query_count q > 0
    then snd (ap_check_sa_query_timeout cf now q) else q)"
  have q1: "sa_ok q1"
    using assms(1) by (simp add: q1_def)
  have s: "sa_ok (ap_sta_start_sa_query cf now alloc rnd q1)" if "sa_query_count q1 = 0"
  proof -
    have "sq_timers q1 = []"
      using q1 that by (simp add: sa_ok_def)
    then show ?thesis
      unfolding ap_sta_start_sa_query_def using q1 that by (cases rule: timer_cases[OF q1 _ assms(2), of cf now alloc]) simp_all
  qed
  show ?thesis
    using q1 s unfolding sa_query_gate_def q1_def[symmetric] Let_def by simp
qed

lemma expires_ok:
  assumes "sa_ok q" "rnd_ok rnd"
  shows "sa_ok (ap_sa_query_timer cf now alloc rnd (q\<lparr>sq_timers := tl (sq_timers q)\<rparr>))"
proof -
  let ?q = "q\<lparr>sq_timers := tl (sq_timers q)\<rparr>"
  have "tl (sq_timers q) = []"
    using assms(1) by (cases "sq_timers q") (simp_all add: sa_ok_def)
  then have q: "sa_ok ?q" "sq_timers ?q = []"
    using assms(1) by (simp_all add: sa_ok_def trans_buf_def)
  show ?thesis
    by (rule timer_cases[OF q assms(2), of cf now alloc]) (simp_all add: q(1))
qed

lemma sa_step_ok:
  assumes "sa_ok q" "sa_can e q"
  shows "\<exists>q'. sa_step cf e q = Inr q' \<and> sa_ok q'"
proof (cases e)
  case (QueryFrame b)
  then show ?thesis
    using action_ok[OF assms(1), of "b ! 25" "take 2 (drop 26 b)"] assms(1) by (auto simp: hostapd_sa_query_action_def)
next
  case AssocConfirmed
  then show ?thesis
    using assms(1) by (simp add: sa_query_confirm_def sa_ok_def trans_buf_def)
qed (use assms gate_ok expires_ok in auto)

lemma sa_run_ok: "sa_run cf q q' \<Longrightarrow> sa_ok q \<Longrightarrow> sa_ok q'"
proof (induction rule: sa_run.induct)
  case (sa_next q q1 e q2)
  then show ?case
    using sa_step_ok[of q1 e cf] by auto
qed simp

lemma sa_fresh_ok: "sa_fresh q \<Longrightarrow> sa_ok q"
  by (simp add: sa_fresh_def sa_ok_def trans_buf_def)

section \<open>Pending requests\<close>

text \<open>The requests among the frames sent; the pending identifiers are those of the last of them.\<close>

definition requests :: "sa_query \<Rightarrow> u8 list list" where
  "requests q = filter (\<lambda>f. f ! 25 = 0) (sq_sent q)"

definition pending_requests :: "sa_query \<Rightarrow> u8 list list" where
  "pending_requests q = drop (length (requests q) - nat (sa_query_count q)) (requests q)"

definition sa_sent_ok :: "sa_query \<Rightarrow> bool" where
  "sa_sent_ok q \<longleftrightarrow> sa_query_count q \<le> int (length (requests q)) \<and> trans_ids q = map (drop 26) (pending_requests q)"

lemma action_frame_fields:
  assumes "mac_ok da" "mac_ok sa" "mac_ok bs"
  shows "(mgmt_header WLAN_FC_STYPE_ACTION da sa bs @ [a, b] @ t) ! 25 = b"
    "drop 26 (mgmt_header WLAN_FC_STYPE_ACTION da sa bs @ [a, b] @ t) = t"
    "length (mgmt_header WLAN_FC_STYPE_ACTION da sa bs @ [a, b] @ t) = 26 + length t"
proof -
  have "length (mgmt_header WLAN_FC_STYPE_ACTION da sa bs) = 24"
    by (rule mgmt_header_fields(1)[OF assms]) (simp add: stype_defs)
  then show "(mgmt_header WLAN_FC_STYPE_ACTION da sa bs @ [a, b] @ t) ! 25 = b"
    "drop 26 (mgmt_header WLAN_FC_STYPE_ACTION da sa bs @ [a, b] @ t) = t"
    "length (mgmt_header WLAN_FC_STYPE_ACTION da sa bs @ [a, b] @ t) = 26 + length t"
    by (simp_all add: nth_append)
qed

lemma sent_idle:
  assumes "sa_query_count q = 0" "sa_query_trans_id q = None"
  shows "sa_sent_ok q"
  using assms by (simp add: sa_sent_ok_def trans_ids_def trans_buf_def pending_requests_def)

lemma sent_attempt:
  assumes "attempt cf now t q q'" "sa_ok q" "sa_sent_ok q"
  shows "sa_sent_ok q'"
proof -
  let ?f = "mgmt_header WLAN_FC_STYPE_ACTION (sq_addr q) (sq_own q) (sq_own q) @ [8, 0] @ t"
  have m: "mac_ok (sq_addr q)" "mac_ok (sq_own q)" "0 \<le> sa_query_count q"
    using assms(2) by (simp_all add: sa_ok_def)
  have r: "requests q' = requests q @ [?f]" "drop 26 ?f = t" "sa_query_count q' = sa_query_count q + 1"
    using assms(1) action_frame_fields[OF m(1,2,2), of 8 0 t] by (simp_all add: requests_def attempt_def)
  have "length (requests q) + 1 - nat (sa_query_count q + 1) = length (requests q) - nat (sa_query_count q)"
    using m(3) by (simp add: nat_add_distrib)
  then have "pending_requests q' = pending_requests q @ [?f]"
    using r(1,3) by (simp add: pending_requests_def)
  then show ?thesis
    using assms(1,3) r by (simp add: sa_sent_ok_def attempt_def)
qed

lemma sent_fields [simp]:
  "sa_sent_ok (q\<lparr>sq_flags := f\<rparr>) = sa_sent_ok q" "sa_sent_ok (q\<lparr>sa_query_timed_out := b\<rparr>) = sa_sent_ok q"
  "sa_sent_ok (q\<lparr>sq_timers := ts\<rparr>) = sa_sent_ok q"
  by (simp_all add: sa_sent_ok_def trans_ids_def trans_buf_def pending_requests_def requests_def)

lemma sent_resp:
  assumes "sa_ok q" "sa_sent_ok q"
  shows "sa_sent_ok (ieee802_11_send_sa_query_resp t q)"
proof -
  have "mac_ok (sq_addr q)" "mac_ok (sq_own q)"
    using assms(1) by (simp_all add: sa_ok_def)
  then have "requests (ieee802_11_send_sa_query_resp t q) = requests q"
    using action_frame_fields(1)[of "sq_addr q" "sq_own q" "sq_own q" 8 1 t] by (simp add: ieee802_11_send_sa_query_resp_def requests_def)
  then show ?thesis
    using assms(2) by (auto simp: sa_sent_ok_def trans_ids_def trans_buf_def pending_requests_def ieee802_11_send_sa_query_resp_def)
qed

lemma sent_check: "sa_sent_ok q \<Longrightarrow> sa_sent_ok (snd (ap_check_sa_query_timeout cf now q))"
  by (simp add: ap_check_sa_query_timeout_def sent_idle)

lemma sent_timer:
  assumes "sa_ok q" "sq_timers q = []" "rnd_ok rnd" "sa_sent_ok q"
  shows "sa_sent_ok (ap_sa_query_timer cf now alloc rnd q)"
  by (rule timer_cases[OF assms(1-3), of cf now alloc]) (simp_all add: assms(4) sent_check sent_attempt[OF _ assms(1,4)])

lemma sent_step:
  assumes "sa_ok q" "sa_can e q" "sa_sent_ok q" "sa_step cf e q = Inr q'"
  shows "sa_sent_ok q'"
proof (cases e)
  case (AssocRequest now alloc rnd re mfp)
  define q1 where "q1 = (if sq_mfp q \<and> \<not> sa_query_timed_out q \<and> sa_query_count q > 0
    then snd (ap_check_sa_query_timeout cf now q) else q)"
  have q1: "sa_ok q1" "sa_sent_ok q1" "sa_query_count q1 = 0 \<Longrightarrow> sq_timers q1 = []"
    using assms(1,3) sent_check sa_ok_check by (auto simp: q1_def sa_ok_def)
  have "rnd_ok rnd"
    using assms(2) AssocRequest by simp
  moreover have "q' = snd (sa_query_gate cf now alloc rnd re mfp q)"
    using assms(4) AssocRequest by simp
  ultimately show ?thesis
    using q1(1,2) sent_timer[OF q1(1) q1(3)] unfolding sa_query_gate_def q1_def[symmetric] Let_def
    by (auto simp: ap_sta_start_sa_query_def split: if_splits)
next
  case (QueryExpires now alloc rnd)
  let ?q = "q\<lparr>sq_timers := tl (sq_timers q)\<rparr>"
  have "tl (sq_timers q) = []"
    using assms(1) by (cases "sq_timers q") (simp_all add: sa_ok_def)
  then have "sa_ok ?q" "sq_timers ?q = []"
    using assms(1) by (simp_all add: sa_ok_def trans_buf_def)
  then show ?thesis
    using sent_timer[of ?q rnd cf now alloc] assms QueryExpires by auto
next
  case (QueryFrame b)
  then show ?thesis
    using assms sent_resp[OF assms(1,3), of "take 2 (drop 26 b)"] action_response[OF assms(1), of "take 2 (drop 26 b)"]
      sent_idle[of "ap_sta_stop_sa_query q"]
    by (cases "b ! 25 = 1") (auto simp: hostapd_sa_query_action_def ieee802_11_sa_query_action_def ap_sta_stop_sa_query_def split: if_splits)
next
  case AssocConfirmed
  then show ?thesis
    using assms(3,4) by (auto simp: sa_query_confirm_def sa_sent_ok_def trans_ids_def trans_buf_def pending_requests_def requests_def)
qed

lemma sa_run_sent: "sa_run cf q q' \<Longrightarrow> sa_ok q \<Longrightarrow> sa_sent_ok q \<Longrightarrow> sa_sent_ok q'"
proof (induction rule: sa_run.induct)
  case (sa_next q q1 e q2)
  then show ?case
    using sent_step sa_run_ok by blast
qed simp

section \<open>Stations that answer, and silent ones\<close>

text \<open>An event that finds no procedure that has been running for longer than the maximum.\<close>

fun in_time :: "sa_conf \<Rightarrow> sa_event \<Rightarrow> sa_query \<Rightarrow> bool" where
  "in_time cf (AssocRequest now alloc rnd re mfp) q = (sa_query_count q = 0 \<or> \<not> assoc_sa_query_max_timeout cf < sa_query_tu now q)"
| "in_time cf (QueryExpires now alloc rnd) q = (sa_query_count q = 0 \<or> \<not> assoc_sa_query_max_timeout cf < sa_query_tu now q)"
| "in_time cf (QueryFrame b) q = True"
| "in_time cf AssocConfirmed q = True"

inductive sa_prompt :: "sa_conf \<Rightarrow> sa_query \<Rightarrow> sa_query \<Rightarrow> bool" for cf where
  prompt_start: "sa_prompt cf q q"
| prompt_next: "sa_prompt cf q q1 \<Longrightarrow> sa_can e q1 \<Longrightarrow> in_time cf e q1 \<Longrightarrow> sa_step cf e q1 = Inr q2 \<Longrightarrow> sa_prompt cf q q2"

definition protected :: "sa_query \<Rightarrow> bool" where
  "protected q \<longleftrightarrow> sa_ok q \<and> sq_mfp q \<and> \<not> sa_query_timed_out q \<and> sq_auth_alg q \<noteq> WLAN_AUTH_FT"

lemma protected_attempt: "protected q \<Longrightarrow> attempt cf now t q q' \<Longrightarrow> sa_ok q' \<Longrightarrow> protected q'"
  by (simp add: protected_def attempt_def sq_mfp_def)

lemma protected_timer:
  assumes "protected q" "sq_timers q = []" "rnd_ok rnd" "sa_query_count q = 0 \<or> \<not> assoc_sa_query_max_timeout cf < sa_query_tu now q"
  shows "protected (ap_sa_query_timer cf now alloc rnd q)"
proof -
  have "sa_ok q"
    using assms(1) by (simp add: protected_def)
  then show ?thesis
    by (rule timer_cases[OF _ assms(2,3), of cf now alloc]) (use assms(1,4) protected_attempt[OF assms(1)] in auto)
qed

lemma protected_gate:
  assumes "protected q" "rnd_ok rnd" "in_time cf (AssocRequest now alloc rnd re mfp) q"
  shows "fst (sa_query_gate cf now alloc rnd re mfp q) = WLAN_STATUS_ASSOC_REJECTED_TEMPORARILY"
    "protected (snd (sa_query_gate cf now alloc rnd re mfp q))"
    "snd (sa_query_gate cf now alloc rnd re mfp q) = (if sa_query_count q = 0 then ap_sa_query_timer cf now alloc rnd q else q)"
proof -
  have q: "(if sq_mfp q \<and> \<not> sa_query_timed_out q \<and> sa_query_count q > 0 then snd (ap_check_sa_query_timeout cf now q) else q) = q"
    using assms(3) by (auto simp: ap_check_sa_query_timeout_def)
  show "fst (sa_query_gate cf now alloc rnd re mfp q) = WLAN_STATUS_ASSOC_REJECTED_TEMPORARILY"
    and s: "snd (sa_query_gate cf now alloc rnd re mfp q) = (if sa_query_count q = 0 then ap_sa_query_timer cf now alloc rnd q else q)"
    using assms(1) unfolding sa_query_gate_def q Let_def by (auto simp: protected_def ap_sta_start_sa_query_def)
  have "sq_timers q = []" if "sa_query_count q = 0"
    using assms(1) that by (simp add: protected_def sa_ok_def)
  then show "protected (snd (sa_query_gate cf now alloc rnd re mfp q))"
    unfolding s using protected_timer[OF assms(1) _ assms(2), of cf now alloc] assms(1) by auto
qed

lemma timers_taken: "sa_ok q \<Longrightarrow> sq_timers (q\<lparr>sq_timers := tl (sq_timers q)\<rparr>) = []" "sa_ok q \<Longrightarrow> sa_ok (q\<lparr>sq_timers := tl (sq_timers q)\<rparr>)"
proof -
  assume q: "sa_ok q"
  then show "sq_timers (q\<lparr>sq_timers := tl (sq_timers q)\<rparr>) = []"
    by (cases "sq_timers q") (simp_all add: sa_ok_def)
  then show "sa_ok (q\<lparr>sq_timers := tl (sq_timers q)\<rparr>)"
    using q by (simp add: sa_ok_def trans_buf_def)
qed

lemma tu_start: "sa_query_start q' = sa_query_start q \<Longrightarrow> sa_query_tu now q' = sa_query_tu now q"
  by (simp add: sa_query_tu_def)

lemma action_keeps:
  assumes "sa_ok q" "ieee802_11_sa_query_action a t q = Inr q'"
  shows "sq_flags q' = sq_flags q" "sq_auth_alg q' = sq_auth_alg q" "sa_query_timed_out q' = sa_query_timed_out q"
proof -
  have "q' \<in> {q, ap_sta_stop_sa_query q, ieee802_11_send_sa_query_resp t q}"
    using assms(2) action_response[OF assms(1), of t]
    by (cases "a = 1") (simp_all add: ieee802_11_sa_query_action_def split: if_splits)
  then show "sq_flags q' = sq_flags q" "sq_auth_alg q' = sq_auth_alg q" "sa_query_timed_out q' = sa_query_timed_out q"
    by (auto simp: ap_sta_stop_sa_query_def ieee802_11_send_sa_query_resp_def split: if_splits)
qed

lemma protected_step:
  assumes "protected q" "sa_can e q" "in_time cf e q" "sa_step cf e q = Inr q'"
  shows "protected q'"
proof (cases e)
  case (AssocRequest now alloc rnd re mfp)
  then show ?thesis
    using protected_gate(2)[OF assms(1), of rnd cf now alloc re mfp] assms by auto
next
  case (QueryExpires now alloc rnd)
  let ?q = "q\<lparr>sq_timers := tl (sq_timers q)\<rparr>"
  have "protected ?q" "sq_timers ?q = []" "sa_query_tu now ?q = sa_query_tu now q"
    using assms(1) timers_taken[of q] by (simp_all add: protected_def sq_mfp_def sa_query_tu_def)
  then show ?thesis
    using protected_timer[of ?q rnd cf now alloc] assms QueryExpires by auto
next
  case (QueryFrame b)
  have q: "sa_ok q"
    using assms(1) by (simp add: protected_def)
  have "sa_ok q'"
    using sa_step_ok[OF q assms(2), of cf] assms(4) by auto
  moreover obtain q1 where "ieee802_11_sa_query_action (b ! 25) (take 2 (drop 26 b)) q = Inr q1"
    using action_ok[OF q] by blast
  then have "sq_flags q' = sq_flags q" "sq_auth_alg q' = sq_auth_alg q" "sa_query_timed_out q' = sa_query_timed_out q"
    using QueryFrame assms(4) action_keeps[OF q] by (auto simp: hostapd_sa_query_action_def split: if_splits)
  ultimately show ?thesis
    using assms(1) by (simp add: protected_def sq_mfp_def)
next
  case AssocConfirmed
  moreover have "(f OR WLAN_STA_ASSOC) AND WLAN_STA_MFP = f AND WLAN_STA_MFP" for f :: u32
    by (simp add: bit.conj_disj_distrib2 WLAN_STA_ASSOC_def WLAN_STA_MFP_def)
  ultimately show ?thesis
    using assms(1,4) by (auto simp: sa_query_confirm_def protected_def sq_mfp_def)
qed

lemma prompt_protected: "sa_prompt cf q q' \<Longrightarrow> protected q \<Longrightarrow> protected q'"
proof (induction rule: sa_prompt.induct)
  case (prompt_next q q1 e q2)
  then show ?case
    using protected_step by blast
qed simp

text \<open>A sequence of events.\<close>

fun sa_steps :: "sa_conf \<Rightarrow> sa_event list \<Rightarrow> sa_query \<Rightarrow> sa_query res" where
  "sa_steps cf [] q = Inr q"
| "sa_steps cf (e # es) q = bind_res (sa_step cf e q) (sa_steps cf es)"

lemma protected_pending: "protected q \<Longrightarrow> sq_timers q \<noteq> [] \<Longrightarrow> 0 < sa_query_count q"
  by (auto simp: protected_def sa_ok_def)

lemma expire_once:
  assumes "protected q" "sq_timers q \<noteq> []" "rnd_ok rnd" "\<not> assoc_sa_query_max_timeout cf < sa_query_tu now q"
  obtains q' where "sa_step cf (QueryExpires now True rnd) q = Inr q'" "protected q'" "sq_timers q' \<noteq> []"
    "sa_query_start q' = sa_query_start q" "length (requests q') = length (requests q) + 1"
proof -
  let ?q = "q\<lparr>sq_timers := tl (sq_timers q)\<rparr>" and ?r = "ap_sa_query_timer cf now True rnd (q\<lparr>sq_timers := tl (sq_timers q)\<rparr>)"
  have q: "sa_ok q" "sa_ok ?q" "sq_timers ?q = []" "sa_query_tu now ?q = sa_query_tu now q" "mac_ok (sq_addr q)" "mac_ok (sq_own q)"
    using assms(1) timers_taken[of q] by (simp_all add: protected_def sa_query_tu_def sa_ok_def)
  note a = timer_attempt[OF q(2,3) assms(3), of cf now]
  have a: "sa_ok ?r" "attempt cf now (the_rnd rnd) ?q ?r"
    using a assms(4) q(4) by simp_all
  have "protected ?r"
    using protected_attempt[OF _ a(2,1)] assms(1) q(2) by (simp add: protected_def sq_mfp_def)
  moreover have "sq_timers ?r \<noteq> []" "sa_query_start ?r = sa_query_start q" "length (requests ?r) = length (requests q) + 1"
    using a(2) protected_pending[OF assms(1,2)] action_frame_fields(1)[OF q(5,6,6), of 8 0 "the_rnd rnd"]
    by (auto simp: attempt_def requests_def)
  ultimately show thesis
    using that by simp
qed

lemma expire_many:
  assumes "protected q" "sq_timers q \<noteq> []" "list_all (\<lambda>(n, r). rnd_ok r \<and> \<not> assoc_sa_query_max_timeout cf < sa_query_tu n q) ns"
  shows "\<exists>q'. sa_steps cf (map (\<lambda>(n, r). QueryExpires n True r) ns) q = Inr q' \<and> protected q' \<and> sq_timers q' \<noteq> [] \<and>
    sa_query_start q' = sa_query_start q \<and> length (requests q') = length (requests q) + length ns"
  using assms
proof (induction ns arbitrary: q)
  case (Cons m ns)
  obtain n r where m: "m = (n, r)"
    by fastforce
  have h: "rnd_ok r" "\<not> assoc_sa_query_max_timeout cf < sa_query_tu n q"
    using Cons.prems(3) by (simp_all add: m)
  obtain q1 where q1: "sa_step cf (QueryExpires n True r) q = Inr q1" "protected q1" "sq_timers q1 \<noteq> []"
    "sa_query_start q1 = sa_query_start q" "length (requests q1) = length (requests q) + 1"
    by (rule expire_once[OF Cons.prems(1,2) h])
  then show ?case
    using Cons.IH[OF q1(2,3)] Cons.prems(3) tu_start[OF q1(4)] by (simp add: m del: sa_step.simps)
qed simp

section \<open>Properties\<close>

text \<open>
  C30: The data of the procedure are well formed in every run: there is a buffer exactly when requests
  are pending, it has room for exactly their identifiers, at most one timer is pending, and
  only while requests are. So every event that can happen is handled within the buffer.
\<close>

theorem sa_query_well_formed:
  assumes "sa_fresh q0" "sa_run cf q0 q" "sa_can e q"
  shows "(sa_query_trans_id q = None \<longleftrightarrow> sa_query_count q = 0) \<and> int (length (trans_buf q)) = 2 * sa_query_count q \<and>
    length (sq_timers q) \<le> 1 \<and> (sq_timers q = [] \<or> 0 < sa_query_count q) \<and> (\<exists>q'. sa_step cf e q = Inr q')"
proof -
  have "sa_ok q"
    by (rule sa_run_ok[OF assms(2) sa_fresh_ok[OF assms(1)]])
  then show ?thesis
    using sa_step_ok[OF _ assms(3), of cf] by (auto simp: sa_ok_def)
qed

text \<open>
  C33: A response from the station ends the procedure exactly when it carries the identifier of one of
  the requests that were sent since it started, any of them; every other response is ignored.
\<close>

theorem sa_query_answer_stops:
  assumes "sa_fresh q0" "sa_run cf q0 q" "length t = 2"
  shows "hostapd_sa_query_action (mgmt_header WLAN_FC_STYPE_ACTION (sq_own q) (sq_addr q) (sq_own q) @ [8, 1] @ t) q =
    Inr (1, if t \<in> set (map (drop 26) (pending_requests q)) then ap_sta_stop_sa_query q else q)"
proof -
  have q: "sa_ok q" "sa_sent_ok q"
    using sa_run_ok[OF assms(2)] sa_run_sent[OF assms(2)] sa_fresh_ok[OF assms(1)] sent_idle[of q0] assms(1)
    by (simp_all add: sa_fresh_def)
  then have m: "mac_ok (sq_own q)" "mac_ok (sq_addr q)"
    by (simp_all add: sa_ok_def)
  show ?thesis
    using action_frame_fields[OF m(1,2,1), of 8 1 t] assms(3) action_response[OF q(1), of t] q(2)
    by (simp add: hostapd_sa_query_action_def sa_sent_ok_def)
qed

text \<open>
  C24: A station that answers in time keeps its association: as long as no procedure has been running
  for longer than the maximum time, every association request in its name is rejected
  temporarily and leaves its protection as it was, in any order of requests, expiries and frames.
\<close>

theorem sa_query_protects_association:
  assumes "protected q0" "sa_prompt cf q0 q" "rnd_ok rnd" "in_time cf (AssocRequest now alloc rnd re mfp) q"
  shows "fst (sa_query_gate cf now alloc rnd re mfp q) = WLAN_STATUS_ASSOC_REJECTED_TEMPORARILY \<and>
    sq_mfp (snd (sa_query_gate cf now alloc rnd re mfp q)) \<and> \<not> sa_query_timed_out (snd (sa_query_gate cf now alloc rnd re mfp q))"
  using protected_gate[OF prompt_protected[OF assms(2,1)] assms(3,4)] by (simp add: protected_def)

text \<open>
  C32: A silent station can be replaced: an association request in its name starts the procedure and is
  rejected; each timer that expires within the maximum time sends one more request; the first that
  expires later ends the procedure, and the next association request is accepted.
\<close>

theorem sa_query_times_out:
  assumes "protected q" "sa_query_count q = 0" "rnd_ok rnd" "q1 = snd (sa_query_gate cf t0 True rnd re mfp q)"
    and "list_all (\<lambda>(n, r). rnd_ok r \<and> \<not> assoc_sa_query_max_timeout cf < sa_query_tu n q1) ns"
    and "rnd_ok r'" "assoc_sa_query_max_timeout cf < sa_query_tu late q1"
  shows "fst (sa_query_gate cf t0 True rnd re mfp q) = WLAN_STATUS_ASSOC_REJECTED_TEMPORARILY \<and>
    (\<exists>q2 q3. sa_steps cf (map (\<lambda>(n, r). QueryExpires n True r) ns) q1 = Inr q2 \<and>
      length (requests q2) = length (requests q) + 1 + length ns \<and> sq_timers q2 \<noteq> [] \<and>
      sa_step cf (QueryExpires late True r') q2 = Inr q3 \<and> sa_query_timed_out q3 \<and> sq_timers q3 = [] \<and>
      fst (sa_query_gate cf now alloc rnd' re' mfp' q3) = WLAN_STATUS_SUCCESS)"
proof -
  have i: "in_time cf (AssocRequest t0 True rnd re mfp) q" "sa_ok q" "sq_timers q = []" "mac_ok (sq_addr q)" "mac_ok (sq_own q)"
    using assms(1,2) by (simp_all add: protected_def sa_ok_def)
  note g = protected_gate[OF assms(1,3) i(1)]
  have q1: "q1 = ap_sa_query_timer cf t0 True rnd q" "protected q1"
    using g(2,3) assms(2,4) by simp_all
  have "attempt cf t0 (the_rnd rnd) q q1"
    unfolding q1(1) using assms(2) by (intro timer_attempt(2)[OF i(2,3) assms(3)]) simp
  then have a: "sq_timers q1 \<noteq> []" "length (requests q1) = length (requests q) + 1"
    using action_frame_fields(1)[OF i(4,5,5), of 8 0 "the_rnd rnd"] by (auto simp: attempt_def requests_def)
  obtain q2 where q2: "sa_steps cf (map (\<lambda>(n, r). QueryExpires n True r) ns) q1 = Inr q2" "protected q2" "sq_timers q2 \<noteq> []"
    "sa_query_start q2 = sa_query_start q1" "length (requests q2) = length (requests q1) + length ns"
    using expire_many[OF q1(2) a(1) assms(5)] by blast
  let ?q2 = "q2\<lparr>sq_timers := tl (sq_timers q2)\<rparr>"
  have late: "assoc_sa_query_max_timeout cf < sa_query_tu late ?q2" "0 < sa_query_count q2"
    using assms(7) tu_start[OF q2(4)] protected_pending[OF q2(2,3)] by (simp_all add: sa_query_tu_def)
  then have s: "sa_step cf (QueryExpires late True r') q2 = Inr (?q2\<lparr>sa_query_timed_out := True, sa_query_trans_id := None,
      sa_query_count := 0, sq_timers := []\<rparr>)"
    by (simp add: ap_sa_query_timer_def ap_check_sa_query_timeout_def)
  then show ?thesis
    using g(1) q2 a(2) by (simp add: sa_query_gate_def Let_def del: sa_step.simps)
qed

text \<open>The time after which a rejected station may come back is at least one unit and at most the maximum.\<close>

lemma comeback_time_bounds:
  assumes "0 < assoc_sa_query_max_timeout cf"
  obtains t where "hostapd_eid_assoc_comeback_time cf now q =
      [56, 5, 3, ucast t, ucast (drop_bit 8 t), ucast (drop_bit 16 t), ucast (drop_bit 24 t)]"
    "1 \<le> t" "t \<le> assoc_sa_query_max_timeout cf"
proof -
  define m d where "m = assoc_sa_query_max_timeout cf" and "d = (if m > sa_query_tu now q then m - sa_query_tu now q else 0)"
  define t where "t = (if d < m then d + 1 else d)"
  have d: "d \<le> m" "0 < m"
    using assms word_sub_le[of "sa_query_tu now q" m] by (simp_all add: d_def m_def)
  have "1 \<le> t \<and> t \<le> m"
  proof (cases "d < m")
    case True
    then have "unat d < unat m" "unat m < 2 ^ 32"
      using unsigned_less[of m] by (simp_all add: word_less_nat_alt)
    moreover from this have "unat (d + 1) = unat d + 1"
      by (subst unat_word_ariths(1)) simp
    ultimately have "unat (d + 1) = unat d + 1" "unat d < unat m"
      by simp_all
    then show ?thesis
      using True by (simp add: t_def word_le_nat_alt)
  next
    case False
    then have "t = m"
      using d(1) by (simp add: t_def)
    moreover have "1 \<le> m"
      using d(2) by (simp add: word_less_nat_alt word_le_nat_alt)
    ultimately show ?thesis
      by simp
  qed
  moreover have "hostapd_eid_assoc_comeback_time cf now q =
      [56, 5, 3, ucast t, ucast (drop_bit 8 t), ucast (drop_bit 16 t), ucast (drop_bit 24 t)]"
    by (simp add: hostapd_eid_assoc_comeback_time_def Let_def t_def d_def m_def)
  ultimately show thesis
    using that by (simp add: m_def)
qed

section \<open>Witnesses\<close>

definition wit_sa_conf :: sa_conf where
  "wit_sa_conf = \<lparr>assoc_sa_query_max_timeout = 1000, assoc_sa_query_retry_timeout = 201\<rparr>"

definition wit_sa :: sa_query where
  "wit_sa = \<lparr>sq_addr = wit_mac, sq_own = [2, 0, 0, 0, 0, 1], sq_flags = WLAN_STA_ASSOC OR WLAN_STA_MFP, sq_auth_alg = 0,
     sa_query_count = 0, sa_query_timed_out = False, sa_query_trans_id = None,
     sa_query_start = \<lparr>t_sec = 0, t_usec = 0\<rparr>, sq_timers = [], sq_sent = []\<rparr>"

text \<open>The time in seconds and tenths of a second.\<close>

definition wit_time :: "int \<Rightarrow> int \<Rightarrow> os_reltime" where
  "wit_time s d = \<lparr>t_sec = s, t_usec = d * 100000\<rparr>"

definition wit_asked :: sa_query where
  "wit_asked = snd (sa_query_gate wit_sa_conf (wit_time 100 0) True (Some [7, 9]) False True wit_sa)"

lemma wit_sa: "sa_fresh wit_sa" "sa_query_count wit_sa = 0" "rnd_ok (Some [7, 9])" "sq_timers wit_asked \<noteq> []"
  by code_simp+

lemma wit_protected: "protected wit_sa"
  using sa_fresh_ok[OF wit_sa(1)] by (simp add: protected_def) code_simp

lemma wit_sa_run: "sa_run wit_sa_conf wit_sa wit_asked"
  by (rule sa_next[OF sa_start, of "AssocRequest (wit_time 100 0) True (Some [7, 9]) False True"])
    (simp_all add: wit_sa(3) wit_asked_def)

theorem sa_query_well_formed_witness:
  "sq_timers wit_asked \<noteq> [] \<and> int (length (trans_buf wit_asked)) = 2 * sa_query_count wit_asked \<and>
    (\<exists>q'. sa_step wit_sa_conf (QueryExpires (wit_time 100 2) True (Some [1, 2])) wit_asked = Inr q')"
  using sa_query_well_formed[OF wit_sa(1) wit_sa_run, of "QueryExpires (wit_time 100 2) True (Some [1, 2])"] wit_sa(4)
  by (simp add: rnd_ok_def)

theorem sa_query_answer_stops_witness:
  "hostapd_sa_query_action (mgmt_header WLAN_FC_STYPE_ACTION (sq_own wit_asked) (sq_addr wit_asked) (sq_own wit_asked) @
      [8, 1] @ [7, 9]) wit_asked = Inr (1, ap_sta_stop_sa_query wit_asked)"
proof -
  have "[7, 9] \<in> set (map (drop 26) (pending_requests wit_asked))"
    by code_simp
  then show ?thesis
    using sa_query_answer_stops[OF wit_sa(1) wit_sa_run, of "[7, 9]"] by simp
qed

theorem sa_query_protects_association_witness:
  "fst (sa_query_gate wit_sa_conf (wit_time 100 5) True (Some [7, 9]) False True wit_asked) = WLAN_STATUS_ASSOC_REJECTED_TEMPORARILY"
proof -
  let ?e = "AssocRequest (wit_time 100 0) True (Some [7, 9]) False True"
  have "sa_prompt wit_sa_conf wit_sa wit_asked"
    by (rule prompt_next[OF prompt_start, of ?e]) (simp_all add: wit_sa(2,3) wit_asked_def)
  moreover have "in_time wit_sa_conf (AssocRequest (wit_time 100 5) True (Some [7, 9]) False True) wit_asked"
    by code_simp
  ultimately show ?thesis
    using sa_query_protects_association[OF wit_protected _ wit_sa(3)] by blast
qed

theorem sa_query_times_out_witness:
  "\<exists>q2 q3. sa_steps wit_sa_conf [QueryExpires (wit_time 100 2) True (Some [1, 1]), QueryExpires (wit_time 100 4) True None] wit_asked =
      Inr q2 \<and> length (requests q2) = 3 \<and> sa_step wit_sa_conf (QueryExpires (wit_time 101 1) True None) q2 = Inr q3 \<and>
    fst (sa_query_gate wit_sa_conf (wit_time 102 0) True None False True q3) = WLAN_STATUS_SUCCESS"
proof -
  let ?ns = "[(wit_time 100 2, Some [1, 1]), (wit_time 100 4, None)]"
  have "list_all (\<lambda>(n, r). rnd_ok r \<and> \<not> assoc_sa_query_max_timeout wit_sa_conf < sa_query_tu n wit_asked) ?ns" "rnd_ok None"
    "assoc_sa_query_max_timeout wit_sa_conf < sa_query_tu (wit_time 101 1) wit_asked" "length (requests wit_sa) = 0"
    by code_simp+
  then show ?thesis
    using sa_query_times_out[OF wit_protected wit_sa(2,3) wit_asked_def, of ?ns None "wit_time 101 1" "wit_time 102 0" True None False True]
    by (auto simp del: sa_step.simps)
qed

end
