(* ===== verification/MgmtProps.thy ===== *)
theory MgmtProps
  imports MgmtFrames
begin

unbundle bit_operations_syntax

text \<open>
  Properties of authentication and association: what holds over every life of an interface, that an
  open handshake succeeds, when an association is granted, and where the code errs.
\<close>

section \<open>A station authenticates\<close>

definition open_bss :: "mgmt_conf \<Rightarrow> bool" where
  "open_bss cf \<longleftrightarrow> auth_algs cf AND 1 \<noteq> 0 \<and> conf_wpa cf = 0 \<and> \<not> ieee802_1x cf \<and> \<not> osen cf"

definition willing :: "mgmt_env \<Rightarrow> bool" where
  "willing e \<longleftrightarrow> \<not> tkip_countermeasures e \<and> acl e = HOSTAPD_ACL_ACCEPT \<and> \<not> vlan_refused e \<and> \<not> ubus_refuses e \<and>
     sta_alloc e \<and> \<not> driver_times e \<and> driver_adds e \<and> vlan_bound e"

definition authenticated :: "hostapd_data \<Rightarrow> mac set" where
  "authenticated h = {m. \<exists>s. stas h m = Some s \<and> has_flag s WLAN_STA_AUTH}"

lemma auth_station_authenticates:
  assumes "sta_inv h" "stas h m = Some s" "willing e" "mac_ok m" "mac_ok (own_addr h)"
  shows "m \<in> authenticated (auth_station e (auth_request (own_addr h) m) h s)"
proof -
  note f = auth_request_fields[OF assms(5,4)]
  have v: "\<not> vlan_refused e" "sta_addr s = m"
    using assms(3) station_of[OF assms(1,2)] by (simp_all add: willing_def)
  define g where "g = auth_session e m (emit (NotifyPreAuth m) h)"
  have "has_flag ((set_flag WLAN_STA_AUTH t)\<lparr>auth_alg := a\<rparr>) WLAN_STA_AUTH" for t a
    using has_flag_set_same[of WLAN_STA_AUTH t] by (simp add: has_flag_def WLAN_STA_AUTH_def)
  then show ?thesis
    unfolding auth_station_def Let_def f v(2) g_def[symmetric]
    using v(1) by (simp add: send_auth_reply_def authenticated_def v(2))
qed

text \<open>What an interface keeps of its BSSs besides the stations.\<close>

lemma add_room:
  assumes "sta_inv h" "m \<notin> sta_keys h" "num_sta h < max_num_sta h"
  shows "\<exists>h'. ap_sta_add True False h m = (Some m, h') \<and> sta_inv h' \<and> card (sta_keys h') \<le> nat (max_num_sta h) \<and>
    own_addr h' = own_addr h \<and> conf_ssid h' = conf_ssid h"
proof -
  obtain h' where a: "ap_sta_add True False h m = (Some m, h')"
    "num_sta h' = num_sta h + 1" "own_addr h' = own_addr h" "conf_ssid h' = conf_ssid h"
    using assms by (simp add: ap_sta_add_def ap_get_sta_eq Let_def put_sta_def ap_sta_hash_add_def StaTable.eloop_register_timeout_def)
  have i: "sta_inv h'"
    by (rule ap_sta_add_inv(1)[OF assms(1) a(1)])
  then have "int (card (sta_keys h')) = num_sta h'"
    using distinct_card[of "sta_list h'"] by (simp add: sta_inv_def)
  then show ?thesis
    using a i assms(3) by auto
qed

lemma receive_one:
  assumes "find_bss 0 own (bsses st) = Some i" "own \<noteq> bcast" "get_hdr_bssid b = Inr (Some own)"
  shows "iface_step (Receive x b drv) st = bind_res (ieee802_11_mgmt x b i st) (\<lambda>(n, st'). Inr st')"
  using assms by (simp add: hostapd_mgmt_rx_def get_hapd_bssid_def)

lemma find_bss_own: "find_bss j m bs = Some i \<Longrightarrow> own_addr (bs ! (i - j)) = m"
proof (induction j m bs rule: find_bss.induct)
  case (2 j m b bs)
  show ?case
  proof (cases "own_addr b = m")
    case False
    then have f: "find_bss (Suc j) m bs = Some i"
      using "2.prems" by simp
    have "i - j = Suc (i - Suc j)"
      using find_bss_less[OF f] by linarith
    then show ?thesis
      using "2.IH"[OF False f] by simp
  qed (use "2.prems" in simp)
qed simp

lemma find_bss_map: "map bss_name bs = map bss_name bs' \<Longrightarrow> find_bss j m bs = find_bss j m bs'"
proof (induction j m bs arbitrary: bs' rule: find_bss.induct)
  case (2 j m b bs)
  then show ?case
    by (cases bs') (auto simp: bss_name_def)
qed simp

lemma names_ssid: "map bss_name bs' = map bss_name bs \<Longrightarrow> i < length bs' \<Longrightarrow> conf_ssid (bs' ! i) = conf_ssid (bs ! i)"
  by (metis bss_name_def length_map nth_map prod.inject)

lemma names_update: "i < length bs \<Longrightarrow> bss_name h = bss_name (bs ! i) \<Longrightarrow> map bss_name (bs[i := h]) = map bss_name bs"
  by (metis list_update_id map_update)

lemma open_authentication:
  assumes "iface_ok st" "find_bss 0 own (bsses st) = Some i" "own \<noteq> bcast" "mac_ok own" "mac_ok m" "m \<noteq> own"
    and "open_bss (conf x i)" "willing (env x)" "m \<notin> sta_keys (bsses st ! i)"
    and "num_sta (bsses st ! i) < max_num_sta (bsses st ! i)"
  shows "\<exists>st'. iface_step (Receive x (auth_request own m) None) st = Inr st' \<and> iface_ok st' \<and>
    m \<in> authenticated (bsses st' ! i) \<and> find_bss 0 own (bsses st') = Some i \<and>
    map bss_name (bsses st') = map bss_name (bsses st) \<and>
    card (sta_keys (bsses st' ! i)) \<le> nat (max_num_sta (bsses st ! i))"
proof -
  let ?h = "bsses st ! i" and ?b = "auth_request own m" and ?e = "env x" and ?cf = "conf x i"
  note f = auth_request_fields[OF assms(4,5)]
  have len: "i < length (bsses st)" and own: "own_addr ?h = own"
    using find_bss_less[OF assms(2)] find_bss_own[OF assms(2)] by auto
  have i: "sta_inv ?h"
    using iface_ok_bss[OF assms(1) len] by (rule bss_ok_inv)
  note w = assms(8)[unfolded willing_def]
  obtain h' where h': "ap_sta_add True False ?h m = (Some m, h')" "sta_inv h'"
    "card (sta_keys h') \<le> nat (max_num_sta ?h)" "own_addr h' = own" "conf_ssid h' = conf_ssid ?h"
    using add_room[OF i assms(9,10)] own by metis
  obtain bs s where a: "ap_sta_add_bss True False (counters st) (bsses st) i m = Inr (Some m, bs)"
    "good st (st\<lparr>bsses := bs\<rparr>)" "stas (bs ! i) m = Some s" "bs ! i = h'" "map bss_name bs = map bss_name (bsses st)"
  proof (rule add_bss_ok[OF assms(1) len assms(9), of True])
    assume "ap_sta_add_bss True False (counters st) (bsses st) i m = Inr (None, bsses st)"
    then show thesis
      using h'(1) ap_get_sta_eq[OF i, of m] assms(9) by (simp add: ap_sta_add_bss_def bind_res_def split: sum.splits)
  next
    fix bs s
    assume b: "ap_sta_add_bss True False (counters st) (bsses st) i m = Inr (Some m, bs)" "good st (st\<lparr>bsses := bs\<rparr>)"
      "stas (bs ! i) m = Some s" "ap_sta_add True False ?h m = (Some m, bs ! i)" "map bss_name bs = map bss_name (bsses st)"
    have "bs ! i = h'"
      using b(4) h'(1) by simp
    with b(1-3,5) show thesis
      by (intro that)
  qed
  define st1 where "st1 = st\<lparr>bsses := bs\<rparr>"
  have st1: "iface_ok st1" "i < length (bsses st1)" "bsses st1 ! i = h'"
    using a(2,4) len by (simp_all add: st1_def good_def)
  define st2 where "st2 = on_bss i st1 (\<lambda>h. auth_station ?e ?b h s)"
  have s: "stas h' m = Some s"
    using a(3,4) by simp
  have m: "mild h' (auth_station ?e ?b h' s)"
    by (rule auth_station_mild[OF h'(2) s])
  have b2: "bsses st2 = bs[i := auth_station ?e ?b h' s]" "bsses st2 ! i = auth_station ?e ?b h' s"
    using st1(2,3) by (simp_all add: st2_def on_bss_def set_bss_def st1_def)
  have ok2: "good st1 st2"
    unfolding st2_def by (rule good_on_bss[OF st1(1,2)]) (simp add: st1(3) m)
  have "auth_refusal ?e ?cf ?h WLAN_AUTH_OPEN 1 m = None"
    using w assms(6,7) own by (auto simp: auth_refusal_def open_bss_def)
  then have "handle_auth ?e ?cf ?b i st = Inr st2"
    using w a(1,3) ap_get_sta_eq[OF i, of m] assms(9) f
    unfolding handle_auth_def Let_def f st2_def st1_def by (simp add: with_sta_def)
  then have r: "iface_step (Receive x ?b None) st = Inr st2"
    using receive_one[OF assms(2,3) f(9)] f assms(3) own by (simp add: ieee802_11_mgmt_def Let_def stype_defs)
  have "i < length bs" "bss_name (auth_station ?e ?b h' s) = bss_name (bs ! i)"
    using a(2,4) len m by (simp_all add: good_def mild_def keeps_def bss_name_def)
  then have n: "map bss_name (bsses st2) = map bss_name (bsses st)"
    using names_update a(5) b2(1) by simp
  then have "find_bss 0 own (bsses st2) = Some i"
    using find_bss_map assms(2) by metis
  moreover have "m \<in> authenticated (bsses st2 ! i)"
    using auth_station_authenticates[OF h'(2) s assms(8,5)] assms(4) h'(4) b2(2) by simp
  moreover have "card (sta_keys (bsses st2 ! i)) \<le> nat (max_num_sta ?h)"
    using m h'(3) b2(2) by (simp add: mild_def)
  ultimately show ?thesis
    using r ok2 n by (auto simp: good_def)
qed

section \<open>It associates\<close>

text \<open>A request that the BSS can accept.\<close>

definition good_request :: "mgmt_conf \<Rightarrow> hostapd_data \<Rightarrow> u16 \<Rightarrow> u8 list \<Rightarrow> bool" where
  "good_request cf h interval ies \<longleftrightarrow> interval \<le> max_listen_interval cf \<and>
     (let (p, el) = ieee802_11_parse_elems ies
      in p \<noteq> ParseFailed \<and> el F_ssid = Some (ssid_bytes (conf_ssid h)) \<and>
         (wmm_enabled cf \<longrightarrow> (case el F_wmm of None \<Rightarrow> True | Some w \<Rightarrow> hostapd_eid_wmm_valid w)) \<and>
         el F_supp_rates \<noteq> None \<and> ie_len (el F_supp_rates) + ie_len (el F_ext_supp_rates) \<le> 32)"

lemma check_assoc_ies_good:
  assumes "good_request cf h interval ies" "conf_wpa cf = 0"
  shows "fst (check_assoc_ies e cf re ies h s) = WLAN_STATUS_SUCCESS"
proof -
  obtain p el where p: "ieee802_11_parse_elems ies = (p, el)"
    by fastforce
  have "fst (check_wmm cf (el F_wmm) s) = WLAN_STATUS_SUCCESS"
    using assms(1) p by (auto simp: good_request_def check_wmm_def Let_def split: option.splits)
  moreover have "fst (copy_supp_rates el s1) = WLAN_STATUS_SUCCESS" for s1
    using assms(1) p by (auto simp: good_request_def copy_supp_rates_def)
  moreover have "check_ssid h (el F_ssid) = WLAN_STATUS_SUCCESS"
    using assms(1) p by (auto simp: good_request_def check_ssid_def ssid_bytes_def)
  ultimately show ?thesis
    using assms p by (simp add: check_assoc_ies_def Let_def case_prod_beta check_wpa_def good_request_def)
qed

lemma has_flag_clear_other: "f AND g = 0 \<Longrightarrow> has_flag (clear_flag f s) g = has_flag s g"
proof -
  assume "f AND g = 0"
  then have "bit f n \<longrightarrow> \<not> bit g n" for n
    by (metis bit_0_eq bit_and_iff bot_apply bot_bool_def)
  then have "sta_flags s AND NOT f AND g = sta_flags s AND g"
    by (intro bit_word_eqI) (auto simp: bit_simps)
  then show ?thesis
    by (simp add: has_flag_def clear_flag_def and.assoc)
qed

lemma auth_flags [simp]:
  "has_flag (clear_flag WLAN_STA_WMM s) WLAN_STA_AUTH = has_flag s WLAN_STA_AUTH"
  "has_flag (clear_flag WLAN_STA_MFP s) WLAN_STA_AUTH = has_flag s WLAN_STA_AUTH"
  "has_flag (clear_flag WLAN_STA_NONERP s) WLAN_STA_AUTH = has_flag s WLAN_STA_AUTH"
  "has_flag (clear_flag WLAN_STA_SHORT_PREAMBLE s) WLAN_STA_AUTH = has_flag s WLAN_STA_AUTH"
  "has_flag (clear_flag WLAN_STA_WNM_SLEEP_MODE s) WLAN_STA_AUTH = has_flag s WLAN_STA_AUTH"
  "has_flag (clear_flag WLAN_STA_WNM_SLEEP_MODE s) WLAN_STA_ASSOC = has_flag s WLAN_STA_ASSOC"
  by (rule has_flag_clear_other, simp add: WLAN_STA_WMM_def WLAN_STA_AUTH_def WLAN_STA_MFP_def WLAN_STA_NONERP_def
      WLAN_STA_SHORT_PREAMBLE_def WLAN_STA_WNM_SLEEP_MODE_def WLAN_STA_ASSOC_def)+

lemma auth_set [simp]: "has_flag s WLAN_STA_AUTH \<Longrightarrow> has_flag (set_flag f s) WLAN_STA_AUTH"
  by (simp add: has_flag_set)

lemma auth_fields [simp]:
  "has_flag (s\<lparr>qosinfo := a\<rparr>) g = has_flag s g" "has_flag (s\<lparr>supported_rates := b\<rparr>) g = has_flag s g"
  "has_flag (s\<lparr>capability := c, listen_interval := d\<rparr>) g = has_flag s g" "has_flag (s\<lparr>aid := n\<rparr>) g = has_flag s g"
  "has_flag (s\<lparr>nonerp_set := q\<rparr>) g = has_flag s g" "has_flag (s\<lparr>no_short_slot_time_set := q\<rparr>) g = has_flag s g"
  "has_flag (s\<lparr>no_short_preamble_set := q\<rparr>) g = has_flag s g"
  "has_flag (s\<lparr>last_seq_ctrl := c, last_subtype := n\<rparr>) g = has_flag s g"
  by (simp_all add: has_flag_def)

lemma check_assoc_ies_auth:
  "has_flag s WLAN_STA_AUTH \<Longrightarrow> has_flag (snd (snd (check_assoc_ies e cf re ies h s))) WLAN_STA_AUTH"
proof -
  assume a: "has_flag s WLAN_STA_AUTH"
  then have w: "has_flag (snd (check_wmm cf ie s)) WLAN_STA_AUTH" for ie
    by (auto simp: check_wmm_def Let_def split: option.splits)
  then have c: "has_flag (snd (copy_supp_rates el (snd (check_wmm cf ie s)))) WLAN_STA_AUTH" for el ie
    by (simp add: copy_supp_rates_def)
  then show ?thesis
    using a w c by (simp add: check_assoc_ies_def Let_def case_prod_beta check_wpa_def split: option.splits)
qed

lemma count_auth:
  "has_flag (snd (snd (count_nonerp r))) WLAN_STA_AUTH = has_flag (snd (snd r)) WLAN_STA_AUTH"
  "has_flag (snd (snd (count_slot_time r))) WLAN_STA_AUTH = has_flag (snd (snd r)) WLAN_STA_AUTH"
  by (simp_all add: count_nonerp_def count_slot_time_def case_prod_beta Let_def)

lemma accept_auth: "has_flag s WLAN_STA_AUTH \<Longrightarrow> has_flag (snd (snd (assoc_accept c a b h s))) WLAN_STA_AUTH"
proof -
  assume a: "has_flag s WLAN_STA_AUTH"
  define r where "r = count_slot_time (count_nonerp (c, h, set_nonerp c (s\<lparr>capability := a, listen_interval := b\<rparr>)))"
  have "has_flag (snd (snd r)) WLAN_STA_AUTH"
    using a by (simp add: r_def count_auth set_nonerp_def Let_def)
  then have "has_flag (snd (snd (count_preamble r))) WLAN_STA_AUTH"
    by (simp add: count_preamble_def case_prod_beta Let_def)
  then show ?thesis
    by (simp add: assoc_accept_def Let_def case_prod_beta flip: r_def)
qed

text \<open>There is an identifier for every station that the table has room for.\<close>

lemma aid_available:
  assumes "bss_ok h" "aid_of h m = Some 0" "card (sta_keys h) \<le> 2007"
  shows "new_aid (sta_aid h) \<noteq> None"
proof
  assume n: "new_aid (sta_aid h) = None"
  have c: "aids.consistent (sta_aid h) (aid_of h)" and i: "sta_inv h"
    using assms(1) bss_ok_inv by (auto simp: bss_ok_def)
  have k: "dom (stas h) = sta_keys h" "set (sta_list h) = sta_keys h"
    using i by (simp_all add: sta_inv_def)
  have "dom (aid_of h) = dom (stas h)"
    by (auto simp: aid_of_def view_def dom_def)
  with k have d: "dom (aid_of h) = sta_keys h" "finite (sta_keys h)"
    using finite_set[of "sta_list h"] by simp_all
  have "{1..2007} \<subseteq> aid_set (sta_aid h)"
    using aids.get_None[OF _ n] c by (simp add: aids.consistent_def)
  also have "\<dots> = ran (aid_of h) - {0}"
    using c by (simp add: aids.consistent_def)
  also have "\<dots> \<subseteq> (\<lambda>k. the (aid_of h k)) ` (sta_keys h - {m})"
  proof
    fix a
    assume "a \<in> ran (aid_of h) - {0}"
    then obtain k where "aid_of h k = Some a" "a \<noteq> 0"
      by (auto simp: ran_def)
    then show "a \<in> (\<lambda>k. the (aid_of h k)) ` (sta_keys h - {m})"
      using assms(2) d(1) by (intro image_eqI[of _ _ k]) auto
  qed
  finally have "card {1..2007 :: nat} \<le> card ((\<lambda>k. the (aid_of h k)) ` (sta_keys h - {m}))"
    using d(2) by (intro card_mono) simp_all
  also have "\<dots> \<le> card (sta_keys h - {m})"
    using d(2) by (intro card_image_le) simp
  also have "\<dots> < card (sta_keys h)"
    using d assms(2) by (intro psubset_card_mono) (auto simp: dom_def)
  finally show False
    using assms(3) by simp
qed

lemma aid_of_station: "stas h m = Some s \<Longrightarrow> aid_of h m = Some (aid s)"
  by (simp add: aid_of_def view_def marks_def)

lemma assoc_result_good:
  assumes "bss_ok h" "stas h m = Some s0" "aid s = aid s0" "sta_addr s = m" "has_flag s WLAN_STA_AUTH"
    and "card (sta_keys h) \<le> 2007" "willing e" "conf_wpa cf = 0" "good_request cf h (le16_at b 26) (drop 28 b)"
  shows "\<exists>c' h' s'. assoc_result e cf False b c h s = (WLAN_STATUS_SUCCESS, c', h', s') \<and>
    has_flag s' WLAN_STA_AUTH \<and> 0 < aid s'"
proof -
  obtain r1 h1 s1 where k: "check_assoc_ies e cf False (drop 28 b) h s = (r1, h1, s1)"
    by (rule prod_cases3)
  have r1: "r1 = WLAN_STATUS_SUCCESS" "has_flag s1 WLAN_STA_AUTH"
    using check_assoc_ies_good[OF assms(9,8), of e False s] check_assoc_ies_auth[OF assms(5), of e cf False "drop 28 b" h] k
    by simp_all
  have t: "aid s1 = aid s0" "sta_aid h1 = sta_aid h"
    using check_assoc_ies_tame[OF k] assms(3) by (auto simp: tame_def marks_def)
  obtain h2 s2 where g: "hostapd_get_aid h1 s1 = Some (h2, s2)" "has_flag s2 WLAN_STA_AUTH" "0 < aid s2"
  proof (cases "aid s0 = 0")
    case True
    then obtain a ws where n: "new_aid (sta_aid h) = Some (a, ws)"
      using aid_available[OF assms(1) _ assms(6), of m] aid_of_station[OF assms(2)] by auto
    then have "0 < a"
      using aids.get_Some[OF _ n] assms(1) by (simp add: bss_ok_def aids.consistent_def)
    then show ?thesis
      using that[of "h1\<lparr>sta_aid := ws\<rparr>" "s1\<lparr>aid := a\<rparr>"] n t True r1(2) by (simp add: hostapd_get_aid_def)
  next
    case False
    then show ?thesis
      using that[of h1 s1] t r1(2) by (simp add: hostapd_get_aid_def)
  qed
  obtain c3 h3 s3 where a: "assoc_accept c (le16_at b 24) (le16_at b 26) h2 s2 = (c3, h3, s3)"
    by (rule prod_cases3)
  have "has_flag s3 WLAN_STA_AUTH" "aid s3 = aid s2"
    using accept_auth[OF g(2), of c "le16_at b 24" "le16_at b 26" h2] counted_accept[of c h2 s2 "le16_at b 24" "le16_at b 26"] a
    by (simp_all add: counted_def)
  moreover have "\<not> max_listen_interval cf < le16_at b 26"
    using assms(9) by (simp add: good_request_def not_less)
  ultimately show ?thesis
    using k r1(1) g a assms(7) by (simp add: assoc_result_def willing_def)
qed

lemma open_association:
  assumes "iface_ok st" "find_bss 0 own (bsses st) = Some i" "own \<noteq> bcast" "mac_ok own" "mac_ok m"
    and "open_bss (conf x i)" "willing (env x)" "m \<in> authenticated (bsses st ! i)" "card (sta_keys (bsses st ! i)) \<le> 2007"
    and "good_request (conf x i) (bsses st ! i) interval ies"
  shows "\<exists>st' f s. iface_step (Receive x (assoc_request own m capab interval ies) None) st = Inr st' \<and> iface_ok st' \<and>
    find_bss 0 own (bsses st') = Some i \<and> grants f \<and> addr1 f = m \<and>
    handle_assoc (env x) (conf x i) False (assoc_request own m capab interval ies) i st = Inr st' \<and>
    (\<exists>es. hevents (bsses st' ! i) = hevents (bsses st ! i) @ es @ [SendMlme f]) \<and>
    WLAN_FC_GET_STYPE (le16_at f 0) = WLAN_FC_STYPE_ASSOC_RESP \<and> get_hdr_bssid f = Inr (Some own) \<and>
    stas (bsses st' ! i) m = Some s \<and> has_flag s WLAN_STA_AUTH \<and> 0 < aid s \<and>
    map bss_name (bsses st') = map bss_name (bsses st)"
proof -
  let ?h = "bsses st ! i" and ?b = "assoc_request own m capab interval ies" and ?e = "env x" and ?cf = "conf x i"
  note f = assoc_request_fields[OF assms(4,5), of capab interval ies]
  have len: "i < length (bsses st)" and own: "own_addr ?h = own"
    using find_bss_less[OF assms(2)] find_bss_own[OF assms(2)] by auto
  have ok: "bss_ok ?h" "sta_inv ?h"
    using iface_ok_bss[OF assms(1) len] bss_ok_inv by blast+
  obtain s where s: "stas ?h m = Some s" "has_flag s WLAN_STA_AUTH"
    using assms(8) by (auto simp: authenticated_def)
  note m = station_of[OF ok(2) s(1)]
  let ?s = "s\<lparr>last_seq_ctrl := le16_at ?b 22, last_subtype := WLAN_FC_STYPE_ASSOC_REQ\<rparr>"
  have "\<exists>c' h' s'. assoc_result ?e ?cf False ?b (counters st) ?h ?s = (WLAN_STATUS_SUCCESS, c', h', s') \<and>
      has_flag s' WLAN_STA_AUTH \<and> 0 < aid s'"
    by (rule assoc_result_good[OF ok(1) s(1)]) (use m s assms(6,7,9,10) f in \<open>simp_all add: open_bss_def\<close>)
  then obtain c' h' s' where r: "assoc_result ?e ?cf False ?b (counters st) ?h ?s = (WLAN_STATUS_SUCCESS, c', h', s')"
    "has_flag s' WLAN_STA_AUTH" "0 < aid s'"
    by blast
  obtain ws es where ch1: "h' = ?h\<lparr>sta_aid := ws, hevents := hevents ?h @ es\<rparr>" "sta_addr s' = sta_addr ?s"
    by (rule assoc_result_changes[OF r(1)], erule that, assumption)
  then have ch: "h' = ?h\<lparr>sta_aid := ws, hevents := hevents ?h @ es\<rparr>" "sta_addr s' = m"
    using m(1) by simp_all
  define fr where "fr = assoc_resp_frame ?e ?cf c' own s' WLAN_STATUS_SUCCESS False"
  define st' where "st' = set_bss i (emit (SendMlme fr) (put_sta s' h')) (st\<lparr>counters := c'\<rparr>)"
  have nr: "\<not> assoc_repeated ?b False s"
    using f(4) by (simp add: assoc_repeated_def repeated_def WLAN_FC_STYPE_ASSOC_REQ_def)
  have "handle_assoc ?e ?cf False ?b i st = Inr st'"
    using f(1,6) s m ap_get_sta_eq[OF ok(2), of m] nr r(1) own ch
    by (simp add: handle_assoc_def with_sta_def Let_def st'_def fr_def send_assoc_resp_def)
  moreover have "good st st'"
    using handle_assoc_ok[OF assms(1) len, of ?e ?cf False ?b] calculation by auto
  moreover have "iface_step (Receive x ?b None) st = Inr st'"
    using receive_one[OF assms(2,3) f(9)] f assms(3) own calculation(1) by (simp add: ieee802_11_mgmt_def Let_def stype_defs)
  moreover have b: "bsses st' = (bsses st)[i := emit (SendMlme fr) (put_sta s' h')]"
    by (simp add: st'_def set_bss_def)
  moreover have n: "map bss_name (bsses st') = map bss_name (bsses st)"
    unfolding b by (rule names_update[OF len]) (simp add: ch(1) bss_name_def)
  moreover have "find_bss 0 own (bsses st') = Some i"
    using find_bss_map[OF n] assms(2) by simp
  moreover have mo: "mac_ok (sta_addr s')"
    using ch(2) assms(5) by simp
  note g = assoc_resp_fields[OF assms(4) mo, of ?e ?cf c' WLAN_STATUS_SUCCESS False, folded fr_def]
  moreover have "hevents (bsses st' ! i) = hevents ?h @ es @ [SendMlme fr]"
    using len by (simp add: b ch(1) emit_def put_sta_def)
  ultimately show ?thesis
    using g ch(2) r(2,3) len by (intro exI[of _ st'] exI[of _ fr] exI[of _ s']) (simp add: good_def)
qed

lemma assoc_flags [simp]:
  "has_flag (set_flag WLAN_STA_ASSOC s) WLAN_STA_ASSOC" "has_flag (set_flag WLAN_STA_AUTHORIZED s) WLAN_STA_AUTHORIZED"
  "has_flag s WLAN_STA_ASSOC \<Longrightarrow> has_flag (set_flag f s) WLAN_STA_ASSOC"
  by (simp_all add: has_flag_set) (simp_all add: WLAN_STA_ASSOC_def WLAN_STA_AUTHORIZED_def)

lemma authorize [simp]:
  "has_flag (snd (ap_sta_set_authorized h s True)) WLAN_STA_AUTHORIZED"
  "has_flag s WLAN_STA_ASSOC \<Longrightarrow> has_flag (snd (ap_sta_set_authorized h s True)) WLAN_STA_ASSOC"
  "has_flag s WLAN_STA_AUTH \<Longrightarrow> has_flag (snd (ap_sta_set_authorized h s True)) WLAN_STA_AUTH"
  "aid (snd (ap_sta_set_authorized h s True)) = aid s"
  by (simp_all add: ap_sta_set_authorized_def) (simp add: set_flag_def)

text \<open>A station of an open BSS once its association is confirmed.\<close>

definition is_member :: "mac \<Rightarrow> nat \<Rightarrow> hostapd_data \<Rightarrow> bool" where
  "is_member m a h \<longleftrightarrow> (\<exists>s. stas h m = Some s \<and> aid s = a \<and> has_flag s WLAN_STA_ASSOC \<and> has_flag s WLAN_STA_AUTHORIZED) \<and>
     MlmeAssoc m \<in> set (hevents h) \<and> DrvStaAdd m a \<in> set (hevents h) \<and> PortEnabled m True \<in> set (hevents h)"

lemma confirm_open:
  assumes "stas h m = Some s" "sta_addr s = m" "open_bss cf" "confirm_station cf False h s = (h', s')"
  shows "stas h' m = Some s'" "has_flag s' WLAN_STA_ASSOC" "has_flag s' WLAN_STA_AUTHORIZED" "aid s' = aid s"
    "has_flag s WLAN_STA_AUTH \<Longrightarrow> has_flag s' WLAN_STA_AUTH"
    "MlmeAssoc m \<in> set (hevents h')" "DrvStaAdd m (aid s) \<in> set (hevents h')" "bss_name h' = bss_name h"
proof -
  let ?s1 = "clear_flag WLAN_STA_WNM_SLEEP_MODE (set_flag WLAN_STA_ASSOC s)"
  define r where "r = ap_sta_set_authorized (emit (AccountingStop m) h) ?s1 True"
  have r: "sta_addr (snd r) = m" "aid (snd r) = aid s" "aid ?s1 = aid s"
    using assms(2) by (simp_all add: r_def clear_flag_def set_flag_def)
  have h': "h' = emit (DrvStaAdd m (aid s)) (emit (DrvStaRemove m) (emit (MlmeAssoc m) (put_sta (snd r) (fst r))))"
    "s' = snd r"
    using assms(2-4) r by (auto simp: confirm_station_def Let_def case_prod_beta open_bss_def simp flip: r_def)
  show "bss_name h' = bss_name h"
    by (simp add: h'(1) bss_name_def r_def ap_sta_set_authorized_def)
  show "stas h' m = Some s'" "aid s' = aid s" "MlmeAssoc m \<in> set (hevents h')" "DrvStaAdd m (aid s) \<in> set (hevents h')"
    using r by (simp_all add: h')
  show "has_flag s' WLAN_STA_ASSOC" "has_flag s' WLAN_STA_AUTHORIZED" "has_flag s WLAN_STA_AUTH \<Longrightarrow> has_flag s' WLAN_STA_AUTH"
    by (simp_all add: h'(2) r_def)
qed

lemma confirmed:
  assumes "iface_ok st" "find_bss 0 own (bsses st) = Some i" "own \<noteq> bcast" "open_bss (conf x i)" "willing (env x)"
    and "grants f" "addr1 f = m" "WLAN_FC_GET_STYPE (le16_at f 0) = WLAN_FC_STYPE_ASSOC_RESP"
    and "get_hdr_bssid f = Inr (Some own)" "stas (bsses st ! i) m = Some s"
  shows "\<exists>st' s'. iface_step (Sent x f True) st = Inr st' \<and> is_member m (aid s) (bsses st' ! i) \<and>
    stas (bsses st' ! i) m = Some s' \<and> (has_flag s WLAN_STA_AUTH \<longrightarrow> has_flag s' WLAN_STA_AUTH) \<and>
    (has_flag s' WLAN_STA_AUTH \<longrightarrow> has_flag s WLAN_STA_AUTH) \<and> map bss_name (bsses st') = map bss_name (bsses st)"
proof -
  let ?h = "bsses st ! i" and ?e = "env x" and ?cf = "conf x i"
  have len: "i < length (bsses st)"
    using find_bss_less[OF assms(2)] by simp
  have ok: "sta_inv ?h"
    using iface_ok_bss[OF assms(1) len] bss_ok_inv by blast
  note m = station_of[OF ok assms(10)]
  obtain h1 s1 where c: "confirm_station ?cf False ?h s = (h1, s1)"
    by fastforce
  note o = confirm_open[OF assms(10) m(1) assms(4) c]
  define h2 where "h2 = emit (PortEnabled m True) (emit (NewAssocSta m (has_flag s WLAN_STA_ASSOC))
    (emit (WpaAssoc m) (emit (SetStaFlags m) (emit_if (has_flag s1 WLAN_STA_WDS) (SetWdsSta m) h1))))"
  have "handle_assoc_cb ?e ?cf (counters st) False f True ?h = Inr h2"
    using assms(5-7,10) m(2) ap_get_sta_eq[OF ok, of m] c
    by (simp add: handle_assoc_cb_def with_sta_def grants_def willing_def h2_def)
  then have r: "iface_step (Sent x f True) st = Inr (set_bss i h2 st)"
    using assms(2,3,8,9) by (simp add: hostapd_mgmt_tx_cb_def get_hapd_bssid_def ieee802_11_mgmt_cb_def stype_defs)
  have b: "bsses (set_bss i h2 st) ! i = h2"
    using len by (simp add: set_bss_def)
  have h2: "stas h2 m = Some s1" "is_member m (aid s) h2"
    using o by (simp_all add: h2_def is_member_def)
  have n: "map bss_name (bsses (set_bss i h2 st)) = map bss_name (bsses st)"
    unfolding set_bss_def using names_update[OF len, of h2] o(8) by (simp add: h2_def bss_name_def)
  have "has_flag s1 WLAN_STA_AUTH \<Longrightarrow> has_flag s WLAN_STA_AUTH"
  proof -
    assume "has_flag s1 WLAN_STA_AUTH"
    moreover have "WLAN_STA_AUTHORIZED AND WLAN_STA_AUTH = 0" "WLAN_STA_ASSOC AND WLAN_STA_AUTH = 0"
      by (simp_all add: WLAN_STA_AUTHORIZED_def WLAN_STA_AUTH_def WLAN_STA_ASSOC_def)
    ultimately show ?thesis
      using c assms(4) by (auto simp: confirm_station_def Let_def case_prod_beta open_bss_def ap_sta_set_authorized_def
          has_flag_set_other split: if_splits)
  qed
  then show ?thesis
    using r b h2 o(5) n by (intro exI[of _ "set_bss i h2 st"] exI[of _ s1]) simp
qed

text \<open>The three steps of an open handshake, from any sound state in which the station is unknown and there is room.\<close>

lemma was_sent_own:
  assumes "find_bss 0 own (bsses st) = Some i" "own \<noteq> bcast" "get_hdr_bssid f = Inr (Some own)"
    and "SendMlme f \<in> set (hevents (bsses st ! i))"
  shows "was_sent f st"
  using assms by (simp add: was_sent_def get_hapd_bssid_def)

lemma open_handshake:
  assumes "iface_run st0 st" "iface_ok st" "find_bss 0 own (bsses st) = Some i" "own \<noteq> bcast" "mac_ok own" "mac_ok m"
    and "m \<noteq> own" "open_bss (conf x i)" "willing (env x)" "m \<notin> sta_keys (bsses st ! i)"
    and "num_sta (bsses st ! i) < max_num_sta (bsses st ! i)" "max_num_sta (bsses st ! i) \<le> 2007"
    and "good_request (conf x i) (bsses st ! i) interval ies"
  obtains st1 st2 st3 f a where "iface_step (Receive x (auth_request own m) None) st = Inr st1"
    "m \<in> authenticated (bsses st1 ! i)"
    "iface_step (Receive x (assoc_request own m capab interval ies) None) st1 = Inr st2"
    "SendMlme f \<in> set (hevents (bsses st2 ! i))" "grants f" "addr1 f = m" "iface_step (Sent x f True) st2 = Inr st3"
    "is_member m a (bsses st3 ! i)" "0 < a" "m \<in> authenticated (bsses st3 ! i)" "iface_run st0 st3" "i < length (bsses st3)"
    "map bss_name (bsses st3) = map bss_name (bsses st)"
proof -
  have w: "\<not> driver_times (env x)"
    using assms(9) by (simp add: willing_def)
  obtain st1 where 1: "iface_step (Receive x (auth_request own m) None) st = Inr st1" "iface_ok st1"
    "m \<in> authenticated (bsses st1 ! i)" "find_bss 0 own (bsses st1) = Some i"
    "map bss_name (bsses st1) = map bss_name (bsses st)"
    "card (sta_keys (bsses st1 ! i)) \<le> nat (max_num_sta (bsses st ! i))"
    using open_authentication[OF assms(2-11)] by blast
  have n: "card (sta_keys (bsses st1 ! i)) \<le> 2007" "good_request (conf x i) (bsses st1 ! i) interval ies"
    using 1(6) assms(12,13) names_ssid[OF 1(5)] find_bss_less[OF 1(4)] by (simp_all add: good_request_def)
  obtain st2 f s es where 2: "iface_step (Receive x (assoc_request own m capab interval ies) None) st1 = Inr st2" "iface_ok st2"
    "find_bss 0 own (bsses st2) = Some i" "hevents (bsses st2 ! i) = hevents (bsses st1 ! i) @ es @ [SendMlme f]"
    "grants f" "addr1 f = m" "WLAN_FC_GET_STYPE (le16_at f 0) = WLAN_FC_STYPE_ASSOC_RESP" "get_hdr_bssid f = Inr (Some own)"
    "stas (bsses st2 ! i) m = Some s" "has_flag s WLAN_STA_AUTH" "0 < aid s" "map bss_name (bsses st2) = map bss_name (bsses st1)"
    using open_association[OF 1(2,4) assms(4,5,6,8,9) 1(3) n, of capab] by blast
  have e: "SendMlme f \<in> set (hevents (bsses st2 ! i))"
    by (simp add: 2(4))
  obtain st3 s' where 3: "iface_step (Sent x f True) st2 = Inr st3" "is_member m (aid s) (bsses st3 ! i)"
    "stas (bsses st3 ! i) m = Some s'" "has_flag s' WLAN_STA_AUTH" "map bss_name (bsses st3) = map bss_name (bsses st2)"
    using confirmed[OF 2(2,3) assms(4,8,9) 2(5,6,7,8,9)] 2(10) by blast
  have c: "can_happen (Receive x (auth_request own m) None) st" "can_happen (Sent x f True) st2"
    "can_happen (Receive x (assoc_request own m capab interval ies) None) st1"
    using w auth_request_fields(1)[OF assms(5,6)] assoc_request_fields(1)[OF assms(5,6), of capab interval ies] 2(5)
      was_sent_own[OF 2(3) assms(4) 2(8) e] by (simp_all add: grants_def)
  then have "iface_run st0 st3"
    using assms(1) 1(1) 2(1) 3(1) by (meson iface_next)
  moreover have "good st2 st3"
    using iface_step_ok[OF 2(2) _ c(2)] find_bss_less[OF 2(3)] 3(1) by force
  then have "i < length (bsses st3)"
    using find_bss_less[OF 2(3)] by (simp add: good_def)
  moreover have "m \<in> authenticated (bsses st3 ! i)"
    using 3(3,4) by (simp add: authenticated_def)
  ultimately show thesis
    using 1(5) 2(12) 3(5) by (intro that[OF 1(1,3) 2(1) e 2(5,6) 3(1,2) 2(11)]) simp_all
qed

end
