(* ===== verification/MgmtClaims.thy ===== *)
theory MgmtClaims
  imports MgmtProps
begin

unbundle bit_operations_syntax

text \<open>
  What holds over every life of an interface, with the witnesses: that an open handshake succeeds,
  that identifiers are unique and counters exact, when an association is granted and confirmed, and
  where the code treats a repeated request or a late acknowledgement wrongly.
\<close>

section \<open>Facts of the invariant about stations\<close>

lemma run_bss_ok: "fresh st \<Longrightarrow> iface_run st st' \<Longrightarrow> i < length (bsses st') \<Longrightarrow> bss_ok (bsses st' ! i)"
  by (intro iface_ok_bss run_ok)

lemma run_sta_inv: "fresh st \<Longrightarrow> iface_run st st' \<Longrightarrow> i < length (bsses st') \<Longrightarrow> sta_inv (bsses st' ! i)"
  by (intro bss_ok_inv run_bss_ok)

lemma bss_ok_aids: "bss_ok h \<Longrightarrow> aids.consistent (sta_aid h) (aid_of h)"
  by (simp add: bss_ok_def)

lemma aid_range: "bss_ok h \<Longrightarrow> stas h m = Some s \<Longrightarrow> aid s \<le> 2007"
  using aids.consistent_in_range[OF bss_ok_aids aid_of_station] .

text \<open>The number of stations of a BSS with a mark.\<close>

definition stations_with :: "(sta_info \<Rightarrow> bool) \<Rightarrow> hostapd_data \<Rightarrow> int" where
  "stations_with P h = int (length (filter (\<lambda>m. \<exists>s. stas h m = Some s \<and> P s) (sta_list h)))"

lemma marked_stations:
  assumes "sta_inv h"
  shows "marked P (view h) = stations_with (\<lambda>s. P (snd (marks s))) h"
proof -
  have d: "dom (stas h) = set (sta_list h)" "distinct (sta_list h)"
    using assms by (simp_all add: sta_inv_def)
  have "{m. \<exists>a ms. view h m = Some (a, ms) \<and> P ms} = {m. \<exists>s. stas h m = Some s \<and> P (snd (marks s))}"
    by (auto simp: view_def) (metis prod.collapse)+
  also have "\<dots> = set (filter (\<lambda>m. \<exists>s. stas h m = Some s \<and> P (snd (marks s))) (sta_list h))"
    using d(1) by auto
  finally show ?thesis
    unfolding marked_def stations_with_def using distinct_card[OF distinct_filter[OF d(2)]] by simp
qed

lemma total_stations:
  assumes "\<forall>h \<in> set bs. bss_ok h"
  shows "total P bs = (\<Sum>h\<leftarrow>bs. stations_with (\<lambda>s. P (snd (marks s))) h)"
  using assms marked_stations[OF bss_ok_inv(2)] unfolding total_def by (intro arg_cong[of _ _ sum_list] map_cong) auto

section \<open>What a granting response presupposes\<close>

definition acceptable :: "mgmt_env \<Rightarrow> mgmt_conf \<Rightarrow> bool \<Rightarrow> u8 list \<Rightarrow> hostapd_data \<Rightarrow> bool" where
  "acceptable e cf re b h \<longleftrightarrow> \<not> tkip_countermeasures e \<and> \<not> ubus_refuses e \<and> le16_at b 26 \<le> max_listen_interval cf \<and>
     (let (p, el) = ieee802_11_parse_elems (drop (if re then 34 else 28) b)
      in p \<noteq> ParseFailed \<and> el F_ssid = Some (ssid_bytes (conf_ssid h)) \<and>
         el F_supp_rates \<noteq> None \<and> ie_len (el F_supp_rates) + ie_len (el F_ext_supp_rates) \<le> 32 \<and>
         (wmm_enabled cf \<longrightarrow> (case el F_wmm of None \<Rightarrow> True | Some w \<Rightarrow> hostapd_eid_wmm_valid w)) \<and>
         (conf_wpa cf \<noteq> 0 \<longrightarrow> (\<exists>ie s. assoc_wpa_ie cf el = Some ie \<and> fst (wpa_check e re s ie) = WLAN_STATUS_SUCCESS)))"

lemmas status_defs = WLAN_STATUS_SUCCESS_def WLAN_STATUS_UNSPECIFIED_FAILURE_def WLAN_STATUS_INVALID_IE_def
  WLAN_STATUS_AP_UNABLE_TO_HANDLE_NEW_STA_def WLAN_STATUS_ASSOC_DENIED_LISTEN_INT_TOO_LARGE_def WLAN_REASON_MICHAEL_MIC_FAILURE_def

lemma check_success:
  "check_ssid h ie = WLAN_STATUS_SUCCESS \<Longrightarrow> ie = Some (ssid_bytes (conf_ssid h))"
  "fst (check_wmm cf w s) = WLAN_STATUS_SUCCESS \<Longrightarrow> wmm_enabled cf \<Longrightarrow> case w of None \<Rightarrow> True | Some i \<Rightarrow> hostapd_eid_wmm_valid i"
  "fst (copy_supp_rates el s) = WLAN_STATUS_SUCCESS \<Longrightarrow>
     el F_supp_rates \<noteq> None \<and> ie_len (el F_supp_rates) + ie_len (el F_ext_supp_rates) \<le> 32"
  "fst (check_wpa e cf re el h s) = WLAN_STATUS_SUCCESS \<Longrightarrow> conf_wpa cf \<noteq> 0 \<Longrightarrow>
     \<exists>ie s. assoc_wpa_ie cf el = Some ie \<and> fst (wpa_check e re s ie) = WLAN_STATUS_SUCCESS"
  by (auto simp: check_ssid_def check_wmm_def copy_supp_rates_def check_wpa_def status_defs case_prod_beta Let_def
      split: option.splits if_splits)

lemma check_assoc_ies_success:
  assumes "fst (check_assoc_ies e cf re ies h s) = WLAN_STATUS_SUCCESS" "ieee802_11_parse_elems ies = (p, el)"
  shows "p \<noteq> ParseFailed" "check_ssid h (el F_ssid) = WLAN_STATUS_SUCCESS"
    "fst (check_wmm cf (el F_wmm) s) = WLAN_STATUS_SUCCESS"
    "fst (copy_supp_rates el (snd (check_wmm cf (el F_wmm) s))) = WLAN_STATUS_SUCCESS"
    "\<exists>s'. fst (check_wpa e cf re el h s') = WLAN_STATUS_SUCCESS"
  using assms by (auto simp: check_assoc_ies_def Let_def case_prod_beta WLAN_STATUS_UNSPECIFIED_FAILURE_def
      WLAN_STATUS_SUCCESS_def split: if_splits)

lemma assoc_result_success:
  assumes "assoc_result e cf re b c h s = (WLAN_STATUS_SUCCESS, c', h', s')"
  shows "acceptable e cf re b h" "0 < aid s'"
proof -
  let ?k = "check_assoc_ies e cf re (drop (if re then 34 else 28) b) h s"
  obtain p el where p: "ieee802_11_parse_elems (drop (if re then 34 else 28) b) = (p, el)"
    by fastforce
  have k: "fst ?k = WLAN_STATUS_SUCCESS" and e: "\<not> tkip_countermeasures e" "\<not> ubus_refuses e" "le16_at b 26 \<le> max_listen_interval cf"
    using assms by (auto simp: assoc_result_def Let_def case_prod_beta status_defs not_less split: if_splits option.splits)
  note r = check_assoc_ies_success[OF k p]
  show "acceptable e cf re b h"
    using e r(1) check_success(1)[OF r(2)] check_success(2)[OF r(3)] check_success(3)[OF r(4)] check_success(4) r(5)
    by (auto simp: acceptable_def p)
  obtain h1 s1 where g: "hostapd_get_aid (fst (snd ?k)) (snd (snd ?k)) = Some (h1, s1)"
    "snd (snd (assoc_accept c (le16_at b 24) (le16_at b 26) h1 s1)) = s'"
    using assms by (auto simp: assoc_result_def Let_def case_prod_beta status_defs split: if_splits option.splits)
  have "0 < aid s1"
    using g(1) by (auto simp: hostapd_get_aid_def new_aid_def split: if_splits option.splits)
  then show "0 < aid s'"
    using g(2) counted_accept[of c h1 s1 "le16_at b 24" "le16_at b 26"] by (auto simp: counted_def split: prod.splits)
qed

text \<open>A step of \<^verbatim>\<open>handle_assoc\<close> that answers, split into the refusal and the response.\<close>

lemma handle_assoc_cases:
  assumes "sta_inv (bsses st ! i)" "i < length (bsses st)" "handle_assoc e cf re b i st = Inr st'"
  obtains "st' = st"
  | "st' = on_bss i st (send_deauth (addr2 b) WLAN_REASON_CLASS2_FRAME_FROM_NONAUTH_STA)" "28 \<le> length b"
  | s s1 c' h' s' resp where "stas (bsses st ! i) (addr2 b) = Some s" "has_flag s WLAN_STA_AUTH" "sta_addr s = addr2 b"
    "sta_addr s1 = addr2 b" "assoc_result e cf re b (counters st) (bsses st ! i) s1 = (resp, c', h', s')"
    "st' = set_bss i (send_assoc_resp e cf c' s' resp re (put_sta s' h')) (st\<lparr>counters := c'\<rparr>)" "28 \<le> length b"
proof (cases "addr2 b \<in> sta_keys (bsses st ! i)")
  case True
  then obtain s where s: "stas (bsses st ! i) (addr2 b) = Some s" "sta_addr s = addr2 b"
    using sta_lookup[OF assms(1)] by blast
  let ?s = "s\<lparr>last_seq_ctrl := le16_at b 22,
      last_subtype := (if re then WLAN_FC_STYPE_REASSOC_REQ else WLAN_FC_STYPE_ASSOC_REQ)\<rparr>"
  obtain resp c' h' s' where r: "assoc_result e cf re b (counters st) (bsses st ! i) ?s = (resp, c', h', s')"
    using prod_cases4 by blast
  have "sta_addr ?s = addr2 b"
    using s(2) by simp
  note answer = that(3)[OF s(1) _ s(2) this r]
  show thesis
    using assms(3) s r that(1,2) answer
    by (auto simp: handle_assoc_def Let_def with_sta_def ap_get_sta_eq[OF assms(1)] True split: if_splits)
next
  case False
  then show thesis
    using assms(3) that(1,2) by (auto simp: handle_assoc_def Let_def ap_get_sta_eq[OF assms(1)] split: if_splits)
qed

lemma addr2_ok: "16 \<le> length b \<Longrightarrow> mac_ok (addr2 b)"
  by (simp add: addr2_def mac_ok_def)

lemma deauth_no_grant:
  assumes "mac_ok da" "mac_ok sa"
  shows "\<not> grants (mgmt_header WLAN_FC_STYPE_DEAUTH da sa sa @ ys)"
  using mgmt_header_fields(3)[OF assms assms(2), of WLAN_FC_STYPE_DEAUTH ys] by (simp add: grants_def stype_defs)

lemma resp_aid:
  assumes "mac_ok own" "mac_ok (sta_addr s)"
  shows "le16_at (assoc_resp_frame e cf c own s status re) 28 = of_nat (aid s) OR 0xC000"
proof -
  have k: "(if re then WLAN_FC_STYPE_REASSOC_RESP else WLAN_FC_STYPE_ASSOC_RESP) < 16"
    by (simp add: stype_defs)
  show ?thesis
    using body_field[OF assms(2,1,1) k, of "le16 (hostapd_own_capab_info e cf c True) @ le16 status"]
    by (simp add: assoc_resp_frame_def)
qed

section \<open>Witness interface\<close>

definition wit_conf :: mgmt_conf where
  "wit_conf = \<lparr>auth_algs = 1, wmm_enabled = False, max_listen_interval = 0xFFFF, conf_wpa = 0, ieee802_1x = False, osen = False,
     wds_sta = False, short_preamble_conf = False, wep_keys_set = False, wep_key_lens = False,
     security_policy = SECURITY_PLAINTEXT, wep_default_len = 0, mode_11a = False, spectrum_mgmt_required = False,
     radio_measurements = False, rates = \<lparr>current_rates = Some [(10, True), (60, False)], require_ht = False, require_vht = False\<rparr>\<rparr>"

definition wit_mgmt_env :: mgmt_env where
  "wit_mgmt_env = \<lparr>tkip_countermeasures = False, dfs_required = 0, acl = HOSTAPD_ACL_ACCEPT, vlan_refused = False,
     ubus_refuses = False, sta_alloc = True, driver_times = False, new_challenge = None,
     wpa_check = (\<lambda>_ _ _. (WLAN_STATUS_UNSPECIFIED_FAILURE, False)), resp_tail = (\<lambda>_. []), driver_adds = True,
     vlan_bound = True, public_cb = False, vendor_cb = False\<rparr>"

definition wit_mgmt_ctx :: mgmt_ctx where
  "wit_mgmt_ctx = \<lparr>env = wit_mgmt_env, conf = (\<lambda>_. wit_conf), probe_ctx = wit_env, controller = False, assigned = wit_dense\<rparr>"

definition wit_iface :: hostapd_iface where
  "wit_iface = \<lparr>bsses = [wit_bss0], counters = wit_counters, if_channel = 6, phy = ''phy0''\<rparr>"

definition wit_own :: mac where
  "wit_own = [2, 0, 0, 0, 0, 1]"

text \<open>The elements of a request: the SSID \<open>lab\<close> and two supported rates.\<close>

definition wit_ies :: "u8 list" where
  "wit_ies = [0, 3, 0x6c, 0x61, 0x62, 1, 2, 0x82, 0x0c]"

lemma wit_iface_fresh: "fresh wit_iface"
  by (simp add: fresh_def fresh_bss_def wit_iface_def wit_bss0_def wit_counters_def)

lemma wit_addrs: "mac_ok wit_own" "mac_ok wit_mac" "wit_mac \<noteq> wit_own" "wit_own \<noteq> bcast"
  by code_simp+

lemma wit_willing: "open_bss (conf wit_mgmt_ctx 0)" "willing (env wit_mgmt_ctx)"
  by (simp_all add: wit_mgmt_ctx_def open_bss_def willing_def wit_conf_def wit_mgmt_env_def)

lemma wit_room: "find_bss 0 wit_own (bsses wit_iface) = Some 0" "wit_mac \<notin> sta_keys (bsses wit_iface ! 0)"
  "num_sta (bsses wit_iface ! 0) < max_num_sta (bsses wit_iface ! 0)" "max_num_sta (bsses wit_iface ! 0) \<le> 2007"
  using sh.keys_empty by (simp_all add: wit_iface_def wit_bss0_def wit_own_def sta_keys_def)

lemma wit_good: "good_request (conf wit_mgmt_ctx 0) (bsses wit_iface ! 0) 10 wit_ies"
  by code_simp

lemmas wit_handshake = open_handshake[OF iface_start fresh_ok[OF wit_iface_fresh] wit_room(1) wit_addrs(4,1,2,3) wit_willing
    wit_room(2-4) wit_good]

lemma wit_member:
  obtains st s where "iface_run wit_iface st" "0 < length (bsses st)" "stas (bsses st ! 0) wit_mac = Some s" "0 < aid s"
    "has_flag s WLAN_STA_ASSOC"
  by (rule wit_handshake[where capab = "0x21"]) (auto simp: is_member_def)

section \<open>Associating\<close>

text \<open>
  C4: From every state that an interface can reach from its start, a station with an unknown address
  becomes a member of an open BSS that has room for it: its authentication request is accepted, its
  association request with the right SSID and rates is answered by a granting response, and when
  that is acknowledged the station is associated and authorized, told to the driver with its
  association identifier, and its port is open.
\<close>

theorem open_handshake_associates:
  assumes "fresh st0" "iface_run st0 st" "find_bss 0 own (bsses st) = Some i" "own \<noteq> bcast" "mac_ok own" "mac_ok m"
    and "m \<noteq> own" "open_bss (conf x i)" "willing (env x)" "m \<notin> sta_keys (bsses st ! i)"
    and "num_sta (bsses st ! i) < max_num_sta (bsses st ! i)" "max_num_sta (bsses st ! i) \<le> 2007"
    and "good_request (conf x i) (bsses st ! i) interval ies"
  shows "\<exists>st1 st2 st3 f a. iface_step (Receive x (auth_request own m) None) st = Inr st1 \<and>
    iface_step (Receive x (assoc_request own m capab interval ies) None) st1 = Inr st2 \<and>
    SendMlme f \<in> set (hevents (bsses st2 ! i)) \<and> grants f \<and> addr1 f = m \<and>
    iface_step (Sent x f True) st2 = Inr st3 \<and> 1 \<le> a \<and> a \<le> 2007 \<and> is_member m a (bsses st3 ! i) \<and>
    m \<in> authenticated (bsses st3 ! i) \<and> iface_run st0 st3"
proof -
  obtain st1 st2 st3 f a where h: "iface_step (Receive x (auth_request own m) None) st = Inr st1"
    "iface_step (Receive x (assoc_request own m capab interval ies) None) st1 = Inr st2"
    "SendMlme f \<in> set (hevents (bsses st2 ! i))" "grants f" "addr1 f = m" "iface_step (Sent x f True) st2 = Inr st3"
    "is_member m a (bsses st3 ! i)" "0 < a" "m \<in> authenticated (bsses st3 ! i)" "iface_run st0 st3" "i < length (bsses st3)"
    by (rule open_handshake[OF assms(2) run_ok(1)[OF assms(1,2)] assms(3-13)])
  have "a \<le> 2007"
    using aid_range[OF run_bss_ok[OF assms(1) h(10,11)]] h(7) by (auto simp: is_member_def)
  then show ?thesis
    using h by (intro exI[of _ st1] exI[of _ st2] exI[of _ st3] exI[of _ f] exI[of _ a]) simp
qed

theorem open_handshake_associates_witness:
  "\<exists>st1 st2 st3 f a. iface_step (Receive wit_mgmt_ctx (auth_request wit_own wit_mac) None) wit_iface = Inr st1 \<and>
    iface_step (Receive wit_mgmt_ctx (assoc_request wit_own wit_mac 0x21 10 wit_ies) None) st1 = Inr st2 \<and>
    SendMlme f \<in> set (hevents (bsses st2 ! 0)) \<and> grants f \<and> addr1 f = wit_mac \<and>
    iface_step (Sent wit_mgmt_ctx f True) st2 = Inr st3 \<and> 1 \<le> a \<and> a \<le> 2007 \<and> is_member wit_mac a (bsses st3 ! 0) \<and>
    wit_mac \<in> authenticated (bsses st3 ! 0) \<and> iface_run wit_iface st3"
  by (rule open_handshake_associates[OF wit_iface_fresh iface_start wit_room(1) wit_addrs(4,1,2,3) wit_willing wit_room(2-4) wit_good])

text \<open>
  C6: No two stations of a BSS ever hold the same association identifier, and identifiers stay
  within 1 to 2007, whatever frames, reports, timeouts and withdrawals the interface has seen.
\<close>

theorem association_ids_unique:
  assumes "fresh st0" "iface_run st0 st" "i < length (bsses st)"
    and "stas (bsses st ! i) m = Some s" "stas (bsses st ! i) m' = Some s'" "aid s = aid s'" "0 < aid s"
  shows "m = m' \<and> aid s \<le> 2007"
proof -
  note ok = run_bss_ok[OF assms(1-3)]
  have "m = m'"
    by (rule aids.consistent_unique[OF bss_ok_aids[OF ok] aid_of_station[OF assms(4)]])
      (use aid_of_station[OF assms(5)] assms(6,7) in simp_all)
  then show ?thesis
    using aid_range[OF ok assms(4)] by simp
qed

theorem association_ids_unique_witness:
  "\<exists>st s. iface_run wit_iface st \<and> stas (bsses st ! 0) wit_mac = Some s \<and> 0 < aid s \<and> aid s \<le> 2007"
proof (rule wit_member)
  fix st s
  assume "iface_run wit_iface st" "0 < length (bsses st)" "stas (bsses st ! 0) wit_mac = Some s" "0 < aid s"
  then show ?thesis
    using association_ids_unique[OF wit_iface_fresh, of st 0 wit_mac s wit_mac s] by blast
qed

text \<open>
  C8: A station is marked as associated only if its BSS has sent it an association or reassociation
  response with status 0.
\<close>

theorem associated_only_when_granted:
  assumes "fresh st0" "iface_run st0 st" "i < length (bsses st)" "stas (bsses st ! i) m = Some s" "has_flag s WLAN_STA_ASSOC"
  shows "\<exists>f. SendMlme f \<in> set (hevents (bsses st ! i)) \<and> grants f \<and> addr1 f = m"
  using run_bss_ok[OF assms(1-3)] assms(4,5) by (auto simp: bss_ok_def associated_def answered_def)

theorem associated_only_when_granted_witness:
  "\<exists>st f. iface_run wit_iface st \<and> SendMlme f \<in> set (hevents (bsses st ! 0)) \<and> grants f \<and> addr1 f = wit_mac"
proof (rule wit_member)
  fix st s
  assume "iface_run wit_iface st" "0 < length (bsses st)" "stas (bsses st ! 0) wit_mac = Some s" "has_flag s WLAN_STA_ASSOC"
  then show ?thesis
    using associated_only_when_granted[OF wit_iface_fresh, of st 0 wit_mac s] by blast
qed

text \<open>
  C14: The counters that switch ERP protection, long slots and long preambles on are exact: in every
  reachable state each is the number of stations of all BSSs that carry its mark, so it returns to 0
  when the last such station leaves.
\<close>

theorem protection_counters_exact:
  assumes "fresh st0" "iface_run st0 st"
  shows "num_sta_non_erp (counters st) = (\<Sum>h\<leftarrow>bsses st. stations_with nonerp_set h) \<and>
    num_sta_no_short_slot_time (counters st) = (\<Sum>h\<leftarrow>bsses st. stations_with no_short_slot_time_set h) \<and>
    num_sta_no_short_preamble (counters st) = (\<Sum>h\<leftarrow>bsses st. stations_with no_short_preamble_set h)"
proof -
  have ok: "\<forall>h \<in> set (bsses st). bss_ok h" "counts_ok (counters st) (bsses st)"
    using run_ok(1)[OF assms] by (simp_all add: iface_ok_def)
  show ?thesis
    using ok(2) total_stations[OF ok(1), of "\<lambda>(n, t, p). n"] total_stations[OF ok(1), of "\<lambda>(n, t, p). t"]
      total_stations[OF ok(1), of "\<lambda>(n, t, p). p"] by (simp add: counts_ok_def marks_def)
qed

theorem protection_counters_exact_witness:
  "\<exists>st s. iface_run wit_iface st \<and> stas (bsses st ! 0) wit_mac = Some s \<and>
    num_sta_non_erp (counters st) = (\<Sum>h\<leftarrow>bsses st. stations_with nonerp_set h)"
proof (rule wit_member)
  fix st s
  assume "iface_run wit_iface st" "stas (bsses st ! 0) wit_mac = Some s"
  then show ?thesis
    using protection_counters_exact[OF wit_iface_fresh, of st] by blast
qed



section \<open>When an association is granted\<close>

text \<open>
  C18: \<^verbatim>\<open>handle_assoc\<close> answers with a granting response only to the sender of the request, and only if
  that station is authenticated, the listen interval is within the limit, the elements parse with the
  SSID of the BSS and at most 32 rates, WMM and WPA elements are acceptable where they count, and no
  countermeasures are on. The response carries the identifier that the station's entry now has.
\<close>

theorem association_granted_only_if:
  assumes "fresh st0" "iface_run st0 st" "i < length (bsses st)" "mac_ok (own_addr (bsses st ! i))"
    and "handle_assoc e cf re b i st = Inr st'" "grants f"
    and "hevents (bsses st' ! i) = es @ [SendMlme f]" "length (hevents (bsses st ! i)) \<le> length es"
  shows "addr1 f = addr2 b \<and> addr2 b \<in> authenticated (bsses st ! i) \<and> acceptable e cf re b (bsses st ! i) \<and>
    (\<exists>s. stas (bsses st' ! i) (addr2 b) = Some s \<and> 1 \<le> aid s \<and> aid s \<le> 2007 \<and> le16_at f 28 = of_nat (aid s) OR 0xC000)"
proof (rule handle_assoc_cases[OF run_sta_inv[OF assms(1-3)] assms(3,5)])
  assume "st' = st"
  then show ?thesis
    using assms(7,8) by simp
next
  assume d: "st' = on_bss i st (send_deauth (addr2 b) WLAN_REASON_CLASS2_FRAME_FROM_NONAUTH_STA)" "28 \<le> length b"
  then have "f = mgmt_header WLAN_FC_STYPE_DEAUTH (addr2 b) (own_addr (bsses st ! i)) (own_addr (bsses st ! i)) @
      le16 WLAN_REASON_CLASS2_FRAME_FROM_NONAUTH_STA"
    using assms(3,7) by (simp add: on_bss_def set_bss_def send_deauth_def emit_def)
  then show ?thesis
    using deauth_no_grant[OF addr2_ok assms(4)] d(2) assms(6) by simp
next
  fix s s1 c' h' s' resp
  assume s: "stas (bsses st ! i) (addr2 b) = Some s" "has_flag s WLAN_STA_AUTH" "sta_addr s1 = addr2 b"
    and r: "assoc_result e cf re b (counters st) (bsses st ! i) s1 = (resp, c', h', s')"
    and st': "st' = set_bss i (send_assoc_resp e cf c' s' resp re (put_sta s' h')) (st\<lparr>counters := c'\<rparr>)" and len: "28 \<le> length b"
  obtain ws fs where "h' = (bsses st ! i)\<lparr>sta_aid := ws, hevents := hevents (bsses st ! i) @ fs\<rparr>" "sta_addr s' = sta_addr s1"
    by (rule assoc_result_changes[OF r], erule that, assumption)
  then have h': "own_addr h' = own_addr (bsses st ! i)" "sta_addr s' = addr2 b"
    using s(3) by simp_all
  have b: "bsses st' ! i = send_assoc_resp e cf c' s' resp re (put_sta s' h')"
    using st' assms(3) by (simp add: set_bss_def)
  then have f: "f = assoc_resp_frame e cf c' (own_addr (bsses st ! i)) s' resp re" and "stas (bsses st' ! i) (addr2 b) = Some s'"
    using assms(7) h' by (simp_all add: send_assoc_resp_def emit_def put_sta_def)
  moreover have m: "mac_ok (sta_addr s')"
    using h'(2) addr2_ok[of b] len by simp
  moreover have "resp = WLAN_STATUS_SUCCESS"
    using assoc_resp_fields(6)[OF assms(4) m] assms(6) f by simp
  moreover have "good st st'"
    using handle_assoc_ok[OF run_ok(1)[OF assms(1,2)] assms(3), of e cf re b] assms(5) by simp
  then have "bss_ok (bsses st' ! i)"
    using assms(3) iface_ok_bss by (simp add: good_def)
  ultimately show ?thesis
    using assoc_result_success[of e cf re b "counters st" "bsses st ! i" s1 c' h' s'] r aid_range[of "bsses st' ! i" "addr2 b" s'] s
      assoc_resp_fields(2)[OF assms(4) m] resp_aid[OF assms(4) m] h'(2) by (auto simp: authenticated_def)
qed

theorem association_granted_only_if_witness:
  "\<exists>st st' f. iface_run wit_iface st \<and>
    handle_assoc wit_mgmt_env wit_conf False (assoc_request wit_own wit_mac 0x21 10 wit_ies) 0 st = Inr st' \<and>
    wit_mac \<in> authenticated (bsses st ! 0) \<and>
    acceptable wit_mgmt_env wit_conf False (assoc_request wit_own wit_mac 0x21 10 wit_ies) (bsses st ! 0) \<and>
    (\<exists>s. stas (bsses st' ! 0) wit_mac = Some s \<and> 1 \<le> aid s \<and> le16_at f 28 = of_nat (aid s) OR 0xC000)"
proof -
  let ?b = "assoc_request wit_own wit_mac 0x21 10 wit_ies"
  obtain st where 1: "iface_step (Receive wit_mgmt_ctx (auth_request wit_own wit_mac) None) wit_iface = Inr st" "iface_ok st"
    "wit_mac \<in> authenticated (bsses st ! 0)" "find_bss 0 wit_own (bsses st) = Some 0"
    "map bss_name (bsses st) = map bss_name (bsses wit_iface)"
    "card (sta_keys (bsses st ! 0)) \<le> nat (max_num_sta (bsses wit_iface ! 0))"
    using open_authentication[OF fresh_ok[OF wit_iface_fresh] wit_room(1) wit_addrs(4,1,2,3) wit_willing wit_room(2,3)] by blast
  have n: "card (sta_keys (bsses st ! 0)) \<le> 2007" "good_request (conf wit_mgmt_ctx 0) (bsses st ! 0) 10 wit_ies"
    using 1(6) wit_room(4) wit_good names_ssid[OF 1(5)] find_bss_less[OF 1(4)] by (simp_all add: good_request_def)
  obtain st' f es where 2: "handle_assoc (env wit_mgmt_ctx) (conf wit_mgmt_ctx 0) False ?b 0 st = Inr st'" "grants f"
    "hevents (bsses st' ! 0) = hevents (bsses st ! 0) @ es @ [SendMlme f]"
    using open_association[OF 1(2,4) wit_addrs(4,1,2) wit_willing 1(3) n, of "0x21"] by blast
  have r: "iface_run wit_iface st"
    using iface_next[OF iface_start _ 1(1)] wit_willing(2) auth_request_fields(1)[OF wit_addrs(1,2)] by (simp add: willing_def)
  have "0 < length (bsses st)" "own_addr (bsses st ! 0) = wit_own"
    using find_bss_less[OF 1(4)] find_bss_own[OF 1(4)] by simp_all
  then show ?thesis
    using association_granted_only_if[OF wit_iface_fresh r _ _ 2(1,2), where es = "hevents (bsses st ! 0) @ es"] 2 r 1(3) wit_addrs(1)
      assoc_request_fields(6)[OF wit_addrs(1,2), of "0x21" 10 wit_ies] by (auto simp: wit_mgmt_ctx_def)
qed

section \<open>Repeated requests\<close>

text \<open>
  C36: A retransmitted association request, with the sequence number of the one handled last, is
  dropped, as the check for duplicates intends. A retransmitted reassociation request is not: the
  conditional in the check binds weaker than the conjunction before it, so the request is handled
  and answered a second time.
\<close>

theorem repeated_reassociation_answered_again:
  assumes "sta_inv (bsses st ! i)" "i < length (bsses st)" "stas (bsses st ! i) (addr2 b) = Some s" "has_flag s WLAN_STA_AUTH"
    and "34 \<le> length b" "le16_at b 0 AND WLAN_FC_RETRY \<noteq> 0" "le16_at b 22 = last_seq_ctrl s" "last_seq_ctrl s \<noteq> WLAN_INVALID_MGMT_SEQ"
  shows "(last_subtype s = WLAN_FC_STYPE_ASSOC_REQ \<longrightarrow> handle_assoc e cf False b i st = Inr st) \<and>
    (last_subtype s = WLAN_FC_STYPE_REASSOC_REQ \<longrightarrow>
      (\<exists>st' es f. handle_assoc e cf True b i st = Inr st' \<and> hevents (bsses st' ! i) = hevents (bsses st ! i) @ es @ [SendMlme f]))"
proof (intro conjI impI)
  have k: "ap_get_sta (bsses st ! i) (addr2 b) = Some (addr2 b)"
    using station_of[OF assms(1,3)] ap_get_sta_eq[OF assms(1)] by simp
  show "handle_assoc e cf False b i st = Inr st" if "last_subtype s = WLAN_FC_STYPE_ASSOC_REQ"
    using that assms k by (simp add: handle_assoc_def Let_def with_sta_def assoc_repeated_def repeated_def stype_defs)
  let ?s = "s\<lparr>last_seq_ctrl := le16_at b 22, last_subtype := WLAN_FC_STYPE_REASSOC_REQ\<rparr>"
  obtain resp c' h' s' where r: "assoc_result e cf True b (counters st) (bsses st ! i) ?s = (resp, c', h', s')"
    using prod_cases4 by blast
  obtain ws es where h': "h' = (bsses st ! i)\<lparr>sta_aid := ws, hevents := hevents (bsses st ! i) @ es\<rparr>"
    by (rule assoc_result_changes[OF r], erule that)
  show "\<exists>st' es f. handle_assoc e cf True b i st = Inr st' \<and> hevents (bsses st' ! i) = hevents (bsses st ! i) @ es @ [SendMlme f]"
    if l: "last_subtype s = WLAN_FC_STYPE_REASSOC_REQ"
  proof -
    have "\<not> assoc_repeated b True s"
      using l by (simp add: assoc_repeated_def repeated_def stype_defs)
    then have "handle_assoc e cf True b i st =
        Inr (set_bss i (send_assoc_resp e cf c' s' resp True (put_sta s' h')) (st\<lparr>counters := c'\<rparr>))"
      using assms(3-5) k r by (simp add: handle_assoc_def Let_def with_sta_def)
    then show ?thesis
      using assms(2) by (auto simp: set_bss_def send_assoc_resp_def emit_def put_sta_def h')
  qed
qed

definition wit_repeat :: "u8 list" where
  "wit_repeat = [0x20, 0x08, 0, 0] @ wit_own @ wit_mac @ wit_own @ [0x30, 0] @ [0x21, 0, 10, 0] @ wit_own @ wit_ies"

definition wit_repeated :: hostapd_iface where
  "wit_repeated = wit_iface\<lparr>bsses := [put_sta (wit_sta\<lparr>last_seq_ctrl := 0x30, last_subtype := 2\<rparr>) wit_bss]\<rparr>"

theorem repeated_reassociation_answered_again_witness:
  "\<exists>st' es f. handle_assoc wit_mgmt_env wit_conf True wit_repeat 0 wit_repeated = Inr st' \<and>
    hevents (bsses st' ! 0) = hevents (bsses wit_repeated ! 0) @ es @ [SendMlme f]"
proof -
  let ?s = "wit_sta\<lparr>last_seq_ctrl := 0x30, last_subtype := 2\<rparr>"
  have f: "addr2 wit_repeat = wit_mac" "34 \<le> length wit_repeat" "le16_at wit_repeat 0 AND WLAN_FC_RETRY \<noteq> 0"
    "le16_at wit_repeat 22 = 0x30" "(0x30 :: u16) \<noteq> WLAN_INVALID_MGMT_SEQ"
    by code_simp+
  have s: "sta_addr ?s = wit_mac" "has_flag ?s WLAN_STA_AUTH"
    by (simp_all add: wit_sta_def new_sta_def has_flag_def WLAN_STA_AUTH_def)
  have "sta_inv (bsses wit_repeated ! 0)" "stas (bsses wit_repeated ! 0) wit_mac = Some ?s" "0 < length (bsses wit_repeated)"
    using sta_inv_put[OF wit_bss(1)] wit_bss(2) s(1) by (simp_all add: wit_repeated_def)
  then show ?thesis
    using repeated_reassociation_answered_again[of wit_repeated 0 wit_repeat ?s wit_mgmt_env wit_conf] f s(2)
    by (simp add: stype_defs)
qed

section \<open>Choosing an identifier\<close>

text \<open>
  C31: \<^verbatim>\<open>hostapd_get_aid\<close> leaves a station with an identifier alone and gives any other the least
  identifier that no station of the BSS holds; it fails exactly when all of 1 to 2007 are held.
\<close>

theorem get_aid_least_free:
  assumes "fresh st0" "iface_run st0 st" "i < length (bsses st)" "stas (bsses st ! i) m = Some s"
  shows "case hostapd_get_aid (bsses st ! i) s of
      None \<Rightarrow> aid s = 0 \<and> {1..2007} \<subseteq> ran (aid_of (bsses st ! i))
    | Some (h', s') \<Rightarrow> if 0 < aid s then h' = bsses st ! i \<and> s' = s
        else aid s' = (LEAST a. 0 < a \<and> a \<notin> ran (aid_of (bsses st ! i))) \<and> aid s' \<le> 2007 \<and>
             aid_set (sta_aid h') = insert (aid s') (ran (aid_of (bsses st ! i)) - {0})"
proof (cases "0 < aid s")
  case False
  let ?h = "bsses st ! i"
  have ok: "aid_words (sta_aid ?h)" "aid_set (sta_aid ?h) = ran (aid_of ?h) - {0}"
    using bss_ok_aids[OF run_bss_ok[OF assms(1-3)]] by (auto simp: aids.consistent_def)
  show ?thesis
  proof (cases "new_aid (sta_aid ?h)")
    case None
    then show ?thesis
      using False aids.get_None[OF ok(1) None] ok(2) by (auto simp: hostapd_get_aid_def)
  next
    case (Some r)
    then obtain a ws where a: "new_aid (sta_aid ?h) = Some (a, ws)"
      by (cases r) simp
    note g = aids.get_Some[OF ok(1) a]
    have "(LEAST a. 0 < a \<and> a \<notin> ran (aid_of ?h)) = a"
    proof (rule Least_equality)
      show "a \<le> y" if y: "0 < y \<and> y \<notin> ran (aid_of ?h)" for y
      proof (rule ccontr)
        assume "\<not> a \<le> y"
        then have "y \<in> {1..<a}"
          using y by simp
        then show False
          using g ok(2) y by blast
      qed
    qed (use g ok(2) in auto)
    then show ?thesis
      using False a g ok(2) by (simp add: hostapd_get_aid_def)
  qed
qed (simp add: hostapd_get_aid_def)

theorem get_aid_least_free_witness:
  "\<exists>st s. iface_run wit_iface st \<and> stas (bsses st ! 0) wit_mac = Some s \<and> hostapd_get_aid (bsses st ! 0) s = Some (bsses st ! 0, s)"
proof (rule wit_member)
  fix st s
  assume r: "iface_run wit_iface st" "0 < length (bsses st)" "stas (bsses st ! 0) wit_mac = Some s" "0 < aid s"
  then show ?thesis
    using get_aid_least_free[OF wit_iface_fresh r(1-3)] by (auto split: option.splits)
qed

end
