(* ===== verification/Roaming.thy ===== *)
theory Roaming
  imports MgmtClaims FniiParse
begin

unbundle bit_operations_syntax

text \<open>
  The pieces of a roaming station's visit: the command of the controller that assigns it to a BSS, its
  probe request, the handshake, and the command that withdraws it.
\<close>

section \<open>A probe request\<close>

text \<open>A request for any SSID, with one rate, to the broadcast address.\<close>

definition probe_request :: "mac \<Rightarrow> u8 list" where
  "probe_request m = mgmt_header WLAN_FC_STYPE_PROBE_REQ bcast m bcast @ [0, 0, 1, 1, 0x82]"

lemma probe_elems:
  "fst (ieee802_11_parse_elems [0, 0, 1, 1, 0x82]) \<noteq> ParseFailed"
  "snd (ieee802_11_parse_elems [0, 0, 1, 1, 0x82]) F_ssid = Some []"
  "snd (ieee802_11_parse_elems [0, 0, 1, 1, 0x82]) F_supp_rates \<noteq> None"
  "snd (ieee802_11_parse_elems [0, 0, 1, 1, 0x82]) F_ds_params = None"
  "snd (ieee802_11_parse_elems [0, 0, 1, 1, 0x82]) F_ssid_list = None"
  by code_simp+

lemma bcast_ok: "mac_ok bcast"
  by (simp add: mac_ok_def bcast_def)

lemma probe_request_fields:
  assumes "mac_ok m"
  shows "probe_of (probe_request m) = \<lparr>pr_da = bcast, pr_sa = m, pr_bssid = bcast, pr_len = 29,
      pr_elems = Some \<lparr>pe_ssid = Some [], pe_rates = True, pe_ds_params = None, pe_ssid_list = None\<rparr>\<rparr>"
    "length (probe_request m) = 29" "WLAN_FC_GET_STYPE (le16_at (probe_request m) 0) = WLAN_FC_STYPE_PROBE_REQ"
    "addr3 (probe_request m) = bcast" "get_hdr_bssid (probe_request m) = Inr (Some bcast)"
proof -
  have k: "WLAN_FC_STYPE_PROBE_REQ < 16"
    by (simp add: stype_defs)
  note f = mgmt_header_fields[OF bcast_ok assms bcast_ok k]
  show l: "length (probe_request m) = 29" and "WLAN_FC_GET_STYPE (le16_at (probe_request m) 0) = WLAN_FC_STYPE_PROBE_REQ"
    "addr3 (probe_request m) = bcast"
    using f by (simp_all add: probe_request_def)
  show "get_hdr_bssid (probe_request m) = Inr (Some bcast)"
    unfolding probe_request_def by (rule hdr_bssid_mgmt[OF bcast_ok assms bcast_ok k])
  have "drop 24 (probe_request m) = [0, 0, 1, 1, 0x82]"
    using f(1) by (simp add: probe_request_def)
  then show "probe_of (probe_request m) = \<lparr>pr_da = bcast, pr_sa = m, pr_bssid = bcast, pr_len = 29,
      pr_elems = Some \<lparr>pe_ssid = Some [], pe_rates = True, pe_ds_params = None, pe_ssid_list = None\<rparr>\<rparr>"
    using probe_elems l f(5-7) unfolding probe_of_def Let_def case_prod_beta by (simp add: probe_request_def text_of_def)
qed

text \<open>A frame to the broadcast address that the driver received for one BSS is handled by that BSS alone.\<close>

lemma mgmt_rx_skip: "k \<notin> set is \<Longrightarrow> mgmt_rx_all x b (Some k) (is @ js) r st = mgmt_rx_all x b (Some k) js r st"
  by (induction "is") auto

lemma mgmt_rx_only:
  assumes "k < n"
  shows "mgmt_rx_all x b (Some k) [0..<n] r st =
    bind_res (ieee802_11_mgmt x b k st) (\<lambda>(r', st'). Inr (if r' > 0 then 1 else r, st'))"
proof -
  have s: "mgmt_rx_all x b (Some k) [Suc k..<n] q st' = Inr (q, st')" for q st'
    using mgmt_rx_skip[of k "[Suc k..<n]" x b "[]"] by simp
  have "[0..<n] = [0..<k] @ k # [Suc k..<n]"
    using upt_add_eq_append[of 0 k "n - k"] assms by (simp add: upt_conv_Cons)
  then show ?thesis
    using mgmt_rx_skip[of k "[0..<k]" x b "k # [Suc k..<n]" r st]
    by (cases "ieee802_11_mgmt x b k st") (simp_all add: s case_prod_beta)
qed

definition only_events :: "hostapd_data \<Rightarrow> hostapd_data \<Rightarrow> bool" where
  "only_events h h' \<longleftrightarrow> h' = h\<lparr>hevents := hevents h'\<rparr>"

lemma only_events_emit [simp]:
  "only_events h h" "only_events h g \<Longrightarrow> only_events h (emit e g)" "only_events h g \<Longrightarrow> only_events h (emit_if b e g)"
  by (simp_all add: only_events_def emit_if_def emit_def) (metis hostapd_data.surjective hostapd_data.update_convs(12))+

lemma handle_probe_req_events: "handle_probe_req pe sk t h r = Inr h' \<Longrightarrow> only_events h h'"
  by (auto simp: handle_probe_req_def Let_def bind_res_def split: if_splits option.splits sum.splits)

text \<open>Nobody vetoes the answer to a probe request.\<close>

definition answers :: "probe_env \<Rightarrow> bool" where
  "answers pe \<longleftrightarrow> list_all (\<lambda>v. v \<le> 0) (cb_results pe) \<and> send_probe_response pe \<and> \<not> ubus_reject pe \<and> resp_ok pe"

lemma assigned_probe:
  assumes "k < length (bsses st)" "mac_ok m" "dense_valid (assigned x)" "(m, own_addr (bsses st ! k)) \<in> dense_set (assigned x)"
    and "controller x" "answers (probe_ctx x)" "conf_ssid (bsses st ! k) \<noteq> []"
  obtains es where "iface_step (Receive x (probe_request m) (Some k)) st =
      Inr (set_bss k ((bsses st ! k)\<lparr>hevents := hevents (bsses st ! k) @ es @ [SendProbeResp m True]\<rparr>) st)"
proof -
  let ?h = "bsses st ! k"
  note f = probe_request_fields[OF assms(2)]
  obtain h' es where h': "handle_probe_req (probe_ctx x) True (assigned x) ?h (probe_of (probe_request m)) = Inr h'"
    "hevents h' = hevents ?h @ es @ [SendProbeResp m True]"
    using probe_served[OF assms(3), of "probe_of (probe_request m)" ?h "the (pr_elems (probe_of (probe_request m)))" "probe_ctx x"]
      assms(4,6,7) by (auto simp: f(1) answers_def ds_mismatch_def list_all_iff)
  have "h' = ?h\<lparr>hevents := hevents ?h @ es @ [SendProbeResp m True]\<rparr>"
    using handle_probe_req_events[OF h'(1)] h'(2) by (simp add: only_events_def)
  moreover have "hostapd_mgmt_rx x (probe_request m) (Some k) st = Inr (1, set_bss k h' st)"
    using h'(1) assms(1,5) f by (simp add: hostapd_mgmt_rx_def get_hapd_bssid_def mgmt_rx_only ieee802_11_mgmt_def Let_def stype_defs)
  ultimately show thesis
    using that by simp
qed

section \<open>The visit\<close>

text \<open>A BSS that the station can join, with the elements of its request.\<close>

definition joinable :: "mgmt_ctx \<Rightarrow> nat \<Rightarrow> mac \<Rightarrow> u16 \<Rightarrow> u8 list \<Rightarrow> hostapd_data \<Rightarrow> bool" where
  "joinable x k m interval ies h \<longleftrightarrow> own_addr h \<noteq> bcast \<and> mac_ok (own_addr h) \<and> mac_ok m \<and> m \<noteq> own_addr h \<and>
     open_bss (conf x k) \<and> willing (env x) \<and> answers (probe_ctx x) \<and> m \<notin> sta_keys h \<and>
     num_sta h < max_num_sta h \<and> max_num_sta h \<le> 2007 \<and> conf_ssid h \<noteq> [] \<and> good_request (conf x k) h interval ies"

lemma match_bss_map: "map bss_name bs = map bss_name bs' \<Longrightarrow> match_bss j s bs = match_bss j s bs'"
proof (induction j s bs arbitrary: bs' rule: match_bss.induct)
  case (2 j s b bs)
  then show ?case
    by (cases bs') (auto simp: bss_name_def ssid_array_def)
qed simp

lemma names_same: "map bss_name bs' = map bss_name bs \<Longrightarrow> i < length bs' \<Longrightarrow> own_addr (bs' ! i) = own_addr (bs ! i)"
  by (metis bss_name_def length_map nth_map prod.inject)

text \<open>The probe request of an assigned station is answered and leaves the BSS as it was.\<close>

lemma probe_visit:
  assumes "iface_run fc0 st" "find_bss 0 own (bsses st) = Some k" "joinable x k m interval ies (bsses st ! k)"
    and "dense_valid t" "(m, own) \<in> dense_set t"
  obtains f1 where "iface_step (Receive (x\<lparr>controller := True, assigned := t\<rparr>) (probe_request m) (Some k)) st = Inr f1"
    "SendProbeResp m True \<in> set (hevents (bsses f1 ! k))" "map bss_name (bsses f1) = map bss_name (bsses st)"
    "joinable x k m interval ies (bsses f1 ! k)" "iface_run fc0 f1"
proof -
  let ?h = "bsses st ! k" and ?y = "x\<lparr>controller := True, assigned := t\<rparr>"
  have k: "k < length (bsses st)" "own_addr ?h = own"
    using find_bss_less[OF assms(2)] find_bss_own[OF assms(2)] by simp_all
  note q = assms(3)[unfolded joinable_def]
  obtain es where s: "iface_step (Receive ?y (probe_request m) (Some k)) st =
      Inr (set_bss k (?h\<lparr>hevents := hevents ?h @ es @ [SendProbeResp m True]\<rparr>) st)"
    using assigned_probe[of k st m ?y] assms(4,5) k q by auto
  define h1 where "h1 = ?h\<lparr>hevents := hevents ?h @ es @ [SendProbeResp m True]\<rparr>"
  have b: "bsses (set_bss k h1 st) ! k = h1" "map bss_name (bsses (set_bss k h1 st)) = map bss_name (bsses st)"
    using names_update[OF k(1), of h1] k(1) by (simp_all add: set_bss_def h1_def bss_name_def)
  have "can_happen (Receive ?y (probe_request m) (Some k)) st"
    using q probe_request_fields(2)[of m] by (simp add: willing_def)
  then have "iface_run fc0 (set_bss k h1 st)"
    using iface_next[OF assms(1)] s unfolding h1_def by blast
  moreover have "joinable x k m interval ies h1" "SendProbeResp m True \<in> set (hevents h1)"
    using q by (simp_all add: joinable_def h1_def sta_keys_def good_request_def)
  ultimately show thesis
    using that[of "set_bss k h1 st"] s b by (simp add: h1_def)
qed

text \<open>A withdrawal by the controller is an event of the interface.\<close>

lemma withdraw_run:
  assumes "iface_run st0 st" "find_bss 0 own (bsses st) = Some k"
    and "ieee802_11_del_station_of_vap (counters st) (bsses st ! k) m = Inr b"
  shows "iface_run st0 (set_bss k b st)"
  using iface_next[OF assms(1), of "Withdraw (m, own)"] assms(2,3) by (simp add: ieee802_11_del_station_def)

section \<open>Witness\<close>

definition wit_visit :: apstate where
  "wit_visit = \<lparr>fn = wit_fnii, fc = wit_iface\<rparr>"

lemma wit_visit: "fc wit_visit = wit_iface" "dense_valid (dense (fn wit_visit))"
  "match_bss 0 ''lab'' (bsses (fc wit_visit)) = Some 0" "\<not> bssid_unset wit_own" "own_addr (bsses wit_iface ! 0) = wit_own"
  using wit_st(1) by (simp_all add: wit_visit_def wit_st_def wit_iface_def wit_bss0_def ssid_array_def bssid_unset_def wit_own_def)

lemma wit_joinable: "joinable wit_mgmt_ctx 0 wit_mac 10 wit_ies (bsses (fc wit_visit) ! 0)"
proof -
  have "answers (probe_ctx wit_mgmt_ctx)" "conf_ssid (bsses wit_iface ! 0) \<noteq> []"
    by (simp_all add: wit_mgmt_ctx_def answers_def wit_env_def wit_iface_def wit_bss0_def)
  then show ?thesis
    using wit_addrs wit_willing wit_room wit_good by (simp add: joinable_def wit_visit)
qed

end
