(* ===== verification/Spec2Isabelle.thy ===== *)
theory Spec2Isabelle
  imports MurmurVectors CollectorThreads SurveyProps FniiRecv FniiLink ApMlme StamLoop ElemsProps
    SaQueryProps Roaming
begin

text \<open>
  \<^bold>\<open>Verification of LazyAS.\<close> LazyAS is a system in which a central controller decides with which
  access point the stations of a wireless network associate. On every access point it runs

  \<^item> a patched \<^verbatim>\<open>hostapd\<close> (\<^verbatim>\<open>controller & handler/hostapd-2015-03-25\<close>): the module
    \<^verbatim>\<open>src/fnii/fnii_roam.c\<close> keeps a connection to the controller, reports stations, probe requests,
    traffic and interfaces, and obeys commands that add or remove a station of a virtual access
    point; hooks in \<^verbatim>\<open>src/ap\<close> call it, and \<^verbatim>\<open>hostapd/main.c\<close> tells a local station manager of
    stations that come and go;

  \<^item> a collector client (\<^verbatim>\<open>data collector/InfoCollectClient_V1.1/src\<close>): it measures TCP handshakes
    with libpcap, asks \<^verbatim>\<open>iw\<close> for the state of the station and sends records to a server.

  \<^bold>\<open>Ground.\<close> \<open>Prelude\<close> has the integer types of the 32-bit little-endian target, the errors a C
  operation can end with (\<open>c_error\<close>) and the result type \<open>res\<close>; \<open>CString\<close>, \<open>Scanf\<close> and \<open>CDouble\<close>
  model what the sources use of the C library. Every dereference of NULL, use of freed memory,
  access outside an array, failed assertion, division by zero and exit of the process is a value
  \<open>Inl\<close> of the model, so a theorem that a function gives \<open>Inr\<close> includes its memory safety.

  \<^bold>\<open>Collector client.\<close>

  \<^item> \<open>DSQueue\<close>: \<^verbatim>\<open>buffer.c\<close>. The circular buffer, the locale \<open>bounded_fifo\<close> with its interpretation
    \<open>dsq\<close>, and the steps of any number of producers and consumers with the mutex and the condition
    variable. Contents are first in, first out in every interleaving; no wake-up is lost.

  \<^item> \<open>Murmur\<close>, \<open>MurmurVectors\<close>: \<^verbatim>\<open>murmur.c\<close>. The three hash functions on machine words; no
    collisions of keys that differ in one block or in the tail; published test vectors.

  \<^item> \<open>HashTable\<close>: \<^verbatim>\<open>hashtable.c\<close> on an explicit heap, where a freed entry is no longer there.
    \<open>HashRep\<close> relates a heap to the lists of its chains, \<open>HashLaws\<close> has the replacement of values
    and the resizing, \<open>HashMap\<close> the locale \<open>byte_map\<close> (a finite map of byte strings) with its
    interpretation \<open>ht\<close>, and \<open>HashProps\<close> the properties: while no entry is over age the table
    refines a map; over-aged entries make it use freed memory or dereference NULL.

  \<^item> \<open>ApSurvey\<close>: \<^verbatim>\<open>ap_survey.c\<close>, of which hostapd has a copy with \<^verbatim>\<open>get_ap_au\<close>. \<open>SurveyProps\<close>:
    the percentage of busy time of the radio reaches the controller in the probe reports.

  \<^item> \<open>Collector\<close>: \<^verbatim>\<open>infoCollect.c\<close> and \<^verbatim>\<open>network.c\<close>. The state is the record \<open>collector\<close>: the two
    hash tables with their heaps, the task that waits, the send queue, what was delivered.
    \<open>captureOne\<close> works on the bytes of a packet, \<open>getInfo\<close> is composed of its stages, and the
    threads are given by their critical sections. \<open>CollectorProps\<close> (keys of sessions, delay of a
    handshake, throughput, overrun of a command, ageing by a byte counter) rests on the laws of
    \<open>byte_map\<close>; \<open>CollectorThreads\<close> composes capture, measuring and sending into a transition system
    and accounts for every record by rule induction, on the laws of \<open>bounded_fifo\<close>.

  \<^bold>\<open>Roaming module.\<close>

  \<^item> \<open>FniiTypes\<close>: the data of \<^verbatim>\<open>fnii_roam.h\<close> and the globals of \<^verbatim>\<open>fnii_roam.c\<close> as the record \<open>fnii\<close>,
    with the log \<open>net\<close> of what goes to the controller.

  \<^item> \<open>ChainedHash\<close>, \<open>DenseStation\<close>: chained hash tables as a locale, and the table of the stations that
    the controller has assigned.

  \<^item> \<open>FniiMsg\<close>, \<open>FniiFrame\<close>: the senders with the sizes of their arrays, and the frames of the protocol
    as their specification; the rate limit on probe reports.

  \<^item> \<open>FniiParse\<close>, \<open>FniiRecv\<close>: the handlers of the commands, the parser, and the thread that receives
    and reassembles them. Commands assign and withdraw stations and are answered under their own
    identifier, whole messages are handled however they are cut up; the errors of the
    reassembly (lost bytes, negative lengths, a loop without end) are proved as well.

  \<^item> \<open>FniiRoam\<close>, \<open>FniiLink\<close>: configuration, connection, announcement, traffic reports and heartbeat; a
    dead peer is noticed, and a new connection starts from an empty table.

  \<^bold>\<open>Hooks in hostapd.\<close>

  \<^item> \<open>StaTable\<close>, \<open>StaLife\<close>: \<^verbatim>\<open>src/ap/sta_info.c\<close>. Station table, list, timers and association
    identifiers, the invariant that ties them together, what freeing and adding a station and the
    inactivity timer do.

  \<^item> \<open>Beacon\<close>: \<^verbatim>\<open>src/ap/beacon.c\<close>, which probe requests are answered, and the removal of the stations
    of a virtual access point. \<open>ApMlme\<close>: \<^verbatim>\<open>src/ap/ap_mlme.c\<close> and the probe part of
    \<^verbatim>\<open>src/ap/drv_callbacks.c\<close>. \<open>StaNotify\<close>: the notification of the station manager in
    \<^verbatim>\<open>hostapd/main.c\<close>.

  \<^item> \<open>Elems\<close>, \<open>ElemsProps\<close>: the parser of information elements in \<^verbatim>\<open>src/common/ieee802_11_common.c\<close>
    and the rate elements; what is written is read back, and which byte strings are accepted.

  \<^bold>\<open>Event loop of hostapd.\<close>

  \<^item> \<open>Eloop\<close>: \<^verbatim>\<open>src/utils/eloop.c\<close> with \<^verbatim>\<open>select\<close>: sockets, timeouts, signals, and \<open>eloop_run\<close> as a
    recursion over the list of what each round finds. \<open>EloopTimers\<close> has the locale \<open>timer_store\<close> with its
    interpretation on the sorted list of timeouts, \<open>EloopRun\<close> the order in which due timeouts fire,
    under the locale \<open>loop_handlers\<close>.

  \<^item> \<open>StaTimers\<close>: the timers of the stations are pending at most once, belong to stations of the
    table, and never reach freed memory (\<open>timer_inv\<close>); the locale \<open>timer_refinement\<close> shows that their
    abstract list agrees with the list of the event loop. \<open>StamLoop\<close>: the connection to the station
    manager as handlers of the loop: it is watched or about to be renewed until a message arrives.

  \<^bold>\<open>Authentication and association.\<close>

  \<^item> \<open>Mgmt\<close>: \<^verbatim>\<open>src/ap/ieee802_11.c\<close> on the bytes of frames, every handler from the received frame to the
    frames sent, with the reports of sent frames, and how \<^verbatim>\<open>src/ap/drv_callbacks.c\<close> finds the BSS.

  \<^item> \<open>MgmtAid\<close>: the locale \<open>id_pool\<close> and its interpretation \<open>aids\<close> on the bit map of association
    identifiers. \<open>MgmtSteps\<close>, \<open>MgmtInv\<close>, \<open>MgmtRun\<close>: what each step of a BSS keeps, the invariant
    \<open>iface_ok\<close> of an interface, and that every handler keeps it. \<open>MgmtSafe\<close>: the events of an
    interface (frames, reports, timeouts, withdrawals, data frames) as a step function, its runs as
    the inductive relation \<open>iface_run\<close>, and the invariant over all runs from a fresh interface.

  \<^item> \<open>MgmtFrames\<close>, \<open>MgmtProps\<close>, \<open>MgmtClaims\<close>: reading back the frames that are built, the open
    handshake step by step, and the properties: the handshake succeeds from every reachable state,
    identifiers are unique, counters exact, nothing but a probe request can make the handlers access
    memory badly, an association is granted only to acceptable requests of authenticated stations; a
    repeated reassociation request is wrongly handled twice.

  \<^item> \<open>SaQuery\<close>, \<open>SaQueryProps\<close>: the SA Query procedure of protected stations in \<^verbatim>\<open>src/ap/sta_info.c\<close>,
    \<^verbatim>\<open>src/ap/ieee802_11_shared.c\<close> and the gate in \<^verbatim>\<open>check_assoc_ies\<close>. A station that answers keeps its
    association, a silent one can be replaced after the timeout; the verdict is what \<open>Mgmt\<close> takes as
    the argument \<open>wpa_check\<close>.

  \<^item> \<open>Roaming\<close> and the end of this theory put the parts together: a command of the controller, a probe
    request, the handshake, and the withdrawal.

  \<^bold>\<open>Parameters.\<close> What is not in the sources is an argument: the output of shell commands, the clock,
  whether memory, sockets and the driver are there, the content of uninitialised memory, the packets
  and the bytes received. Hypotheses about them are named predicates (\<open>awk_second_word\<close>,
  \<open>live_value\<close>, \<open>au_fits\<close>, \<open>willing\<close>, \<open>can_happen\<close>) and every theorem that has one has a witness.

  \<^bold>\<open>Fuel and bounds.\<close> The loops over the chains of the hash table of the collector take fuel: with at
  most \<open>N\<close> entries \<open>N + 3\<close> is enough for every operation, the resizing included, and the theorems
  about it say that it returns. The loop over received messages takes one unit per message; the
  theorem on reassembly gives the amount, and \<open>receive_negative_length_hangs\<close> shows that no fuel is
  enough for a certain input. \<open>eloop_run\<close> takes the clock, ready sockets and
  signals of each round as a list, since the code's loop runs for as long as sockets or timeouts
  are registered; the theorems say how many rounds are enough. All other recursions are structural or have a measure. Capacities
  below \<open>2 ^ 30\<close> keep the index arithmetic of the queue from wrapping; the code uses 65535.

  \<^bold>\<open>Not modelled.\<close> The controller (Java) and the server of the collector (C++), whose protocols are
  modelled from the client's side; the evaluation scripts; the parts of hostapd and
  wpa_supplicant that the project took over unchanged and that the modelled parts only call:
  cryptography, the WPA and 802.1X state machines, RADIUS, drivers, configuration files, VLANs, and
  what \<^verbatim>\<open>defconfig\<close> leaves out (802.11n/ac/r, SAE, WPS, P2P, HS 2.0, mesh). Of the WPA checks on an
  association request only the verdict appears, as an argument. The bytes of beacons and probe
  responses are not modelled, nor is the creation of virtual access points by the driver. Doubles
  are exact rational numbers with infinities; rounding is not modelled.
\<close>

section \<open>A station visits an access point\<close>

text \<open>
  C1: The controller lets a station roam to an access point and away again. From every state that the
  interface can reach, the command that assigns the station makes its broadcast probe request be
  answered; the station authenticates and associates and becomes a member of the BSS; and the
  command that withdraws it is answered with OK, takes it out of the table and ends its
  association. All of this leaves the interface in a state that its events can reach.
\<close>

theorem controller_roams_station:
  assumes "fresh fc0" "iface_run fc0 (fc st)" "dense_valid (dense (fn st))" "match_bss 0 ssid (bsses (fc st)) = Some k"
    and "find_bss 0 own (bsses (fc st)) = Some k" "\<not> bssid_unset own" "joinable x k m interval ies (bsses (fc st) ! k)"
    and "length other = 6" "length ssid \<le> 31" "0 \<le> i" "i \<le> 9999" "0 \<le> j" "j \<le> 9999"
  shows "\<exists>r st1 f1 f2 f3 f4 resp a st2.
    fnii_parse_msg True junk (frame i 102 (cmd_payload m other c ssid)) 0 (int (length ssid) + 44) st = Inr (r, st1) \<and>
    (m, own) \<in> dense_set (dense (fn st1)) \<and>
    iface_step (Receive (x\<lparr>controller := True, assigned := dense (fn st1)\<rparr>) (probe_request m) (Some k)) (fc st1) = Inr f1 \<and>
    SendProbeResp m True \<in> set (hevents (bsses f1 ! k)) \<and>
    iface_step (Receive x (auth_request own m) None) f1 = Inr f2 \<and>
    iface_step (Receive x (assoc_request own m capab interval ies) None) f2 = Inr f3 \<and>
    SendMlme resp \<in> set (hevents (bsses f3 ! k)) \<and> grants resp \<and> addr1 resp = m \<and>
    iface_step (Sent x resp True) f3 = Inr f4 \<and> is_member m a (bsses f4 ! k) \<and>
    fnii_parse_msg True junk (frame j 103 (cmd_payload m other c ssid)) 0 (int (length ssid) + 44) (st1\<lparr>fc := f4\<rparr>) =
      Inr (FNII_RET_OK, st2) \<and>
    (m, own) \<notin> dense_set (dense (fn st2)) \<and> m \<notin> associated (bsses (fc st2) ! k) \<and> iface_run fc0 (fc st2)"
proof -
  let ?h = "bsses (fc st) ! k"
  have k: "k < length (bsses (fc st))" "own_addr ?h = own"
    using find_bss_less[OF assms(5)] find_bss_own[OF assms(5)] by simp_all
  note q = assms(7)[unfolded joinable_def k(2)]
  obtain r st1 where 1: "fnii_parse_msg True junk (frame i 102 (cmd_payload m other c ssid)) 0 (int (length ssid) + 44) st = Inr (r, st1)"
    "fc st1 = fc st" "dense_valid (dense (fn st1))" "(m, own) \<in> dense_set (dense (fn st1))"
    using assign_ok[OF assms(3,4) k(2)[symmetric] assms(6) _ assms(8-11), of m junk "[]" c "[]"] q by (auto simp: mac_ok_def)
  obtain f1 where 2: "iface_step (Receive (x\<lparr>controller := True, assigned := dense (fn st1)\<rparr>) (probe_request m) (Some k)) (fc st1) = Inr f1"
    "SendProbeResp m True \<in> set (hevents (bsses f1 ! k))" "map bss_name (bsses f1) = map bss_name (bsses (fc st))"
    "joinable x k m interval ies (bsses f1 ! k)" "iface_run fc0 f1"
    using probe_visit[OF assms(2,5,7) 1(3,4)] 1(2) by metis
  have f1: "find_bss 0 own (bsses f1) = Some k"
    using find_bss_map[OF 2(3)] assms(5) by simp
  note q1 = 2(4)[unfolded joinable_def find_bss_own[OF f1, simplified]]
  obtain f2 f3 f4 resp a where 3: "iface_step (Receive x (auth_request own m) None) f1 = Inr f2"
    "iface_step (Receive x (assoc_request own m capab interval ies) None) f2 = Inr f3"
    "SendMlme resp \<in> set (hevents (bsses f3 ! k))" "grants resp" "addr1 resp = m" "iface_step (Sent x resp True) f3 = Inr f4"
    "is_member m a (bsses f4 ! k)" "iface_run fc0 f4" "k < length (bsses f4)" "map bss_name (bsses f4) = map bss_name (bsses f1)"
    using open_handshake[OF 2(5) run_ok(1)[OF assms(1) 2(5)] f1, of m x interval ies capab] q1 by metis
  have names: "map bss_name (bsses f4) = map bss_name (bsses (fc st))"
    using 3(10) 2(3) by simp
  have f4: "match_bss 0 ssid (bsses f4) = Some k" "find_bss 0 own (bsses f4) = Some k" "own = own_addr (bsses f4 ! k)"
    using match_bss_map[OF names] find_bss_map[OF names] names_same[OF names 3(9)] assms(4,5) k(2) by simp_all
  obtain st2 b where 4: "fnii_parse_msg True junk (frame j 103 (cmd_payload m other c ssid)) 0 (int (length ssid) + 44) (st1\<lparr>fc := f4\<rparr>) =
      Inr (FNII_RET_OK, st2)" "(m, own) \<notin> dense_set (dense (fn st2))"
    "\<forall>s. stas (bsses (fc st2) ! k) m = Some s \<longrightarrow> \<not> has_flag s WLAN_STA_ASSOC"
    "ieee802_11_del_station_of_vap (counters f4) (bsses f4 ! k) m = Inr b" "fc st2 = set_bss k b f4"
    using withdraw_ok[of "st1\<lparr>fc := f4\<rparr>" ssid k own m other j junk "[]" c "[]"] 1(3,4) f4 3(9) assms(6,8,9,12,13) q
      run_sta_inv[OF assms(1) 3(8,9)] by (auto simp: mac_ok_def)
  have "iface_run fc0 (fc st2)"
    unfolding 4(5) by (rule withdraw_run[OF 3(8) f4(2) 4(4)])
  moreover have "m \<notin> associated (bsses (fc st2) ! k)"
    using 4(3) by (auto simp: associated_def)
  ultimately show ?thesis
    using 1(1,4) 2(1,2) 3(1-7) 4(1,2) by blast
qed

theorem controller_roams_station_witness:
  "\<exists>r st1 f4 a st2.
    fnii_parse_msg True [] (frame 17 102 (cmd_payload wit_mac wit_mac (CHR ''1'') ''lab'')) 0 47 wit_visit = Inr (r, st1) \<and>
    (wit_mac, wit_own) \<in> dense_set (dense (fn st1)) \<and> is_member wit_mac a (bsses f4 ! 0) \<and>
    fnii_parse_msg True [] (frame 18 103 (cmd_payload wit_mac wit_mac (CHR ''1'') ''lab'')) 0 47 (st1\<lparr>fc := f4\<rparr>) =
      Inr (FNII_RET_OK, st2) \<and>
    wit_mac \<notin> associated (bsses (fc st2) ! 0) \<and> iface_run wit_iface (fc st2)"
proof -
  have r: "iface_run wit_iface (fc wit_visit)" "find_bss 0 wit_own (bsses (fc wit_visit)) = Some 0"
    using iface_start wit_room(1) by (simp_all add: wit_visit(1))
  show ?thesis
    using controller_roams_station[OF wit_iface_fresh r(1) wit_visit(2,3) r(2) wit_visit(4) wit_joinable, of wit_mac 17 18 "[]" "CHR ''1''"]
    by (fastforce simp: wit_mac_def)
qed

end
